(* ===== verification/Prelude.thy ===== *)
theory Prelude
  imports Main
    "HOL-Library.AList"
    "HOL-Library.Char_ord"
    "HOL-Library.List_Lexorder"
    "HOL-Library.Product_Lexorder"
    "HOL-Library.Multiset"
    "HOL-Library.Word"
begin

text \<open>
  What every component of the model shares: Python's exceptions and instants, the results of
  operations that may raise, dictionaries in insertion order, decimal text, the lemma collections
  of the development and the interface of a priority queue.

  Python's \<open>str\<close> is \<^typ>\<open>string\<close>, a list of 8-bit characters read as the code points below 256;
  Python's \<open>bytes\<close> is \<^typ>\<open>string\<close> as well, read as bytes. Lists of characters are ordered
  lexicographically (List_Lexorder, Char_ord), which is Python's order on these texts, and pairs
  lexicographically (Product_Lexorder), which is Python's order on tuples.
\<close>

section \<open>Exceptions and operations that may raise\<close>

text \<open>
  The exception classes the modelled code raises. The class is the value; the message text is not
  part of the model, because no modelled code reads one.
\<close>

datatype exn =
    ValueError
  | TypeError
  | KeyError
  | AssertionError
  | RuntimeError
  | ApprovalUnknown
  | ApprovalAlreadyExists
  | ApprovalAlreadyResolved
  | ApprovalAlreadyClaimed
  | ApprovalRequestMismatch
  | InvalidEvidence
  | OverflowError
  | InvalidBundle
  | OSError
  | ScopeRequired
  | DecisionAlreadyExists
  | DecisionStoreUnavailable
  | DecisionAppendIndeterminate
  | RecoveryJournalUnavailable

type_synonym 'a result = "exn + 'a"

text \<open>
  An operation on a state of type \<open>'s\<close> returns the state it leaves behind whether it answers or
  raises, because a Python method that raises keeps what it wrote before it did.
\<close>

type_synonym ('s, 'a) op = "'s \<Rightarrow> 's \<times> 'a result"

abbreviation guard :: "bool \<Rightarrow> exn \<Rightarrow> 'a result \<Rightarrow> 'a result" where
  "guard bad e rest \<equiv> (if bad then Inl e else rest)"

definition bind_r :: "'a result \<Rightarrow> ('a \<Rightarrow> 'b result) \<Rightarrow> 'b result" where
  "bind_r r f = (case r of Inl e \<Rightarrow> Inl e | Inr x \<Rightarrow> f x)"

lemma bind_r_simps [simp]: "bind_r (Inl e) f = Inl e" "bind_r (Inr x) f = f x"
  by (simp_all add: bind_r_def)

lemma bind_r_Inr [simp]: "bind_r r f = Inr y \<longleftrightarrow> (\<exists>x. r = Inr x \<and> f x = Inr y)"
  by (cases r) auto

lemma guard_Inr [simp]: "guard bad e rest = Inr y \<longleftrightarrow> \<not> bad \<and> rest = Inr y"
  by simp

text \<open>A comprehension over calls that may raise.\<close>

fun collect :: "('a \<Rightarrow> 'b result) \<Rightarrow> 'a list \<Rightarrow> 'b list result" where
  "collect f [] = Inr []"
| "collect f (x # xs) = bind_r (f x) (\<lambda>y. bind_r (collect f xs) (\<lambda>ys. Inr (y # ys)))"

lemma collect_cong [fundef_cong]:
  "xs = ys \<Longrightarrow> (\<And>x. x \<in> set ys \<Longrightarrow> f x = g x) \<Longrightarrow> collect f xs = collect g ys"
  by (induction ys arbitrary: xs) auto

named_theorems step_defs \<open>definitions of the operations a state machine is made of\<close>
named_theorems inv_intros \<open>preservation of a component's invariant, one rule per operation\<close>

section \<open>Instants\<close>

text \<open>
  A Python \<open>datetime\<close>: an offset-aware one is its instant, counted in microseconds from the epoch in
  UTC, because comparison, subtraction and every rendering of this code read no more of it; a naive
  one has no instant, only the reading of its wall clock.
\<close>

datatype datetime = Naive (micros: int) | Aware (micros: int)

definition is_aware :: "datetime \<Rightarrow> bool" where
  "is_aware d = (case d of Naive _ \<Rightarrow> False | Aware _ \<Rightarrow> True)"

lemma is_aware_simps [simp]: "is_aware (Aware t)" "\<not> is_aware (Naive t)"
  by (simp_all add: is_aware_def)

lemma aware_eq [simp]: "is_aware d \<Longrightarrow> Aware (micros d) = d"
  by (cases d) simp_all

text \<open>\<open>timedelta(seconds=n)\<close> in microseconds.\<close>

definition seconds :: "int \<Rightarrow> int" where
  "seconds n = n * 1000000"

lemma seconds_mono [simp]: "seconds a \<le> seconds b \<longleftrightarrow> a \<le> b" "seconds a < seconds b \<longleftrightarrow> a < b"
  by (simp_all add: seconds_def)

lemma seconds_pos [simp]: "0 < seconds n \<longleftrightarrow> 0 < n" "0 \<le> seconds n \<longleftrightarrow> 0 \<le> n"
  by (simp_all add: seconds_def)

section \<open>Dictionaries\<close>

text \<open>Keys are pairs in several dictionaries; a quantifier over keys is left as it is written.\<close>

declare split_paired_All [simp del] split_paired_Ex [simp del]
declare map_of_eq_Some_iff [simp del] Some_eq_map_of_iff [simp del]

text \<open>
  A Python dictionary iterates in insertion order, an assignment to a present key keeps its place and
  an assignment to an absent key appends. That is \<^const>\<open>AList.update\<close> on an association list whose
  keys are distinct; \<^const>\<open>AList.delete\<close> is \<open>del\<close> and \<^const>\<open>map_of\<close> is \<open>get\<close>.
\<close>

type_synonym ('k, 'v) dict = "('k \<times> 'v) list"

abbreviation well_keyed :: "('k, 'v) dict \<Rightarrow> bool" where
  "well_keyed d \<equiv> distinct (map fst d)"

lemma map_of_update [simp]: "map_of (AList.update k v d) = (map_of d)(k \<mapsto> v)"
  by (simp add: AList.update_conv')

lemma map_of_delete [simp]: "map_of (AList.delete k d) = (map_of d)(k := None)"
  by (rule AList.delete_conv')

lemma well_keyed_update [simp]: "well_keyed (AList.update k v d) \<longleftrightarrow> well_keyed d"
  by (induction d) (auto simp: AList.dom_update)

lemma well_keyed_delete [simp]: "well_keyed d \<Longrightarrow> well_keyed (AList.delete k d)"
  by (rule AList.distinct_delete)

lemma well_keyed_mem: "well_keyed d \<Longrightarrow> (k, v) \<in> set d \<longleftrightarrow> map_of d k = Some v"
  by (simp add: map_of_eq_Some_iff)

lemma keys_update: "k \<in> fst ` set d \<Longrightarrow> map fst (AList.update k v d) = map fst d"
  by (induction d) auto

text \<open>Updating a present key of a dictionary is a map over its entries.\<close>

lemma update_as_map:
  "well_keyed d \<Longrightarrow> map_of d k = Some old \<Longrightarrow>
   AList.update k v d = map (\<lambda>(k', w). (k', if k' = k then v else w)) d"
proof (induction d)
  case Nil
  then show ?case by simp
next
  case (Cons p d)
  obtain k0 w0 where p: "p = (k0, w0)" by (cases p)
  have same: "map (\<lambda>(k', w). (k', if k' = k then v else w)) d = d" if "k \<notin> fst ` set d"
    using that by (induction d) auto
  from Cons p same show ?case by (auto simp: image_iff)
qed

lemma filter_delete: "AList.delete k d = filter (\<lambda>(k', _). k' \<noteq> k) d"
  by (induction d) auto

section \<open>Priority queues\<close>

text \<open>
  What the sweeps of the approval store rely on of Python's \<open>heapq\<close>: the front of a heap is a least
  element of it, \<open>heappush\<close> adds one element and \<open>heappop\<close> takes the front away. The observable
  content of a heap is a multiset; two heaps of the same content answer alike because tuples are
  totally ordered.
\<close>

locale priority_queue =
  fixes push :: "'a::linorder \<Rightarrow> 'q \<Rightarrow> 'q"
    and front :: "'q \<Rightarrow> 'a option"
    and pop :: "'q \<Rightarrow> 'q"
    and content :: "'q \<Rightarrow> 'a set"
    and ok :: "'q \<Rightarrow> bool"
  assumes push_content: "content (push x q) = insert x (content q)"
    and push_ok: "ok q \<Longrightarrow> ok (push x q)"
    and pop_ok: "ok q \<Longrightarrow> ok (pop q)"
    and front_None: "front q = None \<longleftrightarrow> content q = {}"
    and front_mem: "front q = Some x \<Longrightarrow> x \<in> content q"
    and front_least: "ok q \<Longrightarrow> front q = Some x \<Longrightarrow> y \<in> content q \<Longrightarrow> x \<le> y"
    and pop_content: "front q = Some x \<Longrightarrow> insert x (content (pop q)) = content q"
begin

text \<open>Nothing at or before a bound is left once the front is past it.\<close>

lemma front_bounds:
  assumes "ok q" and "\<And>x. front q = Some x \<Longrightarrow> b < x" and "y \<in> content q"
  shows "b < y"
  using assms front_least front_None by (metis empty_iff less_le_trans option.exhaust)

lemma pop_keeps: "front q = Some x \<Longrightarrow> y \<in> content q \<Longrightarrow> y \<noteq> x \<Longrightarrow> y \<in> content (pop q)"
  using pop_content by blast

lemma pop_subset: "front q = Some x \<Longrightarrow> content (pop q) \<subseteq> content q"
  using pop_content by blast

end

text \<open>
  The model of a heap: the sorted list of its elements. CPython's array layout is not observable by
  the code, which reads \<open>heap[0]\<close> and calls \<open>heappush\<close> and \<open>heappop\<close> only.
\<close>

type_synonym 'a heap = "'a list"

definition heappush :: "'a::linorder \<Rightarrow> 'a heap \<Rightarrow> 'a heap" where
  "heappush x h = insort x h"

definition heapfront :: "'a heap \<Rightarrow> 'a option" where
  "heapfront h = (case h of [] \<Rightarrow> None | x # _ \<Rightarrow> Some x)"

definition heappop :: "'a heap \<Rightarrow> 'a heap" where
  "heappop h = tl h"

lemmas heap_defs = heappush_def heapfront_def heappop_def

interpretation heapq: priority_queue heappush heapfront heappop set sorted
  by unfold_locales
    (auto simp: heap_defs set_insort_key sorted_insort sorted_tl split: list.splits)

lemma heapfront_Some: "heapfront h = Some x \<longleftrightarrow> (\<exists>t. h = x # t)"
  by (auto simp: heapfront_def split: list.splits)

section \<open>Decimal text\<close>

text \<open>\<open>str(n)\<close> of a non-negative integer.\<close>

definition digit :: "nat \<Rightarrow> char" where
  "digit n = char_of (48 + n)"

fun dec :: "nat \<Rightarrow> string" where
  "dec n = (if n < 10 then [digit n] else dec (n div 10) @ [digit (n mod 10)])"

declare dec.simps [simp del]

definition is_digit :: "char \<Rightarrow> bool" where
  "is_digit c = (48 \<le> (of_char c :: nat) \<and> (of_char c :: nat) \<le> 57)"

definition digit_value :: "char \<Rightarrow> nat" where
  "digit_value c = of_char c - 48"

definition undec :: "string \<Rightarrow> nat" where
  "undec s = foldl (\<lambda>n c. 10 * n + digit_value c) 0 s"

lemma is_digit_digit [simp]: "n < 10 \<Longrightarrow> is_digit (digit n)"
  by (simp add: is_digit_def digit_def of_char_of)

lemma digit_value_digit [simp]: "n < 10 \<Longrightarrow> digit_value (digit n) = n"
  by (simp add: digit_value_def digit_def of_char_of)

lemma dec_digits: "list_all is_digit (dec n)"
proof (induction n rule: dec.induct)
  case (1 n)
  then show ?case by (subst dec.simps) simp
qed

lemma dec_nonempty [simp]: "dec n \<noteq> []"
  by (subst dec.simps) simp

lemma undec_dec [simp]: "undec (dec n) = n"
proof (induction n rule: dec.induct)
  case (1 n)
  show ?case
  proof (cases "n < 10")
    case True
    then show ?thesis by (subst dec.simps) (simp add: undec_def)
  next
    case False
    with 1 show ?thesis by (subst dec.simps) (simp add: undec_def)
  qed
qed

lemma dec_inj [simp]: "dec m = dec n \<longleftrightarrow> m = n"
  by (metis undec_dec)

text \<open>Text before a separator that it does not contain can be read back.\<close>

lemma split_at_separator:
  assumes "c \<notin> set a" "c \<notin> set b" "a @ c # x = b @ c # y"
  shows "a = b \<and> x = y"
  using assms
proof (induction a arbitrary: b)
  case Nil
  then show ?case by (cases b) auto
next
  case (Cons z a)
  then show ?case by (cases b) auto
qed

end
