(* ===== verification/Approval.thy ===== *)
theory Approval
  imports Prelude
begin

text \<open>
  The one-person approval of \<^verbatim>\<open>domain/approval.py\<close>: the states of a wait, the question it answers,
  the record with the invariants its constructor holds, and the state a reader reads at an instant.
\<close>

section \<open>The states of a wait\<close>

datatype approval_state = PENDING | APPROVED | REJECTED | EXPIRED

fun state_value :: "approval_state \<Rightarrow> string" where
  "state_value PENDING = ''pending''"
| "state_value APPROVED = ''approved''"
| "state_value REJECTED = ''rejected''"
| "state_value EXPIRED = ''expired''"

definition TERMINAL :: "approval_state set" where
  "TERMINAL = {APPROVED, REJECTED, EXPIRED}"

definition ACTED :: "approval_state set" where
  "ACTED = {APPROVED, REJECTED}"

lemma terminal_iff: "s \<in> TERMINAL \<longleftrightarrow> s \<noteq> PENDING"
  by (cases s) (auto simp: TERMINAL_def)

lemma acted_iff: "s \<in> ACTED \<longleftrightarrow> s = APPROVED \<or> s = REJECTED"
  by (auto simp: ACTED_def)

section \<open>The question an approval answers\<close>

record question =
  q_scope :: string
  q_principal_reference :: string
  q_capability :: string
  q_arguments_digest :: string

text \<open>\<open>Question.__post_init__\<close>: no member may be empty.\<close>

definition question_post_init :: "question \<Rightarrow> question result" where
  "question_post_init q =
     guard (q_scope q = []) ValueError
     (guard (q_principal_reference q = []) ValueError
     (guard (q_capability q = []) ValueError
     (guard (q_arguments_digest q = []) ValueError (Inr q))))"

section \<open>The record\<close>

record approval =
  ap_ref :: string
  ap_decision_ref :: string
  ap_question :: question
  ap_requested_at :: datetime
  ap_deadline :: datetime
  ap_state :: approval_state
  ap_resolved_at :: "datetime option"
  ap_person :: "string option"
  ap_resolution_reason :: "string option"
  ap_consumed :: bool
  ap_consumed_at :: "datetime option"
  ap_claimed :: bool
  ap_published :: bool

text \<open>The record with the defaults of the class: a pending wait nobody has been told about.\<close>

definition pending_approval ::
    "string \<Rightarrow> string \<Rightarrow> question \<Rightarrow> datetime \<Rightarrow> datetime \<Rightarrow> approval" where
  "pending_approval ref dref q requested deadline =
     \<lparr> ap_ref = ref, ap_decision_ref = dref, ap_question = q, ap_requested_at = requested,
       ap_deadline = deadline, ap_state = PENDING, ap_resolved_at = None, ap_person = None,
       ap_resolution_reason = None, ap_consumed = False, ap_consumed_at = None,
       ap_claimed = False, ap_published = False \<rparr>"

definition ap_scope :: "approval \<Rightarrow> string" where
  "ap_scope a = q_scope (ap_question a)"

definition ap_capability :: "approval \<Rightarrow> string" where
  "ap_capability a = q_capability (ap_question a)"

abbreviation requested_us :: "approval \<Rightarrow> int" where
  "requested_us a \<equiv> micros (ap_requested_at a)"

abbreviation deadline_us :: "approval \<Rightarrow> int" where
  "deadline_us a \<equiv> micros (ap_deadline a)"

text \<open>\<open>_hold_the_end_of_the_wait\<close>: \<open>resolved_at\<close> lies inside the wait it ended.\<close>

definition hold_the_end_of_the_wait :: "approval \<Rightarrow> unit result" where
  "hold_the_end_of_the_wait a =
     (if ap_state a = PENDING
      then guard (ap_resolved_at a \<noteq> None) ValueError (Inr ())
      else (case ap_resolved_at a of
          None \<Rightarrow> Inl ValueError
        | Some resolved \<Rightarrow>
            guard (\<not> is_aware resolved) ValueError
            (guard (micros resolved < requested_us a) ValueError
            (guard (ap_state a = EXPIRED \<and> micros resolved \<noteq> deadline_us a) ValueError
            (guard (ap_state a \<in> ACTED \<and> deadline_us a < micros resolved) ValueError
              (Inr ()))))))"

text \<open>\<open>_hold_the_one_person\<close>: one person behind an act, nobody behind a lapse.\<close>

definition hold_the_one_person :: "approval \<Rightarrow> unit result" where
  "hold_the_one_person a =
     (if ap_state a \<in> ACTED
      then guard (ap_person a = None \<or> ap_person a = Some []) ValueError (Inr ())
      else guard (ap_person a \<noteq> None) ValueError (Inr ()))"

text \<open>\<open>_hold_the_spend\<close>: \<open>consumed_at\<close> is there exactly when the execution was taken.\<close>

definition hold_the_spend :: "approval \<Rightarrow> unit result" where
  "hold_the_spend a =
     (if \<not> ap_consumed a
      then guard (ap_consumed_at a \<noteq> None) ValueError (Inr ())
      else (case ap_consumed_at a of
          None \<Rightarrow> Inl ValueError
        | Some spent \<Rightarrow>
            guard (\<not> is_aware spent) ValueError
            (guard (\<exists>resolved \<in> set_option (ap_resolved_at a). micros spent < micros resolved)
               ValueError (Inr ()))))"

text \<open>\<open>Approval.__post_init__\<close>, guard by guard in the order of the source.\<close>

definition approval_post_init :: "approval \<Rightarrow> approval result" where
  "approval_post_init a =
     guard (\<not> is_aware (ap_requested_at a)) ValueError
     (guard (\<not> is_aware (ap_deadline a)) ValueError
     (guard (deadline_us a \<le> requested_us a) ValueError
     (bind_r (hold_the_end_of_the_wait a) (\<lambda>_.
      bind_r (hold_the_one_person a) (\<lambda>_.
      guard (ap_state a = PENDING \<and> ap_resolution_reason a \<noteq> None) ValueError
     (guard (ap_state a = EXPIRED \<and> ap_resolution_reason a \<noteq> None) ValueError
     (guard (ap_consumed a \<and> ap_state a \<noteq> APPROVED) ValueError
     (guard (ap_claimed a \<and> ap_state a \<noteq> APPROVED) ValueError
     (guard (ap_consumed a \<and> \<not> ap_claimed a) ValueError
     (bind_r (hold_the_spend a) (\<lambda>_. Inr a)))))))))))"

text \<open>
  \<open>dataclasses.replace\<close> builds a new record, so it runs the constructor's guards again; its callers
  pass the record with the members already replaced.
\<close>

definition replace_approval :: "approval \<Rightarrow> approval result" where
  "replace_approval a = approval_post_init a"

section \<open>What a constructed record satisfies\<close>

definition approval_ok :: "approval \<Rightarrow> bool" where
  "approval_ok a \<longleftrightarrow> approval_post_init a = Inr a"

text \<open>The guards of the constructor as one conjunction, state by state.\<close>

definition ended_inside_its_wait :: "approval \<Rightarrow> bool" where
  "ended_inside_its_wait a = (case ap_resolved_at a of
       None \<Rightarrow> ap_state a = PENDING
     | Some r \<Rightarrow> ap_state a \<noteq> PENDING \<and> is_aware r \<and> requested_us a \<le> micros r \<and>
         micros r \<le> deadline_us a \<and> (ap_state a = EXPIRED \<longrightarrow> micros r = deadline_us a))"

definition spent_after_its_act :: "approval \<Rightarrow> bool" where
  "spent_after_its_act a = (case ap_consumed_at a of
       None \<Rightarrow> \<not> ap_consumed a
     | Some c \<Rightarrow> ap_consumed a \<and> is_aware c \<and>
         (\<forall>r \<in> set_option (ap_resolved_at a). micros r \<le> micros c))"

lemma hold_the_end_of_the_wait_iff:
  "requested_us a < deadline_us a \<Longrightarrow>
   hold_the_end_of_the_wait a = Inr u \<longleftrightarrow> ended_inside_its_wait a"
  by (cases "ap_state a"; cases "ap_resolved_at a")
    (simp_all add: hold_the_end_of_the_wait_def ended_inside_its_wait_def ACTED_def, auto)

lemma hold_the_one_person_iff:
  "hold_the_one_person a = Inr u \<longleftrightarrow>
     (if ap_state a \<in> ACTED then ap_person a \<noteq> None \<and> ap_person a \<noteq> Some [] else ap_person a = None)"
  by (simp add: hold_the_one_person_def)

lemma hold_the_spend_iff: "hold_the_spend a = Inr u \<longleftrightarrow> spent_after_its_act a"
  by (cases "ap_consumed_at a")
    (auto simp: hold_the_spend_def spent_after_its_act_def not_less)

lemma approval_ok_iff:
  "approval_ok a \<longleftrightarrow>
     is_aware (ap_requested_at a) \<and> is_aware (ap_deadline a) \<and> requested_us a < deadline_us a \<and>
     ended_inside_its_wait a \<and>
     (if ap_state a \<in> ACTED then ap_person a \<noteq> None \<and> ap_person a \<noteq> Some []
      else ap_person a = None \<and> ap_resolution_reason a = None) \<and>
     (ap_consumed a \<longrightarrow> ap_claimed a) \<and> (ap_claimed a \<longrightarrow> ap_state a = APPROVED) \<and>
     spent_after_its_act a"
proof (cases "requested_us a < deadline_us a")
  case True
  then show ?thesis
    by (simp add: approval_ok_def approval_post_init_def hold_the_end_of_the_wait_iff
        hold_the_one_person_iff hold_the_spend_iff not_le)
      (cases "ap_state a"; auto simp: ACTED_def)
next
  case False
  then show ?thesis by (simp add: approval_ok_def approval_post_init_def)
qed

lemma hold_errors:
  "hold_the_end_of_the_wait a = Inl e \<Longrightarrow> e = ValueError"
  "hold_the_one_person a = Inl e \<Longrightarrow> e = ValueError"
  "hold_the_spend a = Inl e \<Longrightarrow> e = ValueError"
  by (auto simp: hold_the_end_of_the_wait_def hold_the_one_person_def hold_the_spend_def
      split: option.splits if_splits)

lemma post_init_error: "approval_post_init a = Inl e \<Longrightarrow> e = ValueError"
  by (auto simp: approval_post_init_def bind_r_def dest: hold_errors
      split: if_splits sum.splits)

lemma post_init_same: "approval_post_init a = Inr b \<Longrightarrow> b = a"
  by (auto simp: approval_post_init_def split: if_splits)

lemma replace_approval_if: "replace_approval a = (if approval_ok a then Inr a else Inl ValueError)"
  by (cases "approval_post_init a")
    (auto simp: replace_approval_def approval_ok_def dest: post_init_error post_init_same)

lemma replace_approval_ok [simp]: "replace_approval a = Inr b \<longleftrightarrow> b = a \<and> approval_ok a"
  by (auto simp: replace_approval_if)

section \<open>The state a reader reads\<close>

definition state_at :: "approval \<Rightarrow> int \<Rightarrow> approval_state" where
  "state_at a now =
     (if ap_state a = PENDING \<and> deadline_us a \<le> now then EXPIRED else ap_state a)"

end
