(* ===== verification/Interfaces.thy ===== *)
theory Interfaces
  imports Approval
begin

text \<open>
  The values that cross the approval port, from \<^verbatim>\<open>plugins/interfaces.py\<close>: the request a suspension
  puts to a provider, one person's act, the suspension a provider answers and the resolution an act
  makes.
\<close>

datatype approval_resolution = APPROVE | REJECT

record approval_request =
  rq_approval_ref :: string
  rq_decision_ref :: string
  rq_scope :: string
  rq_capability :: string
  rq_requested_at :: datetime
  rq_deadline :: datetime

text \<open>\<open>ApprovalRequest.__post_init__\<close>.\<close>

definition request_post_init :: "approval_request \<Rightarrow> approval_request result" where
  "request_post_init r =
     guard (\<not> is_aware (rq_requested_at r)) ValueError
     (guard (\<not> is_aware (rq_deadline r)) ValueError
     (guard (micros (rq_deadline r) \<le> micros (rq_requested_at r)) ValueError (Inr r)))"

record approval_action =
  ac_approval_ref :: string
  ac_scope :: string
  ac_person :: string
  ac_resolution :: approval_resolution
  ac_reason :: "string option"

record suspended_approval =
  su_request :: approval_request
  su_scope :: string

text \<open>\<open>SuspendedApproval.__post_init__\<close>.\<close>

definition suspended_post_init :: "suspended_approval \<Rightarrow> suspended_approval result" where
  "suspended_post_init s = guard (su_scope s \<noteq> rq_scope (su_request s)) ValueError (Inr s)"

definition su_approval_ref :: "suspended_approval \<Rightarrow> string" where
  "su_approval_ref s = rq_approval_ref (su_request s)"

record resolved_approval =
  re_approval_ref :: string
  re_decision_ref :: string
  re_scope :: string
  re_person :: string
  re_resolution :: approval_resolution
  re_reason :: "string option"

end
