(* ===== verification/ApprovalStore.thy ===== *)
theory ApprovalStore
  imports Interfaces
begin

text \<open>
  The store a suspension waits in, from \<^verbatim>\<open>application/approvals.py\<close>: its two dictionaries, its two
  lazy due-time indexes and every operation on them. Each operation is one lock-held method, so one
  HOL function; it returns the state it leaves behind also when it raises. The clock of the store is
  read by the caller of the model and passed as the argument \<open>now\<close>, in microseconds.
\<close>

section \<open>State\<close>

text \<open>A record is kept under its scope and its reference.\<close>

type_synonym key = "string \<times> string"

record approval_store =
  by_reference :: "(key, approval) dict"
  by_question :: "(question, key list) dict"
  due :: "(int \<times> key) heap"
  lapsing :: "(int \<times> key) heap"

definition empty_store :: approval_store where
  "empty_store = \<lparr>by_reference = [], by_question = [], due = [], lapsing = []\<rparr>"

definition store_key :: "approval \<Rightarrow> key" where
  "store_key a = (ap_scope a, ap_ref a)"

abbreviation kept :: "approval_store \<Rightarrow> key \<Rightarrow> approval option" where
  "kept st k \<equiv> map_of (by_reference st) k"

text \<open>\<open>self._by_reference[key] = a\<close>\<close>

definition put :: "key \<Rightarrow> approval \<Rightarrow> approval_store \<Rightarrow> approval_store" where
  "put k a st = st\<lparr>by_reference := AList.update k a (by_reference st)\<rparr>"

definition state_of :: "approval_resolution \<Rightarrow> approval_state" where
  "state_of r = (case r of APPROVE \<Rightarrow> APPROVED | REJECT \<Rightarrow> REJECTED)"

section \<open>When a record is of no further use\<close>

definition wait_length :: "approval \<Rightarrow> int" where
  "wait_length a = deadline_us a - requested_us a"

definition lapse_instant :: "approval \<Rightarrow> int option result" where
  "lapse_instant a =
     (if ap_state a = PENDING then Inr None
      else if ap_state a = APPROVED \<and> \<not> ap_consumed a then Inr None
      else if ap_consumed a then (case ap_consumed_at a of
          None \<Rightarrow> Inl AssertionError
        | Some spent \<Rightarrow> Inr (Some (micros spent + wait_length a)))
      else (case ap_resolved_at a of
          None \<Rightarrow> Inl AssertionError
        | Some resolved \<Rightarrow> Inr (Some (micros resolved + wait_length a))))"

definition is_of_no_further_use :: "approval \<Rightarrow> int \<Rightarrow> bool result" where
  "is_of_no_further_use a now =
     bind_r (lapse_instant a) (\<lambda>l. Inr (case l of None \<Rightarrow> False | Some t \<Rightarrow> t \<le> now))"

definition index_lapse :: "key \<Rightarrow> approval \<Rightarrow> (approval_store, unit) op" where
  "index_lapse k a st = (case lapse_instant a of
       Inl e \<Rightarrow> (st, Inl e)
     | Inr None \<Rightarrow> (st, Inr ())
     | Inr (Some t) \<Rightarrow> (st\<lparr>lapsing := heappush (t, k) (lapsing st)\<rparr>, Inr ()))"

section \<open>Operations\<close>

definition open_approval :: "approval \<Rightarrow> (approval_store, approval) op" where
  "open_approval a st =
     (if ap_published a then (st, Inl ValueError)
      else if ap_state a \<noteq> PENDING then (st, Inl ValueError)
      else let k = (ap_scope a, ap_ref a) in
        if kept st k \<noteq> None then (st, Inl ApprovalAlreadyExists)
        else let references = (case map_of (by_question st) (ap_question a) of
                                 None \<Rightarrow> [] | Some ks \<Rightarrow> ks)
             in (st\<lparr>by_reference := AList.update k a (by_reference st),
                    by_question := AList.update (ap_question a) (references @ [k]) (by_question st),
                    due := heappush (deadline_us a, k) (due st)\<rparr>, Inr a))"

definition read :: "approval_store \<Rightarrow> string \<Rightarrow> string \<Rightarrow> approval result" where
  "read st scope ref = (case kept st (scope, ref) of None \<Rightarrow> Inl ApprovalUnknown | Some a \<Rightarrow> Inr a)"

text \<open>The walk of \<open>_newest_live\<close> over the references of a question, newest first.\<close>

fun newest_live_in ::
    "(key, approval) dict \<Rightarrow> key list \<Rightarrow> int \<Rightarrow> bool \<Rightarrow> approval option result" where
  "newest_live_in d [] now in_flight = Inr None"
| "newest_live_in d (k # ks) now in_flight = (case map_of d k of
       None \<Rightarrow> Inl KeyError
     | Some a \<Rightarrow>
         if ap_consumed a then newest_live_in d ks now in_flight
         else if (ap_claimed a \<or> \<not> ap_published a) \<and> \<not> in_flight
           then newest_live_in d ks now in_flight
         else if state_at a now = EXPIRED then newest_live_in d ks now in_flight
         else if ap_state a = REJECTED \<and> deadline_us a \<le> now
           then newest_live_in d ks now in_flight
         else Inr (Some a))"

definition newest_live ::
    "approval_store \<Rightarrow> question \<Rightarrow> int \<Rightarrow> bool \<Rightarrow> approval option result" where
  "newest_live st q now in_flight = newest_live_in (by_reference st)
     (rev (case map_of (by_question st) q of None \<Rightarrow> [] | Some ks \<Rightarrow> ks)) now in_flight"

definition find_for_question :: "approval_store \<Rightarrow> question \<Rightarrow> int \<Rightarrow> approval option result" where
  "find_for_question st q now = newest_live st q now False"

definition open_if_absent :: "approval \<Rightarrow> int \<Rightarrow> (approval_store, approval) op" where
  "open_if_absent a now st = (case newest_live st (ap_question a) now True of
       Inl e \<Rightarrow> (st, Inl e)
     | Inr None \<Rightarrow> open_approval a st
     | Inr (Some found) \<Rightarrow> (st, Inr found))"

definition publish :: "string \<Rightarrow> string \<Rightarrow> (approval_store, approval) op" where
  "publish scope ref st = (case read st scope ref of
       Inl e \<Rightarrow> (st, Inl e)
     | Inr a \<Rightarrow>
         if ap_state a \<noteq> PENDING then (st, Inl ValueError)
         else if ap_published a then (st, Inr a)
         else (case replace_approval (a\<lparr>ap_published := True\<rparr>) of
             Inl e \<Rightarrow> (st, Inl e)
           | Inr b \<Rightarrow> (put (scope, ref) b st, Inr b)))"

text \<open>
  Taking a reference out of the list its question keeps: \<open>references.remove(key)\<close> and the \<open>del\<close> of an
  emptied list, as \<open>abandon\<close> and \<open>forget_lapsed\<close> both spell it.
\<close>

definition drop_reference ::
    "question \<Rightarrow> key \<Rightarrow> (question, key list) dict \<Rightarrow> (question, key list) dict result" where
  "drop_reference q k bq = (case map_of bq q of
       None \<Rightarrow> Inr bq
     | Some references \<Rightarrow>
         if k \<notin> set references then Inl ValueError
         else let rest = remove1 k references in
           if rest = [] then Inr (AList.delete q bq) else Inr (AList.update q rest bq))"

definition drop_record :: "key \<Rightarrow> approval \<Rightarrow> (approval_store, unit) op" where
  "drop_record k a st =
     (let st1 = st\<lparr>by_reference := AList.delete k (by_reference st)\<rparr>
      in case drop_reference (ap_question a) k (by_question st1) of
           Inl e \<Rightarrow> (st1, Inl e)
         | Inr bq \<Rightarrow> (st1\<lparr>by_question := bq\<rparr>, Inr ()))"

definition abandon :: "string \<Rightarrow> string \<Rightarrow> (approval_store, approval) op" where
  "abandon scope ref st = (case read st scope ref of
       Inl e \<Rightarrow> (st, Inl e)
     | Inr a \<Rightarrow>
         if ap_state a \<noteq> PENDING \<or> ap_claimed a \<or> ap_published a then (st, Inl ValueError)
         else (case drop_record (scope, ref) a st of
             (st', Inl e) \<Rightarrow> (st', Inl e)
           | (st', Inr _) \<Rightarrow> (st', Inr a)))"

definition expired_record :: "approval \<Rightarrow> approval" where
  "expired_record a = a\<lparr>ap_state := EXPIRED, ap_resolved_at := Some (ap_deadline a)\<rparr>"

text \<open>\<open>self._by_reference[key] = a\<close> followed by \<open>self._index_lapse(key, a)\<close>.\<close>

definition put_indexed :: "key \<Rightarrow> approval \<Rightarrow> (approval_store, unit) op" where
  "put_indexed k a st = index_lapse k a (put k a st)"

definition resolve ::
    "string \<Rightarrow> string \<Rightarrow> string \<Rightarrow> approval_resolution \<Rightarrow> string option \<Rightarrow> int \<Rightarrow>
     (approval_store, approval) op" where
  "resolve scope ref person resolution reason now st = (case read st scope ref of
       Inl e \<Rightarrow> (st, Inl e)
     | Inr a \<Rightarrow>
         if ap_state a \<noteq> PENDING then (st, Inl ApprovalAlreadyResolved)
         else if deadline_us a \<le> now then
           (case replace_approval (expired_record a) of
              Inl e \<Rightarrow> (st, Inl e)
            | Inr expired \<Rightarrow> (case put_indexed (scope, ref) expired st of
                (st', Inl e) \<Rightarrow> (st', Inl e)
              | (st', Inr _) \<Rightarrow> (st', Inl ApprovalAlreadyResolved)))
         else
           (case replace_approval (a\<lparr>ap_state := state_of resolution,
                                     ap_resolved_at := Some (Aware now),
                                     ap_person := Some person,
                                     ap_resolution_reason := reason,
                                     ap_published := True\<rparr>) of
              Inl e \<Rightarrow> (st, Inl e)
            | Inr resolved \<Rightarrow> (case put_indexed (scope, ref) resolved st of
                (st', Inl e) \<Rightarrow> (st', Inl e)
              | (st', Inr _) \<Rightarrow> (st', Inr resolved))))"

definition claim :: "string \<Rightarrow> string \<Rightarrow> (approval_store, approval) op" where
  "claim scope ref st = (case read st scope ref of
       Inl e \<Rightarrow> (st, Inl e)
     | Inr a \<Rightarrow>
         if ap_state a \<noteq> APPROVED then (st, Inl ValueError)
         else if ap_consumed a \<or> ap_claimed a then (st, Inl ApprovalAlreadyClaimed)
         else (case replace_approval (a\<lparr>ap_claimed := True\<rparr>) of
             Inl e \<Rightarrow> (st, Inl e)
           | Inr b \<Rightarrow> (put (scope, ref) b st, Inr b)))"

definition release_claim :: "string \<Rightarrow> string \<Rightarrow> (approval_store, approval) op" where
  "release_claim scope ref st = (case read st scope ref of
       Inl e \<Rightarrow> (st, Inl e)
     | Inr a \<Rightarrow>
         if ap_consumed a then (st, Inl ValueError)
         else if \<not> ap_claimed a then (st, Inl ValueError)
         else (case replace_approval (a\<lparr>ap_claimed := False\<rparr>) of
             Inl e \<Rightarrow> (st, Inl e)
           | Inr b \<Rightarrow> (put (scope, ref) b st, Inr b)))"

definition consume :: "string \<Rightarrow> string \<Rightarrow> int \<Rightarrow> (approval_store, approval) op" where
  "consume scope ref now st = (case read st scope ref of
       Inl e \<Rightarrow> (st, Inl e)
     | Inr a \<Rightarrow>
         if ap_state a \<noteq> APPROVED then (st, Inl ValueError)
         else if ap_consumed a then (st, Inl ValueError)
         else if \<not> ap_claimed a then (st, Inl ValueError)
         else (case replace_approval (a\<lparr>ap_consumed := True, ap_consumed_at := Some (Aware now)\<rparr>) of
             Inl e \<Rightarrow> (st, Inl e)
           | Inr b \<Rightarrow> (case put_indexed (scope, ref) b st of
               (st', Inl e) \<Rightarrow> (st', Inl e)
             | (st', Inr _) \<Rightarrow> (st', Inr b))))"

definition pending :: "approval_store \<Rightarrow> approval list" where
  "pending st = filter (\<lambda>a. ap_state a = PENDING)
     (map (\<lambda>k. the (kept st k)) (sort (map fst (by_reference st))))"

section \<open>The two halves of the sweep\<close>

lemma index_lapse_due [simp]: "due (fst (index_lapse k a st)) = due st"
  by (simp add: index_lapse_def split: sum.split option.split)

lemma put_due [simp]: "due (put k a st) = due st"
  by (simp add: put_def)

lemma put_indexed_due [simp]: "due (fst (put_indexed k a st)) = due st"
  by (simp add: put_indexed_def)

text \<open>How much of an index a sweep as of \<open>now\<close> still has to look at.\<close>

definition ripe :: "int \<Rightarrow> (int \<times> key) heap \<Rightarrow> nat" where
  "ripe now h = length (filter (\<lambda>(t, _). t \<le> now) h)"

lemma ripe_pop: "heapfront h = Some (t, k) \<Longrightarrow> t \<le> now \<Longrightarrow> ripe now (heappop h) < ripe now h"
  by (auto simp: ripe_def heap_defs split: list.splits)

lemma ripe_push: "now < t \<Longrightarrow> ripe now (heappush (t, k) h) = ripe now h"
  unfolding ripe_def heappush_def by (induction h) auto

text \<open>The loop of \<open>expire_past\<close>: take the ripe entries off the deadline index, one by one.\<close>

function expire_loop ::
    "int \<Rightarrow> approval_store \<Rightarrow> approval list \<Rightarrow> approval_store \<times> approval list result" where
  "expire_loop now st ended = (case heapfront (due st) of
       None \<Rightarrow> (st, Inr ended)
     | Some (t, k) \<Rightarrow>
         if now < t then (st, Inr ended)
         else let st1 = st\<lparr>due := heappop (due st)\<rparr> in
           (case kept st1 k of
              None \<Rightarrow> expire_loop now st1 ended
            | Some a \<Rightarrow>
                if ap_state a \<noteq> PENDING then expire_loop now st1 ended
                else if now < deadline_us a
                then expire_loop now (st1\<lparr>due := heappush (deadline_us a, k) (due st1)\<rparr>) ended
                else (case replace_approval (expired_record a) of
                    Inl e \<Rightarrow> (st1, Inl e)
                  | Inr expired \<Rightarrow>
                      (case snd (put_indexed k expired st1) of
                         Inl e \<Rightarrow> (fst (put_indexed k expired st1), Inl e)
                       | Inr _ \<Rightarrow> expire_loop now (fst (put_indexed k expired st1))
                                   (ended @ [expired])))))"
  by pat_completeness auto
termination
  by (relation "measure (\<lambda>(now, st, ended). ripe now (due st))")
    (auto simp: ripe_push intro: ripe_pop)

definition expire_past :: "int \<Rightarrow> (approval_store, approval list) op" where
  "expire_past now st = (case expire_loop now st [] of
       (st', Inl e) \<Rightarrow> (st', Inl e)
     | (st', Inr ended) \<Rightarrow> (st', Inr (sort_key store_key ended)))"

lemma drop_record_lapsing [simp]: "lapsing (fst (drop_record k a st)) = lapsing st"
  by (simp add: drop_record_def Let_def split: sum.split)

lemma ripe_reindex:
  "is_of_no_further_use a now = Inr False \<Longrightarrow>
   ripe now (lapsing (fst (index_lapse k a st))) = ripe now (lapsing st)"
  by (auto simp: index_lapse_def is_of_no_further_use_def ripe_push
      split: sum.split option.split)

text \<open>The loop of \<open>forget_lapsed\<close>, over the lapse index.\<close>

function forget_loop ::
    "int \<Rightarrow> approval_store \<Rightarrow> approval list \<Rightarrow> approval_store \<times> approval list result" where
  "forget_loop now st forgotten = (case heapfront (lapsing st) of
       None \<Rightarrow> (st, Inr forgotten)
     | Some (t, k) \<Rightarrow>
         if now < t then (st, Inr forgotten)
         else let st1 = st\<lparr>lapsing := heappop (lapsing st)\<rparr> in
           (case kept st1 k of
              None \<Rightarrow> forget_loop now st1 forgotten
            | Some a \<Rightarrow>
                (case is_of_no_further_use a now of
                   Inl e \<Rightarrow> (st1, Inl e)
                 | Inr useless \<Rightarrow>
                     if \<not> useless
                     then (case snd (index_lapse k a st1) of
                             Inl e \<Rightarrow> (fst (index_lapse k a st1), Inl e)
                           | Inr _ \<Rightarrow> forget_loop now (fst (index_lapse k a st1)) forgotten)
                     else (case snd (drop_record k a st1) of
                             Inl e \<Rightarrow> (fst (drop_record k a st1), Inl e)
                           | Inr _ \<Rightarrow> forget_loop now (fst (drop_record k a st1))
                                       (forgotten @ [a])))))"
  by pat_completeness auto
termination
  by (relation "measure (\<lambda>(now, st, forgotten). ripe now (lapsing st))")
    (auto simp: ripe_reindex intro: ripe_pop)

definition forget_lapsed :: "int \<Rightarrow> (approval_store, approval list) op" where
  "forget_lapsed now st = (case forget_loop now st [] of
       (st', Inl e) \<Rightarrow> (st', Inl e)
     | (st', Inr forgotten) \<Rightarrow> (st', Inr (sort_key store_key forgotten)))"

declare expire_loop.simps [simp del] forget_loop.simps [simp del]

end
