(* ===== verification/StoreInvariant.thy ===== *)
theory StoreInvariant
  imports ApprovalStore
begin

text \<open>
  What the approval store keeps true between its two dictionaries and its two indexes, and that every
  operation keeps it. The invariant is what lets the sweeps look at the front of an index instead of
  walking every record.
\<close>

section \<open>The invariant\<close>

definition records_ok :: "approval_store \<Rightarrow> bool" where
  "records_ok st \<longleftrightarrow> well_keyed (by_reference st) \<and>
     (\<forall>k a. kept st k = Some a \<longrightarrow> approval_ok a \<and> store_key a = k)"

definition refs :: "approval_store \<Rightarrow> question \<Rightarrow> key list" where
  "refs st q = (case map_of (by_question st) q of None \<Rightarrow> [] | Some ks \<Rightarrow> ks)"

definition questions_ok :: "approval_store \<Rightarrow> bool" where
  "questions_ok st \<longleftrightarrow> well_keyed (by_question st) \<and>
     (\<forall>q. map_of (by_question st) q \<noteq> Some []) \<and>
     (\<forall>q. distinct (refs st q)) \<and>
     (\<forall>q k. k \<in> set (refs st q) \<longleftrightarrow> (\<exists>a. kept st k = Some a \<and> ap_question a = q))"

definition due_ok :: "approval_store \<Rightarrow> bool" where
  "due_ok st \<longleftrightarrow> sorted (due st) \<and>
     (\<forall>k a. kept st k = Some a \<and> ap_state a = PENDING \<longrightarrow> (deadline_us a, k) \<in> set (due st))"

definition lapsing_ok :: "approval_store \<Rightarrow> bool" where
  "lapsing_ok st \<longleftrightarrow> sorted (lapsing st) \<and>
     (\<forall>k a t. kept st k = Some a \<and> lapse_instant a = Inr (Some t) \<longrightarrow> (t, k) \<in> set (lapsing st))"

definition store_ok :: "approval_store \<Rightarrow> bool" where
  "store_ok st \<longleftrightarrow> records_ok st \<and> questions_ok st \<and> due_ok st \<and> lapsing_ok st"

lemma store_okD:
  assumes "store_ok st" and "kept st k = Some a"
  shows "approval_ok a" "store_key a = k"
  using assms by (auto simp: store_ok_def records_ok_def)

lemma store_ok_well_keyed: "store_ok st \<Longrightarrow> well_keyed (by_reference st)"
  by (simp add: store_ok_def records_ok_def)

lemma store_ok_due: "store_ok st \<Longrightarrow> kept st k = Some a \<Longrightarrow> ap_state a = PENDING \<Longrightarrow>
    (deadline_us a, k) \<in> set (due st)"
  by (auto simp: store_ok_def due_ok_def)

lemma store_ok_lapsing: "store_ok st \<Longrightarrow> kept st k = Some a \<Longrightarrow> lapse_instant a = Inr (Some t) \<Longrightarrow>
    (t, k) \<in> set (lapsing st)"
  by (auto simp: store_ok_def lapsing_ok_def)

lemma store_ok_refs: "store_ok st \<Longrightarrow>
    k \<in> set (refs st q) \<longleftrightarrow> (\<exists>a. kept st k = Some a \<and> ap_question a = q)"
  by (auto simp: store_ok_def questions_ok_def)

lemma empty_store_ok: "store_ok empty_store"
  by (simp add: store_ok_def records_ok_def questions_ok_def due_ok_def lapsing_ok_def
      empty_store_def refs_def)

section \<open>Records\<close>

text \<open>A constructed record always has a lapse instant to answer with: no assertion fires.\<close>

definition lapses_at :: "approval \<Rightarrow> int option" where
  "lapses_at a =
     (if ap_state a = PENDING \<or> (ap_state a = APPROVED \<and> \<not> ap_consumed a) then None
      else if ap_consumed a then map_option (\<lambda>d. micros d + wait_length a) (ap_consumed_at a)
      else map_option (\<lambda>d. micros d + wait_length a) (ap_resolved_at a))"

lemma lapse_instant_ok: "approval_ok a \<Longrightarrow> lapse_instant a = Inr (lapses_at a)"
  by (auto simp: lapse_instant_def lapses_at_def approval_ok_iff ended_inside_its_wait_def
      spent_after_its_act_def split: option.splits)

lemma no_further_use_ok:
  "approval_ok a \<Longrightarrow> is_of_no_further_use a now = Inr (\<exists>t. lapses_at a = Some t \<and> t \<le> now)"
  by (auto simp: is_of_no_further_use_def lapse_instant_ok split: option.splits)

lemma lapses_at_PENDING [simp]: "ap_state a = PENDING \<Longrightarrow> lapses_at a = None"
  by (simp add: lapses_at_def)

lemma lapses_at_unspent [simp]: "ap_state a = APPROVED \<Longrightarrow> \<not> ap_consumed a \<Longrightarrow> lapses_at a = None"
  by (simp add: lapses_at_def)

lemma index_lapse_pure:
  "approval_ok a \<Longrightarrow> index_lapse k a st = (case lapses_at a of None \<Rightarrow> (st, Inr ())
     | Some t \<Rightarrow> (st\<lparr>lapsing := heappush (t, k) (lapsing st)\<rparr>, Inr ()))"
  by (simp add: index_lapse_def lapse_instant_ok split: option.split)

lemma store_key_simps [simp]:
  "store_key (a\<lparr>ap_state := s\<rparr>) = store_key a"
  "store_key (a\<lparr>ap_resolved_at := r\<rparr>) = store_key a"
  "store_key (a\<lparr>ap_person := p\<rparr>) = store_key a"
  "store_key (a\<lparr>ap_resolution_reason := rr\<rparr>) = store_key a"
  "store_key (a\<lparr>ap_consumed := b\<rparr>) = store_key a"
  "store_key (a\<lparr>ap_consumed_at := c\<rparr>) = store_key a"
  "store_key (a\<lparr>ap_claimed := b\<rparr>) = store_key a"
  "store_key (a\<lparr>ap_published := b\<rparr>) = store_key a"
  by (simp_all add: store_key_def ap_scope_def)

lemma expired_record_simps [simp]:
  "store_key (expired_record a) = store_key a"
  "ap_state (expired_record a) = EXPIRED"
  "ap_question (expired_record a) = ap_question a"
  "ap_consumed (expired_record a) = ap_consumed a"
  by (simp_all add: expired_record_def)

lemma expired_record_ok: "approval_ok a \<Longrightarrow> ap_state a = PENDING \<Longrightarrow> approval_ok (expired_record a)"
  by (auto simp: approval_ok_iff expired_record_def ended_inside_its_wait_def
      spent_after_its_act_def ACTED_def split: option.splits)

section \<open>Replacing a record\<close>

text \<open>
  Every transition replaces one kept record by another of the same key and the same question, which is
  pending only if the one before it was, with the same deadline, and indexes its lapse.
\<close>

definition transition :: "approval \<Rightarrow> approval \<Rightarrow> bool" where
  "transition a b \<longleftrightarrow> approval_ok b \<and> store_key b = store_key a \<and> ap_question b = ap_question a \<and>
     (ap_state b = PENDING \<longrightarrow> ap_state a = PENDING \<and> ap_deadline b = ap_deadline a)"

lemma put_indexed_pure:
  "approval_ok b \<Longrightarrow> put_indexed k b st =
     ((case lapses_at b of None \<Rightarrow> put k b st
       | Some t \<Rightarrow> (put k b st)\<lparr>lapsing := heappush (t, k) (lapsing st)\<rparr>), Inr ())"
  by (simp add: put_indexed_def index_lapse_pure put_def split: option.split)

lemma put_indexed_kept:
  "approval_ok b \<Longrightarrow> kept (fst (put_indexed k b st)) = (kept st)(k \<mapsto> b)"
  by (rule ext) (simp add: put_indexed_pure put_def split: option.split)

lemma put_indexed_ok:
  assumes "store_ok st" and "kept st k = Some a" and "transition a b"
  shows "store_ok (fst (put_indexed k b st))"
proof -
  let ?st = "fst (put_indexed k b st)"
  have b: "approval_ok b" "store_key b = k" "ap_question b = ap_question a"
    using assms store_okD(2) [OF assms(1,2)] by (auto simp: transition_def)
  note kept' = put_indexed_kept [OF b(1)]
  have same: "by_question ?st = by_question st" "due ?st = due st"
    by (simp_all add: put_indexed_pure b put_def split: option.split)
  have keys: "well_keyed (by_reference ?st)"
    using store_ok_well_keyed [OF assms(1)] by (simp add: put_indexed_pure b put_def split: option.split)
  have refs: "refs ?st = refs st"
    by (simp add: refs_def same fun_eq_iff)
  have lapse: "lapsing ?st = (case lapses_at b of None \<Rightarrow> lapsing st
                 | Some t \<Rightarrow> heappush (t, k) (lapsing st))"
    by (simp add: put_indexed_pure b put_def split: option.split)
  have "records_ok ?st"
    using assms(1) b keys by (auto simp: records_ok_def kept' store_ok_def)
  moreover have "questions_ok ?st"
    using assms(1,2) b(3) by (auto simp: store_ok_def questions_ok_def refs same kept')
  moreover have "due_ok ?st"
    using assms by (auto simp: store_ok_def due_ok_def same kept' transition_def)
  moreover have "lapsing_ok ?st"
    using assms(1) b(1)
    by (auto simp: store_ok_def lapsing_ok_def lapse kept' lapse_instant_ok heapq.push_ok
        heapq.push_content split: option.splits)
  ultimately show ?thesis by (simp add: store_ok_def)
qed

lemma put_ok:
  assumes "store_ok st" "kept st k = Some a" "transition a b" "lapses_at b = None"
  shows "store_ok (put k b st)"
  using put_indexed_ok [OF assms(1-3)] assms(3,4) by (simp add: put_indexed_pure transition_def)

lemma put_kept [simp]: "kept (put k b st) = (kept st)(k \<mapsto> b)"
  by (rule ext) (simp add: put_def)

lemma expired_transition: "approval_ok a \<Longrightarrow> ap_state a = PENDING \<Longrightarrow> transition a (expired_record a)"
  by (simp add: transition_def expired_record_ok)


section \<open>Adding and dropping records\<close>

lemma refs_update [simp]: "refs (st\<lparr>by_question := AList.update q ks (by_question st), by_reference := d\<rparr>) =
    (refs st)(q := ks)"
  by (rule ext) (simp add: refs_def)

lemma open_approval_ok:
  assumes "store_ok st" and "approval_ok a" and "open_approval a st = (st', Inr b)"
  shows "store_ok st'"
proof -
  let ?k = "store_key a"
  have key: "(ap_scope a, ap_ref a) = ?k"
    by (simp add: store_key_def)
  have new: "kept st ?k = None" and fresh: "ap_state a = PENDING"
    and st': "st' = st\<lparr>by_reference := AList.update ?k a (by_reference st),
      by_question := AList.update (ap_question a) (refs st (ap_question a) @ [?k]) (by_question st),
      due := heappush (deadline_us a, ?k) (due st)\<rparr>"
    using assms(3) by (auto simp: open_approval_def key refs_def Let_def split: if_splits)
  have kept': "kept st' = (kept st)(?k \<mapsto> a)"
    by (rule ext) (simp add: st')
  have refs': "refs st' = (refs st)(ap_question a := refs st (ap_question a) @ [?k])"
    by (rule ext) (simp add: st' refs_def)
  have unknown: "?k \<notin> set (refs st q)" for q
    using new by (simp add: store_ok_refs [OF assms(1)])
  have no_lapse: "lapse_instant a = Inr None"
    by (simp add: lapse_instant_def fresh)
  have "records_ok st'"
    using assms(1,2) by (auto simp: store_ok_def records_ok_def kept') (simp add: st')
  moreover have "questions_ok st'"
  proof -
    have "well_keyed (by_question st')" "map_of (by_question st') q \<noteq> Some []" for q
      using assms(1) by (auto simp: st' store_ok_def questions_ok_def)
    moreover have "distinct (refs st' q)" for q
      using assms(1) unknown by (auto simp: refs' store_ok_def questions_ok_def)
    moreover have "k \<in> set (refs st' q) \<longleftrightarrow> (\<exists>b. kept st' k = Some b \<and> ap_question b = q)" for q k
      using new by (auto simp: refs' kept' store_ok_refs [OF assms(1)])
    ultimately show ?thesis by (simp add: questions_ok_def)
  qed
  moreover have "due_ok st'"
    using assms(1) by (auto simp: store_ok_def due_ok_def kept')
      (auto simp: st' heapq.push_content heapq.push_ok)
  moreover have "lapsing_ok st'"
    using assms(1) by (auto simp: store_ok_def lapsing_ok_def kept' no_lapse) (simp_all add: st')
  ultimately show ?thesis by (simp add: store_ok_def)
qed

text \<open>Dropping a kept record from both dictionaries always succeeds under the invariant.\<close>

lemma drop_record_ok:
  assumes "store_ok st" and "kept st k = Some a"
  obtains st' where "drop_record k a st = (st', Inr ())" and "store_ok st'"
    and "by_reference st' = AList.delete k (by_reference st)"
    and "refs st' = (refs st)(ap_question a := remove1 k (refs st (ap_question a)))"
    and "due st' = due st" and "lapsing st' = lapsing st"
proof -
  let ?q = "ap_question a"
  have mem: "k \<in> set (refs st ?q)"
    using assms by (auto simp: store_ok_refs)
  then obtain ks where ks: "map_of (by_question st) ?q = Some ks"
    by (cases "map_of (by_question st) ?q") (simp_all add: refs_def)
  have refs_ks: "refs st ?q = ks"
    by (simp add: refs_def ks)
  define bq where "bq = (if remove1 k ks = [] then AList.delete ?q (by_question st)
                         else AList.update ?q (remove1 k ks) (by_question st))"
  define st' where "st' = st\<lparr>by_reference := AList.delete k (by_reference st), by_question := bq\<rparr>"
  have run: "drop_record k a st = (st', Inr ())"
    using mem refs_ks
    by (auto simp: drop_record_def drop_reference_def ks st'_def bq_def Let_def)
  have refs': "refs st' = (refs st)(?q := remove1 k ks)"
    by (rule ext) (simp add: refs_def st'_def bq_def)
  have kept': "kept st' = (kept st)(k := None)"
    by (rule ext) (simp add: st'_def)
  have qok: "questions_ok st" and dist: "distinct ks"
    using assms(1) refs_ks by (auto simp: store_ok_def questions_ok_def)
  have "records_ok st'"
    using assms(1) by (auto simp: store_ok_def records_ok_def kept') (simp add: st'_def)
  moreover have "questions_ok st'"
  proof -
    have "well_keyed (by_question st')" "map_of (by_question st') q \<noteq> Some []" for q
      using qok by (auto simp: questions_ok_def st'_def bq_def)
    moreover have "distinct (refs st' q)" for q
      using qok dist by (auto simp: refs' questions_ok_def)
    moreover have "k' \<in> set (refs st' q) \<longleftrightarrow> (\<exists>b. kept st' k' = Some b \<and> ap_question b = q)" for q k'
      using assms(2) dist store_ok_refs [OF assms(1), of k' q]
      by (auto simp: refs' kept' refs_ks)
    ultimately show ?thesis by (simp add: questions_ok_def)
  qed
  moreover have "due_ok st'" "lapsing_ok st'"
    using assms(1) by (auto simp: store_ok_def due_ok_def lapsing_ok_def kept') (simp_all add: st'_def)
  ultimately have "store_ok st'" by (simp add: store_ok_def)
  with that run refs' show thesis by (simp add: st'_def refs_ks)
qed

end
