(* ===== verification/StoreOperations.thy ===== *)
theory StoreOperations
  imports StoreInvariant
begin

text \<open>
  What each operation of the approval store does on a store that satisfies the invariant: an equation
  per operation in which the constructor's guards and the dictionaries' exceptions have been decided,
  and the preservation of the invariant by every operation.
\<close>

section \<open>Records after a transition\<close>

lemma published_ok [simp]: "approval_ok (a\<lparr>ap_published := b\<rparr>) \<longleftrightarrow> approval_ok a"
  by (cases "ap_resolved_at a"; cases "ap_consumed_at a")
    (simp_all add: approval_ok_iff ended_inside_its_wait_def spent_after_its_act_def)

lemma claimed_ok:
  "approval_ok a \<Longrightarrow> ap_state a = APPROVED \<Longrightarrow> \<not> ap_consumed a \<Longrightarrow> approval_ok (a\<lparr>ap_claimed := b\<rparr>)"
  by (auto simp: approval_ok_iff ended_inside_its_wait_def spent_after_its_act_def
      split: option.splits)

text \<open>The instant a wait ended at, in microseconds, for a record that ended.\<close>

definition resolved_us :: "approval \<Rightarrow> int" where
  "resolved_us a = (case ap_resolved_at a of None \<Rightarrow> 0 | Some d \<Rightarrow> micros d)"

definition spent_record :: "approval \<Rightarrow> int \<Rightarrow> approval" where
  "spent_record a now = a\<lparr>ap_consumed := True, ap_consumed_at := Some (Aware now)\<rparr>"

lemma spent_record_ok:
  "approval_ok a \<Longrightarrow> ap_state a = APPROVED \<Longrightarrow> ap_claimed a \<Longrightarrow>
   approval_ok (spent_record a now) \<longleftrightarrow> resolved_us a \<le> now"
  by (auto simp: approval_ok_iff ended_inside_its_wait_def spent_after_its_act_def
      spent_record_def resolved_us_def split: option.splits)

definition acted_record ::
    "approval \<Rightarrow> string \<Rightarrow> approval_resolution \<Rightarrow> string option \<Rightarrow> int \<Rightarrow> approval" where
  "acted_record a person resolution reason now = a\<lparr>ap_state := state_of resolution,
     ap_resolved_at := Some (Aware now), ap_person := Some person,
     ap_resolution_reason := reason, ap_published := True\<rparr>"

lemma state_of_simps [simp]:
  "state_of APPROVE = APPROVED" "state_of REJECT = REJECTED"
  "state_of r \<noteq> PENDING" "state_of r \<noteq> EXPIRED" "state_of r \<in> ACTED"
  by (cases r; simp add: state_of_def ACTED_def)+

lemma pending_plain:
  "approval_ok a \<Longrightarrow> ap_state a = PENDING \<Longrightarrow> \<not> ap_claimed a \<and> \<not> ap_consumed a \<and> ap_consumed_at a = None"
  by (auto simp: approval_ok_iff spent_after_its_act_def split: option.splits)

lemma acted_record_ok:
  assumes "approval_ok a" "ap_state a = PENDING" "now < deadline_us a"
  shows "approval_ok (acted_record a person resolution reason now) \<longleftrightarrow>
    person \<noteq> [] \<and> requested_us a \<le> now"
proof -
  have "is_aware (ap_requested_at a)" "is_aware (ap_deadline a)" "requested_us a < deadline_us a"
    using assms(1) by (simp_all add: approval_ok_iff)
  with pending_plain [OF assms(1,2)] assms(3) show ?thesis
    by (simp add: approval_ok_iff ended_inside_its_wait_def spent_after_its_act_def acted_record_def)
      auto
qed

lemma record_transitions:
  "approval_ok a \<Longrightarrow> transition a (a\<lparr>ap_published := True\<rparr>)"
  "approval_ok a \<Longrightarrow> ap_state a = APPROVED \<Longrightarrow> \<not> ap_consumed a \<Longrightarrow> transition a (a\<lparr>ap_claimed := b\<rparr>)"
  "approval_ok (spent_record a now) \<Longrightarrow> ap_state a = APPROVED \<Longrightarrow> transition a (spent_record a now)"
  "approval_ok (acted_record a person resolution reason now) \<Longrightarrow>
     transition a (acted_record a person resolution reason now)"
  by (simp_all add: transition_def claimed_ok spent_record_def acted_record_def)

section \<open>Each operation on a well-formed store\<close>

lemma read_eq: "read st scope ref = (case kept st (scope, ref) of
    None \<Rightarrow> Inl ApprovalUnknown | Some a \<Rightarrow> Inr a)"
  by (simp add: read_def)

lemma publish_eq:
  assumes "store_ok st"
  shows "publish scope ref st = (case kept st (scope, ref) of
      None \<Rightarrow> (st, Inl ApprovalUnknown)
    | Some a \<Rightarrow> if ap_state a \<noteq> PENDING then (st, Inl ValueError)
        else if ap_published a then (st, Inr a)
        else (put (scope, ref) (a\<lparr>ap_published := True\<rparr>) st, Inr (a\<lparr>ap_published := True\<rparr>)))"
  using store_okD [OF assms]
  by (auto simp: publish_def read_def replace_approval_if split: option.splits)

lemma claim_eq:
  assumes "store_ok st"
  shows "claim scope ref st = (case kept st (scope, ref) of
      None \<Rightarrow> (st, Inl ApprovalUnknown)
    | Some a \<Rightarrow> if ap_state a \<noteq> APPROVED then (st, Inl ValueError)
        else if ap_consumed a \<or> ap_claimed a then (st, Inl ApprovalAlreadyClaimed)
        else (put (scope, ref) (a\<lparr>ap_claimed := True\<rparr>) st, Inr (a\<lparr>ap_claimed := True\<rparr>)))"
  using store_okD [OF assms]
  by (auto simp: claim_def read_def replace_approval_if claimed_ok split: option.splits)

lemma claimed_approved: "approval_ok a \<Longrightarrow> ap_claimed a \<Longrightarrow> ap_state a = APPROVED"
  by (simp add: approval_ok_iff)

lemma consumed_claimed: "approval_ok a \<Longrightarrow> ap_consumed a \<Longrightarrow> ap_claimed a \<and> ap_state a = APPROVED"
  by (simp add: approval_ok_iff)

lemma release_claim_eq:
  assumes "store_ok st"
  shows "release_claim scope ref st = (case kept st (scope, ref) of
      None \<Rightarrow> (st, Inl ApprovalUnknown)
    | Some a \<Rightarrow> if ap_consumed a \<or> \<not> ap_claimed a then (st, Inl ValueError)
        else (put (scope, ref) (a\<lparr>ap_claimed := False\<rparr>) st, Inr (a\<lparr>ap_claimed := False\<rparr>)))"
  using store_okD [OF assms]
  by (auto simp: release_claim_def read_def replace_approval_if claimed_ok claimed_approved
      split: option.splits)

lemma consume_eq:
  assumes "store_ok st"
  shows "consume scope ref now st = (case kept st (scope, ref) of
      None \<Rightarrow> (st, Inl ApprovalUnknown)
    | Some a \<Rightarrow> if ap_state a \<noteq> APPROVED \<or> ap_consumed a \<or> \<not> ap_claimed a \<or> now < resolved_us a
        then (st, Inl ValueError)
        else (fst (put_indexed (scope, ref) (spent_record a now) st), Inr (spent_record a now)))"
  using store_okD [OF assms]
  by (auto simp: consume_def read_def replace_approval_if spent_record_def [symmetric]
      spent_record_ok put_indexed_pure split: option.splits)

lemma resolve_eq:
  assumes "store_ok st"
  shows "resolve scope ref person resolution reason now st = (case kept st (scope, ref) of
      None \<Rightarrow> (st, Inl ApprovalUnknown)
    | Some a \<Rightarrow> if ap_state a \<noteq> PENDING then (st, Inl ApprovalAlreadyResolved)
        else if deadline_us a \<le> now
        then (fst (put_indexed (scope, ref) (expired_record a) st), Inl ApprovalAlreadyResolved)
        else if person = [] \<or> now < requested_us a then (st, Inl ValueError)
        else (fst (put_indexed (scope, ref) (acted_record a person resolution reason now) st),
              Inr (acted_record a person resolution reason now)))"
  using store_okD [OF assms]
  by (auto simp: resolve_def read_def replace_approval_if acted_record_def [symmetric]
      acted_record_ok expired_record_ok put_indexed_pure split: option.splits)

lemma abandon_eq:
  assumes "store_ok st"
  shows "abandon scope ref st = (case kept st (scope, ref) of
      None \<Rightarrow> (st, Inl ApprovalUnknown)
    | Some a \<Rightarrow> if ap_state a \<noteq> PENDING \<or> ap_published a then (st, Inl ValueError)
        else (fst (drop_record (scope, ref) a st), Inr a))"
proof (cases "kept st (scope, ref)")
  case None
  then show ?thesis by (simp add: abandon_def read_def)
next
  case (Some a)
  obtain st' where "drop_record (scope, ref) a st = (st', Inr ())"
    using drop_record_ok [OF assms Some] by metis
  with Some store_okD [OF assms Some] pending_plain [of a] show ?thesis
    by (auto simp: abandon_def read_def)
qed

section \<open>Looking for the newest live record\<close>

text \<open>Still answering: not spent, not lapsed, and a rejection only while its wait runs.\<close>

definition live :: "int \<Rightarrow> approval \<Rightarrow> bool" where
  "live now a \<longleftrightarrow> \<not> ap_consumed a \<and> state_at a now \<noteq> EXPIRED \<and>
     \<not> (ap_state a = REJECTED \<and> deadline_us a \<le> now)"

definition answerable :: "int \<Rightarrow> bool \<Rightarrow> approval \<Rightarrow> bool" where
  "answerable now in_flight a \<longleftrightarrow> live now a \<and> (in_flight \<or> \<not> ap_claimed a \<and> ap_published a)"

lemma newest_live_in_eq:
  "(\<forall>k \<in> set ks. map_of d k \<noteq> None) \<Longrightarrow>
   newest_live_in d ks now in_flight =
     Inr (List.find (answerable now in_flight) (map (\<lambda>k. the (map_of d k)) ks))"
  by (induction ks) (auto simp: answerable_def live_def split: option.splits)

definition records_of :: "approval_store \<Rightarrow> question \<Rightarrow> approval list" where
  "records_of st q = map (\<lambda>k. the (kept st k)) (refs st q)"

lemma newest_live_eq:
  assumes "store_ok st"
  shows "newest_live st q now in_flight =
    Inr (List.find (answerable now in_flight) (rev (records_of st q)))"
proof -
  have "\<forall>k \<in> set (rev (refs st q)). kept st k \<noteq> None"
    using assms by (auto simp: store_ok_refs)
  from newest_live_in_eq [OF this] show ?thesis
    by (simp add: newest_live_def refs_def [symmetric] records_of_def rev_map)
qed

lemma records_of_mem:
  assumes "store_ok st"
  shows "a \<in> set (records_of st q) \<longleftrightarrow> kept st (store_key a) = Some a \<and> ap_question a = q"
proof
  assume "a \<in> set (records_of st q)"
  then obtain k where "k \<in> set (refs st q)" "a = the (kept st k)"
    by (auto simp: records_of_def)
  then show "kept st (store_key a) = Some a \<and> ap_question a = q"
    using assms by (auto simp: store_ok_refs dest: store_okD)
next
  assume *: "kept st (store_key a) = Some a \<and> ap_question a = q"
  then have "store_key a \<in> set (refs st q)"
    using assms by (auto simp: store_ok_refs)
  with * show "a \<in> set (records_of st q)"
    by (force simp: records_of_def)
qed

lemma open_if_absent_eq:
  assumes "store_ok st"
  shows "open_if_absent a now st = (case List.find (live now) (rev (records_of st (ap_question a))) of
      None \<Rightarrow> open_approval a st | Some found \<Rightarrow> (st, Inr found))"
proof -
  have "answerable now True = live now"
    by (rule ext) (simp add: answerable_def)
  then show ?thesis
    by (simp add: open_if_absent_def newest_live_eq [OF assms] split: option.split)
qed

lemma open_approval_eq:
  "open_approval a st =
     (if ap_published a \<or> ap_state a \<noteq> PENDING then (st, Inl ValueError)
      else if kept st (store_key a) \<noteq> None then (st, Inl ApprovalAlreadyExists)
      else (fst (open_approval a st), Inr a))"
  by (auto simp: open_approval_def store_key_def Let_def)

lemma open_approval_kept:
  "snd (open_approval a st) = Inr b \<Longrightarrow> kept (fst (open_approval a st)) = (kept st)(store_key a \<mapsto> a)"
  by (rule ext) (auto simp: open_approval_def store_key_def Let_def split: if_splits)

section \<open>Every operation keeps the invariant\<close>

lemma publish_ok [inv_intros]:
  assumes "store_ok st"
  shows "store_ok (fst (publish scope ref st))"
  using assms
  by (auto simp: publish_eq intro!: put_ok record_transitions dest: store_okD split: option.split)

lemma claim_ok [inv_intros]:
  assumes "store_ok st"
  shows "store_ok (fst (claim scope ref st))"
  using assms
  by (auto simp: claim_eq intro!: put_ok record_transitions dest: store_okD split: option.split)

lemma release_claim_ok [inv_intros]:
  assumes "store_ok st"
  shows "store_ok (fst (release_claim scope ref st))"
  using assms
  by (auto simp: release_claim_eq intro!: put_ok record_transitions
      dest: store_okD claimed_approved [OF store_okD(1)] split: option.split)

lemma consume_ok [inv_intros]:
  assumes "store_ok st"
  shows "store_ok (fst (consume scope ref now st))"
  using assms
  by (auto simp: consume_eq spent_record_ok not_less intro!: put_indexed_ok record_transitions
      dest: store_okD split: option.split)

lemma resolve_ok [inv_intros]:
  assumes "store_ok st"
  shows "store_ok (fst (resolve scope ref person resolution reason now st))"
  using assms
  by (auto simp: resolve_eq acted_record_ok not_less not_le
      intro!: put_indexed_ok record_transitions expired_transition
      dest: store_okD split: option.split)

lemma abandon_ok [inv_intros]:
  assumes "store_ok st"
  shows "store_ok (fst (abandon scope ref st))"
  using assms
  by (auto simp: abandon_eq split: option.split elim: drop_record_ok)

lemma open_ok [inv_intros]:
  assumes "store_ok st" and "approval_ok a"
  shows "store_ok (fst (open_approval a st))"
proof (cases "snd (open_approval a st)")
  case (Inl e)
  then have "fst (open_approval a st) = st"
    by (auto simp: open_approval_def Let_def split: if_splits)
  with assms show ?thesis by simp
next
  case (Inr b)
  then show ?thesis
    using open_approval_ok [OF assms, of "fst (open_approval a st)" b]
    by (metis prod.collapse)
qed

lemma open_if_absent_ok [inv_intros]:
  assumes "store_ok st" and "approval_ok a"
  shows "store_ok (fst (open_if_absent a now st))"
  using assms by (simp add: open_if_absent_eq open_ok split: option.split)

end
