(* ===== verification/StoreSweep.thy ===== *)
theory StoreSweep
  imports StoreOperations
begin

text \<open>
  The two halves of the sweep against the walk over every record they replace: looking only at the
  front of a due-time index ends exactly the waits that ran out, and drops exactly the records nothing
  can still need.
\<close>

section \<open>Shared facts about filtered dictionaries\<close>

lemma update_absent: "k \<notin> fst ` set d \<Longrightarrow> map snd (AList.delete k d) = map snd d"
  by (induction d) auto

lemma mset_filter_update:
  assumes "well_keyed d" "map_of d k = Some a" "P a" "\<not> P b"
  shows "mset (map f (filter P (map snd d))) =
    add_mset (f a) (mset (map f (filter P (map snd (AList.update k b d)))))"
  using assms
proof (induction d)
  case Nil
  then show ?case by simp
next
  case (Cons p d)
  obtain k' c where p: "p = (k', c)" by (cases p)
  show ?case
  proof (cases "k' = k")
    case True
    with Cons.prems p show ?thesis by simp
  next
    case False
    with Cons p show ?thesis by simp
  qed
qed

lemma mset_filter_delete:
  assumes "well_keyed d" "map_of d k = Some a" "P a"
  shows "mset (filter P (map snd d)) = add_mset a (mset (filter P (map snd (AList.delete k d))))"
  using assms
proof (induction d)
  case Nil
  then show ?case by simp
next
  case (Cons p d)
  obtain k' c where p: "p = (k', c)" by (cases p)
  show ?case
  proof (cases "k' = k")
    case True
    with Cons.prems p show ?thesis by (simp add: update_absent)
  next
    case False
    with Cons p show ?thesis by simp
  qed
qed

lemma filter_none:
  assumes "\<And>k a. map_of d k = Some a \<Longrightarrow> \<not> P a" "well_keyed d"
  shows "filter P (map snd d) = []"
proof -
  have "\<not> P a" if "(k, a) \<in> set d" for k a
    using assms(1) [of k a] well_keyed_mem [OF assms(2)] that by simp
  then show ?thesis by (auto simp: filter_empty_conv)
qed

lemma map_unchanged:
  assumes "\<And>k a. map_of d k = Some a \<Longrightarrow> f a = a" "well_keyed d"
  shows "map (\<lambda>(k, a). (k, f a)) d = d"
proof -
  have "f a = a" if "(k, a) \<in> set d" for k a
    using assms(1) [of k a] well_keyed_mem [OF assms(2)] that by simp
  then show ?thesis by (auto intro: map_idI)
qed

lemma map_update_absorb:
  assumes "well_keyed d" "map_of d k = Some a" "f b = f a"
  shows "map (\<lambda>(k, a). (k, f a)) (AList.update k b d) = map (\<lambda>(k, a). (k, f a)) d"
  using assms
proof (induction d)
  case Nil
  then show ?case by simp
next
  case (Cons p d)
  obtain k' c where p: "p = (k', c)" by (cases p)
  show ?case
  proof (cases "k' = k")
    case True
    with Cons.prems p show ?thesis by simp
  next
    case False
    with Cons p show ?thesis by simp
  qed
qed

lemma filter_delete_absorb:
  assumes "well_keyed d" "map_of d k = Some a" "\<not> P a"
  shows "filter (\<lambda>(k, a). P a) (AList.delete k d) = filter (\<lambda>(k, a). P a) d"
proof -
  have *: "k' \<noteq> k" if "(k', a') \<in> set d" "P a'" for k' a'
    using assms(2,3) well_keyed_mem [OF assms(1), of k' a'] that by auto
  show ?thesis
    unfolding filter_delete filter_filter
    by (rule filter_cong) (auto dest: *)
qed

section \<open>Ending the waits that ran out\<close>

definition ran_out :: "int \<Rightarrow> approval \<Rightarrow> bool" where
  "ran_out now a \<longleftrightarrow> ap_state a = PENDING \<and> deadline_us a \<le> now"

text \<open>What the sweep makes of one record, whatever the index says.\<close>

definition expire_at :: "int \<Rightarrow> approval \<Rightarrow> approval" where
  "expire_at now a = (if ran_out now a then expired_record a else a)"

lemma not_ran_out_expired [simp]: "\<not> ran_out now (expired_record a)"
  by (simp add: ran_out_def)

lemma due_frame:
  "records_ok (st\<lparr>due := h\<rparr>) = records_ok st" "questions_ok (st\<lparr>due := h\<rparr>) = questions_ok st"
  "lapsing_ok (st\<lparr>due := h\<rparr>) = lapsing_ok st"
  by (simp_all add: records_ok_def questions_ok_def lapsing_ok_def refs_def)

lemma lapsing_frame:
  "records_ok (st\<lparr>lapsing := h\<rparr>) = records_ok st" "questions_ok (st\<lparr>lapsing := h\<rparr>) = questions_ok st"
  "due_ok (st\<lparr>lapsing := h\<rparr>) = due_ok st"
  by (simp_all add: records_ok_def questions_ok_def due_ok_def refs_def)

lemma pop_due_ok:
  assumes "store_ok st" and "heapfront (due st) = Some (t, k)"
    and "\<And>a. kept st k = Some a \<Longrightarrow> ap_state a = PENDING \<Longrightarrow>
           (deadline_us a, k) \<in> set h"
    and "sorted h" and "set (heappop (due st)) \<subseteq> set h"
  shows "store_ok (st\<lparr>due := h\<rparr>)"
proof -
  have "due_ok (st\<lparr>due := h\<rparr>)"
    unfolding due_ok_def
  proof (intro conjI allI impI)
    show "sorted (due (st\<lparr>due := h\<rparr>))" using assms(4) by simp
    fix k' a
    assume "kept (st\<lparr>due := h\<rparr>) k' = Some a \<and> ap_state a = PENDING"
    then have a: "kept st k' = Some a" "ap_state a = PENDING" by simp_all
    have "(deadline_us a, k') \<in> set (due st)"
      by (rule store_ok_due [OF assms(1) a])
    then show "(deadline_us a, k') \<in> set (due (st\<lparr>due := h\<rparr>))"
      using assms(3,5) a heapq.pop_keeps [OF assms(2), of "(deadline_us a, k')"]
      by (cases "k' = k") auto
  qed
  then show ?thesis
    using assms(1) by (simp add: store_ok_def due_frame)
qed

lemma front_at_deadline:
  assumes "store_ok st" "heapfront (due st) = Some (t, k)" "kept st k = Some a" "ap_state a = PENDING"
  shows "t \<le> deadline_us a"
  using heapq.front_least [OF _ assms(2) store_ok_due [OF assms(1,3,4)]] assms(1)
  by (auto simp: store_ok_def due_ok_def)

definition swept :: "int \<Rightarrow> approval_store \<Rightarrow> (key, approval) dict" where
  "swept now st = map (\<lambda>(k, a). (k, expire_at now a)) (by_reference st)"

definition ended_now :: "int \<Rightarrow> approval_store \<Rightarrow> approval list" where
  "ended_now now st = map expired_record (filter (ran_out now) (map snd (by_reference st)))"

lemma sweep_frame [simp]:
  "swept now (st\<lparr>due := h\<rparr>) = swept now st" "ended_now now (st\<lparr>due := h\<rparr>) = ended_now now st"
  by (simp_all add: swept_def ended_now_def)

text \<open>One turn of the loop that ends a wait: the record is replaced and its lapse indexed.\<close>

lemma put_indexed_fields:
  "approval_ok b \<Longrightarrow> by_reference (fst (put_indexed k b st)) = AList.update k b (by_reference st)"
  "approval_ok b \<Longrightarrow> by_question (fst (put_indexed k b st)) = by_question st"
  "approval_ok b \<Longrightarrow> fst (put_indexed k b (st\<lparr>due := h\<rparr>)) = (fst (put_indexed k b st))\<lparr>due := h\<rparr>"
  by (auto simp: put_indexed_pure put_def split: option.split)

lemma expire_turn:
  assumes "store_ok st" "kept st k = Some a" "ran_out now a"
  defines "st' \<equiv> fst (put_indexed k (expired_record a) st)"
  shows "store_ok st'" "swept now st' = swept now st" "by_question st' = by_question st"
    "mset (ended_now now st) = add_mset (expired_record a) (mset (ended_now now st'))"
proof -
  have a: "approval_ok a" "ap_state a = PENDING"
    using assms(2,3) store_okD [OF assms(1)] by (auto simp: ran_out_def)
  have e: "approval_ok (expired_record a)"
    by (rule expired_record_ok [OF a])
  note wk = store_ok_well_keyed [OF assms(1)]
  show "store_ok st'"
    unfolding st'_def using assms(1,2) expired_transition [OF a] by (rule put_indexed_ok)
  show "by_question st' = by_question st"
    by (simp add: st'_def put_indexed_fields [OF e])
  show "swept now st' = swept now st"
    unfolding swept_def st'_def put_indexed_fields [OF e]
    by (rule map_update_absorb [OF wk assms(2)]) (use assms(3) in \<open>simp add: expire_at_def\<close>)
  show "mset (ended_now now st) = add_mset (expired_record a) (mset (ended_now now st'))"
    unfolding ended_now_def st'_def put_indexed_fields [OF e]
    by (rule mset_filter_update [where P = "ran_out now" and f = expired_record, OF wk assms(2,3)]) simp
qed

lemma expire_loop_walk:
  assumes "store_ok st"
  shows "\<exists>st' ended'. expire_loop now st ended = (st', Inr ended') \<and> store_ok st' \<and>
    by_reference st' = swept now st \<and> by_question st' = by_question st \<and>
    mset ended' = mset ended + mset (ended_now now st)"
  using assms
proof (induction now st ended rule: expire_loop.induct)
  case (1 now st ended)
  note ok = "1.prems"
  show ?case
  proof (cases "heapfront (due st)")
    case None
    then have "set (due st) = {}" by (simp add: heapq.front_None)
    then have idle: "\<not> ran_out now a" if "kept st k = Some a" for k a
      using store_ok_due [OF ok that] by (auto simp: ran_out_def)
    then show ?thesis
      using ok None store_ok_well_keyed [OF ok]
      by (simp add: expire_loop.simps [of now st] swept_def ended_now_def map_unchanged filter_none
          expire_at_def)
  next
    case (Some tk)
    obtain t k where front: "heapfront (due st) = Some (t, k)"
      using Some by (cases tk) auto
    show ?thesis
    proof (cases "now < t")
      case True
      have idle: "\<not> ran_out now a" if "kept st k' = Some a" for k' a
      proof
        assume "ran_out now a"
        then have "(deadline_us a, k') \<in> set (due st)" "deadline_us a \<le> now"
          using store_ok_due [OF ok that] by (auto simp: ran_out_def)
        with heapq.front_least [OF _ front, of "(deadline_us a, k')"] ok True
        show False by (auto simp: store_ok_def due_ok_def)
      qed
      then show ?thesis
        using ok front True store_ok_well_keyed [OF ok]
        by (simp add: expire_loop.simps [of now st] swept_def ended_now_def map_unchanged filter_none
            expire_at_def)
    next
      case ripe: False
      let ?h = "heappop (due st)"
      let ?st1 = "st\<lparr>due := ?h\<rparr>"
      have sorted: "sorted ?h"
        using ok by (auto simp: store_ok_def due_ok_def intro: heapq.pop_ok)
      show ?thesis
      proof (cases "kept st k")
        case None
        have ok1: "store_ok ?st1"
          using None sorted by (intro pop_due_ok [OF ok front]) auto
        from "1.IH"(1) [OF front refl ripe refl, OF _ ok1] None front ripe show ?thesis
          by (simp add: expire_loop.simps [of now st])
      next
        case (Some a)
        show ?thesis
        proof (cases "ap_state a = PENDING")
          case False
          have ok1: "store_ok ?st1"
            using Some False sorted by (intro pop_due_ok [OF ok front]) auto
          from "1.IH"(2) [OF front refl ripe refl, of a, OF _ _ ok1] Some False front ripe
          show ?thesis by (simp add: expire_loop.simps [of now st])
        next
          case pend: True
          show ?thesis
          proof (cases "now < deadline_us a")
            case True
            let ?h' = "heappush (deadline_us a, k) ?h"
            have ok2: "store_ok (?st1\<lparr>due := ?h'\<rparr>)"
              using pop_due_ok [OF ok front, of ?h'] Some sorted
              by (auto simp: heapq.push_content heapq.push_ok)
            from "1.IH"(3) [OF front refl ripe refl, of a, OF _ _ True] ok2 Some pend True front ripe
            show ?thesis by (simp add: expire_loop.simps [of now st])
          next
            case False
            then have out: "ran_out now a" using pend by (simp add: ran_out_def)
            have valid: "approval_ok (expired_record a)"
              using store_okD [OF ok Some] pend by (simp add: expired_record_ok)
            note turn = expire_turn [OF ok Some out]
            let ?st3 = "fst (put_indexed k (expired_record a) ?st1)"
            have st3: "?st3 = (fst (put_indexed k (expired_record a) st))\<lparr>due := ?h\<rparr>"
              by (rule put_indexed_fields(3) [OF valid])
            have ok3: "store_ok ?st3"
              unfolding st3 using front sorted put_indexed_kept [OF valid, of k st]
              by (intro pop_due_ok [OF turn(1)]) auto
            have quiet: "snd (put_indexed k (expired_record a) ?st1) = Inr ()"
              by (simp add: put_indexed_pure valid)
            note rec = "1.IH"(4) [OF front refl ripe refl, of a "expired_record a" "()", OF _ _ False _ quiet]
            from rec ok3 Some pend False front ripe valid quiet turn show ?thesis
              by (simp add: expire_loop.simps [of now st] replace_approval_if st3)
          qed
        qed
      qed
    qed
  qed
qed


section \<open>Dropping the records nothing can still need\<close>

definition useless :: "int \<Rightarrow> approval \<Rightarrow> bool" where
  "useless now a \<longleftrightarrow> (\<exists>t. lapses_at a = Some t \<and> t \<le> now)"

definition remaining :: "int \<Rightarrow> approval_store \<Rightarrow> (key, approval) dict" where
  "remaining now st = filter (\<lambda>(k, a). \<not> useless now a) (by_reference st)"

definition useless_now :: "int \<Rightarrow> approval_store \<Rightarrow> approval list" where
  "useless_now now st = filter (useless now) (map snd (by_reference st))"

definition remains :: "int \<Rightarrow> approval_store \<Rightarrow> key \<Rightarrow> bool" where
  "remains now st k = (case kept st k of None \<Rightarrow> False | Some a \<Rightarrow> \<not> useless now a)"

definition refs_after :: "int \<Rightarrow> approval_store \<Rightarrow> question \<Rightarrow> key list" where
  "refs_after now st q = filter (remains now st) (refs st q)"

lemma forget_frame [simp]:
  "remaining now (st\<lparr>lapsing := h\<rparr>) = remaining now st"
  "useless_now now (st\<lparr>lapsing := h\<rparr>) = useless_now now st"
  "refs_after now (st\<lparr>lapsing := h\<rparr>) = refs_after now st"
proof -
  show "remaining now (st\<lparr>lapsing := h\<rparr>) = remaining now st"
    "useless_now now (st\<lparr>lapsing := h\<rparr>) = useless_now now st"
    by (simp_all add: remaining_def useless_now_def)
  have "remains now (st\<lparr>lapsing := h\<rparr>) = remains now st"
    by (rule ext) (simp add: remains_def)
  moreover have "refs (st\<lparr>lapsing := h\<rparr>) = refs st"
    by (rule ext) (simp add: refs_def)
  ultimately show "refs_after now (st\<lparr>lapsing := h\<rparr>) = refs_after now st"
    by (intro ext) (simp only: refs_after_def)
qed

lemma pop_lapsing_ok:
  assumes "store_ok st" and "heapfront (lapsing st) = Some (t, k)"
    and "\<And>a t'. kept st k = Some a \<Longrightarrow> lapses_at a = Some t' \<Longrightarrow> (t', k) \<in> set h"
    and "sorted h" and "set (heappop (lapsing st)) \<subseteq> set h"
  shows "store_ok (st\<lparr>lapsing := h\<rparr>)"
proof -
  have "lapsing_ok (st\<lparr>lapsing := h\<rparr>)"
    unfolding lapsing_ok_def
  proof (intro conjI allI impI)
    show "sorted (lapsing (st\<lparr>lapsing := h\<rparr>))" using assms(4) by simp
    fix k' a t'
    assume "kept (st\<lparr>lapsing := h\<rparr>) k' = Some a \<and> lapse_instant a = Inr (Some t')"
    then have a: "kept st k' = Some a" "lapse_instant a = Inr (Some t')" by simp_all
    then have l: "lapses_at a = Some t'"
      using store_okD [OF assms(1) a(1)] by (simp add: lapse_instant_ok)
    have "(t', k') \<in> set (lapsing st)"
      by (rule store_ok_lapsing [OF assms(1) a])
    then show "(t', k') \<in> set (lapsing (st\<lparr>lapsing := h\<rparr>))"
      using assms(3,5) a l heapq.pop_keeps [OF assms(2), of "(t', k')"] by (cases "k' = k") auto
  qed
  then show ?thesis
    using assms(1) by (simp add: store_ok_def lapsing_frame)
qed

lemma useless_indexed:
  assumes "store_ok st" "kept st k = Some a" "useless now a"
  obtains t where "(t, k) \<in> set (lapsing st)" "t \<le> now"
proof -
  obtain t where "lapses_at a = Some t" "t \<le> now"
    using assms(3) by (auto simp: useless_def)
  with store_okD(1) [OF assms(1,2)] store_ok_lapsing [OF assms(1,2)] that show thesis
    by (simp add: lapse_instant_ok)
qed

lemma forget_idle:
  assumes "store_ok st" "\<And>k a. kept st k = Some a \<Longrightarrow> \<not> useless now a"
  shows "remaining now st = by_reference st" "useless_now now st = []" "refs_after now st = refs st"
proof -
  note wk = store_ok_well_keyed [OF assms(1)]
  show "useless_now now st = []"
    unfolding useless_now_def by (rule filter_none [OF assms(2) wk])
  have "\<not> useless now a" if "(k, a) \<in> set (by_reference st)" for k a
    using assms(2) [of k a] well_keyed_mem [OF wk] that by simp
  then show "remaining now st = by_reference st"
    unfolding remaining_def by (auto intro: filter_True)
  show "refs_after now st = refs st"
  proof
    fix q
    have "remains now st k" if k: "k \<in> set (refs st q)" for k
    proof -
      obtain a where "kept st k = Some a" using k by (auto simp: store_ok_refs [OF assms(1)])
      with assms(2) show ?thesis by (simp add: remains_def)
    qed
    then show "refs_after now st q = refs st q"
      unfolding refs_after_def by (auto intro: filter_True)
  qed
qed

lemma forget_turn:
  assumes "store_ok st" "kept st k = Some a" "useless now a" "drop_record k a st = (st', Inr ())"
  shows "store_ok st'" "remaining now st' = remaining now st" "refs_after now st' = refs_after now st"
    "mset (useless_now now st) = add_mset a (mset (useless_now now st'))" "kept st' k = None"
    "due st' = due st" "lapsing st' = lapsing st"
proof -
  note wk = store_ok_well_keyed [OF assms(1)]
  have d: "store_ok st'" "by_reference st' = AList.delete k (by_reference st)"
    "refs st' = (refs st)(ap_question a := remove1 k (refs st (ap_question a)))"
    "due st' = due st" "lapsing st' = lapsing st"
    using drop_record_ok [OF assms(1,2)] assms(4) by (metis Pair_inject)+
  show "store_ok st'" "due st' = due st" "lapsing st' = lapsing st"
    by (fact d)+
  show "kept st' k = None"
    by (simp add: d(2))
  show "remaining now st' = remaining now st"
    unfolding remaining_def d(2)
    by (rule filter_delete_absorb [OF wk assms(2)]) (simp add: assms(3))
  show "mset (useless_now now st) = add_mset a (mset (useless_now now st'))"
    unfolding useless_now_def d(2)
    by (rule mset_filter_delete [where P = "useless now", OF wk assms(2,3)])
  show "refs_after now st' = refs_after now st"
  proof
    fix q
    have dist: "distinct (refs st (ap_question a))"
      using assms(1) by (simp add: store_ok_def questions_ok_def)
    have gone: "\<not> remains now st k"
      by (simp add: remains_def assms(2,3))
    have same: "remains now st' k' = (k' \<noteq> k \<and> remains now st k')" for k'
      by (simp add: remains_def d(2))
    have "filter (remains now st') (remove1 k xs) = filter (remains now st) xs"
      if "distinct xs" for xs
      unfolding distinct_remove1_removeAll [OF that] removeAll_filter_not_eq filter_filter
      by (rule filter_cong) (use gone in \<open>auto simp: same\<close>)
    moreover have "filter (remains now st') xs = filter (remains now st) xs" if "k \<notin> set xs" for xs
      by (rule filter_cong) (use that in \<open>auto simp: same\<close>)
    moreover have "k \<notin> set (refs st q)" if "q \<noteq> ap_question a"
      using that assms(2) by (auto simp: store_ok_refs [OF assms(1)])
    ultimately show "refs_after now st' q = refs_after now st q"
      using dist by (simp add: refs_after_def d(3))
  qed
qed

lemma drop_record_lapsing_frame:
  "drop_record k a (st\<lparr>lapsing := h\<rparr>) =
     ((fst (drop_record k a st))\<lparr>lapsing := h\<rparr>, snd (drop_record k a st))"
  by (simp add: drop_record_def Let_def split: sum.split)

lemma forget_loop_walk:
  assumes "store_ok st"
  shows "\<exists>st' forgotten'. forget_loop now st forgotten = (st', Inr forgotten') \<and> store_ok st' \<and>
    by_reference st' = remaining now st \<and> refs st' = refs_after now st \<and>
    mset forgotten' = mset forgotten + mset (useless_now now st)"
  using assms
proof (induction now st forgotten rule: forget_loop.induct)
  case (1 now st forgotten)
  note ok = "1.prems"
  show ?case
  proof (cases "heapfront (lapsing st)")
    case None
    then have "set (lapsing st) = {}" by (simp add: heapq.front_None)
    then have "\<not> useless now a" if "kept st k = Some a" for k a
      using useless_indexed [OF ok that] by auto
    from forget_idle [OF ok this] ok None show ?thesis
      by (simp add: forget_loop.simps [of now st])
  next
    case (Some tk)
    obtain t k where front: "heapfront (lapsing st) = Some (t, k)"
      using Some by (cases tk) auto
    have sortedl: "sorted (lapsing st)"
      using ok by (simp add: store_ok_def lapsing_ok_def)
    show ?thesis
    proof (cases "now < t")
      case True
      have "\<not> useless now a" if a: "kept st k' = Some a" for k' a
      proof
        assume u: "useless now a"
        obtain t' where "(t', k') \<in> set (lapsing st)" "t' \<le> now"
          by (rule useless_indexed [OF ok a u])
        with heapq.front_least [OF sortedl front] True show False by fastforce
      qed
      from forget_idle [OF ok this] ok front True show ?thesis
        by (simp add: forget_loop.simps [of now st])
    next
      case ripe: False
      let ?h = "heappop (lapsing st)"
      let ?st1 = "st\<lparr>lapsing := ?h\<rparr>"
      have sorted: "sorted ?h"
        using sortedl by (rule heapq.pop_ok)
      show ?thesis
      proof (cases "kept st k")
        case None
        have ok1: "store_ok ?st1"
          using None sorted by (intro pop_lapsing_ok [OF ok front]) auto
        from "1.IH"(1) [OF front refl ripe refl, OF _ ok1] None front ripe show ?thesis
          by (simp add: forget_loop.simps [of now st])
      next
        case (Some a)
        have valid: "approval_ok a"
          by (rule store_okD [OF ok Some])
        have judged: "is_of_no_further_use a now = Inr (useless now a)"
          by (simp add: no_further_use_ok [OF valid] useless_def)
        show ?thesis
        proof (cases "useless now a")
          case False
          let ?st2 = "fst (index_lapse k a ?st1)"
          define h' where "h' = (case lapses_at a of None \<Rightarrow> ?h | Some t' \<Rightarrow> heappush (t', k) ?h)"
          have h': "?st2 = st\<lparr>lapsing := h'\<rparr>" "sorted h'" "set ?h \<subseteq> set h'"
            and idx: "\<And>t'. lapses_at a = Some t' \<Longrightarrow> (t', k) \<in> set h'"
            using sorted by (auto simp: h'_def index_lapse_pure [OF valid] heapq.push_content
                heapq.push_ok split: option.split)
          have ok2: "store_ok ?st2"
            unfolding h'(1) using Some idx h'(2,3) by (intro pop_lapsing_ok [OF ok front]) auto
          have quiet: "snd (index_lapse k a ?st1) = Inr ()"
            by (simp add: index_lapse_pure [OF valid] split: option.split)
          from "1.IH"(2) [OF front refl ripe refl, of a "useless now a" "()", OF _ judged _ quiet]
            ok2 Some False front ripe judged quiet
          show ?thesis by (simp add: forget_loop.simps [of now st] h'(1))
        next
          case True
          obtain sd where drop: "drop_record k a st = (sd, Inr ())"
            using drop_record_ok [OF ok Some] by metis
          note turn = forget_turn [OF ok Some True drop]
          have st3: "fst (drop_record k a ?st1) = sd\<lparr>lapsing := ?h\<rparr>"
            and quiet: "snd (drop_record k a ?st1) = Inr ()"
            by (simp_all add: drop_record_lapsing_frame drop)
          have ok3: "store_ok (fst (drop_record k a ?st1))"
            unfolding st3 using front turn sorted by (intro pop_lapsing_ok [OF turn(1)]) auto
          from "1.IH"(3) [OF front refl ripe refl, of a "useless now a" "()", OF _ judged _ quiet]
            ok3 Some True front ripe judged quiet turn
          show ?thesis by (simp add: forget_loop.simps [of now st] st3)
        qed
      qed
    qed
  qed
qed

section \<open>The sweeps return the ended and the forgotten records in store-key order\<close>

lemma sorted_by_store_key:
  assumes "store_ok st" "mset xs = mset (map f (filter P (map snd (by_reference st))))"
    and "\<And>a. store_key (f a) = store_key a"
  shows "sort_key store_key xs = sort_key store_key (map f (filter P (map snd (by_reference st))))"
proof -
  let ?ys = "map f (filter P (map snd (by_reference st)))"
  have keys: "map store_key (map snd (by_reference st)) = map fst (by_reference st)"
  proof -
    have "store_key a = k" if "(k, a) \<in> set (by_reference st)" for k a
      using that assms(1) store_okD(2) [OF assms(1)] well_keyed_mem [OF store_ok_well_keyed [OF assms(1)]]
      by simp
    then show ?thesis by auto
  qed
  have "map store_key ?ys = map store_key (filter P (map snd (by_reference st)))"
    by (simp add: assms(3) comp_def)
  moreover have "distinct (map store_key (filter P (map snd (by_reference st))))"
    by (rule distinct_map_filter) (simp only: keys store_ok_well_keyed [OF assms(1)])
  ultimately have "distinct (map store_key ?ys)" by (simp only:)
  then have inj: "inj_on store_key (set ?ys)"
    by (rule distinct_map [THEN iffD1, THEN conjunct2])
  have "set xs = set ?ys"
    using assms(2) by (metis mset_eq_setD)
  with inj have "inj_on store_key (set xs)" by (simp only:)
  then show ?thesis
    using assms(2) by (intro sort_key_inj_key_eq) auto
qed

lemma expire_past_walk:
  assumes "store_ok st"
  obtains st' where
    "expire_past now st = (st', Inr (sort_key store_key (ended_now now st)))"
    "store_ok st'" "by_reference st' = swept now st" "by_question st' = by_question st"
proof -
  obtain st' ended where run: "expire_loop now st [] = (st', Inr ended)" "store_ok st'"
    "by_reference st' = swept now st" "by_question st' = by_question st"
    "mset ended = mset (ended_now now st)"
    using expire_loop_walk [OF assms, of now "[]"] by auto
  have "sort_key store_key ended = sort_key store_key (ended_now now st)"
    using sorted_by_store_key [OF assms, of ended expired_record] run(5)
    by (simp add: ended_now_def)
  with that run show thesis by (simp add: expire_past_def)
qed

lemma forget_lapsed_walk:
  assumes "store_ok st"
  obtains st' where
    "forget_lapsed now st = (st', Inr (sort_key store_key (useless_now now st)))"
    "store_ok st'" "by_reference st' = remaining now st" "refs st' = refs_after now st"
proof -
  obtain st' forgotten where run: "forget_loop now st [] = (st', Inr forgotten)" "store_ok st'"
    "by_reference st' = remaining now st" "refs st' = refs_after now st"
    "mset forgotten = mset (useless_now now st)"
    using forget_loop_walk [OF assms, of now "[]"] by auto
  have "sort_key store_key forgotten = sort_key store_key (useless_now now st)"
    using sorted_by_store_key [OF assms, of forgotten id] run(5)
    by (simp add: useless_now_def)
  with that run show thesis by (simp add: forget_lapsed_def)
qed

lemma expire_past_ok [inv_intros]: "store_ok st \<Longrightarrow> store_ok (fst (expire_past now st))"
  by (metis expire_past_walk fst_conv)

lemma forget_lapsed_ok [inv_intros]: "store_ok st \<Longrightarrow> store_ok (fst (forget_lapsed now st))"
  by (metis forget_lapsed_walk fst_conv)

end
