(* ===== verification/StoreRuns.thy ===== *)
theory StoreRuns
  imports StoreSweep
begin

text \<open>
  The approval store as a machine: any sequence of its operations, in the order their calls take the
  store's lock, with the answer each of them gave. What holds of every such run is what the code calls
  one resolution authorises one execution.
\<close>

section \<open>Runs\<close>

datatype store_op =
    OpOpen approval
  | OpOpenIfAbsent approval int
  | OpPublish string string
  | OpAbandon string string
  | OpResolve string string string approval_resolution "string option" int
  | OpClaim string string
  | OpReleaseClaim string string
  | OpConsume string string int
  | OpExpirePast int
  | OpForgetLapsed int

definition one :: "approval_store \<times> approval result \<Rightarrow> approval_store \<times> approval list result" where
  "one p = (fst p, case snd p of Inl e \<Rightarrow> Inl e | Inr a \<Rightarrow> Inr [a])"

fun apply_op :: "store_op \<Rightarrow> (approval_store, approval list) op" where
  "apply_op (OpOpen a) st = one (open_approval a st)"
| "apply_op (OpOpenIfAbsent a now) st = one (open_if_absent a now st)"
| "apply_op (OpPublish s r) st = one (publish s r st)"
| "apply_op (OpAbandon s r) st = one (abandon s r st)"
| "apply_op (OpResolve s r p res why now) st = one (resolve s r p res why now st)"
| "apply_op (OpClaim s r) st = one (claim s r st)"
| "apply_op (OpReleaseClaim s r) st = one (release_claim s r st)"
| "apply_op (OpConsume s r now) st = one (consume s r now st)"
| "apply_op (OpExpirePast now) st = expire_past now st"
| "apply_op (OpForgetLapsed now) st = forget_lapsed now st"

type_synonym answered = "store_op \<times> approval list result"

fun run_ops :: "store_op list \<Rightarrow> approval_store \<Rightarrow> approval_store \<times> answered list" where
  "run_ops [] st = (st, [])"
| "run_ops (x # xs) st =
     (let (st1, r) = apply_op x st; (st2, log) = run_ops xs st1 in (st2, (x, r) # log))"

text \<open>Every \<open>Approval\<close> a caller can hand in is one its constructor accepted.\<close>

fun op_ok :: "store_op \<Rightarrow> bool" where
  "op_ok (OpOpen a) = approval_ok a"
| "op_ok (OpOpenIfAbsent a now) = approval_ok a"
| "op_ok _ = True"

lemma one_simps [simp]: "fst (one p) = fst p"
  "snd (one p) = Inr as \<longleftrightarrow> (\<exists>a. snd p = Inr a \<and> as = [a])"
  by (auto simp: one_def split: sum.split)

lemma apply_op_ok: "store_ok st \<Longrightarrow> op_ok x \<Longrightarrow> store_ok (fst (apply_op x st))"
  by (cases x) (simp_all add: inv_intros)

lemma run_ops_ok: "store_ok st \<Longrightarrow> \<forall>x \<in> set xs. op_ok x \<Longrightarrow> store_ok (fst (run_ops xs st))"
proof (induction xs arbitrary: st)
  case Nil
  then show ?case by simp
next
  case (Cons x xs)
  have "store_ok (fst (apply_op x st))"
    using Cons.prems by (simp add: apply_op_ok)
  with Cons show ?case by (simp add: case_prod_unfold Let_def)
qed

section \<open>What a sweep does to one record\<close>

lemma map_of_swept: "map_of (swept now st) k = map_option (expire_at now) (kept st k)"
  unfolding swept_def map_of_map by simp

lemma map_of_remaining:
  assumes "store_ok st"
  shows "map_of (remaining now st) k = (if remains now st k then kept st k else None)"
proof -
  have *: "map_of (filter (\<lambda>(k, a). P a) d) k =
      (case map_of d k of None \<Rightarrow> None | Some a \<Rightarrow> if P a then Some a else None)"
    if "well_keyed d" for P :: "approval \<Rightarrow> bool" and d :: "(key, approval) dict"
    using that
  proof (induction d)
    case Nil
    then show ?case by simp
  next
    case (Cons p d)
    obtain k' a where p: "p = (k', a)" by (cases p)
    have "map_of d k' = None"
      using Cons.prems by (simp add: p map_of_eq_None_iff)
    with Cons show ?case
      by (cases "k = k'") (auto simp: p split: option.split)
  qed
  show ?thesis
    using * [OF store_ok_well_keyed [OF assms]]
    by (simp add: remaining_def remains_def split: option.split)
qed

lemma expire_past_kept:
  assumes "store_ok st"
  shows "kept (fst (expire_past now st)) k = map_option (expire_at now) (kept st k)"
  by (metis expire_past_walk [OF assms] fst_conv map_of_swept)

lemma forget_lapsed_kept:
  assumes "store_ok st"
  shows "kept (fst (forget_lapsed now st)) k = (if remains now st k then kept st k else None)"
  by (metis forget_lapsed_walk [OF assms] fst_conv map_of_remaining [OF assms])

lemma abandon_kept:
  assumes "store_ok st" "kept st (s, r) = Some a" "ap_state a = PENDING" "\<not> ap_published a"
  shows "kept (fst (abandon s r st)) = (kept st)((s, r) := None)"
proof (rule ext)
  fix k
  obtain st' where "drop_record (s, r) a st = (st', Inr ())"
    "by_reference st' = AList.delete (s, r) (by_reference st)"
    using drop_record_ok [OF assms(1,2)] by metis
  then show "kept (fst (abandon s r st)) k = ((kept st)((s, r) := None)) k"
    using assms by (simp add: abandon_eq)
qed

section \<open>Conservation of executions\<close>

text \<open>An execution a person authorised and nothing has taken.\<close>

definition outstanding :: "approval_store \<Rightarrow> key \<Rightarrow> nat" where
  "outstanding st k = (case kept st k of
      None \<Rightarrow> 0 | Some a \<Rightarrow> if ap_state a = APPROVED \<and> \<not> ap_consumed a then 1 else 0)"

fun grants_execution :: "key \<Rightarrow> answered \<Rightarrow> bool" where
  "grants_execution k (OpResolve s r p APPROVE why now, Inr _) = ((s, r) = k)"
| "grants_execution k _ = False"

fun spends_execution :: "key \<Rightarrow> answered \<Rightarrow> bool" where
  "spends_execution k (OpConsume s r now, Inr _) = ((s, r) = k)"
| "spends_execution k _ = False"

definition times :: "(answered \<Rightarrow> bool) \<Rightarrow> answered list \<Rightarrow> nat" where
  "times P log = length (filter P log)"

lemma times_simps [simp]: "times P [] = 0" "times P (x # xs) = (if P x then Suc (times P xs) else times P xs)"
  by (simp_all add: times_def)

definition weight :: "approval option \<Rightarrow> nat" where
  "weight v = (case v of
      None \<Rightarrow> 0 | Some a \<Rightarrow> if ap_state a = APPROVED \<and> \<not> ap_consumed a then 1 else 0)"

lemma outstanding_weight: "outstanding st k = weight (kept st k)"
  by (simp add: outstanding_def weight_def)

lemma weight_simps [simp]:
  "weight None = 0" "weight (Some (a\<lparr>ap_published := b\<rparr>)) = weight (Some a)"
  "weight (Some (a\<lparr>ap_claimed := b\<rparr>)) = weight (Some a)"
  "weight (Some (expired_record a)) = 0" "weight (Some (spent_record a now)) = 0"
  "ap_state a = PENDING \<Longrightarrow> weight (Some a) = 0"
  "weight (Some (acted_record a p res why now)) =
     (if res = APPROVE \<and> \<not> ap_consumed a then 1 else 0)"
  by (cases res; simp add: weight_def expired_record_def spent_record_def acted_record_def)+

lemma weight_expire_at: "weight (map_option (expire_at now) v) = weight v"
  by (cases v) (auto simp: expire_at_def ran_out_def)

lemma put_weight:
  "outstanding (put k' b st) k = (if k = k' then weight (Some b) else outstanding st k)"
  by (simp add: outstanding_weight)

lemma open_fails: "snd (open_approval a st) = Inl e \<Longrightarrow> fst (open_approval a st) = st"
  by (auto simp: open_approval_def Let_def split: if_splits)

lemma open_succeeds:
  assumes "snd (open_approval a st) = Inr b"
  shows "kept st (store_key a) = None" "ap_state a = PENDING" "\<not> ap_published a" "b = a"
    "kept (fst (open_approval a st)) = (kept st)(store_key a \<mapsto> a)"
  using assms open_approval_kept [OF assms]
  by (auto simp: open_approval_def store_key_def Let_def split: if_splits)

lemma open_conserves: "outstanding (fst (open_approval a st)) k = outstanding st k"
proof (cases "snd (open_approval a st)")
  case (Inl e)
  then show ?thesis by (simp add: open_fails)
next
  case (Inr b)
  show ?thesis
    by (simp add: outstanding_weight open_succeeds [OF Inr])
qed

lemma open_if_absent_conserves:
  "store_ok st \<Longrightarrow> outstanding (fst (open_if_absent a now st)) k = outstanding st k"
  by (simp add: open_if_absent_eq open_conserves split: option.split)

lemma abandon_conserves:
  assumes "store_ok st"
  shows "outstanding (fst (abandon s r st)) k = outstanding st k"
proof (cases "\<exists>a. kept st (s, r) = Some a \<and> ap_state a = PENDING \<and> \<not> ap_published a")
  case True
  then obtain a where a: "kept st (s, r) = Some a" "ap_state a = PENDING" "\<not> ap_published a"
    by blast
  show ?thesis
    by (simp add: outstanding_weight abandon_kept [OF assms a] a)
next
  case False
  then have "fst (abandon s r st) = st"
    by (auto simp: abandon_eq [OF assms] split: option.split)
  then show ?thesis by simp
qed

lemma resolve_conserves:
  assumes "store_ok st"
  shows "outstanding st k +
      (if grants_execution k (OpResolve s r p res why now,
            snd (one (resolve s r p res why now st))) then 1 else 0) =
    outstanding (fst (resolve s r p res why now st)) k"
proof (cases "kept st (s, r)")
  case None
  then show ?thesis by (cases res) (simp_all add: resolve_eq [OF assms] one_def)
next
  case (Some a)
  note a = store_okD(1) [OF assms Some]
  show ?thesis
    using Some a pending_plain [OF a] expired_record_ok [OF a] acted_record_ok [OF a]
    by (cases res)
      (auto simp: resolve_eq [OF assms] one_def put_indexed_kept outstanding_weight not_le not_less)
qed

lemma consume_conserves:
  assumes "store_ok st"
  shows "outstanding st k = outstanding (fst (consume s r now st)) k +
      (if spends_execution k (OpConsume s r now, snd (one (consume s r now st))) then 1 else 0)"
proof (cases "kept st (s, r)")
  case None
  then show ?thesis by (simp add: consume_eq [OF assms] one_def)
next
  case (Some a)
  note a = store_okD(1) [OF assms Some]
  have w: "weight (Some a) = 1" if "ap_state a = APPROVED" "\<not> ap_consumed a"
    using that by (simp add: weight_def)
  show ?thesis
    using Some spent_record_ok [OF a] w
    by (auto simp: consume_eq [OF assms] one_def put_indexed_kept outstanding_weight not_less)
qed

lemma apply_op_conserves:
  assumes "store_ok st"
  shows "outstanding st k + (if grants_execution k (x, snd (apply_op x st)) then 1 else 0) =
    outstanding (fst (apply_op x st)) k + (if spends_execution k (x, snd (apply_op x st)) then 1 else 0)"
proof (cases x)
  case (OpResolve s r p res why now)
  then show ?thesis using resolve_conserves [OF assms] by simp
next
  case (OpConsume s r now)
  then show ?thesis using consume_conserves [OF assms] by simp
next
  case (OpPublish s r)
  then show ?thesis
    using assms by (auto simp: publish_eq put_weight outstanding_weight split: option.split)
next
  case (OpClaim s r)
  then show ?thesis
    using assms by (auto simp: claim_eq put_weight outstanding_weight split: option.split)
next
  case (OpReleaseClaim s r)
  then show ?thesis
    using assms by (auto simp: release_claim_eq put_weight outstanding_weight split: option.split)
next
  case (OpExpirePast now)
  then show ?thesis
    using assms by (simp add: expire_past_kept outstanding_weight weight_expire_at)
next
  case (OpForgetLapsed now)
  then show ?thesis
    using assms
    by (auto simp: forget_lapsed_kept outstanding_def remains_def useless_def split: option.split)
qed (simp_all add: open_conserves open_if_absent_conserves abandon_conserves assms)

lemma run_ops_conserves:
  assumes "store_ok st" "\<forall>x \<in> set xs. op_ok x"
  shows "outstanding st k + times (grants_execution k) (snd (run_ops xs st)) =
    outstanding (fst (run_ops xs st)) k + times (spends_execution k) (snd (run_ops xs st))"
  using assms
proof (induction xs arbitrary: st)
  case Nil
  then show ?case by simp
next
  case (Cons x xs)
  let ?st1 = "fst (apply_op x st)"
  have "store_ok ?st1"
    using Cons.prems by (simp add: apply_op_ok)
  with Cons have
    "outstanding ?st1 k + times (grants_execution k) (snd (run_ops xs ?st1)) =
     outstanding (fst (run_ops xs ?st1)) k + times (spends_execution k) (snd (run_ops xs ?st1))"
    by simp
  with apply_op_conserves [OF Cons.prems(1), of k x] show ?case
    by (simp add: case_prod_unfold Let_def split: if_splits)
qed


section \<open>Conservation of claims\<close>

definition held :: "approval option \<Rightarrow> nat" where
  "held v = (case v of None \<Rightarrow> 0 | Some a \<Rightarrow> if ap_claimed a \<and> \<not> ap_consumed a then 1 else 0)"

fun takes_claim :: "key \<Rightarrow> answered \<Rightarrow> bool" where
  "takes_claim k (OpClaim s r, Inr _) = ((s, r) = k)"
| "takes_claim k _ = False"

fun gives_back :: "key \<Rightarrow> answered \<Rightarrow> bool" where
  "gives_back k (OpReleaseClaim s r, Inr _) = ((s, r) = k)"
| "gives_back k _ = False"

lemma held_simps [simp]:
  "held None = 0" "held (Some (a\<lparr>ap_published := b\<rparr>)) = held (Some a)"
  "held (Some (a\<lparr>ap_claimed := b\<rparr>)) = (if b \<and> \<not> ap_consumed a then 1 else 0)"
  "held (Some (spent_record a now)) = 0" "held (Some (expired_record a)) = held (Some a)"
  "held (Some (acted_record a p res why now)) = held (Some a)"
  by (simp_all add: held_def expired_record_def spent_record_def acted_record_def)

lemma held_pending: "approval_ok a \<Longrightarrow> ap_state a \<noteq> APPROVED \<Longrightarrow> held (Some a) = 0"
  by (simp add: held_def approval_ok_iff)

lemma held_expire_at: "held (map_option (expire_at now) v) = held v"
  by (cases v) (auto simp: expire_at_def)

lemma held_not_useless:
  "approval_ok a \<Longrightarrow> useless now a \<Longrightarrow> held (Some a) = 0"
  using claimed_approved [of a] by (auto simp: held_def useless_def lapses_at_def split: if_splits)

lemma open_holds:
  assumes "approval_ok a"
  shows "held (kept (fst (open_approval a st)) k) = held (kept st k)"
proof (cases "snd (open_approval a st)")
  case (Inl e)
  then show ?thesis by (simp add: open_fails)
next
  case (Inr b)
  show ?thesis
    using open_succeeds [OF Inr] held_pending [OF assms] by simp
qed

lemma apply_op_claims:
  assumes "store_ok st" "op_ok x"
  defines "st' \<equiv> fst (apply_op x st)" and "r' \<equiv> snd (apply_op x st)"
  shows "held (kept st k) + (if takes_claim k (x, r') then 1 else 0) =
    held (kept st' k) + (if gives_back k (x, r') then 1 else 0) + (if spends_execution k (x, r') then 1 else 0)"
proof -
  have pend: "held (Some a) = 0" if "kept st k' = Some a" "ap_state a \<noteq> APPROVED" for k' a
    using store_okD(1) [OF assms(1) that(1)] that(2) by (rule held_pending)
  show ?thesis
  proof (cases x)
    case (OpClaim s r)
    show ?thesis
      using assms(1) unfolding st'_def r'_def OpClaim
      by (auto simp: claim_eq one_def held_def split: option.split)
  next
    case (OpReleaseClaim s r)
    show ?thesis
      using assms(1) unfolding st'_def r'_def OpReleaseClaim
      by (auto simp: release_claim_eq one_def held_def split: option.split)
  next
    case (OpPublish s r)
    show ?thesis
      using assms(1) unfolding st'_def r'_def OpPublish
      by (auto simp: publish_eq one_def split: option.split)
  next
    case (OpConsume s r now)
    have "held (Some a) = 1" if "ap_claimed a" "\<not> ap_consumed a" for a
      using that by (simp add: held_def)
    with assms(1) spent_record_ok store_okD(1) [OF assms(1)] show ?thesis
      unfolding st'_def r'_def OpConsume
      by (auto simp: consume_eq one_def put_indexed_kept not_less split: option.split)
  next
    case (OpResolve s r p res why now)
    show ?thesis
      using assms(1) expired_record_ok acted_record_ok store_okD(1) [OF assms(1)]
      unfolding st'_def r'_def OpResolve
      by (auto simp: resolve_eq one_def put_indexed_kept not_less not_le split: option.split)
  next
    case (OpAbandon s r)
    show ?thesis
    proof (cases "\<exists>a. kept st (s, r) = Some a \<and> ap_state a = PENDING \<and> \<not> ap_published a")
      case True
      then obtain a where a: "kept st (s, r) = Some a" "ap_state a = PENDING" "\<not> ap_published a"
        by blast
      with pend [OF a(1)] show ?thesis
        unfolding st'_def r'_def OpAbandon by (simp add: abandon_kept [OF assms(1) a])
    next
      case False
      then have "fst (abandon s r st) = st"
        by (auto simp: abandon_eq [OF assms(1)] split: option.split)
      then show ?thesis unfolding st'_def r'_def OpAbandon by simp
    qed
  next
    case (OpExpirePast now)
    show ?thesis
      unfolding st'_def r'_def OpExpirePast using assms(1)
      by (simp add: expire_past_kept held_expire_at)
  next
    case (OpForgetLapsed now)
    have "held (kept st k) = held (kept (fst (forget_lapsed now st)) k)"
      using assms(1) store_okD(1) [OF assms(1)]
      by (auto simp: forget_lapsed_kept remains_def held_not_useless split: option.split)
    then show ?thesis unfolding st'_def r'_def OpForgetLapsed by simp
  next
    case (OpOpen a)
    then show ?thesis
      using assms(2) unfolding st'_def r'_def by (simp add: open_holds)
  next
    case (OpOpenIfAbsent a now)
    then show ?thesis
      using assms(1,2) unfolding st'_def r'_def
      by (simp add: open_if_absent_eq open_holds split: option.split)
  qed
qed

lemma run_ops_claims:
  assumes "store_ok st" "\<forall>x \<in> set xs. op_ok x"
  shows "held (kept st k) + times (takes_claim k) (snd (run_ops xs st)) =
    held (kept (fst (run_ops xs st)) k) + times (gives_back k) (snd (run_ops xs st)) +
      times (spends_execution k) (snd (run_ops xs st))"
  using assms
proof (induction xs arbitrary: st)
  case Nil
  then show ?case by simp
next
  case (Cons x xs)
  let ?st1 = "fst (apply_op x st)"
  have "store_ok ?st1" "op_ok x"
    using Cons.prems by (simp_all add: apply_op_ok)
  with Cons have
    "held (kept ?st1 k) + times (takes_claim k) (snd (run_ops xs ?st1)) =
     held (kept (fst (run_ops xs ?st1)) k) + times (gives_back k) (snd (run_ops xs ?st1)) +
       times (spends_execution k) (snd (run_ops xs ?st1))"
    by simp
  with apply_op_claims [OF Cons.prems(1) \<open>op_ok x\<close>, of k] show ?case
    by (simp add: case_prod_unfold Let_def split: if_splits)
qed

section \<open>One live wait per question\<close>

text \<open>
  The decision service opens waits through \<open>open_if_absent\<close> only, and the clock its operations read
  does not run backwards.
\<close>

fun op_instant :: "store_op \<Rightarrow> int option" where
  "op_instant (OpOpenIfAbsent a now) = Some now"
| "op_instant (OpResolve s r p res why now) = Some now"
| "op_instant (OpConsume s r now) = Some now"
| "op_instant (OpExpirePast now) = Some now"
| "op_instant (OpForgetLapsed now) = Some now"
| "op_instant _ = None"

definition clock_after :: "int \<Rightarrow> store_op \<Rightarrow> int" where
  "clock_after t x = (case op_instant x of None \<Rightarrow> t | Some now \<Rightarrow> now)"

fun serviced :: "int \<Rightarrow> store_op list \<Rightarrow> bool" where
  "serviced t [] = True"
| "serviced t (x # xs) = ((case x of OpOpen _ \<Rightarrow> False | _ \<Rightarrow> True) \<and> op_ok x \<and>
     t \<le> clock_after t x \<and> serviced (clock_after t x) xs)"

fun final_clock :: "int \<Rightarrow> store_op list \<Rightarrow> int" where
  "final_clock t [] = t"
| "final_clock t (x # xs) = final_clock (clock_after t x) xs"

definition live_keys :: "approval_store \<Rightarrow> question \<Rightarrow> int \<Rightarrow> key set" where
  "live_keys st q t = {k. \<exists>a. kept st k = Some a \<and> ap_question a = q \<and> live t a}"

definition one_live :: "approval_store \<Rightarrow> int \<Rightarrow> bool" where
  "one_live st t \<longleftrightarrow> (\<forall>q k k'. k \<in> live_keys st q t \<and> k' \<in> live_keys st q t \<longrightarrow> k = k')"

lemma live_mono: "live t' a \<Longrightarrow> t \<le> t' \<Longrightarrow> live t a"
  by (auto simp: live_def state_at_def split: if_splits)

lemma one_liveI:
  assumes "one_live st t" "\<And>q. live_keys st' q t' \<subseteq> live_keys st q t"
  shows "one_live st' t'"
  using assms unfolding one_live_def by blast

lemma live_keysI:
  assumes "t \<le> t'"
    and "\<And>k b. kept st' k = Some b \<Longrightarrow> live t' b \<Longrightarrow>
       \<exists>a. kept st k = Some a \<and> ap_question a = ap_question b \<and> live t a"
  shows "live_keys st' q t' \<subseteq> live_keys st q t"
  using assms unfolding live_keys_def by blast

text \<open>A transition that only ends lives: the record after it is live only if the one before it was.\<close>

lemma shrink_update:
  assumes "t \<le> t'" "kept st k = Some a" "kept st' = (kept st)(k := v)"
    and "\<And>b. v = Some b \<Longrightarrow> live t' b \<Longrightarrow> ap_question b = ap_question a \<and> live t' a"
  shows "live_keys st' q t' \<subseteq> live_keys st q t"
proof (rule live_keysI [OF assms(1)])
  fix k' b
  assume "kept st' k' = Some b" "live t' b"
  then show "\<exists>a. kept st k' = Some a \<and> ap_question a = ap_question b \<and> live t a"
    using assms by (cases "k' = k") (auto intro: live_mono)
qed

lemma live_records [simp]:
  "live t (a\<lparr>ap_published := b\<rparr>) = live t a" "live t (a\<lparr>ap_claimed := b\<rparr>) = live t a"
  "\<not> live t (expired_record a)" "\<not> live t (spent_record a now)"
  "ap_question (acted_record a p res why now) = ap_question a"
  by (simp_all add: live_def state_at_def expired_record_def spent_record_def acted_record_def)

lemma live_acted:
  "ap_state a = PENDING \<Longrightarrow> now < deadline_us a \<Longrightarrow> approval_ok a \<Longrightarrow> live now a"
  using pending_plain [of a] by (simp add: live_def state_at_def)

lemma shrink_same: "t \<le> t' \<Longrightarrow> live_keys st q t' \<subseteq> live_keys st q t"
  by (rule live_keysI) (auto intro: live_mono)

lemma find_None_iff': "List.find P xs = None \<longleftrightarrow> (\<forall>x \<in> set xs. \<not> P x)"
  by (induction xs) auto

lemma open_if_absent_one_live:
  assumes "store_ok st" "one_live st t" "t \<le> now"
  shows "one_live (fst (open_if_absent a now st)) now"
proof (cases "List.find (live now) (rev (records_of st (ap_question a)))")
  case (Some b)
  then show ?thesis
    by (simp add: open_if_absent_eq [OF assms(1)] one_liveI [OF assms(2) shrink_same [OF assms(3)]])
next
  case None
  let ?st' = "fst (open_approval a st)"
  have eq: "fst (open_if_absent a now st) = ?st'"
    by (simp add: open_if_absent_eq [OF assms(1)] None)
  have none: "\<not> live now b" if "kept st k = Some b" "ap_question b = ap_question a" for k b
    using None that records_of_mem [OF assms(1), of b "ap_question a"] store_okD(2) [OF assms(1)]
    by (auto simp: find_None_iff')
  show ?thesis
  proof (cases "snd (open_approval a st)")
    case (Inl e)
    then show ?thesis
      by (simp add: eq open_fails one_liveI [OF assms(2) shrink_same [OF assms(3)]])
  next
    case (Inr b)
    note new = open_succeeds [OF Inr]
    show ?thesis
      unfolding one_live_def eq
    proof (intro allI impI)
      fix q k k'
      assume *: "k \<in> live_keys ?st' q now \<and> k' \<in> live_keys ?st' q now"
      show "k = k'"
      proof (cases "q = ap_question a")
        case True
        with * none [of k] none [of k'] show ?thesis
          by (auto simp: live_keys_def new(5) split: if_splits)
      next
        case False
        with * have "k \<in> live_keys st q now" "k' \<in> live_keys st q now"
          by (auto simp: live_keys_def new(5) split: if_splits)
        with assms(2) shrink_same [OF assms(3)] show ?thesis
          unfolding one_live_def by blast
      qed
    qed
  qed
qed

lemma apply_op_one_live:
  assumes "store_ok st" "one_live st t" "t \<le> clock_after t x" "\<forall>a. x \<noteq> OpOpen a"
  shows "one_live (fst (apply_op x st)) (clock_after t x)"
proof -
  note same = one_liveI [OF assms(2) shrink_same [OF assms(3)]]
  note shrink = one_liveI [OF assms(2) shrink_update [OF assms(3)]]
  have valid: "approval_ok a" if "kept st k = Some a" for k a
    by (rule store_okD [OF assms(1) that])
  have indexed: "one_live (fst (put_indexed k b st)) (clock_after t x)"
    if "kept st k = Some a" "approval_ok b"
      "live (clock_after t x) b \<Longrightarrow> ap_question b = ap_question a \<and> live (clock_after t x) a" for k a b
    by (rule shrink [OF that(1) put_indexed_kept [OF that(2)]]) (use that(3) in auto)
  show ?thesis
  proof (cases x)
    case (OpOpen a)
    then show ?thesis using assms(4) by simp
  next
    case (OpOpenIfAbsent a now)
    then show ?thesis
      using open_if_absent_one_live [OF assms(1,2)] assms(3) by (simp add: clock_after_def)
  next
    case (OpPublish s r)
    have "one_live (fst (publish s r st)) (clock_after t x)"
      using same by (auto simp: publish_eq [OF assms(1)] split: option.split intro!: shrink)
    then show ?thesis by (simp add: OpPublish)
  next
    case (OpClaim s r)
    have "one_live (fst (claim s r st)) (clock_after t x)"
      using same by (auto simp: claim_eq [OF assms(1)] split: option.split intro!: shrink)
    then show ?thesis by (simp add: OpClaim)
  next
    case (OpReleaseClaim s r)
    have "one_live (fst (release_claim s r st)) (clock_after t x)"
      using same by (auto simp: release_claim_eq [OF assms(1)] split: option.split intro!: shrink)
    then show ?thesis by (simp add: OpReleaseClaim)
  next
    case (OpAbandon s r)
    show ?thesis
    proof (cases "\<exists>a. kept st (s, r) = Some a \<and> ap_state a = PENDING \<and> \<not> ap_published a")
      case True
      then obtain a where a: "kept st (s, r) = Some a" "ap_state a = PENDING" "\<not> ap_published a"
        by blast
      have "one_live (fst (abandon s r st)) (clock_after t x)"
        by (rule shrink [OF a(1) abandon_kept [OF assms(1) a]]) simp
      then show ?thesis unfolding OpAbandon by simp
    next
      case False
      then have "fst (abandon s r st) = st"
        by (auto simp: abandon_eq [OF assms(1)] split: option.split)
      with same show ?thesis unfolding OpAbandon by simp
    qed
  next
    case (OpResolve s r p res why now)
    have now: "clock_after t x = now" by (simp add: OpResolve clock_after_def)
    have "one_live (fst (resolve s r p res why now st)) (clock_after t x)"
    proof (cases "kept st (s, r)")
      case None
      then show ?thesis using same by (simp add: resolve_eq [OF assms(1)])
    next
      case (Some a)
      note a = valid [OF Some]
      show ?thesis
        using same Some indexed [OF Some, of "expired_record a"]
          indexed [OF Some, of "acted_record a p res why now"]
        by (auto simp: resolve_eq [OF assms(1)] now not_le not_less a expired_record_ok
            acted_record_ok live_acted)
    qed
    then show ?thesis by (simp add: OpResolve)
  next
    case (OpConsume s r now)
    have "one_live (fst (consume s r now st)) (clock_after t x)"
      using same
      by (auto simp: consume_eq [OF assms(1)] not_less spent_record_ok valid put_indexed_kept
          split: option.split intro!: shrink)
    then show ?thesis by (simp add: OpConsume)
  next
    case (OpExpirePast now)
    have "one_live (fst (expire_past now st)) (clock_after t x)"
      by (rule one_liveI [OF assms(2) live_keysI [OF assms(3)]])
        (auto simp: expire_past_kept [OF assms(1)] expire_at_def intro: live_mono [OF _ assms(3)]
          split: if_splits)
    then show ?thesis by (simp add: OpExpirePast)
  next
    case (OpForgetLapsed now)
    have "one_live (fst (forget_lapsed now st)) (clock_after t x)"
      by (rule one_liveI [OF assms(2) live_keysI [OF assms(3)]])
        (auto simp: forget_lapsed_kept [OF assms(1)] intro: live_mono [OF _ assms(3)]
          split: if_splits)
    then show ?thesis by (simp add: OpForgetLapsed)
  qed
qed

lemma run_ops_one_live:
  assumes "store_ok st" "one_live st t" "serviced t xs"
  shows "one_live (fst (run_ops xs st)) (final_clock t xs)"
  using assms
proof (induction xs arbitrary: st t)
  case Nil
  then show ?case by simp
next
  case (Cons x xs)
  have "store_ok (fst (apply_op x st))"
    using Cons.prems by (simp add: apply_op_ok)
  moreover have "one_live (fst (apply_op x st)) (clock_after t x)"
    using Cons.prems by (intro apply_op_one_live) auto
  ultimately show ?case
    using Cons by (simp add: case_prod_unfold Let_def)
qed

end
