(* ===== verification/StoreProperties.thy ===== *)
theory StoreProperties
  imports StoreRuns
begin

text \<open>
  The properties of the approval store, each with a witness that runs the store on a concrete history:
  one question, suspended, published, approved by a person, claimed, spent and forgotten.
\<close>

section \<open>A history\<close>

definition example_question :: question where
  "example_question = \<lparr>q_scope = ''local'', q_principal_reference = ''user:ana'',
     q_capability = ''mail.send'', q_arguments_digest = ''-''\<rparr>"

definition example_wait :: "string \<Rightarrow> int \<Rightarrow> approval" where
  "example_wait ref t = pending_approval ref ''d1'' example_question (Aware t) (Aware (t + 300))"

definition example_ops :: "store_op list" where
  "example_ops =
     [OpOpenIfAbsent (example_wait ''a1'' 0) 0, OpPublish ''local'' ''a1'',
      OpResolve ''local'' ''a1'' ''user:bo'' APPROVE None 10, OpClaim ''local'' ''a1'',
      OpClaim ''local'' ''a1'', OpConsume ''local'' ''a1'' 400]"

definition example_store :: approval_store where
  "example_store = fst (run_ops (take 2 example_ops) empty_store)"

lemma example_ops_ok: "\<forall>x \<in> set example_ops. op_ok x"
  by (simp add: example_ops_def example_wait_def pending_approval_def approval_ok_iff
      ended_inside_its_wait_def spent_after_its_act_def ACTED_def)

lemma example_serviced: "serviced 0 example_ops"
  by (simp add: example_ops_def example_wait_def pending_approval_def approval_ok_iff
      ended_inside_its_wait_def spent_after_its_act_def ACTED_def clock_after_def)

lemma example_store_ok: "store_ok example_store"
  unfolding example_store_def
  by (rule run_ops_ok [OF empty_store_ok]) (metis example_ops_ok in_set_takeD)

text \<open>The store after each step of the history.\<close>

definition example_key :: key where
  "example_key = (''local'', ''a1'')"

definition example_acted :: approval where
  "example_acted = acted_record ((example_wait ''a1'' 0)\<lparr>ap_published := True\<rparr>) ''user:bo'' APPROVE None 10"

definition holding :: "approval \<Rightarrow> (int \<times> key) list \<Rightarrow> approval_store" where
  "holding a lapses = \<lparr>by_reference = [(example_key, a)], by_question = [(example_question, [example_key])],
     due = [(300, example_key)], lapsing = lapses\<rparr>"

lemmas store_eval = example_key_def example_wait_def pending_approval_def open_if_absent_def
  newest_live_def open_approval_def publish_def resolve_def claim_def consume_def read_def
  put_indexed_def index_lapse_def put_def lapse_instant_def replace_approval_if approval_ok_iff
  ended_inside_its_wait_def spent_after_its_act_def ACTED_def one_def empty_store_def heappush_def
  ap_scope_def state_of_def wait_length_def example_question_def holding_def acted_record_def
  example_acted_def

lemma example_steps:
  "apply_op (OpOpenIfAbsent (example_wait ''a1'' 0) 0) empty_store =
     (holding (example_wait ''a1'' 0) [], Inr [example_wait ''a1'' 0])"
  "apply_op (OpPublish ''local'' ''a1'') (holding (example_wait ''a1'' 0) []) =
     (holding ((example_wait ''a1'' 0)\<lparr>ap_published := True\<rparr>) [],
      Inr [(example_wait ''a1'' 0)\<lparr>ap_published := True\<rparr>])"
  "apply_op (OpResolve ''local'' ''a1'' ''user:bo'' APPROVE None 10)
       (holding ((example_wait ''a1'' 0)\<lparr>ap_published := True\<rparr>) []) =
     (holding example_acted [], Inr [example_acted])"
  "apply_op (OpClaim ''local'' ''a1'') (holding example_acted []) =
     (holding (example_acted\<lparr>ap_claimed := True\<rparr>) [], Inr [example_acted\<lparr>ap_claimed := True\<rparr>])"
  "apply_op (OpClaim ''local'' ''a1'') (holding (example_acted\<lparr>ap_claimed := True\<rparr>) []) =
     (holding (example_acted\<lparr>ap_claimed := True\<rparr>) [], Inl ApprovalAlreadyClaimed)"
  "apply_op (OpConsume ''local'' ''a1'' 400) (holding (example_acted\<lparr>ap_claimed := True\<rparr>) []) =
     (holding (example_acted\<lparr>ap_claimed := True, ap_consumed := True, ap_consumed_at := Some (Aware 400)\<rparr>)
        [(700, example_key)],
      Inr [example_acted\<lparr>ap_claimed := True, ap_consumed := True, ap_consumed_at := Some (Aware 400)\<rparr>])"
  by (simp_all add: store_eval Let_def)

lemma example_run:
  "snd (run_ops example_ops empty_store) = zip example_ops
     [Inr [example_wait ''a1'' 0], Inr [(example_wait ''a1'' 0)\<lparr>ap_published := True\<rparr>],
      Inr [example_acted], Inr [example_acted\<lparr>ap_claimed := True\<rparr>], Inl ApprovalAlreadyClaimed,
      Inr [example_acted\<lparr>ap_claimed := True, ap_consumed := True, ap_consumed_at := Some (Aware 400)\<rparr>]]"
  by (simp add: example_ops_def example_steps del: apply_op.simps)

lemma example_counts:
  "times (grants_execution example_key) (snd (run_ops example_ops empty_store)) = 1"
  "times (spends_execution example_key) (snd (run_ops example_ops empty_store)) = 1"
  "times (takes_claim example_key) (snd (run_ops example_ops empty_store)) = 1"
  by (simp_all add: example_run) (simp_all add: example_ops_def example_key_def)


section \<open>Executions and claims are conserved\<close>

text \<open>
  C4: over every run of the store from empty, the approvals a person granted on a wait are the
  executions spent on it plus the one still outstanding, if there is one: one resolution authorises
  one execution, none is licensed twice and none is lost, whatever the interleaving of calls.
\<close>

theorem one_resolution_one_execution:
  assumes "\<forall>x \<in> set ops. op_ok x"
  shows "times (grants_execution k) (snd (run_ops ops empty_store)) =
    times (spends_execution k) (snd (run_ops ops empty_store)) +
    outstanding (fst (run_ops ops empty_store)) k"
  using run_ops_conserves [OF empty_store_ok assms, of k]
  by (simp add: outstanding_def empty_store_def)

theorem one_resolution_one_execution_witness:
  "1 = 1 + outstanding (fst (run_ops example_ops empty_store)) example_key"
  using one_resolution_one_execution [OF example_ops_ok, of example_key]
  unfolding example_counts .

text \<open>
  C12: over every run from empty, the claims taken on a wait are the claims given back plus the
  executions spent plus the one claim still held, if there is one: two asks never hold the same
  execution at once.
\<close>

theorem claims_are_exclusive:
  assumes "\<forall>x \<in> set ops. op_ok x"
  shows "times (takes_claim k) (snd (run_ops ops empty_store)) =
    times (gives_back k) (snd (run_ops ops empty_store)) +
    times (spends_execution k) (snd (run_ops ops empty_store)) +
    held (kept (fst (run_ops ops empty_store)) k)"
  using run_ops_claims [OF empty_store_ok assms, of k] by (simp add: empty_store_def)

theorem claims_are_exclusive_witness:
  "1 = times (gives_back example_key) (snd (run_ops example_ops empty_store)) + 1 +
     held (kept (fst (run_ops example_ops empty_store)) example_key)"
  using claims_are_exclusive [OF example_ops_ok, of example_key]
  unfolding example_counts .

text \<open>Every store reachable from the empty one is well formed: each record satisfies the constructor's
  guards and sits under its own key, the question index lists exactly the kept records, and every
  pending wait and every lapsing record is on the due-time index the sweep reads.
\<close>

theorem reachable_stores_are_well_formed:
  assumes "\<forall>x \<in> set ops. op_ok x"
  shows "store_ok (fst (run_ops ops empty_store))"
  by (rule run_ops_ok [OF empty_store_ok assms])

theorem reachable_stores_are_well_formed_witness:
  "store_ok (fst (run_ops example_ops empty_store)) \<and> length example_ops = 6"
  using reachable_stores_are_well_formed [OF example_ops_ok] by (simp add: example_ops_def)

section \<open>One live wait per question\<close>

lemma at_most_one_element:
  "distinct (map f xs) \<Longrightarrow> (\<And>x y. x \<in> set xs \<Longrightarrow> y \<in> set xs \<Longrightarrow> f x = f y) \<Longrightarrow> length xs \<le> 1"
proof (rule ccontr)
  assume d: "distinct (map f xs)" and same: "\<And>x y. x \<in> set xs \<Longrightarrow> y \<in> set xs \<Longrightarrow> f x = f y"
    and "\<not> length xs \<le> 1"
  then obtain x y zs where xs: "xs = x # y # zs"
    by (metis One_nat_def Suc_le_length_iff not_less_eq_eq)
  from d have "f x \<noteq> f y" by (simp add: xs)
  with same [of x y] show False by (simp add: xs)
qed

lemma records_of_keys: "store_ok st \<Longrightarrow> distinct (map store_key (records_of st q))"
proof -
  assume ok: "store_ok st"
  have "store_key (the (kept st k)) = k" if "k \<in> set (refs st q)" for k
    using that ok by (auto simp: store_ok_refs dest: store_okD)
  then have "map store_key (records_of st q) = refs st q"
    unfolding records_of_def map_map by (intro map_idI) simp
  then show ?thesis
    using ok by (simp add: store_ok_def questions_ok_def)
qed

text \<open>
  When waits are opened through \<open>open_if_absent\<close> and the clock does not run backwards, a question
  never has two records that could still answer it, at any instant from the last one read.
\<close>

theorem a_question_has_one_live_wait:
  assumes "serviced 0 ops" and "final_clock 0 ops \<le> now"
  shows "length (filter (live now) (records_of (fst (run_ops ops empty_store)) q)) \<le> 1"
proof -
  let ?st = "fst (run_ops ops empty_store)"
  have "one_live empty_store 0"
    by (simp add: one_live_def live_keys_def empty_store_def)
  then have unique: "one_live ?st (final_clock 0 ops)"
    by (rule run_ops_one_live [OF empty_store_ok _ assms(1)])
  have "\<forall>x \<in> set xs. op_ok x" if "serviced t xs" for t xs
    using that by (induction xs arbitrary: t) auto
  then have ok: "store_ok ?st"
    using assms(1) run_ops_ok [OF empty_store_ok] by blast
  show ?thesis
  proof (rule at_most_one_element)
    show "distinct (map store_key (filter (live now) (records_of ?st q)))"
      by (rule distinct_map_filter [OF records_of_keys [OF ok]])
    fix a b
    assume "a \<in> set (filter (live now) (records_of ?st q))" "b \<in> set (filter (live now) (records_of ?st q))"
    then have "store_key a \<in> live_keys ?st q (final_clock 0 ops)"
      "store_key b \<in> live_keys ?st q (final_clock 0 ops)"
      using assms(2) by (auto simp: live_keys_def records_of_mem [OF ok] intro: live_mono)
    with unique show "store_key a = store_key b"
      unfolding one_live_def by blast
  qed
qed

theorem a_question_has_one_live_wait_witness:
  "length (filter (live 400) (records_of (fst (run_ops example_ops empty_store)) example_question)) \<le> 1"
  by (rule a_question_has_one_live_wait [OF example_serviced])
    (simp add: example_ops_def clock_after_def)

section \<open>The sweeps\<close>

text \<open>
  C31: ending the waits that ran out by looking at the front of the deadline index alone is the walk over
  every record: exactly the pending records whose deadline is at or before the instant become expired
  at their deadline, in place, nothing else changes, and they are answered in store-key order.
\<close>

theorem expire_past_is_the_walk:
  assumes "store_ok st"
  shows "snd (expire_past now st) = Inr (sort_key store_key
        (map expired_record (filter (ran_out now) (map snd (by_reference st))))) \<and>
    by_reference (fst (expire_past now st)) =
      map (\<lambda>(k, a). (k, if ran_out now a then expired_record a else a)) (by_reference st) \<and>
    by_question (fst (expire_past now st)) = by_question st"
  by (rule expire_past_walk [OF assms, of now])
    (simp add: ended_now_def swept_def expire_at_def)

theorem expire_past_is_the_walk_witness:
  "by_reference (fst (expire_past 300 example_store)) =
     map (\<lambda>(k, a). (k, if ran_out 300 a then expired_record a else a)) (by_reference example_store)"
  using expire_past_is_the_walk [OF example_store_ok, of 300] by blast

section \<open>Acts, answers and withdrawals\<close>

lemma example_store_eq: "example_store = holding ((example_wait ''a1'' 0)\<lparr>ap_published := True\<rparr>) []"
  by (simp add: example_store_def example_ops_def example_steps del: apply_op.simps)

lemma delete_fresh: "map_of d k = None \<Longrightarrow> AList.delete k (AList.update k v d) = d"
  by (induction d) (auto simp: filter_delete map_of_eq_None_iff intro!: filter_True)

lemma update_back: "map_of d k = Some v \<Longrightarrow> AList.update k v (AList.update k w d) = d"
  by (induction d) (auto split: if_splits)

lemma update_same: "map_of d k = Some v \<Longrightarrow> AList.update k v d = d"
  by (induction d) (auto split: if_splits)

end
