(* ===== verification/Policy.thy ===== *)
theory Policy
  imports Prelude
begin

text \<open>
  The policy file format and its pure evaluation rule (domain/policy.py, with the ask and the
  outcome vocabulary of contract/decisions.py).

  The TOML grammar is Python's own \<open>tomllib\<close>; the reading of the bytes up to a document is the
  argument \<open>loads\<close> of \<^verbatim>\<open>parse_policy\<close>, which answers None where \<open>raw.decode("utf-8")\<close> or
  \<open>tomllib.loads\<close> raises. Everything after it is defined here. The texts of refusals are addressed
  to a person and read by no code, so a refusal is its reason alone.
\<close>

section \<open>Outcomes, reasons and asks\<close>

datatype outcome = ALLOW | DENY | SUSPEND

definition outcome_value :: "outcome \<Rightarrow> string" where
  "outcome_value oc = (case oc of ALLOW \<Rightarrow> ''allow'' | DENY \<Rightarrow> ''deny'' | SUSPEND \<Rightarrow> ''suspend'')"

definition outcome_of :: "string \<Rightarrow> outcome option" where
  "outcome_of s =
     (if s = ''allow'' then Some ALLOW
      else if s = ''deny'' then Some DENY
      else if s = ''suspend'' then Some SUSPEND
      else None)"

lemma outcome_of_value [simp]: "outcome_of (outcome_value oc) = Some oc"
  by (cases oc) (simp_all add: outcome_value_def outcome_of_def)

lemma outcome_of_Some: "outcome_of s = Some oc \<longleftrightarrow> s = outcome_value oc"
  by (cases oc) (auto simp: outcome_value_def outcome_of_def split: if_splits)

lemma outcome_value_inj [simp]: "outcome_value a = outcome_value b \<longleftrightarrow> a = b"
  by (metis option.inject outcome_of_value)

text \<open>\<open>Reason | Unknown\<close>: a reason this generation does not define is kept as it was read.\<close>

datatype reason =
    POLICY_ALLOWS
  | POLICY_DENIES
  | POLICY_ABSENT
  | POLICY_REQUIRES_REVIEW
  | CAPABILITY_UNKNOWN
  | APPROVAL_GRANTED
  | APPROVAL_REJECTED
  | Unknown_Reason string

definition reason_value :: "reason \<Rightarrow> string" where
  "reason_value r = (case r of
      POLICY_ALLOWS \<Rightarrow> ''policy_allows''
    | POLICY_DENIES \<Rightarrow> ''policy_denies''
    | POLICY_ABSENT \<Rightarrow> ''policy_absent''
    | POLICY_REQUIRES_REVIEW \<Rightarrow> ''policy_requires_review''
    | CAPABILITY_UNKNOWN \<Rightarrow> ''capability_unknown''
    | APPROVAL_GRANTED \<Rightarrow> ''approval_granted''
    | APPROVAL_REJECTED \<Rightarrow> ''approval_rejected''
    | Unknown_Reason raw \<Rightarrow> raw)"

record decision_ask =
  ask_capability :: string
  ask_scope :: string
  ask_arguments_digest :: "string option"
  ask_correlation :: "string option"

section \<open>Principals, references, rules and policies\<close>

record principal =
  pr_kind :: string
  pr_uid :: int
  pr_user_name :: string
  pr_gids :: "int list"
  pr_group_names :: "string list"
  pr_delegated_human :: "string option"

definition pr_reference :: "principal \<Rightarrow> string" where
  "pr_reference p = ''user:'' @ pr_user_name p"

record principal_reference =
  rf_kind :: string
  rf_name :: string

definition ref_matches :: "principal_reference \<Rightarrow> principal \<Rightarrow> bool" where
  "ref_matches r p =
     (if rf_kind r = ''user'' then rf_name r = pr_user_name p
      else rf_name r \<in> set (pr_group_names p))"

definition ref_str :: "principal_reference \<Rightarrow> string" where
  "ref_str r = rf_kind r @ '':'' @ rf_name r"

record rule =
  ru_id :: string
  ru_capability :: string
  ru_scope :: string
  ru_principals :: "principal_reference list"
  ru_outcome :: outcome
  ru_reason :: string
  ru_grant_lifetime_seconds :: "int option"
  ru_arguments_digest :: "string option"
  ru_review_deadline_seconds :: "int option"

record policy =
  po_format :: int
  po_revision_reason :: string
  po_rules :: "rule list"

datatype policy_invalid = malformed | format_unsupported | invalid

record decision_question =
  dq_ask :: decision_ask
  dq_principal :: principal

record verdict =
  vd_outcome :: outcome
  vd_reason :: reason
  vd_rule_id :: "string option"
  vd_rule :: "rule option"

definition applies :: "rule \<Rightarrow> decision_question \<Rightarrow> bool" where
  "applies ru q \<longleftrightarrow>
     ru_capability ru = ask_capability (dq_ask q) \<and>
     ru_scope ru = ask_scope (dq_ask q) \<and>
     list_ex (\<lambda>r. ref_matches r (dq_principal q)) (ru_principals ru) \<and>
     (ru_arguments_digest ru = None \<or> ru_arguments_digest ru = ask_arguments_digest (dq_ask q))"

section \<open>The grammars of the members\<close>

definition is_lower :: "char \<Rightarrow> bool" where
  "is_lower c = (97 \<le> (of_char c :: nat) \<and> (of_char c :: nat) \<le> 122)"

definition is_upper :: "char \<Rightarrow> bool" where
  "is_upper c = (65 \<le> (of_char c :: nat) \<and> (of_char c :: nat) \<le> 90)"

text \<open>\<open>[._-]\<close>\<close>

definition is_mark :: "char \<Rightarrow> bool" where
  "is_mark c = (c = CHR ''.'' \<or> c = CHR ''_'' \<or> c = CHR ''-'')"

text \<open>\<open>unicodedata.category(c) == "Cc"\<close> for a code point below 256.\<close>

definition is_control :: "char \<Rightarrow> bool" where
  "is_control c = ((of_char c :: nat) < 32 \<or> 127 \<le> (of_char c :: nat) \<and> (of_char c :: nat) < 160)"

definition has_control :: "string \<Rightarrow> bool" where
  "has_control s = list_ex is_control s"

text \<open>\<open>_IDENTIFIER.fullmatch\<close>\<close>

definition is_identifier :: "string \<Rightarrow> bool" where
  "is_identifier s = (case s of [] \<Rightarrow> False
    | c # cs \<Rightarrow> (is_lower c \<or> is_digit c) \<and> length cs \<le> 63 \<and>
        list_all (\<lambda>c. is_lower c \<or> is_digit c \<or> is_mark c) cs)"

text \<open>
  \<open>_CAPABILITY.fullmatch\<close>, as the automaton of the expression: \<open>True\<close> is the start of a segment,
  where a letter must follow, and \<open>False\<close> its inside.
\<close>

fun capability_from :: "bool \<Rightarrow> string \<Rightarrow> bool" where
  "capability_from True [] = False"
| "capability_from True (c # cs) = (is_lower c \<and> capability_from False cs)"
| "capability_from False [] = True"
| "capability_from False (c # cs) =
     (if c = CHR ''.'' then capability_from True cs
      else (is_lower c \<or> is_digit c) \<and> capability_from False cs)"

definition is_capability :: "string \<Rightarrow> bool" where
  "is_capability s = capability_from True s"

text \<open>\<open>_SCOPE.fullmatch\<close>\<close>

definition is_scope :: "string \<Rightarrow> bool" where
  "is_scope s = (case s of [] \<Rightarrow> False
    | c # cs \<Rightarrow> (is_upper c \<or> is_lower c \<or> is_digit c) \<and> length cs \<le> 127 \<and>
        list_all (\<lambda>c. is_upper c \<or> is_lower c \<or> is_digit c \<or> is_mark c) cs)"

definition is_hex :: "char \<Rightarrow> bool" where
  "is_hex c = (is_digit c \<or> 97 \<le> (of_char c :: nat) \<and> (of_char c :: nat) \<le> 102)"

text \<open>\<open>_DIGEST.fullmatch\<close>\<close>

definition is_digest :: "string \<Rightarrow> bool" where
  "is_digest s = (take 7 s = ''sha256:'' \<and> length (drop 7 s) = 64 \<and> list_all is_hex (drop 7 s))"

section \<open>Reading a policy\<close>

text \<open>
  What \<open>tomllib\<close> answers: Python's \<open>str\<close>, \<open>int\<close>, \<open>float\<close>, \<open>bool\<close>, the dates and times, lists and
  dictionaries. No rule of the format admits a float or a date, so their values are opaque.
\<close>

datatype toml =
    TStr string
  | TInt int
  | TFloat string
  | TBool bool
  | TDate string
  | TArray "toml list"
  | TTable "(string \<times> toml) list"

type_synonym table = "(string, toml) dict"

definition ROOT_MEMBERS :: "string list" where
  "ROOT_MEMBERS = [''format'', ''revision'', ''rule'']"

definition REVISION_MEMBERS :: "string list" where
  "REVISION_MEMBERS = [''reason'']"

definition RULE_MEMBERS :: "string list" where
  "RULE_MEMBERS = [''id'', ''capability'', ''scope'', ''principals'', ''outcome'', ''reason'',
     ''grant_lifetime_seconds'', ''review_deadline_seconds'', ''arguments_digest'']"

definition DEFAULT_REVIEW_DEADLINE_SECONDS :: int where
  "DEFAULT_REVIEW_DEADLINE_SECONDS = 300"

definition MAX_REVIEW_DEADLINE_SECONDS :: int where
  "MAX_REVIEW_DEADLINE_SECONDS = 86400"

text \<open>Below, None is the raise of \<open>_Invalid\<close>.\<close>

abbreviation refuse :: "bool \<Rightarrow> 'a option \<Rightarrow> 'a option" where
  "refuse bad rest \<equiv> (if bad then None else rest)"

definition only_members :: "table \<Rightarrow> string list \<Rightarrow> unit option" where
  "only_members d allowed = refuse (\<not> list_all (\<lambda>k. k \<in> set allowed) (map fst d)) (Some ())"

definition text_member :: "toml option \<Rightarrow> nat \<Rightarrow> string option" where
  "text_member v maximum = (case v of
      Some (TStr s) \<Rightarrow> refuse (s = [] \<or> maximum < length s \<or> has_control s) (Some s)
    | _ \<Rightarrow> None)"

definition parse_principal :: "toml \<Rightarrow> principal_reference option" where
  "parse_principal v = (case v of
      TStr s \<Rightarrow>
        refuse (count_list s CHR '':'' \<noteq> 1)
          (let kind = takeWhile (\<lambda>c. c \<noteq> CHR '':'') s;
               name = tl (dropWhile (\<lambda>c. c \<noteq> CHR '':'') s)
           in refuse (kind \<noteq> ''user'' \<and> kind \<noteq> ''group'' \<or> name = [] \<or> 256 < length name \<or> has_control name)
             (Some \<lparr>rf_kind = kind, rf_name = name\<rparr>))
    | _ \<Rightarrow> None)"

definition review_deadline :: "toml option \<Rightarrow> outcome \<Rightarrow> int option option" where
  "review_deadline raw oc =
     (if oc \<noteq> SUSPEND then refuse (raw \<noteq> None) (Some None)
      else case raw of
          None \<Rightarrow> Some (Some DEFAULT_REVIEW_DEADLINE_SECONDS)
        | Some (TInt n) \<Rightarrow> refuse (\<not> (1 \<le> n \<and> n \<le> MAX_REVIEW_DEADLINE_SECONDS)) (Some (Some n))
        | Some _ \<Rightarrow> None)"

text \<open>\<open>raw.get("scope", "local")\<close>, held to the grammar of a scope.\<close>

definition scope_member :: "toml option \<Rightarrow> string option" where
  "scope_member v = (case v of
      None \<Rightarrow> Some ''local''
    | Some (TStr s) \<Rightarrow> refuse (\<not> is_scope s \<or> has_control s) (Some s)
    | Some _ \<Rightarrow> None)"

definition pattern_member :: "(string \<Rightarrow> bool) \<Rightarrow> toml option \<Rightarrow> string option" where
  "pattern_member ok v = (case v of Some (TStr s) \<Rightarrow> refuse (\<not> ok s) (Some s) | _ \<Rightarrow> None)"

definition optional_digest :: "toml option \<Rightarrow> string option option" where
  "optional_digest v = (case v of
      None \<Rightarrow> Some None
    | Some (TStr s) \<Rightarrow> refuse (\<not> is_digest s) (Some (Some s))
    | Some _ \<Rightarrow> None)"

definition lifetime_member :: "toml option \<Rightarrow> outcome \<Rightarrow> int \<Rightarrow> int option option" where
  "lifetime_member v oc max_lifetime_seconds = (case v of
      None \<Rightarrow> Some None
    | Some (TInt n) \<Rightarrow> refuse (\<not> (1 \<le> n \<and> n \<le> max_lifetime_seconds) \<or> oc \<noteq> ALLOW) (Some (Some n))
    | Some _ \<Rightarrow> None)"

definition outcome_member :: "toml option \<Rightarrow> outcome option" where
  "outcome_member v = (case v of Some (TStr s) \<Rightarrow> outcome_of s | _ \<Rightarrow> None)"

definition principals_member :: "(toml \<Rightarrow> 'a option) \<Rightarrow> toml option \<Rightarrow> 'a list option" where
  "principals_member f v = (case v of
      Some (TArray xs) \<Rightarrow> refuse (xs = []) (those (map f xs))
    | _ \<Rightarrow> None)"

definition parse_rule :: "toml \<Rightarrow> int \<Rightarrow> rule option" where
  "parse_rule raw max_lifetime_seconds = (case raw of
      TTable d \<Rightarrow>
        Option.bind (only_members d RULE_MEMBERS) (\<lambda>_.
        Option.bind (pattern_member is_identifier (map_of d ''id'')) (\<lambda>rule_id.
        Option.bind (pattern_member is_capability (map_of d ''capability'')) (\<lambda>capability.
        Option.bind (scope_member (map_of d ''scope'')) (\<lambda>scope.
        Option.bind (principals_member parse_principal (map_of d ''principals'')) (\<lambda>principals.
        Option.bind (outcome_member (map_of d ''outcome'')) (\<lambda>oc.
        Option.bind (text_member (map_of d ''reason'') 512) (\<lambda>reason.
        Option.bind (lifetime_member (map_of d ''grant_lifetime_seconds'') oc max_lifetime_seconds) (\<lambda>lifetime.
        Option.bind (optional_digest (map_of d ''arguments_digest'')) (\<lambda>arguments_digest.
        Option.bind (review_deadline (map_of d ''review_deadline_seconds'') oc) (\<lambda>deadline.
          Some \<lparr>ru_id = rule_id, ru_capability = capability, ru_scope = scope,
                ru_principals = principals, ru_outcome = oc, ru_reason = reason,
                ru_grant_lifetime_seconds = lifetime, ru_arguments_digest = arguments_digest,
                ru_review_deadline_seconds = deadline\<rparr>))))))))))
    | _ \<Rightarrow> None)"

definition rules_member :: "(toml \<Rightarrow> 'a option) \<Rightarrow> ('a \<Rightarrow> string) \<Rightarrow> toml option \<Rightarrow> 'a list option" where
  "rules_member f ident v =
     Option.bind (case v of
         None \<Rightarrow> Some []
       | Some (TArray xs) \<Rightarrow> those (map f xs)
       | Some _ \<Rightarrow> None)
     (\<lambda>rules. refuse (\<not> distinct (map ident rules)) (Some rules))"

definition revision_member :: "toml option \<Rightarrow> string option" where
  "revision_member v = (case v of
      Some (TTable d) \<Rightarrow>
        Option.bind (only_members d REVISION_MEMBERS) (\<lambda>_. text_member (map_of d ''reason'') 512)
    | _ \<Rightarrow> None)"

definition parse_policy :: "(string \<Rightarrow> table option) \<Rightarrow> int \<Rightarrow> string \<Rightarrow> policy_invalid + policy" where
  "parse_policy loads max_lifetime_seconds raw = (case loads raw of
      None \<Rightarrow> Inl malformed
    | Some document \<Rightarrow>
        if only_members document ROOT_MEMBERS = None then Inl invalid
        else if map_of document ''format'' \<noteq> Some (TInt 1) then Inl format_unsupported
        else case Option.bind (revision_member (map_of document ''revision'')) (\<lambda>revision_reason.
            Option.bind (rules_member (\<lambda>v. parse_rule v max_lifetime_seconds) ru_id (map_of document ''rule'')) (\<lambda>rules.
              Some \<lparr>po_format = 1, po_revision_reason = revision_reason, po_rules = rules\<rparr>)) of
          None \<Rightarrow> Inl invalid
        | Some p \<Rightarrow> Inr p)"

section \<open>Evaluation\<close>

definition references_read :: "policy \<Rightarrow> decision_question \<Rightarrow> string list" where
  "references_read p q =
     (let held = (''user:'' @ pr_user_name (dq_principal q)) #
                 map (\<lambda>name. ''group:'' @ name) (pr_group_names (dq_principal q));
          named = concat (map (\<lambda>ru. map ref_str (ru_principals ru))
                    (filter (\<lambda>ru. ru_capability ru = ask_capability (dq_ask q) \<and>
                                  ru_scope ru = ask_scope (dq_ask q)) (po_rules p)))
      in sort (remdups (filter (\<lambda>r. r \<in> set named) held)))"

definition STRICTEST_FIRST :: "(outcome \<times> reason) list" where
  "STRICTEST_FIRST =
     [(DENY, POLICY_DENIES), (SUSPEND, POLICY_REQUIRES_REVIEW), (ALLOW, POLICY_ALLOWS)]"

fun select_verdict :: "(outcome \<times> reason) list \<Rightarrow> rule list \<Rightarrow> verdict result" where
  "select_verdict [] applying = Inl AssertionError"
| "select_verdict ((oc, r) # rest) applying =
     (case List.find (\<lambda>ru. ru_outcome ru = oc) applying of
        Some ru \<Rightarrow> Inr \<lparr>vd_outcome = oc, vd_reason = r, vd_rule_id = Some (ru_id ru), vd_rule = Some ru\<rparr>
      | None \<Rightarrow> select_verdict rest applying)"

definition evaluate :: "policy \<Rightarrow> decision_question \<Rightarrow> verdict result" where
  "evaluate p q =
     (let applying = filter (\<lambda>ru. applies ru q) (po_rules p)
      in if applying = []
         then Inr \<lparr>vd_outcome = DENY, vd_reason = POLICY_ABSENT, vd_rule_id = None, vd_rule = None\<rparr>
         else select_verdict STRICTEST_FIRST applying)"

section \<open>What evaluation selects\<close>

lemma find_outcome_None: "List.find P xs = None \<longleftrightarrow> (\<forall>x \<in> set xs. \<not> P x)"
  by (induction xs) auto

lemma find_outcome_Some: "List.find P xs = Some x \<Longrightarrow> x \<in> set xs \<and> P x"
  by (induction xs) (auto split: if_splits)

definition strictness :: "outcome \<Rightarrow> nat" where
  "strictness oc = (case oc of ALLOW \<Rightarrow> 0 | SUSPEND \<Rightarrow> 1 | DENY \<Rightarrow> 2)"

lemma strictness_inj [simp]: "strictness a = strictness b \<longleftrightarrow> a = b"
  by (cases a; cases b) (simp_all add: strictness_def)

definition reason_for :: "outcome \<Rightarrow> reason" where
  "reason_for oc = (case oc of ALLOW \<Rightarrow> POLICY_ALLOWS | SUSPEND \<Rightarrow> POLICY_REQUIRES_REVIEW
    | DENY \<Rightarrow> POLICY_DENIES)"

text \<open>The outcome of rules that apply, as the specification has it: the strictest of theirs.\<close>

definition strictest :: "rule list \<Rightarrow> outcome" where
  "strictest rules =
     (if \<exists>ru \<in> set rules. ru_outcome ru = DENY then DENY
      else if \<exists>ru \<in> set rules. ru_outcome ru = SUSPEND then SUSPEND
      else ALLOW)"

lemma select_verdict_strictest:
  assumes "applying \<noteq> []"
  shows "\<exists>ru. List.find (\<lambda>ru. ru_outcome ru = strictest applying) applying = Some ru \<and>
    select_verdict STRICTEST_FIRST applying =
      Inr \<lparr>vd_outcome = strictest applying, vd_reason = reason_for (strictest applying),
           vd_rule_id = Some (ru_id ru), vd_rule = Some ru\<rparr>"
proof -
  have pick: "\<exists>ru. List.find (\<lambda>ru. ru_outcome ru = oc) applying = Some ru"
    if "\<exists>ru \<in> set applying. ru_outcome ru = oc" for oc
    using that find_outcome_None [of "\<lambda>ru. ru_outcome ru = oc" applying] by fastforce
  have none: "List.find (\<lambda>ru. ru_outcome ru = oc) applying = None"
    if "\<not> (\<exists>ru \<in> set applying. ru_outcome ru = oc)" for oc
    using that by (simp add: find_outcome_None)
  consider (deny) "\<exists>ru \<in> set applying. ru_outcome ru = DENY"
    | (suspend) "\<not> (\<exists>ru \<in> set applying. ru_outcome ru = DENY)" "\<exists>ru \<in> set applying. ru_outcome ru = SUSPEND"
    | (allow) "\<not> (\<exists>ru \<in> set applying. ru_outcome ru = DENY)" "\<not> (\<exists>ru \<in> set applying. ru_outcome ru = SUSPEND)"
    by blast
  then show ?thesis
  proof cases
    case deny
    then show ?thesis using pick [OF deny]
      by (auto simp: strictest_def STRICTEST_FIRST_def reason_for_def)
  next
    case suspend
    then show ?thesis using pick [OF suspend(2)] none [OF suspend(1)]
      by (auto simp: strictest_def STRICTEST_FIRST_def reason_for_def)
  next
    case allow
    from assms obtain ru where "ru \<in> set applying" by (cases applying) auto
    with allow have "\<exists>ru \<in> set applying. ru_outcome ru = ALLOW"
      by (metis outcome.exhaust)
    from pick [OF this] show ?thesis using none [OF allow(1)] none [OF allow(2)] allow
      by (auto simp: strictest_def STRICTEST_FIRST_def reason_for_def)
  qed
qed

lemma evaluate_cases:
  obtains (absent) "filter (\<lambda>ru. applies ru q) (po_rules p) = []"
      "evaluate p q = Inr \<lparr>vd_outcome = DENY, vd_reason = POLICY_ABSENT, vd_rule_id = None, vd_rule = None\<rparr>"
    | (selected) ru applying where "applying = filter (\<lambda>ru. applies ru q) (po_rules p)" "applying \<noteq> []"
      "List.find (\<lambda>ru. ru_outcome ru = strictest applying) applying = Some ru"
      "evaluate p q = Inr \<lparr>vd_outcome = strictest applying, vd_reason = reason_for (strictest applying),
           vd_rule_id = Some (ru_id ru), vd_rule = Some ru\<rparr>"
  using select_verdict_strictest [of "filter (\<lambda>ru. applies ru q) (po_rules p)"]
  by (auto simp: evaluate_def Let_def)

lemma strictest_iff:
  "strictest rules = DENY \<longleftrightarrow> (\<exists>ru \<in> set rules. ru_outcome ru = DENY)"
  "strictest rules = ALLOW \<longleftrightarrow> (\<forall>ru \<in> set rules. ru_outcome ru = ALLOW)"
proof -
  have "oc = ALLOW \<longleftrightarrow> oc \<noteq> DENY \<and> oc \<noteq> SUSPEND" for oc :: outcome by (cases oc) simp_all
  then show "strictest rules = ALLOW \<longleftrightarrow> (\<forall>ru \<in> set rules. ru_outcome ru = ALLOW)"
    by (auto simp: strictest_def)
qed (auto simp: strictest_def)

lemma strictest_set: "set xs = set ys \<Longrightarrow> strictest xs = strictest ys"
  by (simp add: strictest_def)

end
