(* ===== verification/RetroPolicy.thy ===== *)
theory RetroPolicy
  imports Policy
begin

text \<open>
  The retrospective policy evaluation recipe (contract/retrospective_policy.py): a decision that was
  recorded is derived again from the recorded inputs and the archived bytes of the policy. The module
  is an implementation of its own, apart from the live evaluator of \<^verbatim>\<open>Policy\<close>; the copies it holds
  of \<open>_only\<close>, \<open>_text\<close>, \<open>_has_control\<close> and of the four patterns are letter for letter the live ones
  and are modelled by the same definitions, everything it spells differently is defined here.
\<close>

section \<open>The recipe's own parser\<close>

record recipe_rule =
  rr_id :: string
  rr_capability :: string
  rr_scope :: string
  rr_principals :: "string list"
  rr_outcome :: string
  rr_arguments_digest :: "string option"

definition recipe_reference :: "toml \<Rightarrow> string option" where
  "recipe_reference v = (case v of
      TStr s \<Rightarrow>
        refuse (count_list s CHR '':'' \<noteq> 1)
          (let kind = takeWhile (\<lambda>c. c \<noteq> CHR '':'') s;
               name = tl (dropWhile (\<lambda>c. c \<noteq> CHR '':'') s)
           in refuse (kind \<notin> {''user'', ''group''} \<or> name = [] \<or> 256 < length name \<or> has_control name)
             (Some s))
    | _ \<Rightarrow> None)"

definition OUTCOMES :: "string list" where
  "OUTCOMES = [''allow'', ''deny'', ''suspend'']"

definition recipe_outcome :: "toml option \<Rightarrow> string option" where
  "recipe_outcome v = (case v of Some (TStr s) \<Rightarrow> refuse (s \<notin> set OUTCOMES) (Some s) | _ \<Rightarrow> None)"

definition recipe_lifetime :: "toml option \<Rightarrow> string \<Rightarrow> unit option" where
  "recipe_lifetime v oc = (case v of
      None \<Rightarrow> Some ()
    | Some (TInt n) \<Rightarrow> refuse (n < 1 \<or> oc \<noteq> ''allow'') (Some ())
    | Some _ \<Rightarrow> None)"

definition recipe_deadline :: "toml option \<Rightarrow> string \<Rightarrow> unit option" where
  "recipe_deadline v oc = (case v of
      None \<Rightarrow> Some ()
    | Some (TInt n) \<Rightarrow> refuse (\<not> (1 \<le> n \<and> n \<le> 86400) \<or> oc \<noteq> ''suspend'') (Some ())
    | Some _ \<Rightarrow> None)"

definition recipe_parse_rule :: "toml \<Rightarrow> recipe_rule option" where
  "recipe_parse_rule raw = (case raw of
      TTable d \<Rightarrow>
        Option.bind (only_members d RULE_MEMBERS) (\<lambda>_.
        Option.bind (pattern_member is_identifier (map_of d ''id'')) (\<lambda>rule_id.
        Option.bind (pattern_member is_capability (map_of d ''capability'')) (\<lambda>capability.
        Option.bind (scope_member (map_of d ''scope'')) (\<lambda>scope.
        Option.bind (principals_member recipe_reference (map_of d ''principals'')) (\<lambda>principals.
        Option.bind (recipe_outcome (map_of d ''outcome'')) (\<lambda>oc.
        Option.bind (text_member (map_of d ''reason'') 512) (\<lambda>_.
        Option.bind (recipe_lifetime (map_of d ''grant_lifetime_seconds'') oc) (\<lambda>_.
        Option.bind (recipe_deadline (map_of d ''review_deadline_seconds'') oc) (\<lambda>_.
        Option.bind (optional_digest (map_of d ''arguments_digest'')) (\<lambda>digest.
          Some \<lparr>rr_id = rule_id, rr_capability = capability, rr_scope = scope,
                rr_principals = principals, rr_outcome = oc, rr_arguments_digest = digest\<rparr>))))))))))
    | _ \<Rightarrow> None)"

definition recipe_parse :: "(string \<Rightarrow> table option) \<Rightarrow> string \<Rightarrow> recipe_rule list option" where
  "recipe_parse loads raw =
     Option.bind (loads raw) (\<lambda>document.
     Option.bind (only_members document ROOT_MEMBERS) (\<lambda>_.
     refuse (map_of document ''format'' \<noteq> Some (TInt 1))
       (Option.bind (revision_member (map_of document ''revision'')) (\<lambda>_.
        rules_member recipe_parse_rule rr_id (map_of document ''rule'')))))"

section \<open>The recipe's own evaluator\<close>

datatype unparseable = PolicyUnparseable

type_synonym triple = "string \<times> string \<times> string option"

definition recipe_applies ::
  "string \<Rightarrow> string \<Rightarrow> string list \<Rightarrow> string option \<Rightarrow> recipe_rule \<Rightarrow> bool" where
  "recipe_applies scope capability recorded arguments_digest rr \<longleftrightarrow>
     rr_capability rr = capability \<and> rr_scope rr = scope \<and>
     list_ex (\<lambda>r. r \<in> set recorded) (rr_principals rr) \<and>
     (rr_arguments_digest rr = None \<or>
      arguments_digest \<noteq> None \<and> rr_arguments_digest rr = arguments_digest)"

definition RECIPE_STRICTEST_FIRST :: "(string \<times> string) list" where
  "RECIPE_STRICTEST_FIRST =
     [(''deny'', ''policy_denies''), (''suspend'', ''policy_requires_review''),
      (''allow'', ''policy_allows'')]"

fun recipe_select :: "(string \<times> string) list \<Rightarrow> recipe_rule list \<Rightarrow> triple result" where
  "recipe_select [] applying = Inl AssertionError"
| "recipe_select ((oc, r) # rest) applying =
     (case List.find (\<lambda>rr. rr_outcome rr = oc) applying of
        Some rr \<Rightarrow> Inr (oc, r, Some (rr_id rr))
      | None \<Rightarrow> recipe_select rest applying)"

definition evaluate_recorded_inputs ::
  "(string \<Rightarrow> table option) \<Rightarrow> string \<Rightarrow> string \<Rightarrow> string \<Rightarrow> string list \<Rightarrow> string option \<Rightarrow>
   (unparseable + triple) result" where
  "evaluate_recorded_inputs loads raw scope capability principal_references arguments_digest =
     (case recipe_parse loads raw of
        None \<Rightarrow> Inr (Inl PolicyUnparseable)
      | Some rules \<Rightarrow>
          let applying = filter (recipe_applies scope capability principal_references arguments_digest) rules
          in if applying = [] then Inr (Inr (''deny'', ''policy_absent'', None))
             else bind_r (recipe_select RECIPE_STRICTEST_FIRST applying) (\<lambda>t. Inr (Inr t)))"

section \<open>Comparing a record with what it yields\<close>

datatype rederivation = confirmed | differs | unverifiable

record recorded_decision =
  rd_scope :: string
  rd_capability :: string
  rd_principal_references :: "string list option"
  rd_arguments_digest :: "string option"
  rd_outcome :: string
  rd_reason :: string
  rd_rule_id :: "string option"
  rd_evaluation_recipe :: "string option"

record rederived =
  re_verdict :: rederivation
  re_cause :: "string option"
  re_expected :: "triple option"

definition RECIPE :: string where
  "RECIPE = ''sayfirst/policy-evaluation/v1''"

definition RECIPE_REASONS :: "string list" where
  "RECIPE_REASONS = [''policy_allows'', ''policy_denies'', ''policy_absent'', ''policy_requires_review'']"

definition unverifiable_for :: "string \<Rightarrow> rederived" where
  "unverifiable_for cause = \<lparr>re_verdict = unverifiable, re_cause = Some cause, re_expected = None\<rparr>"

definition rederive_recorded_decision ::
  "(string \<Rightarrow> table option) \<Rightarrow> recorded_decision \<Rightarrow> string \<Rightarrow> rederived result" where
  "rederive_recorded_decision loads recorded raw =
     (case (rd_evaluation_recipe recorded, rd_principal_references recorded) of
        (Some recipe, Some references) \<Rightarrow>
          if recipe \<noteq> RECIPE then Inr (unverifiable_for ''evaluation_recipe_unsupported'')
          else if rd_reason recorded \<notin> set RECIPE_REASONS then Inr (unverifiable_for ''reason_outside_recipe'')
          else bind_r (evaluate_recorded_inputs loads raw (rd_scope recorded) (rd_capability recorded)
                 references (rd_arguments_digest recorded)) (\<lambda>computed.
               case computed of
                 Inl PolicyUnparseable \<Rightarrow> Inr (unverifiable_for ''policy_unparseable'')
               | Inr t \<Rightarrow>
                   if t = (rd_outcome recorded, rd_reason recorded, rd_rule_id recorded)
                   then Inr \<lparr>re_verdict = confirmed, re_cause = None, re_expected = None\<rparr>
                   else Inr \<lparr>re_verdict = differs, re_cause = None, re_expected = Some t\<rparr>)
      | _ \<Rightarrow> Inr (unverifiable_for ''members_absent''))"

section \<open>The two parsers read the same rules\<close>

text \<open>What the recipe keeps of a rule the live loader parsed.\<close>

definition recorded_rule :: "rule \<Rightarrow> recipe_rule" where
  "recorded_rule ru = \<lparr>rr_id = ru_id ru, rr_capability = ru_capability ru, rr_scope = ru_scope ru,
     rr_principals = map ref_str (ru_principals ru), rr_outcome = outcome_value (ru_outcome ru),
     rr_arguments_digest = ru_arguments_digest ru\<rparr>"

lemma split_at_colon:
  "count_list s CHR '':'' = 1 \<Longrightarrow>
   takeWhile (\<lambda>c. c \<noteq> CHR '':'') s @ '':'' @ tl (dropWhile (\<lambda>c. c \<noteq> CHR '':'') s) = s \<and>
   CHR '':'' \<notin> set (tl (dropWhile (\<lambda>c. c \<noteq> CHR '':'') s))"
  by (induction s) (auto simp: count_list_0_iff split: if_splits)

lemma recipe_reference_eq: "recipe_reference v = map_option ref_str (parse_principal v)"
  using split_at_colon
  by (auto simp: recipe_reference_def parse_principal_def ref_str_def Let_def split: toml.split)

lemma parse_principal_kind:
  "parse_principal v = Some r \<Longrightarrow> (rf_kind r = ''user'' \<or> rf_kind r = ''group'') \<and>
     rf_name r \<noteq> [] \<and> length (rf_name r) \<le> 256 \<and> \<not> has_control (rf_name r) \<and> CHR '':'' \<notin> set (rf_name r)"
  using split_at_colon
  by (auto simp: parse_principal_def Let_def split: toml.splits if_splits)

lemma those_map_option: "those (map (\<lambda>x. map_option g (f x)) xs) = map_option (map g) (those (map f xs))"
  by (induction xs) (auto split: option.split simp: option.map_comp comp_def)

lemma principals_member_map:
  "principals_member (\<lambda>v. map_option g (f v)) v = map_option (map g) (principals_member f v)"
  by (simp add: principals_member_def those_map_option split: option.split toml.split)

lemma recipe_outcome_eq: "recipe_outcome v = map_option outcome_value (outcome_member v)"
  by (auto simp: recipe_outcome_def outcome_member_def outcome_of_def outcome_value_def OUTCOMES_def
      split: option.split toml.split)

text \<open>The one bound the recipe leaves out on purpose: the deployment's maximum lifetime.\<close>

definition lifetime_fits :: "int \<Rightarrow> toml \<Rightarrow> bool" where
  "lifetime_fits max_lifetime_seconds raw = (case raw of
      TTable d \<Rightarrow> (case map_of d ''grant_lifetime_seconds'' of
          Some (TInt n) \<Rightarrow> n \<le> max_lifetime_seconds
        | _ \<Rightarrow> True)
    | _ \<Rightarrow> True)"

lemma outcome_value_names [simp]:
  "outcome_value oc = ''allow'' \<longleftrightarrow> oc = ALLOW" "outcome_value oc = ''suspend'' \<longleftrightarrow> oc = SUSPEND"
  by (cases oc; simp add: outcome_value_def)+

lemma recipe_lifetime_eq:
  "(case v of Some (TInt n) \<Rightarrow> n \<le> m | _ \<Rightarrow> True) \<Longrightarrow>
   recipe_lifetime v (outcome_value oc) = map_option (\<lambda>_. ()) (lifetime_member v oc m)"
  by (auto simp: recipe_lifetime_def lifetime_member_def split: option.splits toml.splits)

lemma recipe_deadline_eq:
  "recipe_deadline v (outcome_value oc) = map_option (\<lambda>_. ()) (review_deadline v oc)"
  by (auto simp: recipe_deadline_def review_deadline_def MAX_REVIEW_DEADLINE_SECONDS_def
      split: option.splits toml.splits)

lemma bind_None_swap:
  "Option.bind a (\<lambda>x. Option.bind b (f x)) = Option.bind b (\<lambda>y. Option.bind a (\<lambda>x. f x y))"
  by (cases a; cases b) simp_all

lemma recipe_parse_rule_eq:
  assumes "lifetime_fits m raw"
  shows "recipe_parse_rule raw = map_option recorded_rule (parse_rule raw m)"
proof (cases raw)
  case (TTable d)
  have fits: "case map_of d ''grant_lifetime_seconds'' of Some (TInt n) \<Rightarrow> n \<le> m | _ \<Rightarrow> True"
    using assms by (simp add: lifetime_fits_def TTable)
  note lifetime = recipe_lifetime_eq [OF fits]
  have tail: "Option.bind (recipe_lifetime (map_of d ''grant_lifetime_seconds'') (outcome_value oc)) (\<lambda>_.
      Option.bind (recipe_deadline (map_of d ''review_deadline_seconds'') (outcome_value oc)) (\<lambda>_.
      Option.bind (optional_digest (map_of d ''arguments_digest'')) k)) =
    Option.bind (lifetime_member (map_of d ''grant_lifetime_seconds'') oc m) (\<lambda>_.
      Option.bind (optional_digest (map_of d ''arguments_digest'')) (\<lambda>x.
      Option.bind (review_deadline (map_of d ''review_deadline_seconds'') oc) (\<lambda>_. k x)))" for oc and k :: "_ \<Rightarrow> recipe_rule option"
    by (simp add: lifetime recipe_deadline_eq bind_map_option comp_def
        bind_None_swap [of "optional_digest (map_of d ''arguments_digest'')"])
  show ?thesis
    unfolding TTable recipe_parse_rule_def parse_rule_def toml.case recipe_outcome_eq
      ext [of recipe_reference, OF recipe_reference_eq] principals_member_map
    by (simp add: bind_map_option map_option_bind comp_def tail recorded_rule_def)
qed (simp_all add: recipe_parse_rule_def parse_rule_def)

end
