(* ===== verification/PolicyProperties.thy ===== *)
theory PolicyProperties
  imports RetroPolicy
begin

text \<open>
  What the policy format and its evaluation promise: the shape of every parsed policy, the outcome
  evaluation selects, its independence of the order of the rules, and that the retrospective recipe
  derives from the recorded inputs what the live evaluator answered.
\<close>

section \<open>Parsed policies\<close>

lemma those_map_members:
  "those (map f xs) = Some ys \<Longrightarrow> (\<forall>y \<in> set ys. \<exists>x \<in> set xs. f x = Some y) \<and>
     (\<forall>x \<in> set xs. f x \<noteq> None) \<and> (xs = [] \<longleftrightarrow> ys = [])"
proof (induction xs arbitrary: ys)
  case Nil
  then show ?case by simp
next
  case (Cons x xs)
  from Cons.prems obtain y zs where "f x = Some y" "those (map f xs) = Some zs" "ys = y # zs"
    by (auto split: option.splits)
  with Cons.IH [of zs] show ?case by auto
qed

definition reference_ok :: "principal_reference \<Rightarrow> bool" where
  "reference_ok r \<longleftrightarrow> (rf_kind r = ''user'' \<or> rf_kind r = ''group'') \<and> rf_name r \<noteq> [] \<and>
     length (rf_name r) \<le> 256 \<and> \<not> has_control (rf_name r) \<and> CHR '':'' \<notin> set (rf_name r)"

definition rule_ok :: "int \<Rightarrow> rule \<Rightarrow> bool" where
  "rule_ok max_lifetime ru \<longleftrightarrow>
     is_identifier (ru_id ru) \<and> is_capability (ru_capability ru) \<and> is_scope (ru_scope ru) \<and>
     ru_principals ru \<noteq> [] \<and> list_all reference_ok (ru_principals ru) \<and>
     ru_reason ru \<noteq> [] \<and> length (ru_reason ru) \<le> 512 \<and>
     (case ru_grant_lifetime_seconds ru of None \<Rightarrow> True
       | Some n \<Rightarrow> ru_outcome ru = ALLOW \<and> 1 \<le> n \<and> n \<le> max_lifetime) \<and>
     (case ru_arguments_digest ru of None \<Rightarrow> True | Some d \<Rightarrow> is_digest d) \<and>
     (case ru_review_deadline_seconds ru of None \<Rightarrow> ru_outcome ru \<noteq> SUSPEND
       | Some n \<Rightarrow> ru_outcome ru = SUSPEND \<and> 1 \<le> n \<and> n \<le> 86400)"

definition policy_ok :: "int \<Rightarrow> policy \<Rightarrow> bool" where
  "policy_ok max_lifetime p \<longleftrightarrow> po_format p = 1 \<and> po_revision_reason p \<noteq> [] \<and>
     list_all (rule_ok max_lifetime) (po_rules p) \<and> distinct (map ru_id (po_rules p))"

lemma member_facts:
  "pattern_member ok v = Some s \<Longrightarrow> ok s"
  "scope_member v = Some s \<Longrightarrow> is_scope s"
  "text_member v n = Some s \<Longrightarrow> s \<noteq> [] \<and> length s \<le> n"
  "lifetime_member v oc m = Some l \<Longrightarrow> l = None \<or> (\<exists>n. l = Some n \<and> oc = ALLOW \<and> 1 \<le> n \<and> n \<le> m)"
  "optional_digest v = Some d \<Longrightarrow> d = None \<or> (\<exists>s. d = Some s \<and> is_digest s)"
  "review_deadline v oc = Some w \<Longrightarrow> w = None \<and> oc \<noteq> SUSPEND \<or>
     (\<exists>n. w = Some n \<and> oc = SUSPEND \<and> 1 \<le> n \<and> n \<le> 86400)"
  by (auto simp: pattern_member_def scope_member_def text_member_def lifetime_member_def
      optional_digest_def review_deadline_def is_scope_def is_lower_def is_digit_def is_upper_def is_mark_def
      MAX_REVIEW_DEADLINE_SECONDS_def DEFAULT_REVIEW_DEADLINE_SECONDS_def
      split: option.splits toml.splits if_splits)

lemma principals_member_ok:
  "principals_member parse_principal v = Some rs \<Longrightarrow> rs \<noteq> [] \<and> list_all reference_ok rs"
  by (auto simp: principals_member_def list_all_iff reference_ok_def
      split: option.splits toml.splits if_splits
      dest!: those_map_members parse_principal_kind dest: bspec) 

lemma parse_rule_ok:
  assumes "parse_rule raw m = Some ru"
  shows "rule_ok m ru"
  using assms
  by (auto simp: parse_rule_def rule_ok_def bind_eq_Some_conv split: toml.splits
      dest!: member_facts principals_member_ok)

lemma parse_policy_rules:
  assumes "parse_policy loads m raw = Inr p"
  obtains document v where "loads raw = Some document" "only_members document ROOT_MEMBERS = Some ()"
    "map_of document ''format'' = Some (TInt 1)"
    "revision_member (map_of document ''revision'') = Some (po_revision_reason p)"
    "rules_member (\<lambda>v. parse_rule v m) ru_id (map_of document ''rule'') = Some (po_rules p)" "po_format p = 1"
  using assms by (auto simp: parse_policy_def bind_eq_Some_conv split: option.splits if_splits)

lemma rules_member_facts:
  assumes "rules_member f ident v = Some rules"
  obtains xs where "those (map f xs) = Some rules" "distinct (map ident rules)"
    "v = None \<and> xs = [] \<or> v = Some (TArray xs)"
  using assms by (auto simp: rules_member_def bind_eq_Some_conv split: option.splits toml.splits if_splits)

lemma parsed_policy_ok: "parse_policy loads m raw = Inr p \<Longrightarrow> policy_ok m p"
  by (erule parse_policy_rules, erule rules_member_facts)
    (auto simp: policy_ok_def revision_member_def list_all_iff bind_eq_Some_conv split: option.splits toml.splits
      dest!: those_map_members member_facts intro: parse_rule_ok)

section \<open>Examples\<close>

definition example_rule_document :: "string \<Rightarrow> string \<Rightarrow> (string \<times> toml) list \<Rightarrow> toml" where
  "example_rule_document ident oc extras = TTable
     ([(''id'', TStr ident), (''capability'', TStr ''disk.write''),
      (''principals'', TArray [TStr ''user:ada'', TStr ''group:ops'']),
      (''outcome'', TStr oc), (''reason'', TStr ''because'')] @ extras)"

definition example_document :: table where
  "example_document =
     [(''format'', TInt 1), (''revision'', TTable [(''reason'', TStr ''first'')]),
      (''rule'', TArray
        [example_rule_document ''open'' ''allow'' [(''grant_lifetime_seconds'', TInt 60)],
         example_rule_document ''ask'' ''suspend'' []])]"

definition example_loads :: "string \<Rightarrow> table option" where
  "example_loads raw = (if raw = ''policy'' then Some example_document else None)"

definition example_rule :: "string \<Rightarrow> outcome \<Rightarrow> rule" where
  "example_rule ident oc = \<lparr>ru_id = ident, ru_capability = ''disk.write'', ru_scope = ''local'',
     ru_principals = [\<lparr>rf_kind = ''user'', rf_name = ''ada''\<rparr>, \<lparr>rf_kind = ''group'', rf_name = ''ops''\<rparr>],
     ru_outcome = oc, ru_reason = ''because'',
     ru_grant_lifetime_seconds = (if oc = ALLOW then Some 60 else None), ru_arguments_digest = None,
     ru_review_deadline_seconds = (if oc = SUSPEND then Some 300 else None)\<rparr>"

definition example_policy :: policy where
  "example_policy = \<lparr>po_format = 1, po_revision_reason = ''first'',
     po_rules = [example_rule ''open'' ALLOW, example_rule ''ask'' SUSPEND]\<rparr>"

definition example_asking :: decision_question where
  "example_asking = \<lparr>dq_ask = \<lparr>ask_capability = ''disk.write'', ask_scope = ''local'',
       ask_arguments_digest = None, ask_correlation = None\<rparr>,
     dq_principal = \<lparr>pr_kind = ''human'', pr_uid = 1000, pr_user_name = ''ada'', pr_gids = [100],
       pr_group_names = [''ops'', ''staff''], pr_delegated_human = None\<rparr>\<rparr>"

lemmas policy_eval = is_identifier_def is_capability_def is_scope_def is_lower_def is_upper_def is_mark_def
  is_digit_def has_control_def is_control_def pattern_member_def scope_member_def text_member_def
  principals_member_def parse_principal_def outcome_member_def outcome_of_def lifetime_member_def
  optional_digest_def review_deadline_def DEFAULT_REVIEW_DEADLINE_SECONDS_def only_members_def
  ROOT_MEMBERS_def REVISION_MEMBERS_def RULE_MEMBERS_def revision_member_def rules_member_def

lemma example_rules_parse:
  "parse_rule (example_rule_document ''open'' ''allow'' [(''grant_lifetime_seconds'', TInt 60)]) 3600 =
     Some (example_rule ''open'' ALLOW)"
  "parse_rule (example_rule_document ''ask'' ''suspend'' []) 3600 = Some (example_rule ''ask'' SUSPEND)"
  by (simp_all add: example_rule_document_def example_rule_def parse_rule_def policy_eval)

lemma example_parses: "parse_policy example_loads 3600 ''policy'' = Inr example_policy"
  by (simp add: parse_policy_def example_loads_def example_document_def policy_eval example_rules_parse
      example_policy_def) (simp add: example_rule_def)

lemma example_applies: "applies (example_rule ident oc) example_asking"
  by (simp add: applies_def example_rule_def example_asking_def ref_matches_def)

lemma example_verdict: "evaluate example_policy example_asking =
    Inr \<lparr>vd_outcome = SUSPEND, vd_reason = POLICY_REQUIRES_REVIEW, vd_rule_id = Some ''ask'',
         vd_rule = Some (example_rule ''ask'' SUSPEND)\<rparr>"
  by (simp add: evaluate_def example_policy_def example_applies STRICTEST_FIRST_def)
    (simp add: example_rule_def)

section \<open>The outcome of an evaluation\<close>

text \<open>
  C21: evaluation always answers; the answer is a deny for want of a policy when no rule applies, and
  otherwise a deny if some applying rule denies, an allow only if every applying rule allows, and a
  suspension in between; the rule it names is an applying rule of that outcome.
\<close>

theorem evaluation_is_fail_closed:
  "\<exists>v. evaluate p q = Inr v \<and>
     (let applying = filter (\<lambda>ru. applies ru q) (po_rules p)
      in (vd_rule v = None \<longleftrightarrow> applying = []) \<and>
         (vd_reason v = POLICY_ABSENT \<longleftrightarrow> applying = []) \<and>
         (vd_outcome v = DENY \<longleftrightarrow> applying = [] \<or> (\<exists>ru \<in> set applying. ru_outcome ru = DENY)) \<and>
         (vd_outcome v = ALLOW \<longleftrightarrow> applying \<noteq> [] \<and> list_all (\<lambda>ru. ru_outcome ru = ALLOW) applying) \<and>
         (vd_rule v = None \<or> (\<exists>ru \<in> set applying. vd_rule v = Some ru \<and> vd_rule_id v = Some (ru_id ru) \<and>
                                     vd_outcome v = ru_outcome ru)))"
proof (cases rule: evaluate_cases [of q p])
  case absent
  then show ?thesis by simp
next
  case (selected ru applying)
  have "reason_for oc \<noteq> POLICY_ABSENT" for oc by (cases oc) (simp_all add: reason_for_def)
  with selected(2,4) find_outcome_Some [OF selected(3)] show ?thesis
    unfolding selected(1) [symmetric] by (auto simp: strictest_iff list_all_iff)
qed

theorem evaluation_is_fail_closed_witness:
  "\<exists>v. evaluate example_policy example_asking = Inr v \<and> vd_outcome v \<noteq> ALLOW \<and> vd_outcome v \<noteq> DENY"
  using evaluation_is_fail_closed [of example_policy example_asking]
  by (simp add: example_verdict)

lemma evaluate_outcome:
  "map_sum id (\<lambda>v. (vd_outcome v, vd_reason v)) (evaluate p q) =
     (let applying = filter (\<lambda>ru. applies ru q) (po_rules p)
      in Inr (if applying = [] then (DENY, POLICY_ABSENT)
              else (strictest applying, reason_for (strictest applying))))"
  by (cases rule: evaluate_cases [of q p]) (simp_all add: Let_def)

lemma allowed_iff:
  "(\<exists>v. evaluate p q = Inr v \<and> vd_outcome v = ALLOW) \<longleftrightarrow>
     (\<exists>ru \<in> set (po_rules p). applies ru q) \<and>
     (\<forall>ru \<in> set (po_rules p). applies ru q \<longrightarrow> ru_outcome ru = ALLOW)"
proof (cases rule: evaluate_cases [of q p])
  case absent
  then show ?thesis by (auto simp: filter_empty_conv)
next
  case (selected ru applying)
  then show ?thesis by (auto simp: strictest_iff filter_empty_conv)
qed

section \<open>The retrospective recipe\<close>

definition verdict_triple :: "verdict \<Rightarrow> triple" where
  "verdict_triple v = (outcome_value (vd_outcome v), reason_value (vd_reason v), vd_rule_id v)"

lemma parsed_rule_fits: "parse_rule raw m = Some ru \<Longrightarrow> lifetime_fits m raw"
  by (auto simp: parse_rule_def lifetime_fits_def lifetime_member_def bind_eq_Some_conv
      split: toml.splits option.splits if_splits)

lemma recipe_parses_the_same:
  assumes "parse_policy loads m raw = Inr p"
  shows "recipe_parse loads raw = Some (map recorded_rule (po_rules p))"
proof (rule parse_policy_rules [OF assms])
  fix document
  assume doc: "loads raw = Some document" "only_members document ROOT_MEMBERS = Some ()"
    "map_of document ''format'' = Some (TInt 1)"
    "revision_member (map_of document ''revision'') = Some (po_revision_reason p)"
    and rules: "rules_member (\<lambda>v. parse_rule v m) ru_id (map_of document ''rule'') = Some (po_rules p)"
  from rules_member_facts [OF rules] obtain xs where
    xs: "those (map (\<lambda>v. parse_rule v m) xs) = Some (po_rules p)" "distinct (map ru_id (po_rules p))"
      "map_of document ''rule'' = None \<and> xs = [] \<or> map_of document ''rule'' = Some (TArray xs)" .
  have "recipe_parse_rule v = map_option recorded_rule (parse_rule v m)" if "v \<in> set xs" for v
  proof -
    from those_map_members [OF xs(1)] that obtain ru where "parse_rule v m = Some ru" by blast
    then show ?thesis by (intro recipe_parse_rule_eq parsed_rule_fits)
  qed
  then have "those (map recipe_parse_rule xs) = Some (map recorded_rule (po_rules p))"
    by (simp add: those_map_option xs(1) cong: map_cong)
  moreover have "rr_id \<circ> recorded_rule = ru_id"
    by (simp add: recorded_rule_def fun_eq_iff)
  ultimately show ?thesis
    using doc xs(2,3) by (auto simp: recipe_parse_def rules_member_def)
qed

lemma ref_matches_held:
  assumes "reference_ok r"
  shows "ref_matches r u \<longleftrightarrow>
    ref_str r \<in> set ((''user:'' @ pr_user_name u) # map (\<lambda>name. ''group:'' @ name) (pr_group_names u))"
  using assms by (auto simp: reference_ok_def ref_matches_def ref_str_def)

lemma recorded_applies:
  assumes "rule_ok m ru" and "ru \<in> set (po_rules p)"
  shows "recipe_applies (ask_scope (dq_ask q)) (ask_capability (dq_ask q)) (references_read p q)
      (ask_arguments_digest (dq_ask q)) (recorded_rule ru) = applies ru q"
proof (cases "ru_capability ru = ask_capability (dq_ask q) \<and> ru_scope ru = ask_scope (dq_ask q)")
  case False
  then show ?thesis by (auto simp: recipe_applies_def applies_def recorded_rule_def)
next
  case True
  have "ref_str r \<in> set (references_read p q) \<longleftrightarrow> ref_matches r (dq_principal q)"
    if "r \<in> set (ru_principals ru)" for r
  proof -
    have "reference_ok r" using assms(1) that by (auto simp: rule_ok_def list_all_iff)
    moreover have "ref_str r \<in> set (concat (map (\<lambda>ru. map ref_str (ru_principals ru))
        (filter (\<lambda>ru. ru_capability ru = ask_capability (dq_ask q) \<and>
                      ru_scope ru = ask_scope (dq_ask q)) (po_rules p))))"
      using assms(2) True that by auto
    ultimately show ?thesis
      by (simp only: references_read_def Let_def ref_matches_held set_sort set_remdups set_filter
          mem_Collect_eq simp_thms)
  qed
  then have "list_ex (\<lambda>r. r \<in> set (references_read p q)) (map ref_str (ru_principals ru)) \<longleftrightarrow>
      list_ex (\<lambda>r. ref_matches r (dq_principal q)) (ru_principals ru)"
    by (auto simp: list_ex_iff)
  with True show ?thesis
    by (cases "ask_arguments_digest (dq_ask q)")
      (simp_all add: recipe_applies_def applies_def recorded_rule_def)
qed

lemma find_map: "List.find P (map f xs) = map_option f (List.find (\<lambda>x. P (f x)) xs)"
  by (induction xs) auto

lemma recipe_select_eq:
  "recipe_select (map (\<lambda>(oc, r). (outcome_value oc, reason_value r)) order) (map recorded_rule rules) =
     bind_r (select_verdict order rules) (\<lambda>v. Inr (verdict_triple v))"
  by (induction order rule: list.induct)
    (auto simp: find_map recorded_rule_def verdict_triple_def split: option.split)

lemma recipe_order:
  "RECIPE_STRICTEST_FIRST = map (\<lambda>(oc, r). (outcome_value oc, reason_value r)) STRICTEST_FIRST"
  by (simp add: RECIPE_STRICTEST_FIRST_def STRICTEST_FIRST_def outcome_value_def reason_value_def)

lemma recorded_evaluation_eq:
  assumes "parse_policy loads m raw = Inr p"
  shows "evaluate_recorded_inputs loads raw (ask_scope (dq_ask q)) (ask_capability (dq_ask q))
      (references_read p q) (ask_arguments_digest (dq_ask q)) =
    bind_r (evaluate p q) (\<lambda>v. Inr (Inr (verdict_triple v)))"
proof -
  have "list_all (rule_ok m) (po_rules p)"
    using parsed_policy_ok [OF assms] by (simp add: policy_ok_def)
  then have "filter (recipe_applies (ask_scope (dq_ask q)) (ask_capability (dq_ask q)) (references_read p q)
      (ask_arguments_digest (dq_ask q))) (map recorded_rule (po_rules p)) =
    map recorded_rule (filter (\<lambda>ru. applies ru q) (po_rules p))"
    unfolding filter_map comp_def list_all_iff
    by (intro arg_cong [where f = "map recorded_rule"] filter_cong refl recorded_applies [of m]) auto
  then show ?thesis
    by (simp add: evaluate_recorded_inputs_def recipe_parses_the_same [OF assms] evaluate_def Let_def
        recipe_order recipe_select_eq)
      (simp add: verdict_triple_def outcome_value_def reason_value_def bind_r_def split: sum.split)
qed

definition record_of :: "policy \<Rightarrow> decision_question \<Rightarrow> triple \<Rightarrow> recorded_decision" where
  "record_of p q t = \<lparr>rd_scope = ask_scope (dq_ask q), rd_capability = ask_capability (dq_ask q),
     rd_principal_references = Some (references_read p q),
     rd_arguments_digest = ask_arguments_digest (dq_ask q), rd_outcome = fst t, rd_reason = fst (snd t),
     rd_rule_id = snd (snd t), rd_evaluation_recipe = Some RECIPE\<rparr>"



end
