(* ===== verification/Grants.thy ===== *)
theory Grants
  imports Policy Json
begin

text \<open>
  The cached decision and its two readings: the control plane's grant and the state it renders
  (domain/grant.py), the rule a holder applies (contract/grants.py) and the endings a boundary reports
  (boundary/freshness.py). An instant of the daemon is a count of microseconds, because every clock the
  daemon composes is refused unless it is offset-aware; a published instant is the \<open>datetime\<close> its text
  parses to, which may be naive. \<open>uuid4\<close> is the argument \<open>grant_id\<close>.
\<close>

section \<open>Decisions\<close>

record decision =
  de_ref :: string
  de_scope :: string
  de_capability :: string
  de_outcome :: outcome
  de_reason :: reason
  de_policy_version :: "string option"
  de_approval_ref :: "string option"
  de_decided_at :: string
  de_correlation :: "string option"
  de_contract_generation :: int
  de_extra :: document

section \<open>The control plane's grant\<close>

record grant_conditions =
  gc_scope :: string
  gc_capability :: string
  gc_principal_reference :: string
  gc_arguments_digest :: "string option"

record grant =
  gr_id :: string
  gr_decision_ref :: string
  gr_policy_version :: string
  gr_issued_at :: int
  gr_lifetime_seconds :: int
  gr_expires_at :: int
  gr_heartbeat_seconds :: int
  gr_conditions :: grant_conditions

definition grant_post_init :: "grant \<Rightarrow> grant result" where
  "grant_post_init g =
     guard (\<not> (1 \<le> gr_lifetime_seconds g \<and> gr_lifetime_seconds g \<le> 86400)) ValueError
    (guard (\<not> (1 \<le> gr_heartbeat_seconds g \<and> gr_heartbeat_seconds g \<le> 60)) ValueError
    (guard (gr_expires_at g \<noteq> gr_issued_at g + seconds (gr_lifetime_seconds g)) ValueError
    (Inr g)))"

datatype grant_state = GrantLive | GrantExpired | GrantSilent | GrantPolicyVersionChanged | GrantConnectionLost

text \<open>\<open>isinstance(value, str | None)\<close>, and the value read.\<close>

definition text_or_none :: "json \<Rightarrow> string option result" where
  "text_or_none v = (case v of JNull \<Rightarrow> Inr None | JStr s \<Rightarrow> Inr (Some s) | _ \<Rightarrow> Inl ValueError)"

definition mint_grant :: "decision \<Rightarrow> int \<Rightarrow> int \<Rightarrow> string \<Rightarrow> int \<Rightarrow> string \<Rightarrow> grant result" where
  "mint_grant d now lifetime_seconds policy_version heartbeat_seconds grant_id =
     guard (de_outcome d \<noteq> ALLOW) ValueError
    (guard (de_policy_version d \<noteq> Some policy_version) ValueError
    (let principal_name = (case map_of (de_extra d) ''principal'' of
           Some (JObj who) \<Rightarrow> map_of who ''name''
         | _ \<Rightarrow> None)
     in case map_of (de_extra d) ''arguments_digest'' of
          None \<Rightarrow> Inl ValueError
        | Some arguments_digest \<Rightarrow>
           (case principal_name of
              Some (JStr name) \<Rightarrow>
                bind_r (text_or_none arguments_digest) (\<lambda>digest. grant_post_init
                  \<lparr>gr_id = grant_id, gr_decision_ref = de_ref d, gr_policy_version = policy_version,
                    gr_issued_at = now, gr_lifetime_seconds = lifetime_seconds,
                    gr_expires_at = now + seconds lifetime_seconds, gr_heartbeat_seconds = heartbeat_seconds,
                    gr_conditions = \<lparr>gc_scope = de_scope d, gc_capability = de_capability d,
                      gc_principal_reference = ''user:'' @ name, gc_arguments_digest = digest\<rparr>\<rparr>)
            | _ \<Rightarrow> Inl ValueError)))"

definition grant_state :: "grant \<Rightarrow> int \<Rightarrow> string \<Rightarrow> bool \<Rightarrow> int \<Rightarrow> grant_state" where
  "grant_state g now current_policy_version connection_live last_heard_at =
     (if \<not> connection_live then GrantConnectionLost
      else if gr_expires_at g \<le> now then GrantExpired
      else if seconds (gr_lifetime_seconds g) \<le> now - last_heard_at then GrantSilent
      else if current_policy_version \<noteq> gr_policy_version g then GrantPolicyVersionChanged
      else GrantLive)"

definition question_conditions :: "decision_ask \<Rightarrow> string \<Rightarrow> grant_conditions" where
  "question_conditions ask principal_reference =
     \<lparr>gc_scope = ask_scope ask, gc_capability = ask_capability ask,
      gc_principal_reference = principal_reference, gc_arguments_digest = ask_arguments_digest ask\<rparr>"

definition grant_matches :: "grant \<Rightarrow> decision_question \<Rightarrow> bool" where
  "grant_matches g q \<longleftrightarrow> gr_conditions g = question_conditions (dq_ask q) (pr_reference (dq_principal q))"

section \<open>The published grant and the rule of its holder\<close>

record published_grant =
  pg_id :: string
  pg_decision_ref :: string
  pg_policy_version :: string
  pg_issued_at :: datetime
  pg_lifetime_seconds :: int
  pg_expires_at :: datetime
  pg_heartbeat_seconds :: int
  pg_conditions :: grant_conditions

text \<open>What the daemon publishes of a grant, as its reader parses it back.\<close>

definition published :: "grant \<Rightarrow> published_grant" where
  "published g = \<lparr>pg_id = gr_id g, pg_decision_ref = gr_decision_ref g,
     pg_policy_version = gr_policy_version g, pg_issued_at = Aware (gr_issued_at g),
     pg_lifetime_seconds = gr_lifetime_seconds g, pg_expires_at = Aware (gr_expires_at g),
     pg_heartbeat_seconds = gr_heartbeat_seconds g, pg_conditions = gr_conditions g\<rparr>"

datatype grant_use = Hit | UseConnectionLost | UseExpired | UseArgumentsChanged | UseConditionsDiffer

definition published_instant :: "datetime \<Rightarrow> int result" where
  "published_instant d = (case d of Naive _ \<Rightarrow> Inl ValueError | Aware t \<Rightarrow> Inr t)"

definition grant_use :: "published_grant \<Rightarrow> decision_ask \<Rightarrow> string \<Rightarrow> int \<Rightarrow> bool \<Rightarrow> grant_use result" where
  "grant_use g ask principal_reference now connection_live =
     (if \<not> connection_live then Inr UseConnectionLost
      else bind_r (published_instant (pg_expires_at g)) (\<lambda>expires_at.
        if expires_at \<le> now then Inr UseExpired
        else let conditions = pg_conditions g
          in if gc_scope conditions \<noteq> ask_scope ask \<or> gc_capability conditions \<noteq> ask_capability ask \<or>
                gc_principal_reference conditions \<noteq> principal_reference
             then Inr UseConditionsDiffer
             else if gc_arguments_digest conditions \<noteq> ask_arguments_digest ask
             then Inr UseArgumentsChanged
             else Inr Hit))"

section \<open>What a boundary reports\<close>

datatype signal_kind = HEARTBEAT | GRANT_ENDED

datatype grant_end_reason = EndPolicyVersionChanged | EndExpired | EndDaemonStopping

datatype ending =
    Live
  | EndingConnectionLost
  | EndingExpired
  | EndingSilent
  | EndingPolicyVersionChanged
  | EndingConditionsDiffer
  | EndingArgumentsChanged

definition by_signal :: "grant_end_reason \<Rightarrow> ending" where
  "by_signal r = (case r of
      EndPolicyVersionChanged \<Rightarrow> EndingPolicyVersionChanged
    | EndExpired \<Rightarrow> EndingExpired
    | EndDaemonStopping \<Rightarrow> EndingConnectionLost)"

definition outranks_silence :: "grant_use \<Rightarrow> bool" where
  "outranks_silence u \<longleftrightarrow> u = UseConnectionLost \<or> u = UseExpired"

definition by_use :: "grant_use \<Rightarrow> ending" where
  "by_use u = (case u of
      Hit \<Rightarrow> Live
    | UseConnectionLost \<Rightarrow> EndingConnectionLost
    | UseExpired \<Rightarrow> EndingExpired
    | UseConditionsDiffer \<Rightarrow> EndingConditionsDiffer
    | UseArgumentsChanged \<Rightarrow> EndingArgumentsChanged)"

record held =
  he_grant :: published_grant
  he_last_heard_at :: datetime
  he_connection_live :: bool
  he_ended_by :: "grant_end_reason option"

text \<open>\<open>now - last_heard_at\<close> of an aware \<open>now\<close>: a naive operand raises.\<close>

definition elapsed :: "int \<Rightarrow> datetime \<Rightarrow> int result" where
  "elapsed now d = (case d of Naive _ \<Rightarrow> Inl TypeError | Aware t \<Rightarrow> Inr (now - t))"

definition ending :: "held \<Rightarrow> decision_ask \<Rightarrow> string \<Rightarrow> int \<Rightarrow> ending result" where
  "ending h ask principal_reference now =
     (if \<not> he_connection_live h then Inr EndingConnectionLost
      else case he_ended_by h of
        Some r \<Rightarrow> Inr (by_signal r)
      | None \<Rightarrow>
          bind_r (grant_use (he_grant h) ask principal_reference now True) (\<lambda>use.
            if outranks_silence use then Inr (by_use use)
            else bind_r (elapsed now (he_last_heard_at h)) (\<lambda>silence.
              if seconds (pg_lifetime_seconds (he_grant h)) \<le> silence then Inr EndingSilent
              else Inr (by_use use))))"

section \<open>The two readings agree\<close>

definition rendered :: "grant_state \<Rightarrow> ending" where
  "rendered s = (case s of
      GrantLive \<Rightarrow> Live
    | GrantExpired \<Rightarrow> EndingExpired
    | GrantSilent \<Rightarrow> EndingSilent
    | GrantPolicyVersionChanged \<Rightarrow> EndingPolicyVersionChanged
    | GrantConnectionLost \<Rightarrow> EndingConnectionLost)"

lemma conditions_eq_iff:
  "c = question_conditions ask p \<longleftrightarrow> gc_scope c = ask_scope ask \<and> gc_capability c = ask_capability ask \<and>
     gc_principal_reference c = p \<and> gc_arguments_digest c = ask_arguments_digest ask"
  by (cases c) (auto simp: question_conditions_def)

lemma grant_use_Hit: "grant_use g ask p now connection_live = Inr Hit \<longleftrightarrow> connection_live \<and>
    (\<exists>t. pg_expires_at g = Aware t \<and> now < t) \<and> pg_conditions g = question_conditions ask p"
  by (auto simp: grant_use_def published_instant_def conditions_eq_iff Let_def bind_r_def split: datetime.splits)

lemma by_use_Live [simp]: "by_use u = Live \<longleftrightarrow> u = Hit"
  by (cases u) (simp_all add: by_use_def)

lemma by_signal_not_Live [simp]: "by_signal r \<noteq> Live"
  by (cases r) (simp_all add: by_signal_def)

lemma ending_Live:
  "ending h ask p now = Inr Live \<longleftrightarrow> he_connection_live h \<and> he_ended_by h = None \<and>
     (\<exists>t. pg_expires_at (he_grant h) = Aware t \<and> now < t) \<and>
     (\<exists>t. he_last_heard_at h = Aware t \<and> now - t < seconds (pg_lifetime_seconds (he_grant h))) \<and>
     pg_conditions (he_grant h) = question_conditions ask p"
proof (cases "grant_use (he_grant h) ask p now True")
  case (Inl e)
  then have "grant_use (he_grant h) ask p now True \<noteq> Inr Hit" by simp
  then show ?thesis unfolding grant_use_Hit using Inl
    by (auto simp: ending_def split: option.splits)
next
  case (Inr u)
  then have "u = Hit \<longleftrightarrow> (\<exists>t. pg_expires_at (he_grant h) = Aware t \<and> now < t) \<and>
      pg_conditions (he_grant h) = question_conditions ask p"
    using grant_use_Hit [of "he_grant h" ask p now True] by auto
  with Inr show ?thesis
    by (auto simp: ending_def elapsed_def outranks_silence_def bind_r_def not_le split: option.splits datetime.splits)
qed

text \<open>
  A boundary honours a grant exactly while the control plane would call it live for that question:
  what \<open>ending\<close> answers for a grant the daemon published, at the version it was issued under and with no
  ending read off the stream, is the daemon's own state when the ask is the pinned question, and anything
  but live when it is another.
\<close>

theorem boundary_and_plane_agree:
  assumes "he_grant h = published g" and "he_last_heard_at h = Aware heard" and "he_ended_by h = None"
  shows "(grant_matches g q \<longrightarrow>
      ending h (dq_ask q) (pr_reference (dq_principal q)) now =
        Inr (rendered (grant_state g now (gr_policy_version g) (he_connection_live h) heard))) \<and>
    (\<not> grant_matches g q \<longrightarrow>
      ending h (dq_ask q) (pr_reference (dq_principal q)) now \<noteq> Inr Live)"
proof -
  have pg: "pg_conditions (he_grant h) = gr_conditions g" "pg_expires_at (he_grant h) = Aware (gr_expires_at g)"
    "pg_lifetime_seconds (he_grant h) = gr_lifetime_seconds g"
    by (simp_all add: assms published_def)
  have "ending h (dq_ask q) (pr_reference (dq_principal q)) now =
      Inr (rendered (grant_state g now (gr_policy_version g) (he_connection_live h) heard))"
    if "grant_matches g q"
    using that
    by (simp add: grant_matches_def conditions_eq_iff ending_def grant_use_def pg assms published_instant_def
        pg [unfolded assms] grant_state_def rendered_def elapsed_def outranks_silence_def by_use_def Let_def
        del: bind_r_Inr)
  moreover have "ending h (dq_ask q) (pr_reference (dq_principal q)) now \<noteq> Inr Live"
    if "\<not> grant_matches g q"
    using that by (simp add: ending_Live pg grant_matches_def)
  ultimately show ?thesis by blast
qed

definition example_grant :: grant where
  "example_grant = \<lparr>gr_id = ''g1'', gr_decision_ref = ''d1'', gr_policy_version = ''v1'', gr_issued_at = 0,
     gr_lifetime_seconds = 60, gr_expires_at = 60000000, gr_heartbeat_seconds = 5,
     gr_conditions = \<lparr>gc_scope = ''local'', gc_capability = ''disk.write'',
       gc_principal_reference = ''user:ada'', gc_arguments_digest = None\<rparr>\<rparr>"

definition example_held :: held where
  "example_held = \<lparr>he_grant = published example_grant, he_last_heard_at = Aware 0,
     he_connection_live = True, he_ended_by = None\<rparr>"

definition example_ask :: decision_ask where
  "example_ask = \<lparr>ask_capability = ''disk.write'', ask_scope = ''local'',
     ask_arguments_digest = None, ask_correlation = None\<rparr>"

definition example_asked :: decision_question where
  "example_asked = \<lparr>dq_ask = example_ask,
     dq_principal = \<lparr>pr_kind = ''human'', pr_uid = 1000, pr_user_name = ''ada'', pr_gids = [],
       pr_group_names = [], pr_delegated_human = None\<rparr>\<rparr>"

lemma example_matches: "grant_matches example_grant example_asked"
  by (simp add: grant_matches_def example_grant_def example_asked_def example_ask_def
      question_conditions_def pr_reference_def)

theorem boundary_and_plane_agree_witness:
  "ending example_held example_ask ''user:ada'' 60000000 = Inr EndingExpired \<and>
   ending example_held example_ask ''user:ada'' 1 = Inr Live"
  using boundary_and_plane_agree [of example_held example_grant 0 example_asked 60000000]
    boundary_and_plane_agree [of example_held example_grant 0 example_asked 1] example_matches
  by (simp add: example_held_def example_asked_def pr_reference_def)
    (simp add: grant_state_def rendered_def example_grant_def seconds_def)

section \<open>Minting\<close>

lemma grant_post_init_ok: "grant_post_init g = Inr g' \<longleftrightarrow> g' = g \<and>
    1 \<le> gr_lifetime_seconds g \<and> gr_lifetime_seconds g \<le> 86400 \<and>
    1 \<le> gr_heartbeat_seconds g \<and> gr_heartbeat_seconds g \<le> 60 \<and>
    gr_expires_at g = gr_issued_at g + seconds (gr_lifetime_seconds g)"
  by (auto simp: grant_post_init_def)

lemma text_or_none_Inr: "text_or_none v = Inr digest \<longleftrightarrow> v = opt_str digest"
  by (cases v; cases digest) (auto simp: text_or_none_def opt_str_def)

lemma mint_grant_Inr:
  "mint_grant d now lifetime version heartbeat gid = Inr g \<longleftrightarrow>
     de_outcome d = ALLOW \<and> de_policy_version d = Some version \<and>
     (\<exists>who name digest. map_of (de_extra d) ''principal'' = Some (JObj who) \<and>
        map_of who ''name'' = Some (JStr name) \<and>
        map_of (de_extra d) ''arguments_digest'' = Some (opt_str digest) \<and>
        grant_post_init \<lparr>gr_id = gid, gr_decision_ref = de_ref d, gr_policy_version = version,
          gr_issued_at = now, gr_lifetime_seconds = lifetime, gr_expires_at = now + seconds lifetime,
          gr_heartbeat_seconds = heartbeat, gr_conditions = \<lparr>gc_scope = de_scope d,
            gc_capability = de_capability d, gc_principal_reference = ''user:'' @ name,
            gc_arguments_digest = digest\<rparr>\<rparr> = Inr g)"
  by (auto simp: mint_grant_def Let_def text_or_none_Inr split: option.splits json.splits)

definition example_decision :: decision where
  "example_decision = \<lparr>de_ref = ''d1'', de_scope = ''local'', de_capability = ''disk.write'', de_outcome = ALLOW,
     de_reason = POLICY_ALLOWS, de_policy_version = Some ''v1'', de_approval_ref = None,
     de_decided_at = ''1970-01-01T00:00:00Z'', de_correlation = None, de_contract_generation = 1,
     de_extra = [(''principal'', JObj [(''kind'', JStr ''human''), (''uid'', JInt 1000), (''name'', JStr ''ada'')]),
       (''arguments_digest'', JNull)]\<rparr>"

end
