(* ===== verification/Events.thy ===== *)
theory Events
  imports Prelude
begin

text \<open>
  The bounded sink of observations (application/events.py) and the interface it shares with the
  boundary's outcome log: a log that numbers everything it is given, keeps at most a capacity of it,
  sheds the oldest and says how much it shed.
\<close>

section \<open>The interface of a bounded, numbered log\<close>

text \<open>
  \<open>kept\<close> are the sequence numbers still held, oldest first, \<open>made\<close> the number given out last and
  \<open>room\<close> the capacity. Recording is the only operation of the interface.
\<close>

locale numbered_log =
  fixes add :: "'e \<Rightarrow> 's \<Rightarrow> 's"
    and kept :: "'s \<Rightarrow> nat list"
    and made :: "'s \<Rightarrow> nat"
    and room :: "'s \<Rightarrow> nat"
  assumes add_made: "made (add e s) = Suc (made s)"
    and add_room: "room (add e s) = room s"
    and add_kept: "length (kept s) \<le> room s \<Longrightarrow> 1 \<le> room s \<Longrightarrow>
      kept (add e s) = (if length (kept s) = room s then tl (kept s) else kept s) @ [Suc (made s)]"
begin

text \<open>What is held is always the latest numbers without a hole, within the capacity.\<close>

definition window :: "'s \<Rightarrow> bool" where
  "window s \<longleftrightarrow> 1 \<le> room s \<and> length (kept s) \<le> room s \<and> length (kept s) \<le> made s \<and>
     kept s = [Suc (made s) - length (kept s) ..< Suc (made s)]"

lemma window_add:
  assumes "window s"
  shows "window (add e s)"
proof -
  define n where "n = length (kept s)"
  from assms have k: "kept s = [Suc (made s) - n ..< Suc (made s)]" and n: "n \<le> room s" "n \<le> made s" "1 \<le> room s"
    by (simp_all add: window_def n_def)
  show ?thesis
  proof (cases "n = room s")
    case True
    have "tl [Suc (made s) - n ..< Suc (made s)] = [Suc (Suc (made s)) - n ..< Suc (made s)]"
      using n(2) by (simp only: tl_upt Suc_diff_le le_SucI)
    then have tl: "tl (kept s) = [Suc (Suc (made s)) - n ..< Suc (made s)]"
      using k by (simp only:)
    have "kept (add e s) = tl (kept s) @ [Suc (made s)]"
      using True n by (simp add: add_kept n_def)
    also have "\<dots> = [Suc (Suc (made s)) - n ..< Suc (Suc (made s))]"
      unfolding tl using n True by (simp add: upt_Suc_append)
    finally have e: "kept (add e s) = [Suc (Suc (made s)) - n ..< Suc (Suc (made s))]" .
    then have len: "length (kept (add e s)) = n" using n by (simp only: length_upt)
    show ?thesis
      unfolding window_def len add_made add_room using e n by simp
  next
    case False
    have "kept (add e s) = kept s @ [Suc (made s)]"
      using False n by (simp add: add_kept n_def)
    also have "\<dots> = [Suc (Suc (made s)) - Suc n ..< Suc (Suc (made s))]"
      unfolding k using n by (simp add: upt_Suc_append del: upt_Suc)
    finally have e: "kept (add e s) = [Suc (Suc (made s)) - Suc n ..< Suc (Suc (made s))]" .
    then have len: "length (kept (add e s)) = Suc n" using n by (simp only: length_upt)
    show ?thesis
      unfolding window_def len add_made add_room using e n False by simp
  qed
qed

lemma window_fold: "window s \<Longrightarrow> window (fold add es s)"
  by (induction es arbitrary: s) (auto intro: window_add)

lemma made_fold: "made (fold add es s) = made s + length es"
  by (induction es arbitrary: s) (auto simp: add_made)

lemma room_fold: "room (fold add es s) = room s"
  by (induction es arbitrary: s) (auto simp: add_room)

text \<open>The first number held tells exactly how many are gone.\<close>

lemma window_first: "window s \<Longrightarrow> kept s \<noteq> [] \<Longrightarrow> hd (kept s) = Suc (made s - length (kept s))"
proof -
  assume "window s" and nonempty: "kept s \<noteq> []"
  define n where "n = length (kept s)"
  have k: "kept s = [Suc (made s) - n ..< Suc (made s)]" and n: "n \<le> made s" "0 < n"
    using \<open>window s\<close> nonempty by (simp_all add: window_def n_def)
  have "hd [Suc (made s) - n ..< Suc (made s)] = Suc (made s) - n"
    using n by (intro hd_upt) simp
  then show ?thesis
    unfolding n_def [symmetric] using k n by (simp add: Suc_diff_le)
qed

end

section \<open>BoundedEvents\<close>

record 'd event =
  ev_kind :: string
  ev_at :: int
  ev_details :: 'd

text \<open>
  \<open>deque(maxlen=capacity)\<close> is a list, oldest first, that drops its head when an append finds it full.
  The capacity is the \<open>maxlen\<close> of the deque.
\<close>

record 'd bounded_events =
  be_entries :: "(nat \<times> 'd event) list"
  be_maxlen :: nat
  be_recorded :: nat

definition DEFAULT_EVENT_CAPACITY :: nat where
  "DEFAULT_EVENT_CAPACITY = 1024"

definition bounded_events :: "nat \<Rightarrow> 'd bounded_events result" where
  "bounded_events capacity =
     guard (capacity < 1) ValueError
       (Inr \<lparr>be_entries = [], be_maxlen = capacity, be_recorded = 0\<rparr>)"

definition deque_append :: "nat \<Rightarrow> 'a \<Rightarrow> 'a list \<Rightarrow> 'a list" where
  "deque_append maxlen x xs =
     (if length xs < maxlen then xs @ [x] else if maxlen = 0 then [] else tl xs @ [x])"

definition record_event :: "'d event \<Rightarrow> 'd bounded_events \<Rightarrow> 'd bounded_events" where
  "record_event e s =
     (let recorded = be_recorded s + 1
      in s\<lparr>be_recorded := recorded, be_entries := deque_append (be_maxlen s) (recorded, e) (be_entries s)\<rparr>)"

definition events_since :: "nat \<Rightarrow> 'd bounded_events \<Rightarrow> (nat \<times> 'd event) list" where
  "events_since sequence s = filter (\<lambda>entry. fst entry > sequence) (be_entries s)"

definition events_dropped :: "'d bounded_events \<Rightarrow> nat" where
  "events_dropped s = be_recorded s - length (be_entries s)"

interpretation event_log: numbered_log record_event "\<lambda>s. map fst (be_entries s)" be_recorded be_maxlen
  by unfold_locales (auto simp: record_event_def deque_append_def map_tl Let_def)

lemma bounded_events_window: "bounded_events c = Inr s \<Longrightarrow> event_log.window s"
  by (auto simp: bounded_events_def event_log.window_def split: if_splits)

lemma drop_of_drop_append: "m \<le> length xs \<Longrightarrow> drop n (drop m xs @ ys) = drop (n + m) (xs @ ys)"
  by (metis drop_append diff_is_0_eq drop_0 drop_drop)

lemma record_event_entries:
  "be_entries (fold record_event es s) = drop (length (be_entries s) + length es - be_maxlen s)
     (be_entries s @ zip [Suc (be_recorded s) ..< Suc (be_recorded s + length es)] es)"
  if "length (be_entries s) \<le> be_maxlen s" "1 \<le> be_maxlen s"
  using that
proof (induction es arbitrary: s)
  case Nil
  then show ?case by simp
next
  case (Cons e es)
  let ?s = "record_event e s"
  have step: "be_entries ?s = drop (length (be_entries s) + 1 - be_maxlen s) (be_entries s @ [(Suc (be_recorded s), e)])"
    using Cons.prems by (auto simp: record_event_def deque_append_def Let_def drop_Suc tl_append split: list.split)
  have more: "be_maxlen ?s = be_maxlen s" "be_recorded ?s = Suc (be_recorded s)"
    by (simp_all add: record_event_def Let_def)
  have "length (be_entries ?s) \<le> be_maxlen ?s"
    using Cons.prems by (simp add: step more)
  from Cons.IH [OF this] Cons.prems have "be_entries (fold record_event es ?s) =
      drop (length (be_entries ?s) + length es - be_maxlen s) (be_entries ?s @
        zip [Suc (Suc (be_recorded s)) ..< Suc (Suc (be_recorded s) + length es)] es)"
    by (simp only: more)
  also have "\<dots> = drop (length (be_entries s) + Suc (length es) - be_maxlen s)
      ((be_entries s @ [(Suc (be_recorded s), e)]) @
        zip [Suc (Suc (be_recorded s)) ..< Suc (Suc (be_recorded s) + length es)] es)"
  proof -
    have "length (be_entries s) + 1 - be_maxlen s \<le> length (be_entries s @ [(Suc (be_recorded s), e)])"
      by simp
    moreover have "length (be_entries ?s) + length es - be_maxlen s + (length (be_entries s) + 1 - be_maxlen s) =
        length (be_entries s) + Suc (length es) - be_maxlen s"
      unfolding step using Cons.prems by (simp del: upt_Suc)
    ultimately show ?thesis
      by (subst (2) step) (simp only: drop_of_drop_append)
  qed
  finally have walked: "be_entries (fold record_event es ?s) = \<dots>" .
  have "zip [Suc (be_recorded s) ..< Suc (be_recorded s + length (e # es))] (e # es) =
      (Suc (be_recorded s), e) # zip [Suc (Suc (be_recorded s)) ..< Suc (Suc (be_recorded s) + length es)] es"
    by (simp add: upt_conv_Cons del: upt_Suc)
  with walked show ?case by (simp del: upt_Suc)
qed

end
