(* ===== verification/OutcomeLog.thy ===== *)
theory OutcomeLog
  imports Events
begin

text \<open>
  The boundary's outcome log (boundary/evidence.py): records made without waiting, emitted to a sink
  that may refuse them, each stamped on its way out with how many before it were lost.

  The sink and the clock are the caller's. The sink is an argument that says, of an entry and of all it
  was offered before, whether the call returns or raises; the text of the clock's instant is an argument
  of \<^verbatim>\<open>record_outcome\<close>.
\<close>

record pending_outcome =
  pe_sequence :: nat
  pe_capability :: string
  pe_decision_ref :: string
  pe_outcome_digest :: "string option"
  pe_at :: string

record outcome_record = pending_outcome +
  er_dropped_before :: nat

record outcome_log =
  ol_pending :: "pending_outcome list"
  ol_capacity :: nat
  ol_sequence :: nat
  ol_dropped :: nat

definition outcome_log :: "nat \<Rightarrow> outcome_log result" where
  "outcome_log capacity =
     guard (capacity < 1) ValueError
       (Inr \<lparr>ol_pending = [], ol_capacity = capacity, ol_sequence = 0, ol_dropped = 0\<rparr>)"

type_synonym outcome_made = "string \<times> string \<times> string option \<times> string"

definition record_outcome :: "outcome_made \<Rightarrow> outcome_log \<Rightarrow> outcome_log" where
  "record_outcome made log =
     (let (capability, decision_ref, outcome_digest, at) = made;
          sequence = ol_sequence log + 1;
          full = length (ol_pending log) = ol_capacity log
      in log\<lparr>ol_sequence := sequence,
             ol_dropped := (if full then ol_dropped log + 1 else ol_dropped log),
             ol_pending := (if full then tl (ol_pending log) else ol_pending log) @
               [\<lparr>pe_sequence = sequence, pe_capability = capability, pe_decision_ref = decision_ref,
                 pe_outcome_digest = outcome_digest, pe_at = at\<rparr>]\<rparr>)"

text \<open>What the sink was offered, in order, and whether each call returned.\<close>

type_synonym sink_history = "(outcome_record \<times> bool) list"
type_synonym sink = "sink_history \<Rightarrow> outcome_record \<Rightarrow> bool"

definition stamped :: "pending_outcome \<Rightarrow> nat \<Rightarrow> outcome_record" where
  "stamped p dropped = \<lparr>pe_sequence = pe_sequence p, pe_capability = pe_capability p,
     pe_decision_ref = pe_decision_ref p, pe_outcome_digest = pe_outcome_digest p, pe_at = pe_at p,
     er_dropped_before = dropped\<rparr>"

text \<open>The loop of \<open>flush\<close>: the held records, the count of drops and what the sink has seen.\<close>

fun flush_loop :: "sink \<Rightarrow> pending_outcome list \<Rightarrow> nat \<Rightarrow> sink_history \<Rightarrow> nat \<times> sink_history" where
  "flush_loop sink [] dropped seen = (dropped, seen)"
| "flush_loop sink (p # pending) dropped seen =
     (let entry = stamped p dropped; returned = sink seen entry
      in flush_loop sink pending (if returned then dropped else dropped + 1) (seen @ [(entry, returned)]))"

definition flush_log :: "sink \<Rightarrow> outcome_log \<times> sink_history \<Rightarrow> outcome_log \<times> sink_history" where
  "flush_log sink s =
     (let (dropped, seen) = flush_loop sink (ol_pending (fst s)) (ol_dropped (fst s)) (snd s)
      in ((fst s)\<lparr>ol_pending := [], ol_dropped := dropped\<rparr>, seen))"

datatype log_op = MakeRecord outcome_made | Flush

primrec apply_log_op :: "sink \<Rightarrow> log_op \<Rightarrow> outcome_log \<times> sink_history \<Rightarrow> outcome_log \<times> sink_history" where
  "apply_log_op sink (MakeRecord made) s = (record_outcome made (fst s), snd s)"
| "apply_log_op sink Flush s = flush_log sink s"

interpretation outcomes: numbered_log record_outcome "\<lambda>log. map pe_sequence (ol_pending log)" ol_sequence ol_capacity
  by unfold_locales (auto simp: record_outcome_def Let_def map_tl split: prod.splits)

section \<open>Every stamp is the truth\<close>

text \<open>The sequences that reached the sink and were taken by it.\<close>

definition delivered :: "sink_history \<Rightarrow> nat list" where
  "delivered seen = map (pe_sequence \<circ> fst) (filter snd seen)"

definition honest :: "sink_history \<Rightarrow> bool" where
  "honest seen = list_all (\<lambda>(e, _). er_dropped_before e = card ({1..<pe_sequence e} - set (delivered seen))) seen"

definition offered :: "sink_history \<Rightarrow> nat list" where
  "offered seen = map (pe_sequence \<circ> fst) seen"

text \<open>Of the first \<open>m\<close> records made, each was offered once or lost, and the lost ones are counted.\<close>

definition settled :: "nat \<Rightarrow> nat \<Rightarrow> sink_history \<Rightarrow> bool" where
  "settled m dropped seen \<longleftrightarrow> sorted_wrt (<) (offered seen) \<and> set (offered seen) \<subseteq> {1..m} \<and>
     dropped + length (delivered seen) = m \<and> honest seen"

lemma delivered_subset: "set (delivered seen) \<subseteq> set (offered seen)"
  by (auto simp: delivered_def offered_def)

lemma delivered_distinct: "sorted_wrt (<) (offered seen) \<Longrightarrow> distinct (delivered seen)"
proof -
  assume "sorted_wrt (<) (offered seen)"
  then have "distinct (map (pe_sequence \<circ> fst) seen)"
    by (simp add: offered_def strict_sorted_iff)
  then show ?thesis by (simp add: delivered_def distinct_map_filter)
qed

lemma delivered_snoc: "delivered (seen @ [(e, b)]) = delivered seen @ (if b then [pe_sequence e] else [])"
  by (simp add: delivered_def)

lemma settled_offer:
  assumes "settled m dropped seen" and "pe_sequence p = Suc m"
  shows "settled (Suc m) (if b then dropped else dropped + 1) (seen @ [(stamped p dropped, b)])"
proof -
  let ?seen = "seen @ [(stamped p dropped, b)]"
  have seq: "pe_sequence (stamped p dropped) = Suc m" and drop: "er_dropped_before (stamped p dropped) = dropped"
    by (simp_all add: stamped_def assms)
  from assms have s: "sorted_wrt (<) (offered seen)" "set (offered seen) \<subseteq> {1..m}"
    "dropped + length (delivered seen) = m" "honest seen"
    by (simp_all add: settled_def)
  have off: "offered ?seen = offered seen @ [Suc m]" by (simp add: offered_def seq)
  have "sorted_wrt (<) (offered ?seen)" "set (offered ?seen) \<subseteq> {1..Suc m}"
    using s(1,2) by (auto simp: off sorted_wrt_append)
  moreover have "(if b then dropped else dropped + 1) + length (delivered ?seen) = Suc m"
    using s(3) by (simp add: delivered_snoc)
  moreover have "honest ?seen"
  proof -
    have same: "{1..<pe_sequence e} - set (delivered ?seen) = {1..<pe_sequence e} - set (delivered seen)"
      if "pe_sequence e \<le> Suc m" for e :: outcome_record
      using that by (auto simp: delivered_snoc seq)
    have old: "er_dropped_before e = card ({1..<pe_sequence e} - set (delivered ?seen))" if "(e, c) \<in> set seen" for e c
    proof -
      have "pe_sequence e \<in> set (offered seen)" using that by (force simp: offered_def)
      then have "pe_sequence e \<le> Suc m" using s(2) by auto
      with same [of e] s(4) that show ?thesis by (auto simp: honest_def list_all_iff)
    qed
    have "set (delivered seen) \<subseteq> {1..<Suc m}"
      using s(2) delivered_subset [of seen] by auto
    then have "card ({1..<Suc m} - set (delivered seen)) = m - length (delivered seen)"
      using delivered_distinct [OF s(1)] by (simp add: card_Diff_subset distinct_card)
    then have "er_dropped_before (stamped p dropped) =
        card ({1..<pe_sequence (stamped p dropped)} - set (delivered ?seen))"
      using s(3) same [of "stamped p dropped"] by (simp add: drop seq)
    with old show ?thesis by (auto simp: honest_def list_all_iff)
  qed
  ultimately show ?thesis by (simp add: settled_def)
qed

lemma flush_loop_settled:
  "settled m dropped seen \<Longrightarrow> map pe_sequence pending = [Suc m ..< Suc (m + length pending)] \<Longrightarrow>
   flush_loop sink pending dropped seen = (dropped', seen') \<Longrightarrow> settled (m + length pending) dropped' seen'"
proof (induction pending arbitrary: m dropped seen)
  case Nil
  then show ?case by simp
next
  case (Cons p pending)
  from Cons.prems(2) have p: "pe_sequence p = Suc m"
    and rest: "map pe_sequence pending = [Suc (Suc m) ..< Suc (Suc m + length pending)]"
    by (simp_all add: upt_conv_Cons del: upt_Suc)
  from Cons.IH [OF settled_offer [OF Cons.prems(1) p] rest] Cons.prems(3) show ?case
    by (simp add: Let_def)
qed

definition log_ok :: "outcome_log \<times> sink_history \<Rightarrow> bool" where
  "log_ok s \<longleftrightarrow> outcomes.window (fst s) \<and>
     settled (ol_sequence (fst s) - length (ol_pending (fst s))) (ol_dropped (fst s)) (snd s)"

lemma settled_lost: "settled m dropped seen \<Longrightarrow> settled (Suc m) (Suc dropped) seen"
  by (auto simp: settled_def)

lemma record_outcome_log_ok: "log_ok s \<Longrightarrow> log_ok (record_outcome made (fst s), snd s)"
proof -
  assume ok: "log_ok s"
  let ?log = "fst s"
  have w: "outcomes.window ?log" and w': "outcomes.window (record_outcome made ?log)"
    using ok outcomes.window_add by (simp_all add: log_ok_def)
  from w have n: "length (ol_pending ?log) \<le> ol_sequence ?log" "1 \<le> ol_capacity ?log"
    by (simp_all add: outcomes.window_def)
  have "settled (Suc (ol_sequence ?log) - length (ol_pending (record_outcome made ?log)))
      (ol_dropped (record_outcome made ?log)) (snd s)"
    using ok n settled_lost [of "ol_sequence ?log - length (ol_pending ?log)"]
    by (auto simp: log_ok_def record_outcome_def Let_def Suc_diff_le split: prod.splits)
  with w' show ?thesis
    by (simp add: log_ok_def outcomes.add_made)
qed

lemma flush_log_ok: "log_ok s \<Longrightarrow> log_ok (flush_log sink s)"
proof -
  assume ok: "log_ok s"
  let ?log = "fst s" and ?n = "length (ol_pending (fst s))"
  obtain d seen where loop: "flush_loop sink (ol_pending ?log) (ol_dropped ?log) (snd s) = (d, seen)"
    by (cases "flush_loop sink (ol_pending ?log) (ol_dropped ?log) (snd s)")
  have w: "map pe_sequence (ol_pending ?log) = [Suc (ol_sequence ?log) - ?n ..< Suc (ol_sequence ?log)]"
    "?n \<le> ol_sequence ?log" "1 \<le> ol_capacity ?log"
    using ok by (simp_all add: log_ok_def outcomes.window_def del: upt_Suc)
  then have "map pe_sequence (ol_pending ?log) =
      [Suc (ol_sequence ?log - ?n) ..< Suc (ol_sequence ?log - ?n + ?n)]"
    by (simp add: Suc_diff_le del: upt_Suc)
  from flush_loop_settled [OF _ this loop] ok w show ?thesis
    by (simp add: log_ok_def flush_log_def loop outcomes.window_def del: upt_Suc)
qed

lemma run_log_ok: "log_ok s \<Longrightarrow> log_ok (fold (apply_log_op sink) ops s)"
proof (induction ops arbitrary: s)
  case Nil
  then show ?case by simp
next
  case (Cons x ops)
  have "log_ok (apply_log_op sink x s)"
    using Cons.prems by (cases x) (simp_all add: record_outcome_log_ok flush_log_ok)
  from Cons.IH [OF this] show ?case by simp
qed

lemma fresh_log_ok: "outcome_log capacity = Inr log \<Longrightarrow> log_ok (log, [])"
  by (auto simp: outcome_log_def log_ok_def outcomes.window_def settled_def offered_def delivered_def
      honest_def split: if_splits)

definition example_sink :: sink where
  "example_sink seen entry = (length seen \<noteq> 1)"

definition example_made :: outcome_made where
  "example_made = (''disk.write'', ''d1'', None, ''2026-01-01T00:00:00+00:00'')"

definition example_log :: outcome_log where
  "example_log = \<lparr>ol_pending = [], ol_capacity = 2, ol_sequence = 0, ol_dropped = 0\<rparr>"

lemma example_seen:
  "map (\<lambda>(e, b). (pe_sequence e, er_dropped_before e, b)) (snd (fold (apply_log_op example_sink)
     [MakeRecord example_made, MakeRecord example_made, MakeRecord example_made, Flush, MakeRecord example_made, Flush]
     (example_log, []))) = [(2, 1, True), (3, 1, False), (4, 2, True)]"
  by (simp add: record_outcome_def flush_log_def example_log_def example_made_def example_sink_def stamped_def)

end
