(* ===== verification/Boundary.thy ===== *)
theory Boundary
  imports Grants OutcomeLog
begin

text \<open>
  The boundary a governed program asks through: the reader of a grant's signals (boundary/signals.py), the
  store of held grants (boundary/cache.py) and the one way into the body (boundary/boundary.py, with the
  outcomes of boundary/errors.py).

  Readers are shared objects, so the store keeps them in a list and names them by their place in it. The
  thread of a reader is seen through its two effects, a signal applied and the end of the channel, which may
  come between any two other operations. The client is an argument: it answers an ask with a result and
  perhaps a stream.
\<close>

section \<open>The reader of one channel\<close>

record signal =
  sg_kind :: signal_kind
  sg_grant_id :: string
  sg_policy_version :: string
  sg_at :: datetime
  sg_reason :: "grant_end_reason option"

record reader =
  rd_grant :: published_grant
  rd_last_heard_at :: datetime
  rd_connection_live :: bool
  rd_ended_by :: "grant_end_reason option"
  rd_channel_closed :: bool

definition signal_reader :: "published_grant \<Rightarrow> reader" where
  "signal_reader g = \<lparr>rd_grant = g, rd_last_heard_at = pg_issued_at g, rd_connection_live = True,
     rd_ended_by = None, rd_channel_closed = False\<rparr>"

definition apply_signal :: "signal \<Rightarrow> reader \<Rightarrow> reader" where
  "apply_signal sig r =
     (if rd_ended_by r \<noteq> None then r
      else let r' = r\<lparr>rd_last_heard_at := sg_at sig\<rparr>
        in if sg_kind sig = GRANT_ENDED then r'\<lparr>rd_ended_by := sg_reason sig\<rparr> else r')"

text \<open>The \<open>finally\<close> of the reading thread.\<close>

definition channel_ended :: "reader \<Rightarrow> reader" where
  "channel_ended r = r\<lparr>rd_connection_live := False\<rparr>"

definition reader_held :: "reader \<Rightarrow> held" where
  "reader_held r = \<lparr>he_grant = rd_grant r, he_last_heard_at = rd_last_heard_at r,
     he_connection_live = rd_connection_live r, he_ended_by = rd_ended_by r\<rparr>"

definition close_reader :: "reader \<Rightarrow> reader" where
  "close_reader r = r\<lparr>rd_connection_live := False, rd_channel_closed := True\<rparr>"

section \<open>The store of held grants\<close>

record grant_store =
  gs_readers :: "reader list"
  gs_held :: "(grant_conditions, nat) dict"

definition empty_grants :: grant_store where
  "empty_grants = \<lparr>gs_readers = [], gs_held = []\<rparr>"

definition reader_at :: "grant_store \<Rightarrow> nat \<Rightarrow> reader" where
  "reader_at s i = gs_readers s ! i"

definition update_reader :: "nat \<Rightarrow> (reader \<Rightarrow> reader) \<Rightarrow> grant_store \<Rightarrow> grant_store" where
  "update_reader i f s = s\<lparr>gs_readers := (gs_readers s)[i := f (gs_readers s ! i)]\<rparr>"

definition reader_conditions :: "grant_store \<Rightarrow> nat \<Rightarrow> grant_conditions" where
  "reader_conditions s i = pg_conditions (rd_grant (reader_at s i))"

definition new_reader :: "published_grant \<Rightarrow> grant_store \<Rightarrow> grant_store" where
  "new_reader g s = s\<lparr>gs_readers := gs_readers s @ [signal_reader g]\<rparr>"

definition put_reader :: "nat \<Rightarrow> grant_store \<Rightarrow> grant_store" where
  "put_reader i s =
     (let conditions = reader_conditions s i;
          s' = (case map_of (gs_held s) conditions of
                  Some existing \<Rightarrow> if existing \<noteq> i then update_reader existing close_reader s else s
                | None \<Rightarrow> s)
      in s'\<lparr>gs_held := AList.update conditions i (gs_held s')\<rparr>)"

definition take_reader :: "decision_ask \<Rightarrow> string \<Rightarrow> int \<Rightarrow> (grant_store, nat option) op" where
  "take_reader ask principal_reference now s =
     (let key = question_conditions ask principal_reference
      in case map_of (gs_held s) key of
           None \<Rightarrow> (s, Inr None)
         | Some i \<Rightarrow>
             (case ending (reader_held (reader_at s i)) ask principal_reference now of
                Inl e \<Rightarrow> (s, Inl e)
              | Inr Live \<Rightarrow> (s, Inr (Some i))
              | Inr _ \<Rightarrow> (update_reader i close_reader (s\<lparr>gs_held := AList.delete key (gs_held s)\<rparr>), Inr None)))"

definition close_readers :: "nat list \<Rightarrow> grant_store \<Rightarrow> grant_store" where
  "close_readers is s = fold (\<lambda>i. update_reader i close_reader) is s"

definition close_grants :: "grant_store \<Rightarrow> grant_store" where
  "close_grants s = close_readers (map snd (gs_held s)) (s\<lparr>gs_held := []\<rparr>)"

section \<open>The boundary\<close>

datatype boundary_error =
    AskRefused string string
  | CouldNotAsk "bool option"
  | Denied string string reason
  | Suspended "string option" string string

text \<open>What leaves \<open>request\<close> when its body does not run: one of the four outcomes, or a raise of Python's own.\<close>

datatype raised = Stopped boundary_error | Raised exn

datatype client_answer =
    AnswerRefused string string
  | AnswerCouldNotAsk "bool option"
  | Answered decision
  | AnswerUnreadable

text \<open>
  The stream the client returned with an answer: the grant it carries, if any, and whether a reader can be
  built on it (its issue instant parses and its thread starts).
\<close>

record stream =
  st_grant :: "published_grant option"
  st_readable :: bool

datatype stream_fate = NoStream | StreamClosed | StreamHeld nat | StreamLeft

type_synonym client = "decision_ask \<Rightarrow> client_answer \<times> stream option"

record boundary =
  bo_principal :: string
  bo_correlation :: "string option"
  bo_hold_grants :: bool
  bo_store :: grant_store
  bo_log :: outcome_log

definition close_stream :: "stream option \<Rightarrow> stream_fate" where
  "close_stream st = (case st of None \<Rightarrow> NoStream | Some _ \<Rightarrow> StreamClosed)"

definition leave_stream :: "stream option \<Rightarrow> stream_fate" where
  "leave_stream st = (case st of None \<Rightarrow> NoStream | Some _ \<Rightarrow> StreamLeft)"

definition hold_stream :: "boundary \<Rightarrow> stream option \<Rightarrow> boundary \<times> stream_fate" where
  "hold_stream b st = (case (st, Option.bind st st_grant) of
      (Some stream, Some g) \<Rightarrow>
        if \<not> bo_hold_grants b \<or> \<not> st_readable stream then (b, StreamClosed)
        else let i = length (gs_readers (bo_store b))
          in (b\<lparr>bo_store := put_reader i (new_reader g (bo_store b))\<rparr>, StreamHeld i)
    | _ \<Rightarrow> (b, close_stream st))"

definition boundary_ask ::
  "client \<Rightarrow> decision_ask \<Rightarrow> boundary \<Rightarrow> boundary \<times> stream_fate \<times> (boundary_error + string)" where
  "boundary_ask client ask b =
     (let (answer, st) = client ask
      in case answer of
           AnswerRefused code detail \<Rightarrow> (b, leave_stream st, Inl (AskRefused code detail))
         | AnswerCouldNotAsk retryable \<Rightarrow> (b, leave_stream st, Inl (CouldNotAsk retryable))
         | AnswerUnreadable \<Rightarrow> (b, leave_stream st, Inl (CouldNotAsk (Some False)))
         | Answered d \<Rightarrow>
             (case de_outcome d of
                DENY \<Rightarrow> (b, close_stream st, Inl (Denied (de_ref d) (de_capability d) (de_reason d)))
              | SUSPEND \<Rightarrow> (b, close_stream st, Inl (Suspended (de_approval_ref d) (de_ref d) (de_capability d)))
              | ALLOW \<Rightarrow> let (b', fate) = hold_stream b st in (b', fate, Inr (de_ref d))))"

record grant_handle =
  gh_decision_ref :: string
  gh_capability :: string
  gh_recorded :: bool

text \<open>
  \<open>request\<close> up to its \<open>yield\<close>. The digest of the arguments, or what computing it raised, is an argument.
\<close>

definition request_enter ::
  "client \<Rightarrow> string \<Rightarrow> string \<Rightarrow> string result \<Rightarrow> int \<Rightarrow> boundary \<Rightarrow> boundary \<times> (raised + grant_handle)" where
  "request_enter client capability scope digest now b =
     (case digest of
        Inl _ \<Rightarrow> (b, Inl (Stopped (CouldNotAsk (Some False))))
      | Inr d \<Rightarrow>
          let ask = \<lparr>ask_capability = capability, ask_scope = scope, ask_arguments_digest = Some d,
                ask_correlation = bo_correlation b\<rparr>;
              (store, taken) = (if bo_hold_grants b then take_reader ask (bo_principal b) now (bo_store b)
                                else (bo_store b, Inr None));
              b' = b\<lparr>bo_store := store\<rparr>
          in case taken of
               Inl e \<Rightarrow> (b', Inl (Raised e))
             | Inr (Some i) \<Rightarrow>
                 (b', Inr \<lparr>gh_decision_ref = pg_decision_ref (rd_grant (reader_at store i)),
                           gh_capability = capability, gh_recorded = False\<rparr>)
             | Inr None \<Rightarrow>
                 (case boundary_ask client ask b' of
                    (b'', _, Inl e) \<Rightarrow> (b'', Inl (Stopped e))
                  | (b'', _, Inr decision_ref) \<Rightarrow>
                      (b'', Inr \<lparr>gh_decision_ref = decision_ref, gh_capability = capability,
                                gh_recorded = False\<rparr>)))"

text \<open>\<open>GrantHandle.record_outcome\<close>, called by the body with the text of the instant of the call.\<close>

definition handle_record :: "string \<times> string \<Rightarrow> grant_handle \<times> outcome_log \<Rightarrow> grant_handle \<times> outcome_log" where
  "handle_record call s =
     ((fst s)\<lparr>gh_recorded := True\<rparr>,
      record_outcome (gh_capability (fst s), gh_decision_ref (fst s), Some (fst call), snd call) (snd s))"

text \<open>The \<open>finally\<close> of \<open>request\<close>.\<close>

definition request_exit :: "string \<Rightarrow> grant_handle \<times> outcome_log \<Rightarrow> outcome_log" where
  "request_exit at s =
     (if gh_recorded (fst s) then snd s
      else record_outcome (gh_capability (fst s), gh_decision_ref (fst s), None, at) (snd s))"

text \<open>The body's own calls, in order, and the exit: what a run of the body leaves in the log.\<close>

definition run_body :: "(string \<times> string) list \<Rightarrow> string \<Rightarrow> grant_handle \<Rightarrow> boundary \<Rightarrow> boundary" where
  "run_body calls at h b = b\<lparr>bo_log := request_exit at (fold handle_record calls (h, bo_log b))\<rparr>"

definition boundary_close :: "boundary \<Rightarrow> boundary" where
  "boundary_close b = b\<lparr>bo_store := close_grants (bo_store b)\<rparr>"

section \<open>No channel is orphaned\<close>

datatype store_event =
    NewReader published_grant
  | Put nat
  | Take decision_ask string int
  | Signalled nat signal
  | ChannelEnded nat
  | CloseGrants

primrec store_step :: "store_event \<Rightarrow> grant_store \<Rightarrow> grant_store" where
  "store_step (NewReader g) s = new_reader g s"
| "store_step (Put i) s = (if i < length (gs_readers s) then put_reader i s else s)"
| "store_step (Take ask principal_reference now) s = fst (take_reader ask principal_reference now s)"
| "store_step (Signalled i sig) s = (if i < length (gs_readers s) then update_reader i (apply_signal sig) s else s)"
| "store_step (ChannelEnded i) s = (if i < length (gs_readers s) then update_reader i channel_ended s else s)"
| "store_step CloseGrants s = close_grants s"

text \<open>
  A step, with the readers some thread has built and not yet handed to the store: \<open>Boundary._ask\<close> builds one
  and puts it, and anything may happen in between.
\<close>

definition tracked_step :: "store_event \<Rightarrow> nat list \<times> grant_store \<Rightarrow> nat list \<times> grant_store" where
  "tracked_step e t =
     ((case e of
         NewReader _ \<Rightarrow> fst t @ [length (gs_readers (snd t))]
       | Put i \<Rightarrow> (if i < length (gs_readers (snd t)) then filter (\<lambda>j. j \<noteq> i) (fst t) else fst t)
       | _ \<Rightarrow> fst t),
      store_step e (snd t))"

definition open_channel :: "grant_store \<Rightarrow> nat \<Rightarrow> bool" where
  "open_channel s i \<longleftrightarrow> i < length (gs_readers s) \<and> \<not> rd_channel_closed (reader_at s i)"

definition grants_ok :: "nat set \<Rightarrow> grant_store \<Rightarrow> bool" where
  "grants_ok P s \<longleftrightarrow> well_keyed (gs_held s) \<and>
     (\<forall>k i. map_of (gs_held s) k = Some i \<longrightarrow> i < length (gs_readers s) \<and> reader_conditions s i = k) \<and>
     (\<forall>i. open_channel s i \<longrightarrow> i \<in> P \<or> map_of (gs_held s) (reader_conditions s i) = Some i) \<and>
     (\<forall>i < length (gs_readers s). rd_channel_closed (reader_at s i) \<longrightarrow> \<not> rd_connection_live (reader_at s i))"

lemma grants_ok_held: "grants_ok P s \<Longrightarrow> map_of (gs_held s) k = Some i \<Longrightarrow>
    i < length (gs_readers s) \<and> reader_conditions s i = k"
  by (simp add: grants_ok_def)

lemma grants_ok_open: "grants_ok P s \<Longrightarrow> open_channel s i \<Longrightarrow>
    i \<in> P \<or> map_of (gs_held s) (reader_conditions s i) = Some i"
  by (simp add: grants_ok_def)

lemma update_reader_simps [simp]:
  "length (gs_readers (update_reader i f s)) = length (gs_readers s)"
  "gs_held (update_reader i f s) = gs_held s"
  by (simp_all add: update_reader_def)

lemma reader_at_update: "i < length (gs_readers s) \<Longrightarrow> reader_at (update_reader i f s) j = (if j = i then f (reader_at s i) else reader_at s j)"
  by (simp add: reader_at_def update_reader_def)

lemma reader_parts [simp]:
  "rd_grant (close_reader r) = rd_grant r" "rd_channel_closed (close_reader r)" "\<not> rd_connection_live (close_reader r)"
  "rd_grant (channel_ended r) = rd_grant r" "rd_channel_closed (channel_ended r) = rd_channel_closed r"
  "\<not> rd_connection_live (channel_ended r)"
  "rd_grant (apply_signal sig r) = rd_grant r" "rd_channel_closed (apply_signal sig r) = rd_channel_closed r"
  "rd_connection_live (apply_signal sig r) = rd_connection_live r"
  by (simp_all add: close_reader_def channel_ended_def apply_signal_def Let_def)

lemma update_reader_ok:
  assumes "grants_ok P s" and "i < length (gs_readers s)"
    and "rd_grant (f (reader_at s i)) = rd_grant (reader_at s i)"
    and "rd_channel_closed (reader_at s i) \<Longrightarrow> rd_channel_closed (f (reader_at s i))"
    and "rd_channel_closed (f (reader_at s i)) \<Longrightarrow> \<not> rd_connection_live (f (reader_at s i))"
  shows "grants_ok P (update_reader i f s)"
proof -
  have "reader_conditions (update_reader i f s) j = reader_conditions s j" for j
    using assms(2,3) by (simp add: reader_conditions_def reader_at_update)
  with assms show ?thesis
    by (auto simp: grants_ok_def open_channel_def reader_at_update)
qed

lemma new_reader_ok: "grants_ok P s \<Longrightarrow> grants_ok (insert (length (gs_readers s)) P) (new_reader g s)"
proof -
  assume ok: "grants_ok P s"
  let ?n = "length (gs_readers s)"
  have old: "reader_at (new_reader g s) i = reader_at s i" if "i < ?n" for i
    using that by (simp add: reader_at_def new_reader_def nth_append)
  have new: "reader_at (new_reader g s) ?n = signal_reader g" and len: "length (gs_readers (new_reader g s)) = Suc ?n"
    and held: "gs_held (new_reader g s) = gs_held s"
    by (simp_all add: reader_at_def new_reader_def)
  show ?thesis
    unfolding grants_ok_def held len open_channel_def
  proof (intro conjI allI impI)
    show "well_keyed (gs_held s)" using ok by (simp add: grants_ok_def)
  next
    fix k i assume "map_of (gs_held s) k = Some i"
    with ok have "i < ?n" "reader_conditions s i = k" by (auto simp: grants_ok_def)
    then show "i < Suc ?n" "reader_conditions (new_reader g s) i = k"
      by (simp_all add: reader_conditions_def old)
  next
    fix i assume i: "i < Suc ?n \<and> \<not> rd_channel_closed (reader_at (new_reader g s) i)"
    show "i \<in> insert ?n P \<or> map_of (gs_held s) (reader_conditions (new_reader g s) i) = Some i"
    proof (cases "i = ?n")
      case False
      with i have "i < ?n" by simp
      with i ok old show ?thesis by (auto simp: grants_ok_def open_channel_def reader_conditions_def)
    qed simp
  next
    fix i assume "i < Suc ?n" "rd_channel_closed (reader_at (new_reader g s) i)"
    then show "\<not> rd_connection_live (reader_at (new_reader g s) i)"
      using ok old new by (cases "i = ?n") (auto simp: grants_ok_def signal_reader_def)
  qed
qed

lemma reheld_ok:
  assumes "grants_ok P s" and "well_keyed h"
    and "\<And>k i. map_of h k = Some i \<Longrightarrow> i < length (gs_readers s) \<and> reader_conditions s i = k"
    and "\<And>i. open_channel s i \<Longrightarrow> i \<in> Q \<or> map_of h (reader_conditions s i) = Some i"
  shows "grants_ok Q (s\<lparr>gs_held := h\<rparr>)"
  using assms
  by (simp add: grants_ok_def open_channel_def reader_conditions_def reader_at_def)

lemma put_reader_ok:
  assumes "grants_ok P s" and i: "i < length (gs_readers s)"
  shows "grants_ok (P - {i}) (put_reader i s)"
proof -
  define k where "k = reader_conditions s i"
  define s' where "s' = (case map_of (gs_held s) k of
      Some existing \<Rightarrow> if existing \<noteq> i then update_reader existing close_reader s else s | None \<Rightarrow> s)"
  have put: "put_reader i s = s'\<lparr>gs_held := AList.update k i (gs_held s)\<rparr>"
    by (simp add: put_reader_def Let_def k_def [symmetric] s'_def split: option.split)
  have ok': "grants_ok P s'"
    using assms by (auto simp: s'_def grants_ok_def [of P s] intro!: update_reader_ok split: option.split)
  have len: "length (gs_readers s') = length (gs_readers s)" and held: "gs_held s' = gs_held s"
    by (simp_all add: s'_def split: option.split)
  have cond: "reader_conditions s' j = reader_conditions s j" for j
    using assms(1) by (auto simp: s'_def reader_conditions_def reader_at_update grants_ok_def split: option.split)
  have gone: "\<not> open_channel s' j" if "map_of (gs_held s) k = Some j" "j \<noteq> i" for j
    using that assms(1) by (auto simp: s'_def open_channel_def reader_at_update grants_ok_def)
  have or: "j \<in> P \<or> map_of (gs_held s) (reader_conditions s j) = Some j" if "open_channel s' j" for j
    using ok' that unfolding grants_ok_def held cond by blast
  show ?thesis
    unfolding put
  proof (rule reheld_ok [OF ok'])
    show "well_keyed (AList.update k i (gs_held s))" using assms(1) by (simp add: grants_ok_def)
  next
    fix k' j assume "map_of (AList.update k i (gs_held s)) k' = Some j"
    with assms show "j < length (gs_readers s') \<and> reader_conditions s' j = k'"
      by (auto simp: len cond k_def grants_ok_def split: if_splits)
  next
    fix j assume j: "open_channel s' j"
    show "j \<in> P - {i} \<or> map_of (AList.update k i (gs_held s)) (reader_conditions s' j) = Some j"
    proof (cases "j = i")
      case True
      then show ?thesis by (simp add: cond k_def)
    next
      case False
      with gone j or [OF j] show ?thesis by (auto simp: cond)
    qed
  qed
qed

lemma take_reader_ok: "grants_ok P s \<Longrightarrow> grants_ok P (fst (take_reader ask p now s))"
proof -
  assume ok: "grants_ok P s"
  let ?k = "question_conditions ask p"
  have dropped: "grants_ok P (update_reader i close_reader (s\<lparr>gs_held := AList.delete ?k (gs_held s)\<rparr>))"
    if i: "map_of (gs_held s) ?k = Some i" for i
  proof -
    let ?s = "update_reader i close_reader s"
    have len: "i < length (gs_readers s)" using ok i by (simp add: grants_ok_def)
    have cond: "reader_conditions ?s j = reader_conditions s j" for j
      using len by (simp add: reader_conditions_def reader_at_update)
    have same: "update_reader i close_reader (s\<lparr>gs_held := AList.delete ?k (gs_held s)\<rparr>) =
        ?s\<lparr>gs_held := AList.delete ?k (gs_held s)\<rparr>"
      by (simp add: update_reader_def)
    show ?thesis
      unfolding same
    proof (rule reheld_ok)
      show "grants_ok P ?s" using ok len by (auto intro!: update_reader_ok)
      show "well_keyed (AList.delete ?k (gs_held s))" using ok by (simp add: grants_ok_def)
    next
      fix k j assume "map_of (AList.delete ?k (gs_held s)) k = Some j"
      with ok show "j < length (gs_readers ?s) \<and> reader_conditions ?s j = k"
        by (simp add: cond grants_ok_def split: if_splits)
    next
      fix j assume "open_channel ?s j"
      then have "open_channel s j" "j \<noteq> i"
        using len by (auto simp: open_channel_def reader_at_update split: if_splits)
      with grants_ok_open [OF ok, of j] i
      show "j \<in> P \<or> map_of (AList.delete ?k (gs_held s)) (reader_conditions ?s j) = Some j"
        by (cases "reader_conditions s j = ?k") (simp_all add: cond)
    qed
  qed
  show ?thesis
    by (auto simp: take_reader_def Let_def ok dropped split: option.split sum.split ending.split)
qed

lemma close_readers_parts:
  "gs_held (close_readers is s) = gs_held s" "length (gs_readers (close_readers is s)) = length (gs_readers s)"
  by (induction "is" arbitrary: s) (simp_all add: close_readers_def)

lemma close_readers_at:
  "set is \<subseteq> {..<length (gs_readers s)} \<Longrightarrow>
   reader_at (close_readers is s) j = (if j \<in> set is then close_reader (reader_at s j) else reader_at s j)"
proof (induction "is" arbitrary: s)
  case Nil
  then show ?case by (simp add: close_readers_def)
next
  case (Cons i "is")
  from Cons.IH [of "update_reader i close_reader s"] Cons.prems show ?case
    by (simp add: close_readers_def reader_at_update) (simp add: close_reader_def)
qed

lemma close_grants_ok: "grants_ok P s \<Longrightarrow> grants_ok P (close_grants s)"
proof -
  assume ok: "grants_ok P s"
  let ?ids = "map snd (gs_held s)" and ?s = "s\<lparr>gs_held := []\<rparr>"
  have bounds: "set ?ids \<subseteq> {..<length (gs_readers ?s)}"
  proof
    fix i assume "i \<in> set ?ids"
    then obtain k where "(k, i) \<in> set (gs_held s)" by auto
    with ok have "map_of (gs_held s) k = Some i" by (simp add: grants_ok_def)
    from grants_ok_held [OF ok this] show "i \<in> {..<length (gs_readers ?s)}" by simp
  qed
  have all: "reader_at (close_grants s) j = (if j \<in> set ?ids then close_reader (reader_at s j) else reader_at s j)" for j
    using close_readers_at [OF bounds, of j] by (simp add: close_grants_def reader_at_def)
  have len: "length (gs_readers (close_grants s)) = length (gs_readers s)" and none: "gs_held (close_grants s) = []"
    by (simp_all add: close_grants_def close_readers_parts)
  have "j \<in> P" if j: "open_channel (close_grants s) j" for j
  proof -
    have fresh: "j \<notin> set ?ids"
    proof
      assume "j \<in> set ?ids"
      then have "reader_at (close_grants s) j = close_reader (reader_at s j)" by (simp only: all if_True)
      with j show False by (simp add: open_channel_def)
    qed
    with j have "open_channel s j" by (simp add: open_channel_def all len)
    with grants_ok_open [OF ok this] fresh show "j \<in> P" by (force dest: map_of_SomeD)
  qed
  moreover have "\<not> rd_connection_live (reader_at (close_grants s) j)"
    if "j < length (gs_readers s)" "rd_channel_closed (reader_at (close_grants s) j)" for j
    using that ok by (auto simp: all grants_ok_def split: if_splits)
  ultimately show ?thesis
    by (simp add: grants_ok_def none len)
qed

lemma grants_ok_mono: "grants_ok P s \<Longrightarrow> P \<subseteq> Q \<Longrightarrow> grants_ok Q s"
  by (auto simp: grants_ok_def)

lemma signalled_ok:
  "grants_ok P s \<Longrightarrow> i < length (gs_readers s) \<Longrightarrow> grants_ok P (update_reader i (apply_signal sig) s)"
  "grants_ok P s \<Longrightarrow> i < length (gs_readers s) \<Longrightarrow> grants_ok P (update_reader i channel_ended s)"
  by (rule update_reader_ok; simp add: grants_ok_def)+

lemma tracked_step_ok:
  assumes "grants_ok (set (fst t)) (snd t)"
  shows "grants_ok (set (fst (tracked_step e t))) (snd (tracked_step e t))"
proof (cases e)
  case (NewReader g)
  with new_reader_ok [OF assms] show ?thesis by (simp add: tracked_step_def)
next
  case (Put i)
  have "{x \<in> set (fst t). x \<noteq> i} = set (fst t) - {i}" by auto
  with Put put_reader_ok [OF assms, of i] assms show ?thesis by (simp add: tracked_step_def)
qed (simp_all add: tracked_step_def take_reader_ok close_grants_ok signalled_ok assms)

lemma tracked_run_ok:
  "grants_ok (set (fst t)) (snd t) \<Longrightarrow>
   grants_ok (set (fst (fold tracked_step es t))) (snd (fold tracked_step es t))"
  by (induction es arbitrary: t) (simp_all add: tracked_step_ok)

lemma empty_grants_ok: "grants_ok {} empty_grants"
  by (simp add: grants_ok_def empty_grants_def open_channel_def)

end
