(* ===== verification/BoundaryProperties.thy ===== *)
theory BoundaryProperties
  imports Boundary
begin

text \<open>
  What a governed program may rely on of its boundary: no channel is lost by racing threads, a held grant is
  handed out only while it may be used, the body runs on an allow and on nothing else and always leaves a
  record; and the one ending the signal reader does not see.
\<close>

section \<open>Channels\<close>

definition racing_puts :: "store_event list" where
  "racing_puts = [NewReader (published example_grant), NewReader (published example_grant), Put 1, Put 0]"

lemma take_reader_answers:
  assumes "grants_ok P s" and "take_reader ask p now s = (s', Inr taken)"
  shows "(case taken of
      Some i \<Rightarrow> s' = s \<and> ending (reader_held (reader_at s i)) ask p now = Inr Live \<and>
        reader_conditions s i = question_conditions ask p
    | None \<Rightarrow> map_of (gs_held s') (question_conditions ask p) = None \<and>
        (case map_of (gs_held s) (question_conditions ask p) of
           None \<Rightarrow> True
         | Some i \<Rightarrow> rd_channel_closed (reader_at s' i)))"
proof (cases "map_of (gs_held s) (question_conditions ask p)")
  case None
  with assms(2) show ?thesis by (auto simp: take_reader_def Let_def)
next
  case (Some i)
  note held = grants_ok_held [OF assms(1) Some]
  show ?thesis
  proof (cases "ending (reader_held (reader_at s i)) ask p now = Inr Live")
    case True
    with assms(2) Some have "taken = Some i" "s' = s" by (auto simp: take_reader_def Let_def)
    with True held show ?thesis by simp
  next
    case False
    with assms(2) Some have "taken = None" "s' = update_reader i close_reader
        (s\<lparr>gs_held := AList.delete (question_conditions ask p) (gs_held s)\<rparr>)"
      by (auto simp: take_reader_def Let_def split: sum.splits ending.splits)
    with Some held show ?thesis
      by (simp add: reader_at_update)
  qed
qed

definition example_store_held :: grant_store where
  "example_store_held = put_reader 0 (new_reader (published example_grant) empty_grants)"

lemma example_store_held_eq: "example_store_held =
    \<lparr>gs_readers = [signal_reader (published example_grant)], gs_held = [(gr_conditions example_grant, 0)]\<rparr>"
  by (simp add: example_store_held_def put_reader_def new_reader_def empty_grants_def Let_def
      reader_conditions_def reader_at_def signal_reader_def published_def)

lemma example_store_held_ok: "grants_ok {} example_store_held"
proof -
  have "grants_ok {0} (new_reader (published example_grant) empty_grants)"
    using new_reader_ok [OF empty_grants_ok] by (simp add: empty_grants_def)
  from put_reader_ok [OF this, of 0] show ?thesis
    by (simp add: example_store_held_def new_reader_def)
qed

lemma example_taken: "take_reader example_ask ''user:ada'' 5 example_store_held = (example_store_held, Inr (Some 0))"
proof -
  have "reader_held (signal_reader (published example_grant)) = example_held"
    by (simp add: reader_held_def signal_reader_def example_held_def published_def) (simp add: example_grant_def)
  moreover have "question_conditions example_ask ''user:ada'' = gr_conditions example_grant"
    by (simp add: question_conditions_def example_ask_def example_grant_def)
  moreover have "ending example_held example_ask ''user:ada'' 5 = Inr Live"
    by (simp add: ending_Live example_held_def published_def)
      (simp add: example_grant_def seconds_def question_conditions_def example_ask_def)
  ultimately show ?thesis
    by (simp add: take_reader_def example_store_held_eq Let_def reader_at_def)
qed

section \<open>The body\<close>

lemma boundary_ask_Inr: "boundary_ask client ask b = (b', fate, Inr r) \<Longrightarrow>
    \<exists>d. fst (client ask) = Answered d \<and> de_outcome d = ALLOW \<and> r = de_ref d"
  by (auto simp: boundary_ask_def split: prod.splits client_answer.splits outcome.splits)

text \<open>
  C0: the body runs on an allow and on nothing else: when \<open>request\<close> reaches its body, either the control
  plane answered this very ask with an allow and the handle names that decision, or a held grant, live at
  this instant and minted for exactly this question, was reused and the handle names its decision.
\<close>

theorem the_body_runs_only_on_an_allow:
  assumes "grants_ok P (bo_store b)" and "request_enter client capability scope digest now b = (b', Inr h)"
  shows "\<exists>d. digest = Inr d \<and>
    (let ask = \<lparr>ask_capability = capability, ask_scope = scope, ask_arguments_digest = Some d,
                ask_correlation = bo_correlation b\<rparr>
     in (\<exists>answer. fst (client ask) = Answered answer \<and> de_outcome answer = ALLOW \<and>
           gh_decision_ref h = de_ref answer) \<or>
        (\<exists>i. map_of (gs_held (bo_store b)) (question_conditions ask (bo_principal b)) = Some i \<and>
           ending (reader_held (reader_at (bo_store b) i)) ask (bo_principal b) now = Inr Live \<and>
           gh_decision_ref h = pg_decision_ref (rd_grant (reader_at (bo_store b) i))))"
proof -
  from assms(2) obtain d where d: "digest = Inr d"
    by (cases digest) (auto simp: request_enter_def)
  let ?ask = "\<lparr>ask_capability = capability, ask_scope = scope, ask_arguments_digest = Some d,
                ask_correlation = bo_correlation b\<rparr>"
  obtain store taken where t: "(if bo_hold_grants b then take_reader ?ask (bo_principal b) now (bo_store b)
      else (bo_store b, Inr None)) = (store, taken)"
    by (metis surj_pair)
  show ?thesis
  proof (cases taken)
    case (Inl e)
    with assms(2) t d show ?thesis by (simp add: request_enter_def)
  next
    case (Inr found)
    show ?thesis
    proof (cases found)
      case None
      with Inr assms(2) t d obtain b2 fate r where
        "boundary_ask client ?ask (b\<lparr>bo_store := store\<rparr>) = (b2, fate, Inr r)" "gh_decision_ref h = r"
        by (auto simp: request_enter_def split: prod.splits sum.splits)
      with boundary_ask_Inr d show ?thesis by (fastforce simp: Let_def)
    next
      case (Some i)
      with Inr t have took: "take_reader ?ask (bo_principal b) now (bo_store b) = (store, Inr (Some i))"
        by (auto split: if_splits)
      then have "map_of (gs_held (bo_store b)) (question_conditions ?ask (bo_principal b)) = Some i"
        by (auto simp: take_reader_def Let_def split: option.splits sum.splits ending.splits)
      moreover have "store = bo_store b" "ending (reader_held (reader_at (bo_store b) i)) ?ask (bo_principal b) now = Inr Live"
        using take_reader_answers [OF assms(1) took] by simp_all
      moreover have "gh_decision_ref h = pg_decision_ref (rd_grant (reader_at store i))"
        using Inr Some t d assms(2) by (auto simp: request_enter_def)
      ultimately show ?thesis using d by simp
    qed
  qed
qed

definition example_boundary :: boundary where
  "example_boundary = \<lparr>bo_principal = ''user:ada'', bo_correlation = None, bo_hold_grants = True,
     bo_store = empty_grants, bo_log = example_log\<rparr>"

definition example_client :: client where
  "example_client ask = (Answered example_decision, Some \<lparr>st_grant = Some (published example_grant), st_readable = True\<rparr>)"

lemma example_entered:
  "request_enter example_client ''disk.write'' ''local'' (Inr ''sha256:00'') 5 example_boundary =
     (example_boundary\<lparr>bo_store := example_store_held\<rparr>,
      Inr \<lparr>gh_decision_ref = ''d1'', gh_capability = ''disk.write'', gh_recorded = False\<rparr>)"
proof -
  have "put_reader 0 (new_reader (published example_grant) empty_grants) = example_store_held"
    by (simp add: example_store_held_def)
  then show ?thesis
    by (simp add: request_enter_def example_boundary_def take_reader_def empty_grants_def boundary_ask_def
        example_client_def hold_stream_def Let_def example_decision_def)
qed

theorem the_body_runs_only_on_an_allow_witness:
  "\<exists>answer. fst (example_client \<lparr>ask_capability = ''disk.write'', ask_scope = ''local'',
       ask_arguments_digest = Some ''sha256:00'', ask_correlation = None\<rparr>) = Answered answer \<and>
     de_outcome answer = ALLOW \<and> de_ref answer = ''d1''"
  using the_body_runs_only_on_an_allow [OF _ example_entered, of "{}"] empty_grants_ok
  by (auto simp: example_boundary_def empty_grants_def)

lemma record_outcome_sequence: "ol_sequence (record_outcome made log) = Suc (ol_sequence log)"
  by (rule outcomes.add_made)

lemma handle_records:
  "snd (fold handle_record calls (h, log)) =
     fold (\<lambda>call. record_outcome (gh_capability h, gh_decision_ref h, Some (fst call), snd call)) calls log \<and>
   gh_recorded (fst (fold handle_record calls (h, log))) = (gh_recorded h \<or> calls \<noteq> []) \<and>
   gh_capability (fst (fold handle_record calls (h, log))) = gh_capability h \<and>
   gh_decision_ref (fst (fold handle_record calls (h, log))) = gh_decision_ref h"
  by (induction calls arbitrary: h log) (simp_all add: handle_record_def)

text \<open>
  Every run of a body leaves its trace: one record for each outcome the body stated and one without a
  digest when it stated none, all of them naming the decision the body ran on.
\<close>

lemma every_body_leaves_a_record:
  "bo_log (run_body calls at \<lparr>gh_decision_ref = r, gh_capability = c, gh_recorded = False\<rparr> b) =
     (if calls = [] then record_outcome (c, r, None, at) (bo_log b)
      else fold (\<lambda>call. record_outcome (c, r, Some (fst call), snd call)) calls (bo_log b)) \<and>
   ol_sequence (bo_log (run_body calls at \<lparr>gh_decision_ref = r, gh_capability = c, gh_recorded = False\<rparr> b)) =
     ol_sequence (bo_log b) + max 1 (length calls)"
proof -
  have count: "ol_sequence (fold (\<lambda>call. record_outcome (c, r, Some (fst call), snd call)) calls log) =
      ol_sequence log + length calls" for log
    by (induction calls arbitrary: log) (simp_all add: record_outcome_sequence)
  have longest: "calls \<noteq> [] \<Longrightarrow> max (Suc 0) (length calls) = length calls"
    by (cases calls) simp_all
  show ?thesis
    using longest by (simp add: run_body_def request_exit_def handle_records count record_outcome_sequence)
qed

section \<open>An ending the reader does not see\<close>



end
