(* ===== verification/GrantRegistry.thy ===== *)
theory GrantRegistry
  imports Grants
begin

text \<open>
  The issuing connections, their reservations, heartbeats and terminal signals (application/grants.py).

  Connections and reservations are shared objects, so the registry keeps them in lists and names them by
  their place. The signal writer of a connection is foreign code: an argument says, of a connection and a
  signal, whether the call returns or raises (a connection without a writer is one whose writer returns).
  The clock's answer is the argument \<open>now\<close>. The lock makes each operation below one step.
\<close>

section \<open>State\<close>

datatype registry_end_reason =
    RegPolicyVersionChanged
  | RegExpired
  | RegDaemonStopping

definition end_reason_value :: "registry_end_reason \<Rightarrow> string" where
  "end_reason_value r = (case r of
      RegPolicyVersionChanged \<Rightarrow> ''policy_version_changed''
    | RegExpired \<Rightarrow> ''expired''
    | RegDaemonStopping \<Rightarrow> ''daemon_stopping'')"

record grant_signal =
  gs_kind :: signal_kind
  gs_grant_id :: string
  gs_policy_version :: string
  gs_at :: int
  gs_reason :: "registry_end_reason option"

record connection =
  cn_grant :: grant
  cn_principal_uid :: int
  cn_live :: bool
  cn_last_signal_at :: int
  cn_signals :: "grant_signal list"

datatype grant_event =
    GrantIssued string string int string int
  | GrantEnded string string int

record registry =
  rg_max_per_principal :: nat
  rg_max_connections :: nat
  rg_objects :: "connection list"
  rg_connections :: "(string, nat) dict"
  rg_reserved_total :: int
  rg_reserved_by_principal :: "(int, int) dict"
  rg_reservations :: "(int \<times> bool) list"
  rg_stopping :: bool
  rg_events :: "grant_event list"

type_synonym signal_writer = "nat \<Rightarrow> grant_signal \<Rightarrow> bool"

definition grant_connections :: "int \<Rightarrow> int \<Rightarrow> registry result" where
  "grant_connections max_per_principal max_connections =
     guard (\<not> (0 \<le> max_per_principal \<and> max_per_principal \<le> 4096)) ValueError
    (guard (\<not> (0 \<le> max_connections \<and> max_connections \<le> 65536)) ValueError
    (Inr \<lparr>rg_max_per_principal = nat max_per_principal, rg_max_connections = nat max_connections,
          rg_objects = [], rg_connections = [], rg_reserved_total = 0, rg_reserved_by_principal = [],
          rg_reservations = [], rg_stopping = False, rg_events = []\<rparr>))"

abbreviation conn :: "registry \<Rightarrow> nat \<Rightarrow> connection" where
  "conn s i \<equiv> rg_objects s ! i"

definition update_conn :: "nat \<Rightarrow> (connection \<Rightarrow> connection) \<Rightarrow> registry \<Rightarrow> registry" where
  "update_conn i f s = s\<lparr>rg_objects := (rg_objects s)[i := f (conn s i)]\<rparr>"

definition log_event :: "grant_event \<Rightarrow> registry \<Rightarrow> registry" where
  "log_event e s = s\<lparr>rg_events := rg_events s @ [e]\<rparr>"

section \<open>Capacity and reservations\<close>

definition reserved_by :: "registry \<Rightarrow> int \<Rightarrow> int" where
  "reserved_by s uid = (case map_of (rg_reserved_by_principal s) uid of None \<Rightarrow> 0 | Some n \<Rightarrow> n)"

definition connected_by :: "registry \<Rightarrow> int \<Rightarrow> int" where
  "connected_by s uid = int (length (filter (\<lambda>i. cn_principal_uid (conn s i) = uid) (map snd (rg_connections s))))"

definition has_capacity :: "int \<Rightarrow> registry \<Rightarrow> bool" where
  "has_capacity uid s \<longleftrightarrow>
     int (length (rg_connections s)) + rg_reserved_total s < int (rg_max_connections s) \<and>
     connected_by s uid + reserved_by s uid < int (rg_max_per_principal s)"

definition reserve :: "int \<Rightarrow> registry \<Rightarrow> registry \<times> nat option" where
  "reserve uid s =
     (if \<not> has_capacity uid s then (s, None)
      else (s\<lparr>rg_reserved_total := rg_reserved_total s + 1,
              rg_reserved_by_principal := AList.update uid (reserved_by s uid + 1) (rg_reserved_by_principal s),
              rg_reservations := rg_reservations s @ [(uid, True)]\<rparr>,
            Some (length (rg_reservations s))))"

definition release_reservation :: "int \<Rightarrow> (registry, unit) op" where
  "release_reservation uid s =
     (let s' = s\<lparr>rg_reserved_total := rg_reserved_total s - 1\<rparr>
      in case map_of (rg_reserved_by_principal s') uid of
           None \<Rightarrow> (s', Inl KeyError)
         | Some n \<Rightarrow>
             if n - 1 \<noteq> 0
             then (s'\<lparr>rg_reserved_by_principal := AList.update uid (n - 1) (rg_reserved_by_principal s')\<rparr>, Inr ())
             else (s'\<lparr>rg_reserved_by_principal := AList.delete uid (rg_reserved_by_principal s')\<rparr>, Inr ()))"

section \<open>Ending a grant and writing a signal\<close>

definition peer_lost :: "nat \<Rightarrow> string \<Rightarrow> int \<Rightarrow> registry \<Rightarrow> registry" where
  "peer_lost i reason now s =
     (let gid = gr_id (cn_grant (conn s i))
      in if map_of (rg_connections s) gid = None then s
         else log_event (GrantEnded gid reason now)
           (update_conn i (\<lambda>c. c\<lparr>cn_live := False\<rparr>)
             (s\<lparr>rg_connections := AList.delete gid (rg_connections s)\<rparr>)))"

definition keep_signal :: "grant_signal \<Rightarrow> connection \<Rightarrow> connection" where
  "keep_signal sig c = c\<lparr>cn_signals := cn_signals c @ [sig], cn_last_signal_at := gs_at sig\<rparr>"

definition write_signal :: "signal_writer \<Rightarrow> nat \<Rightarrow> grant_signal \<Rightarrow> int \<Rightarrow> registry \<Rightarrow> registry" where
  "write_signal writes i sig now s =
     (if \<not> writes i sig then peer_lost i ''connection_lost'' now s else update_conn i (keep_signal sig) s)"

definition end_connection ::
  "signal_writer \<Rightarrow> nat \<Rightarrow> registry_end_reason \<Rightarrow> string \<Rightarrow> int \<Rightarrow> int \<Rightarrow> registry \<Rightarrow> registry" where
  "end_connection writes i reason policy_version at now s =
     (let gid = gr_id (cn_grant (conn s i))
      in if map_of (rg_connections s) gid = None then s
         else log_event (GrantEnded gid (end_reason_value reason) at)
           (write_signal writes i
             \<lparr>gs_kind = GRANT_ENDED, gs_grant_id = gid, gs_policy_version = policy_version, gs_at = at,
              gs_reason = Some reason\<rparr> now
             (update_conn i (\<lambda>c. c\<lparr>cn_live := False\<rparr>)
               (s\<lparr>rg_connections := AList.delete gid (rg_connections s)\<rparr>))))"

section \<open>The operations\<close>

definition open_reserved :: "signal_writer \<Rightarrow> grant \<Rightarrow> int \<Rightarrow> int \<Rightarrow> (registry, nat) op" where
  "open_reserved writes g uid now s =
     (case release_reservation uid s of
        (s1, Inl e) \<Rightarrow> (s1, Inl e)
      | (s1, Inr _) \<Rightarrow>
          let i = length (rg_objects s1);
              connection = \<lparr>cn_grant = g, cn_principal_uid = uid, cn_live = True,
                cn_last_signal_at = gr_issued_at g, cn_signals = []\<rparr>;
              s2 = s1\<lparr>rg_objects := rg_objects s1 @ [connection],
                      rg_connections := AList.update (gr_id g) i (rg_connections s1)\<rparr>;
              s3 = log_event (GrantIssued (gr_id g) (gr_decision_ref g) (gr_lifetime_seconds g)
                     (gr_policy_version g) (gr_issued_at g)) s2
          in (if rg_stopping s1
              then end_connection writes i RegDaemonStopping (gr_policy_version g) now now s3
              else s3, Inr i))"

definition reservation_open :: "signal_writer \<Rightarrow> nat \<Rightarrow> grant \<Rightarrow> int \<Rightarrow> (registry, nat) op" where
  "reservation_open writes r g now s =
     (let (uid, active) = rg_reservations s ! r
      in if \<not> active then (s, Inl RuntimeError)
         else open_reserved writes g uid now (s\<lparr>rg_reservations := (rg_reservations s)[r := (uid, False)]\<rparr>))"

definition reservation_cancel :: "nat \<Rightarrow> (registry, unit) op" where
  "reservation_cancel r s =
     (let (uid, active) = rg_reservations s ! r
      in if active then release_reservation uid (s\<lparr>rg_reservations := (rg_reservations s)[r := (uid, False)]\<rparr>)
         else (s, Inr ()))"

definition snapshot :: "registry \<Rightarrow> nat list" where
  "snapshot s = map snd (rg_connections s)"

definition policy_version_changed :: "signal_writer \<Rightarrow> string \<Rightarrow> int \<Rightarrow> registry \<Rightarrow> registry" where
  "policy_version_changed writes policy_version now s =
     fold (\<lambda>i s. if gr_policy_version (cn_grant (conn s i)) \<noteq> policy_version
                 then end_connection writes i RegPolicyVersionChanged policy_version now now s else s)
       (snapshot s) s"

definition tick_one :: "signal_writer \<Rightarrow> int \<Rightarrow> string \<Rightarrow> nat \<Rightarrow> registry \<Rightarrow> registry" where
  "tick_one writes now current_policy_version i s =
     (if gr_expires_at (cn_grant (conn s i)) \<le> now
      then end_connection writes i RegExpired current_policy_version now now s
      else if seconds (gr_heartbeat_seconds (cn_grant (conn s i))) \<le> now - cn_last_signal_at (conn s i)
      then write_signal writes i
             \<lparr>gs_kind = HEARTBEAT, gs_grant_id = gr_id (cn_grant (conn s i)),
              gs_policy_version = current_policy_version, gs_at = now, gs_reason = None\<rparr> now s
      else s)"

definition tick :: "signal_writer \<Rightarrow> int \<Rightarrow> string \<Rightarrow> registry \<Rightarrow> registry" where
  "tick writes now current_policy_version s =
     fold (tick_one writes now current_policy_version) (snapshot s) s"

definition shutdown :: "signal_writer \<Rightarrow> int \<Rightarrow> registry \<Rightarrow> registry" where
  "shutdown writes now s =
     (let s' = s\<lparr>rg_stopping := True\<rparr>
      in fold (\<lambda>i s. end_connection writes i RegDaemonStopping (gr_policy_version (cn_grant (conn s i))) now now s)
           (snapshot s') s')"

definition peer_closed :: "nat \<Rightarrow> int \<Rightarrow> registry \<Rightarrow> registry" where
  "peer_closed i now s = (if cn_live (conn s i) then peer_lost i ''connection_lost'' now s else s)"

definition peer_wrote :: "nat \<Rightarrow> int \<Rightarrow> registry \<Rightarrow> registry" where
  "peer_wrote i now s = (if cn_live (conn s i) then peer_lost i ''peer_wrote_on_the_stream'' now s else s)"

definition reached_its_lifetime :: "signal_writer \<Rightarrow> nat \<Rightarrow> int \<Rightarrow> registry \<Rightarrow> registry" where
  "reached_its_lifetime writes i now s =
     (if cn_live (conn s i)
      then end_connection writes i RegExpired (gr_policy_version (cn_grant (conn s i))) now now s else s)"

definition drain :: "nat \<Rightarrow> registry \<Rightarrow> registry \<times> grant_signal list" where
  "drain i s = (update_conn i (\<lambda>c. c\<lparr>cn_signals := []\<rparr>) s, cn_signals (conn s i))"

section \<open>Histories\<close>

datatype registry_op =
    RgReserve int
  | RgOpen nat grant int
  | RgCancel nat
  | RgPolicy string int
  | RgTick int string
  | RgShutdown int
  | RgPeerClosed nat int
  | RgPeerWrote nat int
  | RgLifetime nat int
  | RgDrain nat

primrec apply_registry_op :: "signal_writer \<Rightarrow> registry_op \<Rightarrow> registry \<Rightarrow> registry" where
  "apply_registry_op w (RgReserve uid) s = fst (reserve uid s)"
| "apply_registry_op w (RgOpen r g now) s = fst (reservation_open w r g now s)"
| "apply_registry_op w (RgCancel r) s = fst (reservation_cancel r s)"
| "apply_registry_op w (RgPolicy v now) s = policy_version_changed w v now s"
| "apply_registry_op w (RgTick now v) s = tick w now v s"
| "apply_registry_op w (RgShutdown now) s = shutdown w now s"
| "apply_registry_op w (RgPeerClosed i now) s = peer_closed i now s"
| "apply_registry_op w (RgPeerWrote i now) s = peer_wrote i now s"
| "apply_registry_op w (RgLifetime i now) s = reached_its_lifetime w i now s"
| "apply_registry_op w (RgDrain i) s = fst (drain i s)"

text \<open>
  What a caller holds when it calls: a reservation or a connection it was given, and a grant that was just
  minted, whose identifier is new.
\<close>

primrec callable :: "registry_op \<Rightarrow> registry \<Rightarrow> bool" where
  "callable (RgReserve uid) s = True"
| "callable (RgOpen r g now) s = (r < length (rg_reservations s) \<and> gr_id g \<notin> set (map (gr_id \<circ> cn_grant) (rg_objects s)))"
| "callable (RgCancel r) s = (r < length (rg_reservations s))"
| "callable (RgPolicy v now) s = True"
| "callable (RgTick now v) s = True"
| "callable (RgShutdown now) s = True"
| "callable (RgPeerClosed i now) s = (i < length (rg_objects s))"
| "callable (RgPeerWrote i now) s = (i < length (rg_objects s))"
| "callable (RgLifetime i now) s = (i < length (rg_objects s))"
| "callable (RgDrain i) s = (i < length (rg_objects s))"

text \<open>A history of calls that could be made; one that could not is passed over.\<close>

definition registry_step :: "signal_writer \<times> registry_op \<Rightarrow> registry \<Rightarrow> registry" where
  "registry_step x s = (if callable (snd x) s then apply_registry_op (fst x) (snd x) s else s)"

definition run_registry :: "(signal_writer \<times> registry_op) list \<Rightarrow> registry \<Rightarrow> registry" where
  "run_registry xs s = fold registry_step xs s"

end
