(* ===== verification/RegistryInvariant.thy ===== *)
theory RegistryInvariant
  imports GrantRegistry
begin

text \<open>
  The invariant of the grant registry and its preservation by every operation: the registered connections are
  exactly the live ones, reservations and connections together stay within both limits, and the events of a
  grant are one issue and, once it is not live, one end.
\<close>

section \<open>The invariant\<close>

definition connections_ok :: "registry \<Rightarrow> bool" where
  "connections_ok s \<longleftrightarrow> well_keyed (rg_connections s) \<and> distinct (map (gr_id \<circ> cn_grant) (rg_objects s)) \<and>
     (\<forall>gid i. map_of (rg_connections s) gid = Some i \<longrightarrow>
        i < length (rg_objects s) \<and> gr_id (cn_grant (conn s i)) = gid \<and> cn_live (conn s i)) \<and>
     (\<forall>i < length (rg_objects s). cn_live (conn s i) \<longrightarrow>
        map_of (rg_connections s) (gr_id (cn_grant (conn s i))) = Some i)"

definition active_by :: "registry \<Rightarrow> int \<Rightarrow> nat" where
  "active_by s uid = length (filter (\<lambda>r. r = (uid, True)) (rg_reservations s))"

definition reservations_ok :: "registry \<Rightarrow> bool" where
  "reservations_ok s \<longleftrightarrow> rg_reserved_total s = int (length (filter snd (rg_reservations s))) \<and>
     (\<forall>uid. reserved_by s uid = int (active_by s uid)) \<and>
     (\<forall>uid n. map_of (rg_reserved_by_principal s) uid = Some n \<longrightarrow> 0 < n)"

definition capacity_ok :: "registry \<Rightarrow> bool" where
  "capacity_ok s \<longleftrightarrow> int (length (rg_connections s)) + rg_reserved_total s \<le> int (rg_max_connections s) \<and>
     (\<forall>uid. connected_by s uid + reserved_by s uid \<le> int (rg_max_per_principal s))"

definition issues :: "string \<Rightarrow> grant_event list \<Rightarrow> nat" where
  "issues gid es = length (filter (\<lambda>e. case e of GrantIssued g _ _ _ _ \<Rightarrow> g = gid | _ \<Rightarrow> False) es)"

definition ends :: "string \<Rightarrow> grant_event list \<Rightarrow> nat" where
  "ends gid es = length (filter (\<lambda>e. case e of GrantEnded g _ _ \<Rightarrow> g = gid | _ \<Rightarrow> False) es)"

definition known_ids :: "registry \<Rightarrow> string list" where
  "known_ids s = map (gr_id \<circ> cn_grant) (rg_objects s)"

definition events_ok :: "registry \<Rightarrow> bool" where
  "events_ok s \<longleftrightarrow>
     (\<forall>gid. issues gid (rg_events s) = (if gid \<in> set (known_ids s) then 1 else 0)) \<and>
     (\<forall>gid. ends gid (rg_events s) =
        (if gid \<in> set (known_ids s) \<and> map_of (rg_connections s) gid = None then 1 else 0))"

definition registry_ok :: "registry \<Rightarrow> bool" where
  "registry_ok s \<longleftrightarrow> connections_ok s \<and> reservations_ok s \<and> capacity_ok s \<and> events_ok s \<and>
     (rg_stopping s \<longrightarrow> rg_connections s = [])"

lemma event_counts [simp]:
  "issues gid (es @ [e]) = issues gid es + (case e of GrantIssued g _ _ _ _ \<Rightarrow> if g = gid then 1 else 0 | _ \<Rightarrow> 0)"
  "ends gid (es @ [e]) = ends gid es + (case e of GrantEnded g _ _ \<Rightarrow> if g = gid then 1 else 0 | _ \<Rightarrow> 0)"
  by (simp_all add: issues_def ends_def split: grant_event.split)

section \<open>Updating a connection in place\<close>

lemma update_conn_simps [simp]:
  "length (rg_objects (update_conn i f s)) = length (rg_objects s)"
  "rg_connections (update_conn i f s) = rg_connections s" "rg_reserved_total (update_conn i f s) = rg_reserved_total s"
  "rg_reserved_by_principal (update_conn i f s) = rg_reserved_by_principal s"
  "rg_reservations (update_conn i f s) = rg_reservations s" "rg_stopping (update_conn i f s) = rg_stopping s"
  "rg_events (update_conn i f s) = rg_events s" "rg_max_connections (update_conn i f s) = rg_max_connections s"
  "rg_max_per_principal (update_conn i f s) = rg_max_per_principal s"
  by (simp_all add: update_conn_def)

lemma conn_update: "i < length (rg_objects s) \<Longrightarrow> conn (update_conn i f s) j = (if j = i then f (conn s i) else conn s j)"
  by (simp add: update_conn_def)

definition fixed_parts :: "(connection \<Rightarrow> connection) \<Rightarrow> bool" where
  "fixed_parts f \<longleftrightarrow> (\<forall>c. cn_grant (f c) = cn_grant c \<and> cn_principal_uid (f c) = cn_principal_uid c)"

lemma fixed_conn [simp]:
  assumes "fixed_parts f"
  shows "cn_grant (conn (update_conn i f s) j) = cn_grant (conn s j)"
    "cn_principal_uid (conn (update_conn i f s) j) = cn_principal_uid (conn s j)"
  using assms by (cases "i < length (rg_objects s)"; cases "j = i";
      simp add: update_conn_def fixed_parts_def nth_list_update list_update_beyond)+

lemma known_update [simp]: "fixed_parts f \<Longrightarrow> known_ids (update_conn i f s) = known_ids s"
  unfolding known_ids_def by (rule nth_equalityI) (simp_all add: fixed_conn)

lemma connected_update [simp]: "fixed_parts f \<Longrightarrow> connected_by (update_conn i f s) uid = connected_by s uid"
  by (simp add: connected_by_def)

lemma reserved_update [simp]: "reserved_by (update_conn i f s) uid = reserved_by s uid"
  by (simp add: reserved_by_def)

lemma active_update [simp]: "active_by (update_conn i f s) uid = active_by s uid"
  by (simp add: active_by_def)

lemma update_conn_ok:
  assumes "registry_ok s" and "i < length (rg_objects s)" and "fixed_parts f"
    and "cn_live (f (conn s i)) = cn_live (conn s i)"
  shows "registry_ok (update_conn i f s)"
proof -
  have "cn_live (conn (update_conn i f s) j) = cn_live (conn s j)" for j
    using assms(2,4) by (simp add: conn_update)
  with assms(3) have "connections_ok (update_conn i f s) = connections_ok s"
    by (simp add: connections_ok_def known_ids_def [symmetric])
  moreover have "reservations_ok (update_conn i f s) = reservations_ok s"
    by (simp add: reservations_ok_def)
  moreover have "capacity_ok (update_conn i f s) = capacity_ok s" "events_ok (update_conn i f s) = events_ok s"
    using assms(3) by (simp_all add: capacity_ok_def events_ok_def)
  ultimately show ?thesis using assms(1) by (simp add: registry_ok_def)
qed

section \<open>Retiring a connection\<close>

definition retire :: "nat \<Rightarrow> (connection \<Rightarrow> connection) \<Rightarrow> string \<Rightarrow> int \<Rightarrow> registry \<Rightarrow> registry" where
  "retire i f reason at s =
     (let gid = gr_id (cn_grant (conn s i))
      in log_event (GrantEnded gid reason at)
           (update_conn i f (s\<lparr>rg_connections := AList.delete gid (rg_connections s)\<rparr>)))"

definition registered :: "registry \<Rightarrow> nat \<Rightarrow> bool" where
  "registered s i \<longleftrightarrow> map_of (rg_connections s) (gr_id (cn_grant (conn s i))) \<noteq> None"

lemma peer_lost_eq: "peer_lost i reason now s =
    (if registered s i then retire i (\<lambda>c. c\<lparr>cn_live := False\<rparr>) reason now s else s)"
  by (simp add: peer_lost_def registered_def retire_def Let_def)

definition end_update :: "signal_writer \<Rightarrow> nat \<Rightarrow> grant_signal \<Rightarrow> connection \<Rightarrow> connection" where
  "end_update writes i sig c = (if writes i sig then keep_signal sig (c\<lparr>cn_live := False\<rparr>) else c\<lparr>cn_live := False\<rparr>)"

lemma end_connection_eq:
  assumes "i < length (rg_objects s)"
  shows "end_connection writes i reason v at now s =
    (if registered s i
     then retire i (end_update writes i \<lparr>gs_kind = GRANT_ENDED, gs_grant_id = gr_id (cn_grant (conn s i)),
            gs_policy_version = v, gs_at = at, gs_reason = Some reason\<rparr>) (end_reason_value reason) at s
     else s)"
  using assms
  by (simp add: end_connection_def registered_def retire_def Let_def write_signal_def peer_lost_def
      end_update_def log_event_def update_conn_def)

lemma fixed_simps [simp]:
  "fixed_parts (\<lambda>c. c\<lparr>cn_live := False\<rparr>)" "fixed_parts (end_update writes i sig)" "fixed_parts (keep_signal sig)"
  "fixed_parts (\<lambda>c. c\<lparr>cn_signals := []\<rparr>)"
  "\<not> cn_live (end_update writes i sig c)" "cn_live (keep_signal sig c) = cn_live c"
  by (simp_all add: fixed_parts_def end_update_def keep_signal_def)

lemma length_delete_le: "length (filter P (map snd (AList.delete k d))) \<le> length (filter P (map snd d))"
  by (induction d) auto

lemma connected_delete: "connected_by (s\<lparr>rg_connections := AList.delete gid (rg_connections s)\<rparr>) uid \<le> connected_by s uid"
  using length_delete_le [of "\<lambda>i. cn_principal_uid (conn s i) = uid" gid "rg_connections s"]
  by (simp add: connected_by_def del: filter_map)

lemma registered_lt: "connections_ok s \<Longrightarrow> map_of (rg_connections s) gid = Some i \<Longrightarrow>
    i < length (rg_objects s) \<and> gr_id (cn_grant (conn s i)) = gid \<and> cn_live (conn s i)"
  by (simp add: connections_ok_def)

lemma same_id: "connections_ok s \<Longrightarrow> i < length (rg_objects s) \<Longrightarrow> j < length (rg_objects s) \<Longrightarrow>
    gr_id (cn_grant (conn s i)) = gr_id (cn_grant (conn s j)) \<Longrightarrow> i = j"
  by (auto simp: connections_ok_def distinct_conv_nth)

lemma registered_iff: "connections_ok s \<Longrightarrow> i < length (rg_objects s) \<Longrightarrow>
    registered s i \<longleftrightarrow> cn_live (conn s i)"
proof
  assume ok: "connections_ok s" and i: "i < length (rg_objects s)" and "registered s i"
  then obtain j where j: "map_of (rg_connections s) (gr_id (cn_grant (conn s i))) = Some j"
    by (auto simp: registered_def)
  from registered_lt [OF ok j] same_id [OF ok i, of j] show "cn_live (conn s i)" by auto
qed (simp add: registered_def connections_ok_def)

lemma retire_simps [simp]:
  "rg_reservations (retire i f reason at s) = rg_reservations s"
  "rg_reserved_total (retire i f reason at s) = rg_reserved_total s"
  "rg_reserved_by_principal (retire i f reason at s) = rg_reserved_by_principal s"
  "rg_stopping (retire i f reason at s) = rg_stopping s"
  "rg_max_connections (retire i f reason at s) = rg_max_connections s"
  "rg_max_per_principal (retire i f reason at s) = rg_max_per_principal s"
  "length (rg_objects (retire i f reason at s)) = length (rg_objects s)"
  "rg_connections (retire i f reason at s) = AList.delete (gr_id (cn_grant (conn s i))) (rg_connections s)"
  "rg_objects (retire i f reason at s) = rg_objects (update_conn i f s)"
  "rg_events (retire i f reason at s) = rg_events s @ [GrantEnded (gr_id (cn_grant (conn s i))) reason at]"
  by (simp_all add: retire_def Let_def log_event_def update_conn_def)

lemma retire_connections_ok:
  assumes ok: "connections_ok s" and i: "i < length (rg_objects s)" and f: "fixed_parts f" "\<not> cn_live (f (conn s i))"
  shows "connections_ok (retire i f reason at s)"
proof -
  let ?gid = "gr_id (cn_grant (conn s i))" and ?s = "retire i f reason at s"
  have static: "cn_grant (conn ?s j) = cn_grant (conn s j)" for j using f(1) by simp
  have live: "cn_live (conn ?s j) \<longleftrightarrow> j \<noteq> i \<and> cn_live (conn s j)" for j
    using f(2) i by (simp add: conn_update)
  have "map (gr_id \<circ> cn_grant) (rg_objects ?s) = map (gr_id \<circ> cn_grant) (rg_objects s)"
    using known_update [OF f(1), of i s] by (simp add: known_ids_def)
  moreover have "j < length (rg_objects ?s) \<and> gr_id (cn_grant (conn ?s j)) = gid \<and> cn_live (conn ?s j)"
    if "map_of (rg_connections ?s) gid = Some j" for gid j
  proof -
    from that have "gid \<noteq> ?gid" "map_of (rg_connections s) gid = Some j" by (auto split: if_splits)
    with registered_lt [OF ok this(2)] show ?thesis unfolding static live by auto
  qed
  moreover have "map_of (rg_connections ?s) (gr_id (cn_grant (conn ?s j))) = Some j"
    if "j < length (rg_objects ?s)" "cn_live (conn ?s j)" for j
  proof -
    have j: "j \<noteq> i" "cn_live (conn s j)" "j < length (rg_objects s)" using that unfolding live by auto
    with same_id [OF ok i j(3)] have "gr_id (cn_grant (conn s j)) \<noteq> ?gid" by auto
    with j ok show ?thesis unfolding static by (simp add: connections_ok_def)
  qed
  ultimately show ?thesis
    using ok unfolding connections_ok_def by simp
qed

lemma retire_ok:
  assumes ok: "registry_ok s" and i: "i < length (rg_objects s)" "registered s i"
    and f: "fixed_parts f" "\<not> cn_live (f (conn s i))"
  shows "registry_ok (retire i f reason at s)"
proof -
  let ?s = "retire i f reason at s" and ?gid = "gr_id (cn_grant (conn s i))"
  have "connected_by ?s uid = connected_by (s\<lparr>rg_connections := AList.delete ?gid (rg_connections s)\<rparr>) uid" for uid
    using f(1) by (simp add: connected_by_def)
  then have less: "connected_by ?s uid \<le> connected_by s uid" for uid
    by (simp add: connected_delete)
  have same: "reserved_by ?s = reserved_by s" "active_by ?s = active_by s" "known_ids ?s = known_ids s"
    using known_update [OF f(1), of i s] by (simp_all add: reserved_by_def active_by_def known_ids_def fun_eq_iff)
  have len: "length (rg_connections ?s) \<le> length (rg_connections s)"
    by (simp add: filter_delete)
  have known: "?gid \<in> set (known_ids s)" using i(1) by (auto simp: known_ids_def)
  have "capacity_ok ?s"
    unfolding capacity_ok_def same
  proof (intro conjI allI)
    show "int (length (rg_connections ?s)) + rg_reserved_total ?s \<le> int (rg_max_connections ?s)"
      using ok len unfolding registry_ok_def capacity_ok_def retire_simps by linarith
    fix uid
    show "connected_by ?s uid + reserved_by s uid \<le> int (rg_max_per_principal ?s)"
      using ok less [of uid] unfolding registry_ok_def capacity_ok_def retire_simps by (meson add_right_mono order_trans)
  qed
  moreover have "events_ok ?s"
    using ok i(2) known unfolding registry_ok_def events_ok_def same registered_def
    by auto
  moreover have "connections_ok ?s"
    using ok i(1) f by (intro retire_connections_ok) (simp_all add: registry_ok_def)
  moreover have "reservations_ok ?s"
    using ok by (simp add: registry_ok_def reservations_ok_def same)
  moreover have "rg_stopping ?s \<longrightarrow> rg_connections ?s = []"
    using ok by (auto simp: registry_ok_def)
  ultimately show ?thesis by (simp add: registry_ok_def)
qed

section \<open>The operations on connections\<close>

lemma peer_lost_ok [inv_intros]:
  "registry_ok s \<Longrightarrow> i < length (rg_objects s) \<Longrightarrow> registry_ok (peer_lost i reason now s)"
  by (simp add: peer_lost_eq retire_ok)

lemma end_connection_ok [inv_intros]:
  "registry_ok s \<Longrightarrow> i < length (rg_objects s) \<Longrightarrow> registry_ok (end_connection writes i reason v at now s)"
  by (simp add: end_connection_eq retire_ok)

lemma write_signal_ok [inv_intros]:
  "registry_ok s \<Longrightarrow> i < length (rg_objects s) \<Longrightarrow> registry_ok (write_signal writes i sig now s)"
  by (simp add: write_signal_def peer_lost_ok update_conn_ok)

lemma tick_one_ok [inv_intros]:
  "registry_ok s \<Longrightarrow> i < length (rg_objects s) \<Longrightarrow> registry_ok (tick_one writes now v i s)"
  by (simp add: tick_one_def end_connection_ok write_signal_ok)

text \<open>What no operation on connections changes.\<close>

definition same_objects :: "registry \<Rightarrow> registry \<Rightarrow> bool" where
  "same_objects s s' \<longleftrightarrow> length (rg_objects s') = length (rg_objects s) \<and>
     (\<forall>i. cn_grant (conn s' i) = cn_grant (conn s i)) \<and> rg_stopping s' = rg_stopping s \<and>
     set (snapshot s') \<subseteq> set (snapshot s)"

lemma same_objects_refl [simp]: "same_objects s s"
  by (simp add: same_objects_def)

lemma same_objects_trans: "same_objects s s' \<Longrightarrow> same_objects s' s'' \<Longrightarrow> same_objects s s''"
  by (auto simp: same_objects_def)

lemma snapshot_delete: "set (map snd (AList.delete k d)) \<subseteq> set (map snd d)"
  by (auto simp: filter_delete)

lemma retire_same: "fixed_parts f \<Longrightarrow> same_objects s (retire i f reason at s)"
  unfolding same_objects_def snapshot_def retire_simps
  using snapshot_delete [of "gr_id (cn_grant (conn s i))" "rg_connections s"] by simp

lemma peer_lost_same: "same_objects s (peer_lost i reason now s)"
  by (simp add: peer_lost_eq retire_same)

lemma end_connection_same: "i < length (rg_objects s) \<Longrightarrow> same_objects s (end_connection writes i reason v at now s)"
  by (simp add: end_connection_eq retire_same)

lemma write_signal_same: "same_objects s (write_signal writes i sig now s)"
  by (simp add: write_signal_def peer_lost_same) (simp add: same_objects_def snapshot_def)

lemma tick_one_same: "i < length (rg_objects s) \<Longrightarrow> same_objects s (tick_one writes now v i s)"
  by (simp add: tick_one_def end_connection_same write_signal_same)

lemma snapshot_live: "connections_ok s \<Longrightarrow> set (snapshot s) = {i. i < length (rg_objects s) \<and> cn_live (conn s i)}"
proof
  assume ok: "connections_ok s"
  show "set (snapshot s) \<subseteq> {i. i < length (rg_objects s) \<and> cn_live (conn s i)}"
  proof
    fix i assume "i \<in> set (snapshot s)"
    then obtain gid where "(gid, i) \<in> set (rg_connections s)" by (auto simp: snapshot_def)
    with ok have "map_of (rg_connections s) gid = Some i" by (simp add: connections_ok_def)
    from registered_lt [OF ok this] show "i \<in> {i. i < length (rg_objects s) \<and> cn_live (conn s i)}" by simp
  qed
  show "{i. i < length (rg_objects s) \<and> cn_live (conn s i)} \<subseteq> set (snapshot s)"
    using ok by (force simp: connections_ok_def snapshot_def dest: map_of_SomeD)
qed

lemma end_connection_gone:
  assumes "registry_ok s" and "i < length (rg_objects s)"
  shows "i \<notin> set (snapshot (end_connection writes i reason v at now s))"
proof -
  have ok: "connections_ok s" and ok': "connections_ok (end_connection writes i reason v at now s)"
    using assms end_connection_ok by (simp_all add: registry_ok_def)
  have "\<not> cn_live (conn (end_connection writes i reason v at now s) i)"
    using assms(2) registered_iff [OF ok assms(2)] by (simp add: end_connection_eq conn_update)
  then show ?thesis by (simp add: snapshot_live [OF ok'])
qed

section \<open>Sweeps over a snapshot\<close>

text \<open>
  A sweep visits every connection of a snapshot; a step that ends the connections satisfying \<open>P\<close> leaves
  none of them registered.
\<close>

lemma sweep_ok:
  assumes "registry_ok s" and "\<And>s i. registry_ok s \<Longrightarrow> i < length (rg_objects s) \<Longrightarrow> registry_ok (f i s) \<and> same_objects s (f i s)"
    and "set is \<subseteq> {..<length (rg_objects s)}"
  shows "registry_ok (fold f is s) \<and> same_objects s (fold f is s)"
  using assms(1,3)
proof (induction "is" arbitrary: s)
  case Nil
  then show ?case by simp
next
  case (Cons i "is")
  from Cons.prems assms(2) [of s i] have one: "registry_ok (f i s)" "same_objects s (f i s)" by simp_all
  moreover from one(2) Cons.prems(2) have "set is \<subseteq> {..<length (rg_objects (f i s))}"
    by (simp add: same_objects_def)
  ultimately show ?case using Cons.IH [of "f i s"] by (auto intro: same_objects_trans)
qed

lemma sweep_ends:
  assumes "registry_ok s" and f: "\<And>s i. registry_ok s \<Longrightarrow> i < length (rg_objects s) \<Longrightarrow> registry_ok (f i s) \<and> same_objects s (f i s)"
    and gone: "\<And>s i. registry_ok s \<Longrightarrow> i < length (rg_objects s) \<Longrightarrow> P (cn_grant (conn s i)) \<Longrightarrow> i \<notin> set (snapshot (f i s))"
    and "set is \<subseteq> {..<length (rg_objects s)}" and "j \<in> set (snapshot (fold f is s))" "j \<in> set is"
  shows "\<not> P (cn_grant (conn s j))"
  using assms(1,4-6)
proof (induction "is" arbitrary: s)
  case Nil
  then show ?case by simp
next
  case (Cons i "is")
  from Cons.prems f [of s i] have one: "registry_ok (f i s)" "same_objects s (f i s)" by simp_all
  then have bound: "set is \<subseteq> {..<length (rg_objects (f i s))}" and grants: "cn_grant (conn (f i s) j) = cn_grant (conn s j)"
    using Cons.prems(2) by (simp_all add: same_objects_def)
  show ?case
  proof (cases "j \<in> set is")
    case True
    from Cons.IH [OF one(1) bound _ True] Cons.prems(3) show ?thesis by (simp add: grants)
  next
    case False
    with Cons.prems(4) have "j = i" by simp
    moreover have "j \<in> set (snapshot (f i s))"
    proof -
      have "same_objects (f i s) (fold f is (f i s))"
        using sweep_ok [of "f i s" f "is"] one(1) f bound by blast
      then show ?thesis using Cons.prems(3) by (auto simp: same_objects_def)
    qed
    ultimately show ?thesis using gone [of s i] Cons.prems(1,2) by auto
  qed
qed

lemma snapshot_bound: "registry_ok s \<Longrightarrow> set (snapshot s) \<subseteq> {..<length (rg_objects s)}"
  by (auto simp: registry_ok_def snapshot_live)

end
