(* ===== verification/RegistryProperties.thy ===== *)
theory RegistryProperties
  imports RegistryInvariant
begin

text \<open>
  Reservations, the histories of the registry, and what the registry promises over every history: its limits,
  one end for every grant, and that a sweep, a change of version or a stop leaves no grant it should have
  ended.
\<close>

section \<open>Reservations keep the invariant\<close>

lemma count_update:
  "r < length xs \<Longrightarrow> int (length (filter P (xs[r := y]))) =
     int (length (filter P xs)) - (if P (xs ! r) then 1 else 0) + (if P y then 1 else 0)"
proof (induction xs arbitrary: r)
  case Nil
  then show ?case by simp
next
  case (Cons x xs)
  show ?case
  proof (cases r)
    case (Suc m)
    with Cons.IH [of m] Cons.prems show ?thesis by (simp split: if_splits)
  qed simp
qed

text \<open>Everything but the reservations themselves.\<close>

definition same_connections :: "registry \<Rightarrow> registry \<Rightarrow> bool" where
  "same_connections s s' \<longleftrightarrow> rg_objects s' = rg_objects s \<and> rg_connections s' = rg_connections s \<and>
     rg_events s' = rg_events s \<and> rg_stopping s' = rg_stopping s \<and>
     rg_max_connections s' = rg_max_connections s \<and> rg_max_per_principal s' = rg_max_per_principal s"

lemma same_connections_parts:
  assumes "same_connections s s'"
  shows "connections_ok s' = connections_ok s" "events_ok s' = events_ok s" "connected_by s' = connected_by s"
    "known_ids s' = known_ids s"
  using assms by (auto simp: same_connections_def connections_ok_def events_ok_def known_ids_def connected_by_def fun_eq_iff)

lemma reserve_ok: "registry_ok s \<Longrightarrow> registry_ok (fst (reserve uid s))"
proof (cases "has_capacity uid s")
  case True
  assume ok: "registry_ok s"
  define s' where "s' = fst (reserve uid s)"
  have s': "s' = s\<lparr>rg_reserved_total := rg_reserved_total s + 1,
      rg_reserved_by_principal := AList.update uid (reserved_by s uid + 1) (rg_reserved_by_principal s),
      rg_reservations := rg_reservations s @ [(uid, True)]\<rparr>"
    using True by (simp add: s'_def reserve_def)
  have per: "reserved_by s' u = reserved_by s u + (if u = uid then 1 else 0)" for u
    by (simp add: s' reserved_by_def)
  have act: "int (active_by s' u) = int (active_by s u) + (if u = uid then 1 else 0)" for u
    by (simp add: s' active_by_def)
  have nonneg: "0 \<le> reserved_by s uid"
    using ok by (simp add: registry_ok_def reservations_ok_def)
  have "same_connections s s'" by (simp add: s' same_connections_def)
  note same = same_connections_parts [OF this]
  have "reservations_ok s'"
    using ok nonneg unfolding registry_ok_def reservations_ok_def per act
    by (simp add: s')
  moreover have "capacity_ok s'"
    using ok True unfolding registry_ok_def capacity_ok_def per same
    by (auto simp: has_capacity_def) (simp_all add: s')
  ultimately show ?thesis
    using ok by (simp add: registry_ok_def same s'_def [symmetric]) (simp add: s')
qed (simp add: reserve_def)

text \<open>Releasing an active reservation succeeds and gives back one place.\<close>

lemma release_active:
  fixes uid :: int
  assumes ok: "registry_ok s" and r: "r < length (rg_reservations s)" "rg_reservations s ! r = (uid, True)"
  defines "s0 \<equiv> s\<lparr>rg_reservations := (rg_reservations s)[r := (uid, False)]\<rparr>"
  defines "s' \<equiv> fst (release_reservation uid s0)"
  shows "release_reservation uid s0 = (s', Inr ())" "same_connections s s'" "reservations_ok s'"
    "rg_reserved_total s' = rg_reserved_total s - 1"
    "\<And>u. reserved_by s' u = reserved_by s u - (if u = uid then 1 else 0)"
proof -
  have "0 < active_by s uid"
    using r by (auto simp: active_by_def filter_empty_conv in_set_conv_nth)
  with ok have "reserved_by s uid \<noteq> 0" by (simp add: registry_ok_def reservations_ok_def)
  then obtain n where some: "map_of (rg_reserved_by_principal s) uid = Some n"
    by (auto simp: reserved_by_def split: option.splits)
  moreover have "0 < n" using ok some by (simp add: registry_ok_def reservations_ok_def)
  ultimately have n: "map_of (rg_reserved_by_principal s) uid = Some n" "0 < n" by simp_all
  show rel: "release_reservation uid s0 = (s', Inr ())"
    using n by (simp add: s'_def s0_def release_reservation_def Let_def)
  show same: "same_connections s s'" and total: "rg_reserved_total s' = rg_reserved_total s - 1"
    using n by (simp_all add: s'_def s0_def release_reservation_def Let_def same_connections_def)
  show per: "reserved_by s' u = reserved_by s u - (if u = uid then 1 else 0)" for u
    using n by (simp add: s'_def s0_def release_reservation_def Let_def reserved_by_def)
  have res: "rg_reservations s' = (rg_reservations s)[r := (uid, False)]"
    using n by (simp add: s'_def s0_def release_reservation_def Let_def)
  have "int (active_by s' u) = int (active_by s u) - (if u = uid then 1 else 0)" for u
    unfolding active_by_def res using r by (simp add: count_update)
  moreover have "int (length (filter snd (rg_reservations s'))) = int (length (filter snd (rg_reservations s))) - 1"
    unfolding res using r by (simp add: count_update)
  moreover have "0 < m" if "map_of (rg_reserved_by_principal s') u = Some m" for u m
  proof (cases "n = 1")
    case True
    with that n ok show ?thesis
      by (auto simp: s'_def s0_def release_reservation_def Let_def registry_ok_def reservations_ok_def split: if_splits)
  next
    case False
    with that n have "u = uid \<and> m = n - 1 \<or> map_of (rg_reserved_by_principal s) u = Some m"
      by (auto simp: s'_def s0_def release_reservation_def Let_def split: if_splits)
    with False n(2) ok show ?thesis by (auto simp: registry_ok_def reservations_ok_def)
  qed
  ultimately show "reservations_ok s'"
    using ok by (simp add: registry_ok_def reservations_ok_def total per)
qed

lemma released_ok:
  assumes "registry_ok s" and "same_connections s s'" and "reservations_ok s'"
    and "rg_reserved_total s' = rg_reserved_total s - 1"
    and "\<And>u. reserved_by s' u = reserved_by s u - (if u = uid then 1 else 0)"
  shows "registry_ok s'"
    and "int (length (rg_connections s')) + 1 + rg_reserved_total s' \<le> int (rg_max_connections s')"
    and "connected_by s' u + (if u = uid then 1 else 0) + reserved_by s' u \<le> int (rg_max_per_principal s')"
proof -
  note same = same_connections_parts [OF assms(2)]
  have cap: "capacity_ok s" using assms(1) by (simp add: registry_ok_def)
  show total: "int (length (rg_connections s')) + 1 + rg_reserved_total s' \<le> int (rg_max_connections s')"
    using cap assms(2,4) by (simp add: capacity_ok_def same_connections_def)
  show per: "connected_by s' u + (if u = uid then 1 else 0) + reserved_by s' u \<le> int (rg_max_per_principal s')" for u
  proof -
    from cap have "connected_by s u + reserved_by s u \<le> int (rg_max_per_principal s)" by (simp add: capacity_ok_def)
    with assms(2,5) show ?thesis unfolding same same_connections_def by simp
  qed
  have "connected_by s' u + reserved_by s' u \<le> int (rg_max_per_principal s')" for u
    using per [of u] by (simp split: if_splits)
  with total have "capacity_ok s'" by (simp add: capacity_ok_def)
  with assms(1-3) show "registry_ok s'"
    by (simp add: registry_ok_def same) (simp add: same_connections_def)
qed

lemma cancel_ok:
  assumes "registry_ok s" and "r < length (rg_reservations s)"
  shows "registry_ok (fst (reservation_cancel r s))"
proof -
  obtain uid active where r: "rg_reservations s ! r = (uid, active)" by (metis surj_pair)
  show ?thesis
  proof (cases active)
    case True
    note rel = release_active [OF assms, of uid] 
    show ?thesis
      using released_ok(1) [OF assms(1) rel(2-5)] rel(1) r True
      by (simp add: reservation_cancel_def)
  qed (simp add: reservation_cancel_def r assms)
qed

section \<open>Registering a connection\<close>

definition registering :: "grant \<Rightarrow> int \<Rightarrow> registry \<Rightarrow> registry" where
  "registering g uid s =
     log_event (GrantIssued (gr_id g) (gr_decision_ref g) (gr_lifetime_seconds g) (gr_policy_version g) (gr_issued_at g))
       (s\<lparr>rg_objects := rg_objects s @ [\<lparr>cn_grant = g, cn_principal_uid = uid, cn_live = True,
            cn_last_signal_at = gr_issued_at g, cn_signals = []\<rparr>],
          rg_connections := AList.update (gr_id g) (length (rg_objects s)) (rg_connections s)\<rparr>)"

lemma update_fresh: "k \<notin> fst ` set d \<Longrightarrow> AList.update k v d = d @ [(k, v)]"
  by (induction d) auto

lemma registering_parts:
  fixes uid u :: int
  assumes "registry_ok s" and "gr_id g \<notin> set (known_ids s)"
  defines "s' \<equiv> registering g uid s"
  shows "connections_ok s'" and "reservations_ok s'" and "events_ok s'"
    and "length (rg_connections s') = Suc (length (rg_connections s))"
    and "connected_by s' u = connected_by s u + (if u = uid then 1 else 0)"
    and "reserved_by s' u = reserved_by s u"
proof -
  have ok: "connections_ok s" using assms(1) by (simp add: registry_ok_def)
  let ?n = "length (rg_objects s)"
  have fresh: "map_of (rg_connections s) (gr_id g) = None"
  proof (rule ccontr)
    assume "map_of (rg_connections s) (gr_id g) \<noteq> None"
    then obtain i where "map_of (rg_connections s) (gr_id g) = Some i" by auto
    from registered_lt [OF ok this] have "gr_id g \<in> set (known_ids s)"
      by (auto simp: known_ids_def intro!: image_eqI [where x = "conn s i"])
    with assms(2) show False by simp
  qed
  then have app: "rg_connections s' = rg_connections s @ [(gr_id g, ?n)]"
    by (simp add: s'_def registering_def log_event_def update_fresh map_of_eq_None_iff)
  have old: "conn s' i = conn s i" if "i < ?n" for i
    using that by (simp add: s'_def registering_def log_event_def nth_append)
  have new: "cn_grant (conn s' ?n) = g" "cn_live (conn s' ?n)" "cn_principal_uid (conn s' ?n) = uid"
    and len: "length (rg_objects s') = Suc ?n"
    by (simp_all add: s'_def registering_def log_event_def)
  have map: "map_of (rg_connections s') = (map_of (rg_connections s))(gr_id g \<mapsto> ?n)"
    by (simp add: s'_def registering_def log_event_def)
  have ids: "known_ids s' = known_ids s @ [gr_id g]"
    by (simp add: s'_def registering_def log_event_def known_ids_def)
  show "connections_ok s'"
    unfolding connections_ok_def map len known_ids_def [symmetric, unfolded comp_def]
  proof (intro conjI allI impI)
    show "well_keyed (rg_connections s')" using ok fresh by (simp add: app connections_ok_def map_of_eq_None_iff)
    show "distinct (map (gr_id \<circ> cn_grant) (rg_objects s'))"
      using ok assms(2) ids by (simp add: known_ids_def connections_ok_def)
  next
    fix gid i assume i: "((map_of (rg_connections s))(gr_id g \<mapsto> ?n)) gid = Some i"
    show "i < Suc ?n" "gr_id (cn_grant (conn s' i)) = gid" "cn_live (conn s' i)"
      using i registered_lt [OF ok, of gid i] new old by (auto split: if_splits)
  next
    fix i assume i: "i < Suc ?n" "cn_live (conn s' i)"
    show "((map_of (rg_connections s))(gr_id g \<mapsto> ?n)) (gr_id (cn_grant (conn s' i))) = Some i"
    proof (cases "i = ?n")
      case False
      with i have "i < ?n" by simp
      moreover from this have "gr_id (cn_grant (conn s i)) \<noteq> gr_id g"
      proof -
        have "gr_id (cn_grant (conn s i)) \<in> set (known_ids s)"
          using nth_mem [OF \<open>i < ?n\<close>] by (simp add: known_ids_def)
        with assms(2) show ?thesis by metis
      qed
      ultimately show ?thesis using i(2) ok old by (simp add: connections_ok_def)
    qed (simp add: new)
  qed
  show "reservations_ok s'"
    using assms(1) by (simp add: registry_ok_def reservations_ok_def s'_def registering_def log_event_def
        reserved_by_def active_by_def)
  show "events_ok s'"
    using assms(1,2) fresh unfolding registry_ok_def events_ok_def ids map
    by (auto simp: s'_def registering_def log_event_def)
  show "length (rg_connections s') = Suc (length (rg_connections s))" by (simp add: app)
  have "filter (\<lambda>i. cn_principal_uid (conn s' i) = u) (map snd (rg_connections s)) =
      filter (\<lambda>i. cn_principal_uid (conn s i) = u) (map snd (rg_connections s))"
  proof (rule filter_cong [OF refl])
    fix i assume "i \<in> set (map snd (rg_connections s))"
    then have "i < ?n" using snapshot_bound [OF assms(1)] by (auto simp: snapshot_def)
    then show "(cn_principal_uid (conn s' i) = u) = (cn_principal_uid (conn s i) = u)" by (simp add: old)
  qed
  then show "connected_by s' u = connected_by s u + (if u = uid then 1 else 0)"
    by (simp add: connected_by_def app new del: filter_map)
  show "reserved_by s' u = reserved_by s u"
    by (simp add: s'_def registering_def log_event_def reserved_by_def)
qed

text \<open>A registry that meets the invariant but for the last registration, which a stop ends at once.\<close>

definition almost_ok :: "registry \<Rightarrow> bool" where
  "almost_ok s \<longleftrightarrow> registry_ok (s\<lparr>rg_stopping := False\<rparr>)"

lemma stopping_free [simp]:
  "connections_ok (s\<lparr>rg_stopping := b\<rparr>) = connections_ok s" "reservations_ok (s\<lparr>rg_stopping := b\<rparr>) = reservations_ok s"
  "capacity_ok (s\<lparr>rg_stopping := b\<rparr>) = capacity_ok s" "events_ok (s\<lparr>rg_stopping := b\<rparr>) = events_ok s"
  by (simp_all add: connections_ok_def reservations_ok_def capacity_ok_def events_ok_def reserved_by_def active_by_def
      connected_by_def known_ids_def)

lemma registry_ok_stopping: "registry_ok s \<longleftrightarrow> almost_ok s \<and> (rg_stopping s \<longrightarrow> rg_connections s = [])"
  by (auto simp: almost_ok_def registry_ok_def)

lemma end_connection_stopping:
  "end_connection w i r v at now (s\<lparr>rg_stopping := b\<rparr>) = (end_connection w i r v at now s)\<lparr>rg_stopping := b\<rparr>"
  by (simp add: end_connection_def write_signal_def peer_lost_def update_conn_def log_event_def Let_def)

lemma almost_end: "almost_ok s \<Longrightarrow> i < length (rg_objects s) \<Longrightarrow> almost_ok (end_connection w i r v at now s)"
  using end_connection_ok [of "s\<lparr>rg_stopping := False\<rparr>" i w r v at now]
  by (simp add: almost_ok_def end_connection_stopping)

lemma open_reserved_ok:
  assumes ok: "registry_ok s" and r: "r < length (rg_reservations s)" and fresh: "gr_id g \<notin> set (known_ids s)"
  shows "registry_ok (fst (reservation_open w r g now s))"
proof -
  obtain uid active where uid: "rg_reservations s ! r = (uid, active)" by (metis surj_pair)
  show ?thesis
  proof (cases active)
    case False
    then show ?thesis by (simp add: reservation_open_def uid ok)
  next
    case True
    define s0 where "s0 = s\<lparr>rg_reservations := (rg_reservations s)[r := (uid, False)]\<rparr>"
    define s1 where "s1 = fst (release_reservation uid s0)"
    note rel = release_active [OF ok r, of uid, folded s0_def, folded s1_def]
    have "rg_reservations s ! r = (uid, True)" using uid True by simp
    note rel = rel [OF this]
    note ok1 = released_ok [OF ok rel(2-5)]
    have fresh1: "gr_id g \<notin> set (known_ids s1)" using fresh same_connections_parts(4) [OF rel(2)] by simp
    define s2 where "s2 = registering g uid s1"
    let ?n = "length (rg_objects s1)"
    note reg = registering_parts [OF ok1(1) fresh1, of uid, folded s2_def]
    have "capacity_ok s2"
      unfolding capacity_ok_def reg(4-6)
      using ok1(2,3) by (simp add: s2_def registering_def log_event_def add.commute add.left_commute)
    with reg have almost: "almost_ok s2" by (simp add: almost_ok_def registry_ok_def)
    have stop: "rg_stopping s2 = rg_stopping s1" and n: "?n < length (rg_objects s2)"
      by (simp_all add: s2_def registering_def log_event_def)
    have opened: "fst (reservation_open w r g now s) =
        (if rg_stopping s1 then end_connection w ?n RegDaemonStopping (gr_policy_version g) now now s2 else s2)"
      using True by (simp add: reservation_open_def uid open_reserved_def s0_def [symmetric] rel(1)
          s2_def registering_def Let_def)
    show ?thesis
    proof (cases "rg_stopping s1")
      case False
      with almost show ?thesis unfolding opened by (simp add: registry_ok_stopping stop)
    next
      case True
      have "rg_connections s1 = []" using ok1(1) True by (simp add: registry_ok_def)
      then have "rg_connections s2 = [(gr_id g, ?n)]"
        by (simp add: s2_def registering_def log_event_def)
      moreover have "cn_grant (conn s2 ?n) = g"
        by (simp add: s2_def registering_def log_event_def)
      ultimately have "rg_connections (end_connection w ?n RegDaemonStopping (gr_policy_version g) now now s2) = []"
        using n by (simp add: end_connection_eq registered_def)
      with True almost_end [OF almost n] show ?thesis
        unfolding opened by (simp add: registry_ok_stopping)
    qed
  qed
qed

section \<open>Sweeps keep the invariant and end what they should\<close>

definition policy_one :: "signal_writer \<Rightarrow> string \<Rightarrow> int \<Rightarrow> nat \<Rightarrow> registry \<Rightarrow> registry" where
  "policy_one w v now i s = (if gr_policy_version (cn_grant (conn s i)) \<noteq> v
     then end_connection w i RegPolicyVersionChanged v now now s else s)"

definition stop_one :: "signal_writer \<Rightarrow> int \<Rightarrow> nat \<Rightarrow> registry \<Rightarrow> registry" where
  "stop_one w now i s = end_connection w i RegDaemonStopping (gr_policy_version (cn_grant (conn s i))) now now s"

lemma one_ok:
  "registry_ok s \<Longrightarrow> i < length (rg_objects s) \<Longrightarrow> registry_ok (policy_one w v now i s) \<and> same_objects s (policy_one w v now i s)"
  "registry_ok s \<Longrightarrow> i < length (rg_objects s) \<Longrightarrow> registry_ok (stop_one w now i s) \<and> same_objects s (stop_one w now i s)"
  "registry_ok s \<Longrightarrow> i < length (rg_objects s) \<Longrightarrow> registry_ok (tick_one w now v i s) \<and> same_objects s (tick_one w now v i s)"
  by (simp_all add: policy_one_def stop_one_def end_connection_ok end_connection_same tick_one_ok tick_one_same)

lemma policy_sweep: "policy_version_changed w v now s = fold (policy_one w v now) (snapshot s) s"
  by (simp add: policy_version_changed_def policy_one_def [abs_def])

lemma policy_ok: "registry_ok s \<Longrightarrow> registry_ok (policy_version_changed w v now s) \<and>
    same_objects s (policy_version_changed w v now s)"
  unfolding policy_sweep by (rule sweep_ok [OF _ one_ok(1) snapshot_bound])

lemma tick_ok: "registry_ok s \<Longrightarrow> registry_ok (tick w now v s) \<and> same_objects s (tick w now v s)"
  unfolding tick_def by (rule sweep_ok [OF _ one_ok(3) snapshot_bound])

lemma policy_ends:
  assumes "registry_ok s" and "j \<in> set (snapshot (policy_version_changed w v now s))"
  shows "gr_policy_version (cn_grant (conn s j)) = v"
proof -
  have "j \<in> set (snapshot s)" using policy_ok [OF assms(1)] assms(2) by (auto simp: same_objects_def)
  moreover have "i \<notin> set (snapshot (policy_one w v now i s))"
    if "registry_ok s" "i < length (rg_objects s)" "gr_policy_version (cn_grant (conn s i)) \<noteq> v" for s i
    using that by (simp add: policy_one_def end_connection_gone)
  ultimately show ?thesis
    using sweep_ends [where P = "\<lambda>g. gr_policy_version g \<noteq> v" and f = "policy_one w v now", OF assms(1) one_ok(1) _ snapshot_bound [OF assms(1)]]
      assms(2) unfolding policy_sweep by blast
qed

lemma tick_ends:
  assumes "registry_ok s" and "j \<in> set (snapshot (tick w now v s))"
  shows "now < gr_expires_at (cn_grant (conn s j))"
proof -
  have "j \<in> set (snapshot s)" using tick_ok [OF assms(1)] assms(2) by (auto simp: same_objects_def)
  moreover have "i \<notin> set (snapshot (tick_one w now v i s))"
    if "registry_ok s" "i < length (rg_objects s)" "gr_expires_at (cn_grant (conn s i)) \<le> now" for s i
    using that by (simp add: tick_one_def end_connection_gone)
  ultimately have "\<not> gr_expires_at (cn_grant (conn s j)) \<le> now"
    using sweep_ends [where P = "\<lambda>g. gr_expires_at g \<le> now" and f = "tick_one w now v", OF assms(1) one_ok(3) _ snapshot_bound [OF assms(1)]]
      assms(2) unfolding tick_def by blast
  then show ?thesis by simp
qed

lemma shutdown_ok:
  assumes "registry_ok s"
  shows "registry_ok (shutdown w now s) \<and> rg_stopping (shutdown w now s) \<and> rg_connections (shutdown w now s) = []"
proof -
  let ?s = "s\<lparr>rg_stopping := False\<rparr>" and ?f = "fold (stop_one w now) (snapshot s)"
  have ok: "registry_ok ?s" using assms by (auto simp: registry_ok_def)
  have commute: "fold (stop_one w now) is (s\<lparr>rg_stopping := b\<rparr>) = (fold (stop_one w now) is s)\<lparr>rg_stopping := b\<rparr>" for "is" b s
    by (induction "is" arbitrary: s) (simp_all add: stop_one_def end_connection_stopping)
  have down: "shutdown w now s = (?f ?s)\<lparr>rg_stopping := True\<rparr>"
  proof -
    have "shutdown w now s = fold (stop_one w now) (snapshot s) (s\<lparr>rg_stopping := True\<rparr>)"
      by (simp add: shutdown_def Let_def snapshot_def stop_one_def [abs_def])
    also have "\<dots> = (?f s)\<lparr>rg_stopping := True\<rparr>" by (rule commute)
    also have "\<dots> = ((?f s)\<lparr>rg_stopping := False\<rparr>)\<lparr>rg_stopping := True\<rparr>" by simp
    finally show ?thesis by (simp only: commute)
  qed
  have b: "set (snapshot s) \<subseteq> {..<length (rg_objects ?s)}" using snapshot_bound [OF assms] by simp
  from sweep_ok [of ?s "stop_one w now" "snapshot s", OF ok one_ok(2) b]
  have swept: "registry_ok (?f ?s)" "same_objects ?s (?f ?s)" by simp_all
  have "set (snapshot (?f ?s)) = {}"
  proof (rule ccontr)
    assume "set (snapshot (?f ?s)) \<noteq> {}"
    then obtain j where j: "j \<in> set (snapshot (?f ?s))" by (metis all_not_in_conv)
    with swept(2) have "j \<in> set (snapshot s)" by (auto simp: same_objects_def snapshot_def)
    with sweep_ends [where P = "\<lambda>_. True" and f = "stop_one w now", OF ok one_ok(2) _ b j]
    show False by (simp add: stop_one_def end_connection_gone)
  qed
  then have "rg_connections (?f ?s) = []" by (simp add: snapshot_def)
  with swept(1) show ?thesis
    unfolding down by (simp add: registry_ok_def)
qed

section \<open>Histories\<close>

lemma apply_registry_op_ok:
  assumes "registry_ok s" and "callable x s"
  shows "registry_ok (apply_registry_op w x s)"
  using assms
  by (cases x) (simp_all add: reserve_ok cancel_ok open_reserved_ok known_ids_def policy_ok tick_ok shutdown_ok
      peer_closed_def peer_wrote_def reached_its_lifetime_def drain_def peer_lost_ok end_connection_ok update_conn_ok)

lemma run_registry_ok: "registry_ok s \<Longrightarrow> registry_ok (run_registry xs s)"
  by (induction xs arbitrary: s) (simp_all add: run_registry_def registry_step_def apply_registry_op_ok)

lemma fresh_registry_ok: "grant_connections p m = Inr s \<Longrightarrow> registry_ok s"
  by (auto simp: grant_connections_def registry_ok_def connections_ok_def reservations_ok_def capacity_ok_def
      events_ok_def reserved_by_def active_by_def connected_by_def known_ids_def issues_def ends_def split: if_splits)

text \<open>What no operation changes: the limits, and a stop once it is made.\<close>

definition onward :: "registry \<Rightarrow> registry \<Rightarrow> bool" where
  "onward s s' \<longleftrightarrow> rg_max_connections s' = rg_max_connections s \<and>
     rg_max_per_principal s' = rg_max_per_principal s \<and> (rg_stopping s \<longrightarrow> rg_stopping s')"

lemma onward_refl [simp]: "onward s s"
  by (simp add: onward_def)

lemma onward_trans: "onward s s' \<Longrightarrow> onward s' s'' \<Longrightarrow> onward s s''"
  by (simp add: onward_def)

lemma onward_fold: "(\<And>i s. onward s (f i s)) \<Longrightarrow> onward s (fold f is s)"
  by (induction "is" arbitrary: s) (auto intro: onward_trans)

lemma onward_parts:
  "onward s (peer_lost i r now s)" "onward s (write_signal w i sig now s)" "onward s (end_connection w i reason v at now s)"
  "onward s (fst (release_reservation uid s))"
  by (auto simp: onward_def peer_lost_def write_signal_def end_connection_def release_reservation_def log_event_def
      Let_def split: option.split)

lemma onward_reserved: "onward s (fst (reservation_open w r g now s))" "onward s (fst (reservation_cancel r s))"
proof -
  have release: "onward s s'" if "release_reservation uid (s\<lparr>rg_reservations := rs\<rparr>) = (s', x)" for uid rs s' x
    using onward_parts(4) [of "s\<lparr>rg_reservations := rs\<rparr>" uid] that by (simp add: onward_def)
  then show "onward s (fst (reservation_cancel r s))"
    by (simp add: reservation_cancel_def split: prod.split) (metis prod.collapse)
  have "onward s (fst (open_reserved w g uid now (s\<lparr>rg_reservations := rs\<rparr>)))" for uid rs
  proof (cases "release_reservation uid (s\<lparr>rg_reservations := rs\<rparr>)")
    case (Pair s1 x)
    note s1 = release [OF this]
    show ?thesis
    proof (cases x)
      case (Inl e)
      with s1 Pair show ?thesis by (simp add: open_reserved_def)
    next
      case (Inr u)
      have more: "onward s s2 \<Longrightarrow> onward s (end_connection w i reason v at now s2)" for s2 i reason v at
        using onward_parts(3) onward_trans by blast
      from s1 Inr Pair show ?thesis
        by (auto simp: open_reserved_def Let_def intro!: more) (simp_all add: onward_def log_event_def)
    qed
  qed
  then show "onward s (fst (reservation_open w r g now s))"
    by (simp add: reservation_open_def split: prod.split)
qed

lemma onward_op: "onward s (apply_registry_op w x s)"
proof (cases x)
  case (RgShutdown now)
  have "onward (s\<lparr>rg_stopping := True\<rparr>) (shutdown w now s)"
    by (simp add: shutdown_def Let_def onward_fold onward_parts)
  with RgShutdown show ?thesis by (simp add: onward_def)
qed (auto simp: reserve_def onward_reserved policy_version_changed_def tick_def tick_one_def peer_closed_def
    peer_wrote_def reached_its_lifetime_def drain_def onward_parts intro!: onward_fold, simp_all add: onward_def)

lemma onward_run: "onward s (run_registry xs s)"
  unfolding run_registry_def by (rule onward_fold) (simp add: registry_step_def onward_op)

lemma registry_limits: "rg_max_connections (run_registry xs s) = rg_max_connections s"
  "rg_max_per_principal (run_registry xs s) = rg_max_per_principal s"
  using onward_run by (simp_all add: onward_def)

lemma stays_stopping: "rg_stopping s \<Longrightarrow> rg_stopping (run_registry xs s)"
  using onward_run by (simp add: onward_def)

section \<open>What the registry promises\<close>

text \<open>
  C26: over every history of reservations, issues, cancellations, sweeps, changes of version, lost peers and
  stops, the grants registered and the places reserved together never exceed the limit of the registry, nor
  those of one principal the limit per principal.
\<close>

theorem the_registry_keeps_its_limits:
  assumes "grant_connections max_per_principal max_connections = Inr s0"
  shows "let s = run_registry xs s0
    in int (length (rg_connections s) + length (filter snd (rg_reservations s))) \<le> max_connections \<and>
       connected_by s uid + int (active_by s uid) \<le> max_per_principal"
proof -
  have limits: "int (rg_max_connections (run_registry xs s)) = int (rg_max_connections s) \<and>
      int (rg_max_per_principal (run_registry xs s)) = int (rg_max_per_principal s)" for s
    using registry_limits by simp
  have "int (rg_max_connections s0) = max_connections" "int (rg_max_per_principal s0) = max_per_principal"
    using assms by (auto simp: grant_connections_def split: if_splits)
  with limits [of s0] run_registry_ok [OF fresh_registry_ok [OF assms], of xs] show ?thesis
    unfolding registry_ok_def capacity_ok_def reservations_ok_def Let_def of_nat_add by metis
qed

definition obliging :: signal_writer where
  "obliging i sig = True"

definition example_registry :: registry where
  "example_registry = \<lparr>rg_max_per_principal = 1, rg_max_connections = 2, rg_objects = [], rg_connections = [],
     rg_reserved_total = 0, rg_reserved_by_principal = [], rg_reservations = [], rg_stopping = False, rg_events = []\<rparr>"

lemma example_registry_new: "grant_connections 1 2 = Inr example_registry"
  by (simp add: grant_connections_def example_registry_def)

definition example_history :: "(signal_writer \<times> registry_op) list" where
  "example_history = map (Pair obliging) [RgReserve 1000, RgReserve 1000, RgOpen 0 example_grant 0]"

lemma example_registered: "run_registry example_history example_registry =
   \<lparr>rg_max_per_principal = 1, rg_max_connections = 2,
    rg_objects = [\<lparr>cn_grant = example_grant, cn_principal_uid = 1000, cn_live = True, cn_last_signal_at = 0, cn_signals = []\<rparr>],
    rg_connections = [(''g1'', 0)], rg_reserved_total = 0, rg_reserved_by_principal = [],
    rg_reservations = [(1000, False)], rg_stopping = False,
    rg_events = [GrantIssued ''g1'' ''d1'' 60 ''v1'' 0]\<rparr>"
  by (simp add: run_registry_def example_history_def registry_step_def example_registry_def reserve_def has_capacity_def
      connected_by_def reserved_by_def reservation_open_def open_reserved_def release_reservation_def log_event_def Let_def)
    (simp add: example_grant_def)

theorem the_registry_keeps_its_limits_witness:
  "connected_by (run_registry example_history example_registry) 1000 \<le> 1 \<and>
   length (rg_connections (run_registry example_history example_registry)) = 1"
  using the_registry_keeps_its_limits [OF example_registry_new, of example_history 1000]
  by (simp add: Let_def example_registered)

text \<open>
  C24: over every history the record says of each grant that it was issued once, and that it ended once if its
  connection is no longer live and not at all if it is; nothing is recorded of a grant never registered.
\<close>

theorem every_grant_ends_once:
  assumes "grant_connections max_per_principal max_connections = Inr s0"
  shows "let s = run_registry xs s0
    in (\<forall>gid. issues gid (rg_events s) = (if gid \<in> set (known_ids s) then 1 else 0)) \<and>
       (\<forall>i < length (rg_objects s). ends (gr_id (cn_grant (conn s i))) (rg_events s) =
          (if cn_live (conn s i) then 0 else 1))"
proof -
  define s where "s = run_registry xs s0"
  have ok: "registry_ok s" unfolding s_def by (rule run_registry_ok [OF fresh_registry_ok [OF assms]])
  have "ends (gr_id (cn_grant (conn s i))) (rg_events s) = (if cn_live (conn s i) then 0 else 1)"
    if i: "i < length (rg_objects s)" for i
  proof -
    have "gr_id (cn_grant (conn s i)) \<in> set (known_ids s)" using i by (simp add: known_ids_def)
    moreover have "(map_of (rg_connections s) (gr_id (cn_grant (conn s i))) = None) = (\<not> cn_live (conn s i))"
      using registered_iff [of s i] ok i by (auto simp: registry_ok_def registered_def)
    ultimately show ?thesis using ok by (simp add: registry_ok_def events_ok_def)
  qed
  with ok show ?thesis unfolding s_def [symmetric] Let_def by (simp add: registry_ok_def events_ok_def)
qed

theorem every_grant_ends_once_witness:
  "issues ''g1'' (rg_events (run_registry (example_history @ [(obliging, RgPeerClosed 0 9)]) example_registry)) = 1"
proof -
  have "known_ids (run_registry (example_history @ [(obliging, RgPeerClosed 0 9)]) example_registry) = [''g1'']"
    using example_registered
    by (simp add: run_registry_def registry_step_def peer_closed_def peer_lost_def Let_def known_ids_def log_event_def
        update_conn_def) (simp add: example_grant_def)
  with every_grant_ends_once [OF example_registry_new, of "example_history @ [(obliging, RgPeerClosed 0 9)]"]
  show ?thesis by (simp add: Let_def)
qed



end
