(* ===== verification/ApprovalPort.thy ===== *)
theory ApprovalPort
  imports StoreOperations
begin

text \<open>
  The seam between the core and whatever judges a person's act (plugins/approval.py), and the shipped
  provider with the core's one writer of the wait (the end of application/approvals.py).

  A provider is foreign code: it is an argument that says what a call answers or raises. What it does to the
  objects it is handed does not reach the model, for the reason the code gives: the core judges copies it made
  before the call, and the model's values are copies. The recorder is an argument in the same way.
\<close>

section \<open>Answers, refusals and errors\<close>

text \<open>\<open>Foreign\<close> is an answer whose \<open>type\<close> is neither of the two shapes of the contract.\<close>

datatype progress = Waiting suspended_approval | Resolved resolved_approval | Foreign

text \<open>
  A provider's call returns, refuses in the port's own vocabulary (any \<open>ApprovalProviderError\<close>, by its class)
  or raises anything else.
\<close>

datatype provider_outcome = Answers progress | Refuses string | Raises string

type_synonym provider = "approval_store \<Rightarrow> suspended_approval \<Rightarrow> approval_action \<Rightarrow> provider_outcome"

text \<open>Why an answer is refused; the code spells each as a sentence.\<close>

datatype complaint =
    NotOfTheContract
  | AnotherApproval
  | AnotherScope
  | AnotherRequest
  | AnotherDecision
  | NoAct
  | AnotherPerson
  | AnotherVerdict
  | RewrittenReason
  | RefusedByProvider string
  | RaisedByProvider string

record refused_answer =
  ra_approval_ref :: string
  ra_decision_ref :: string
  ra_scope :: string
  ra_person :: string
  ra_complaint :: complaint

datatype port_error =
    ApprovalAnswerRefused
  | UnrecordedApprovalResolution
  | ProviderRefusal string
  | WriterRaised exn

datatype port_record = ResolutionRecord resolved_approval | RefusalRecord refused_answer

text \<open>Whether the recorder's call returns, of what it is handed and of what it was handed before.\<close>

type_synonym recorder = "port_record list \<Rightarrow> port_record \<Rightarrow> bool"

section \<open>The rule\<close>

definition unsupported_by_acts ::
  "progress \<Rightarrow> approval_request \<Rightarrow> approval_action list \<Rightarrow> complaint option" where
  "unsupported_by_acts result request acts = (case result of
      Foreign \<Rightarrow> Some NotOfTheContract
    | Waiting s \<Rightarrow>
        if su_approval_ref s \<noteq> rq_approval_ref request then Some AnotherApproval
        else if su_scope s \<noteq> rq_scope request then Some AnotherScope
        else if su_request s \<noteq> request then Some AnotherRequest
        else None
    | Resolved r \<Rightarrow>
        if re_approval_ref r \<noteq> rq_approval_ref request then Some AnotherApproval
        else if re_scope r \<noteq> rq_scope request then Some AnotherScope
        else if re_decision_ref r \<noteq> rq_decision_ref request then Some AnotherDecision
        else if acts = [] then Some NoAct
        else let act = last acts
          in if re_person r \<noteq> ac_person act then Some AnotherPerson
             else if re_resolution r \<noteq> ac_resolution act then Some AnotherVerdict
             else if re_reason r \<noteq> ac_reason act then Some RewrittenReason
             else None)"

definition acts_put_to :: "approval_action \<Rightarrow> suspended_approval \<Rightarrow> approval_action list" where
  "acts_put_to action suspended =
     (if ac_approval_ref action \<noteq> su_approval_ref suspended \<or> ac_scope action \<noteq> su_scope suspended
      then [] else [action])"

definition resolution_of :: "suspended_approval \<Rightarrow> approval_action \<Rightarrow> resolved_approval" where
  "resolution_of suspended act = \<lparr>re_approval_ref = su_approval_ref suspended,
     re_decision_ref = rq_decision_ref (su_request suspended), re_scope = su_scope suspended,
     re_person = ac_person act, re_resolution = ac_resolution act, re_reason = ac_reason act\<rparr>"

text \<open>\<open>core_owned_suspension\<close>: the request is rebuilt first, then the suspension around it.\<close>

definition core_owned_suspension :: "suspended_approval \<Rightarrow> suspended_approval result" where
  "core_owned_suspension s =
     bind_r (request_post_init (su_request s)) (\<lambda>request. suspended_post_init \<lparr>su_request = request, su_scope = su_scope s\<rparr>)"

section \<open>Resuming through a provider\<close>

definition refusal_of :: "suspended_approval \<Rightarrow> approval_action \<Rightarrow> complaint \<Rightarrow> refused_answer" where
  "refusal_of suspended action c = \<lparr>ra_approval_ref = su_approval_ref suspended,
     ra_decision_ref = rq_decision_ref (su_request suspended), ra_scope = su_scope suspended,
     ra_person = ac_person action, ra_complaint = c\<rparr>"

text \<open>
  \<open>_record_refusal\<close> and the raise its caller makes when the recorder returned. A record whose call raised is
  not in the log.
\<close>

definition record_refusal ::
  "recorder \<Rightarrow> suspended_approval \<Rightarrow> approval_action \<Rightarrow> complaint \<Rightarrow> port_error \<Rightarrow> port_record list \<Rightarrow>
   port_record list \<times> port_error" where
  "record_refusal records suspended action c e log =
     (let entry = RefusalRecord (refusal_of suspended action c)
      in if records log entry then (log @ [entry], e) else (log, UnrecordedApprovalResolution))"

type_synonym writer = "resolved_approval \<Rightarrow> approval_store \<Rightarrow> approval_store \<times> exn option"

definition resume_through_provider ::
  "provider \<Rightarrow> recorder \<Rightarrow> writer \<Rightarrow> suspended_approval \<Rightarrow> approval_action \<Rightarrow>
   approval_store \<times> port_record list \<Rightarrow> (approval_store \<times> port_record list) \<times> (port_error + progress)" where
  "resume_through_provider provider records apply suspended action s =
     (let (st, log) = s;
          refuse = (\<lambda>held c e. case record_refusal records held action c e log of
                      (log', e') \<Rightarrow> ((st, log'), Inl e'))
      in case core_owned_suspension suspended of
           Inl _ \<Rightarrow> (s, Inl ApprovalAnswerRefused)
         | Inr held \<Rightarrow>
             let acts = acts_put_to action held
             in case provider st suspended action of
                  Refuses c \<Rightarrow> refuse held (RefusedByProvider c) (ProviderRefusal c)
                | Raises c \<Rightarrow> refuse held (RaisedByProvider c) ApprovalAnswerRefused
                | Answers progress \<Rightarrow>
                    (case unsupported_by_acts progress (su_request held) acts of
                       Some c \<Rightarrow> refuse held c ApprovalAnswerRefused
                     | None \<Rightarrow>
                         (case progress of
                            Waiting _ \<Rightarrow> (s, Inr (Waiting held))
                          | _ \<Rightarrow>
                              let resolution = resolution_of held (last acts)
                              in case apply resolution st of
                                   (st', Some e) \<Rightarrow> ((st', log), Inl (WriterRaised e))
                                 | (st', None) \<Rightarrow>
                                     if records log (ResolutionRecord resolution)
                                     then ((st', log @ [ResolutionRecord resolution]), Inr (Resolved resolution))
                                     else ((st', log), Inl UnrecordedApprovalResolution))))"

section \<open>The core's writer and the shipped provider\<close>

definition write_resolution :: "int \<Rightarrow> writer" where
  "write_resolution now r st =
     (case resolve (re_scope r) (re_approval_ref r) (re_person r) (re_resolution r) (re_reason r) now st of
        (st', Inl e) \<Rightarrow> (st', Some e)
      | (st', Inr _) \<Rightarrow> (st', None))"

definition simple_suspend :: "approval_store \<Rightarrow> approval_request \<Rightarrow> suspended_approval result" where
  "simple_suspend st request = (case read st (rq_scope request) (rq_approval_ref request) of
      Inl _ \<Rightarrow> Inl ApprovalRequestMismatch
    | Inr a \<Rightarrow>
        if ap_decision_ref a \<noteq> rq_decision_ref request then Inl ApprovalRequestMismatch
        else suspended_post_init \<lparr>su_request = request, su_scope = rq_scope request\<rparr>)"

definition simple_resume ::
  "approval_store \<Rightarrow> suspended_approval \<Rightarrow> approval_action \<Rightarrow> resolved_approval result" where
  "simple_resume st suspended action =
     (let ref = su_approval_ref suspended
      in if ac_approval_ref action \<noteq> ref then Inl ApprovalRequestMismatch
         else if ac_scope action \<noteq> su_scope suspended then Inl ApprovalRequestMismatch
         else case read st (su_scope suspended) ref of
                Inl _ \<Rightarrow> Inl ApprovalRequestMismatch
              | Inr a \<Rightarrow>
                  if ap_decision_ref a \<noteq> rq_decision_ref (su_request suspended) then Inl ApprovalRequestMismatch
                  else Inr \<lparr>re_approval_ref = ap_ref a, re_decision_ref = ap_decision_ref a, re_scope = ap_scope a,
                            re_person = ac_person action, re_resolution = ac_resolution action,
                            re_reason = ac_reason action\<rparr>)"

text \<open>The shipped provider as the port sees it: its one refusal is a class of the port's vocabulary.\<close>

definition simple_provider :: provider where
  "simple_provider st suspended action = (case simple_resume st suspended action of
      Inl _ \<Rightarrow> Refuses ''ApprovalRequestMismatch''
    | Inr r \<Rightarrow> Answers (Resolved r))"

section \<open>What a provider of the port promises\<close>

text \<open>
  The contract of a conformant provider, over the stores a daemon can be in: what it answers is derivable from
  the act put to it, and it raises nothing outside the port's vocabulary.
\<close>

locale conformant_provider =
  fixes resume :: provider
    and sound :: "approval_store \<Rightarrow> bool"
  assumes resume_supported: "sound st \<Longrightarrow> suspended_post_init suspended = Inr suspended \<Longrightarrow>
      resume st suspended action = Answers progress \<Longrightarrow>
      unsupported_by_acts progress (su_request suspended) (acts_put_to action suspended) = None"
    and resume_vocabulary: "sound st \<Longrightarrow> resume st suspended action \<noteq> Raises c"
begin

text \<open>The core never has to refuse the answer of a conformant provider for its own reasons.\<close>

lemma never_refused_by_the_core:
  assumes "sound st" and "core_owned_suspension suspended = Inr held" and "\<And>log e. records log e"
    and "resume_through_provider resume records apply suspended action (st, log) = (s', Inl e)"
  shows "(\<exists>c. e = ProviderRefusal c) \<or> (\<exists>x. e = WriterRaised x)"
proof -
  have held: "held = suspended" and whole: "suspended_post_init suspended = Inr suspended"
    using assms(2) by (auto simp: core_owned_suspension_def request_post_init_def suspended_post_init_def split: if_splits)
  show ?thesis
  proof (cases "resume st suspended action")
    case (Answers progress)
    with resume_supported [OF assms(1) whole this] assms(2-4) show ?thesis
      by (auto simp: resume_through_provider_def held Let_def split: progress.splits prod.splits option.splits if_splits)
  next
    case (Refuses c)
    with assms(2-4) show ?thesis
      by (auto simp: resume_through_provider_def held Let_def record_refusal_def)
  qed (use resume_vocabulary [OF assms(1)] in simp)
qed

end

lemma simple_resume_resolution:
  assumes "store_ok st" and "simple_resume st suspended action = Inr r"
  shows "r = resolution_of suspended action \<and> acts_put_to action suspended = [action]"
proof -
  from assms(2) obtain a where a: "kept st (su_scope suspended, su_approval_ref suspended) = Some a"
    "ap_decision_ref a = rq_decision_ref (su_request suspended)"
    "r = \<lparr>re_approval_ref = ap_ref a, re_decision_ref = ap_decision_ref a, re_scope = ap_scope a,
         re_person = ac_person action, re_resolution = ac_resolution action, re_reason = ac_reason action\<rparr>"
    "ac_approval_ref action = su_approval_ref suspended" "ac_scope action = su_scope suspended"
    by (auto simp: simple_resume_def Let_def read_eq split: if_splits option.splits)
  moreover have "ap_scope a = su_scope suspended" "ap_ref a = su_approval_ref suspended"
    using store_okD(2) [OF assms(1) a(1)] by (simp_all add: store_key_def)
  ultimately show ?thesis by (simp add: resolution_of_def acts_put_to_def)
qed

interpretation simple: conformant_provider simple_provider store_ok
proof
  fix st suspended action progress
  assume ok: "store_ok st" and whole: "suspended_post_init suspended = Inr suspended"
    and answer: "simple_provider st suspended action = Answers progress"
  then obtain r where r: "simple_resume st suspended action = Inr r" "progress = Resolved r"
    by (auto simp: simple_provider_def split: sum.splits)
  show "unsupported_by_acts progress (su_request suspended) (acts_put_to action suspended) = None"
    using simple_resume_resolution [OF ok r(1)] whole
    by (simp add: r(2) unsupported_by_acts_def resolution_of_def su_approval_ref_def suspended_post_init_def
        split: if_splits)
qed (simp add: simple_provider_def split: sum.split)

section \<open>Two facts on what the rule lets through\<close>

lemma core_owned_same: "core_owned_suspension s = Inr held \<Longrightarrow> held = s"
  by (auto simp: core_owned_suspension_def request_post_init_def suspended_post_init_def split: if_splits)

lemma supported_resolution:
  "unsupported_by_acts (Resolved r) request acts = None \<Longrightarrow> acts \<noteq> []"
  by (auto simp: unsupported_by_acts_def split: if_splits)

end
