(* ===== verification/PortProperties.thy ===== *)
theory PortProperties
  imports ApprovalPort StoreProperties
begin

text \<open>
  What the approval port promises of any provider, and the whole chain of a person's act through the shipped
  one, with witnesses on the example store of \<^verbatim>\<open>StoreProperties\<close>.
\<close>

definition example_suspended :: suspended_approval where
  "example_suspended = \<lparr>su_request = \<lparr>rq_approval_ref = ''a1'', rq_decision_ref = ''d1'', rq_scope = ''local'',
     rq_capability = ''mail.send'', rq_requested_at = Aware 0, rq_deadline = Aware 300\<rparr>, su_scope = ''local''\<rparr>"

definition example_act :: approval_action where
  "example_act = \<lparr>ac_approval_ref = ''a1'', ac_scope = ''local'', ac_person = ''user:bo'',
     ac_resolution = APPROVE, ac_reason = None\<rparr>"

definition keeps_all :: recorder where
  "keeps_all log e = True"

lemma example_suspended_owned: "core_owned_suspension example_suspended = Inr example_suspended"
  by (simp add: core_owned_suspension_def request_post_init_def suspended_post_init_def example_suspended_def)

text \<open>A provider that answers for a person who did not act.\<close>

definition impostor :: provider where
  "impostor st suspended action = Answers (Resolved ((resolution_of suspended action)\<lparr>re_person := ''user:eve''\<rparr>))"

lemma impostor_refused:
  "resume_through_provider impostor keeps_all (write_resolution 10) example_suspended example_act (example_store, []) =
     ((example_store, [RefusalRecord (refusal_of example_suspended example_act AnotherPerson)]), Inl ApprovalAnswerRefused)"
  by (simp add: resume_through_provider_def example_suspended_owned Let_def impostor_def unsupported_by_acts_def
      acts_put_to_def resolution_of_def record_refusal_def keeps_all_def)
    (simp add: example_suspended_def example_act_def su_approval_ref_def)

lemma example_store_keeps: "kept example_store (''local'', ''a1'') = Some ((example_wait ''a1'' 0)\<lparr>ap_published := True\<rparr>)"
  by (simp add: example_store_eq holding_def example_key_def)

lemma example_resumed:
  "resume_through_provider simple_provider keeps_all (write_resolution 10) example_suspended example_act (example_store, []) =
     ((holding example_acted [], [ResolutionRecord (resolution_of example_suspended example_act)]),
      Inr (Resolved (resolution_of example_suspended example_act)))"
proof -
  have simple: "simple_provider example_store example_suspended example_act =
      Answers (Resolved (resolution_of example_suspended example_act))"
    by (simp add: simple_provider_def simple_resume_def Let_def read_eq example_suspended_def example_act_def
        su_approval_ref_def example_store_keeps resolution_of_def)
      (simp add: example_wait_def pending_approval_def ap_scope_def example_question_def)
  have written: "resolve ''local'' ''a1'' ''user:bo'' APPROVE None 10 example_store = (holding example_acted [], Inr example_acted)"
    using example_steps(3) by (auto simp: example_store_eq one_def prod_eq_iff split: prod.splits sum.splits)
  show ?thesis
    by (simp add: resume_through_provider_def example_suspended_owned simple Let_def keeps_all_def)
      (simp add: unsupported_by_acts_def acts_put_to_def resolution_of_def write_resolution_def written
        example_suspended_def example_act_def su_approval_ref_def Let_def keeps_all_def)
qed

text \<open>
  C27: whatever a provider is, a resolution that leaves the port is the person's act and nothing else: the act
  named this suspension, the resolution carries the act's person, verdict and reason and the suspension's own
  references, and the core's writer applied and the recorder took exactly that value before it was answered.
\<close>

theorem a_resolution_is_the_act_and_nothing_else:
  assumes "resume_through_provider provider records apply suspended action (st, log) = ((st', log'), Inr (Resolved r))"
  shows "r = resolution_of suspended action \<and>
    ac_approval_ref action = su_approval_ref suspended \<and> ac_scope action = su_scope suspended \<and>
    apply r st = (st', None) \<and> log' = log @ [ResolutionRecord r]"
proof -
  from assms obtain held p where held: "core_owned_suspension suspended = Inr held"
    and p: "provider st suspended action = Answers p"
    by (auto simp: resume_through_provider_def Let_def split: sum.splits provider_outcome.splits prod.splits)
  note same = core_owned_same [OF held]
  from assms held p have none: "unsupported_by_acts p (su_request suspended) (acts_put_to action suspended) = None"
    by (auto simp: resume_through_provider_def Let_def same split: option.splits prod.splits)
  with assms held p obtain r' where r': "p = Resolved r'"
    by (cases p) (auto simp: resume_through_provider_def Let_def same unsupported_by_acts_def split: if_splits)
  from supported_resolution [OF none [unfolded r']] have acts: "acts_put_to action suspended = [action]"
    "ac_approval_ref action = su_approval_ref suspended" "ac_scope action = su_scope suspended"
    by (auto simp: acts_put_to_def split: if_splits)
  with assms held p none r' show ?thesis
    by (auto simp: resume_through_provider_def Let_def same split: prod.splits option.splits if_splits)
qed

theorem a_resolution_is_the_act_and_nothing_else_witness:
  "write_resolution 10 (resolution_of example_suspended example_act) example_store = (holding example_acted [], None)"
  using a_resolution_is_the_act_and_nothing_else [OF example_resumed] by simp

end
