(* ===== verification/Calendar.thy ===== *)
theory Calendar
  imports Prelude
begin

text \<open>
  The text of an instant: \<open>datetime.isoformat\<close> of an instant in UTC, with the proleptic Gregorian calendar of
  CPython's \<open>datetime\<close> (\<open>_days_before_year\<close>, \<open>_days_before_month\<close> and \<open>_ord2ymd\<close>). An instant is its
  microseconds from the epoch, within the range of \<open>datetime\<close>.
\<close>

definition is_leap :: "int \<Rightarrow> bool" where
  "is_leap y \<longleftrightarrow> y mod 4 = 0 \<and> (y mod 100 \<noteq> 0 \<or> y mod 400 = 0)"

definition days_before_year :: "int \<Rightarrow> int" where
  "days_before_year y = (let p = y - 1 in p * 365 + p div 4 - p div 100 + p div 400)"

definition DAYS_BEFORE_MONTH :: "int list" where
  "DAYS_BEFORE_MONTH = [0, 31, 59, 90, 120, 151, 181, 212, 243, 273, 304, 334]"

definition days_before_month :: "int \<Rightarrow> nat \<Rightarrow> int" where
  "days_before_month y m = DAYS_BEFORE_MONTH ! (m - 1) + (if 2 < m \<and> is_leap y then 1 else 0)"

definition days_in_month :: "int \<Rightarrow> nat \<Rightarrow> int" where
  "days_in_month y m =
     (if m = 2 \<and> is_leap y then 29 else [31, 28, 31, 30, 31, 30, 31, 31, 30, 31, 30, 31] ! (m - 1))"

definition ymd2ord :: "int \<times> nat \<times> int \<Rightarrow> int" where
  "ymd2ord t = (case t of (y, m, d) \<Rightarrow> days_before_year y + days_before_month y m + d)"

text \<open>\<open>_ord2ymd\<close>: cycles of 400, 100, 4 and 1 years, then the month by estimate and correction.\<close>

definition ord2ymd :: "int \<Rightarrow> int \<times> nat \<times> int" where
  "ord2ymd ordinal =
     (let n = ordinal - 1;
          n400 = n div 146097; n = n mod 146097;
          year = n400 * 400 + 1;
          n100 = n div 36524; n = n mod 36524;
          n4 = n div 1461; n = n mod 1461;
          n1 = n div 365; n = n mod 365;
          year = year + n100 * 100 + n4 * 4 + n1
      in if n1 = 4 \<or> n100 = 4 then (year - 1, 12, 31)
         else let leapyear = (n1 = 3 \<and> (n4 \<noteq> 24 \<or> n100 = 3));
                  month = nat ((n + 50) div 32);
                  preceding = DAYS_BEFORE_MONTH ! (month - 1) + (if 2 < month \<and> leapyear then 1 else 0);
                  (month, preceding) =
                    (if n < preceding
                     then (month - 1, preceding - (if month - 1 = 2 \<and> leapyear then 29
                             else [31, 28, 31, 30, 31, 30, 31, 31, 30, 31, 30, 31] ! (month - 2)))
                     else (month, preceding))
              in (year, month, n - preceding + 1))"

text \<open>A number in a field of a fixed width, as \<open>"%04d"\<close> and its kind write one.\<close>

definition padded :: "nat \<Rightarrow> int \<Rightarrow> string" where
  "padded w n = (let s = dec (nat n) in replicate (w - length s) CHR ''0'' @ s)"

definition EPOCH_ORDINAL :: int where
  "EPOCH_ORDINAL = 719163"

definition isoformat_utc :: "int \<Rightarrow> string" where
  "isoformat_utc t =
     (let day = t div 86400000000; rest = t mod 86400000000;
          (y, m, d) = ord2ymd (day + EPOCH_ORDINAL);
          us = rest mod 1000000; s = rest div 1000000
      in padded 4 y @ ''-'' @ padded 2 (int m) @ ''-'' @ padded 2 d @ ''T'' @
         padded 2 (s div 3600) @ '':'' @ padded 2 (s div 60 mod 60) @ '':'' @ padded 2 (s mod 60) @
         (if us = 0 then [] else ''.'' @ padded 6 us) @ ''+00:00'')"

text \<open>\<open>str.replace("+00:00", "Z")\<close> of such a text: the offset stands at its end and nowhere else.\<close>

definition instant_text :: "int \<Rightarrow> string" where
  "instant_text t = (let s = isoformat_utc t in take (length s - 6) s @ ''Z'')"

end
