(* ===== verification/Decisions.thy ===== *)
theory Decisions
  imports StoreRuns GrantRegistry Calendar
begin

text \<open>
  The service that turns one question into one decision (application/decisions.py).

  One ask is a function of the daemon's shared state and of its surroundings, the record \<open>world\<close>: what the
  ports answer (the policy authority, the archive, the schema of an ask, the approval provider, the decision
  store, the delivery) and what other threads do. Every call of the approval store takes its lock on its own,
  so between two of them other asks, acts and sweeps may have run: \<open>w_others w n\<close> is what they made of the store
  before this ask's call number \<open>n\<close>, and \<open>da_trace\<close> is the list of this ask's own calls with their answers.
\<close>

section \<open>Settings, surroundings and state\<close>

record grant_settings =
  se_default_lifetime_seconds :: int
  se_max_lifetime_seconds :: int
  se_heartbeat_seconds :: int

definition settings_post_init :: "grant_settings \<Rightarrow> grant_settings result" where
  "settings_post_init s =
     guard (\<not> (1 \<le> se_max_lifetime_seconds s \<and> se_max_lifetime_seconds s \<le> 86400)) ValueError
    (guard (\<not> (1 \<le> se_default_lifetime_seconds s \<and>
               se_default_lifetime_seconds s \<le> se_max_lifetime_seconds s)) ValueError
    (guard (\<not> (1 \<le> se_heartbeat_seconds s \<and> se_heartbeat_seconds s \<le> 60)) ValueError
    (Inr s)))"

datatype problem_code =
    PolicyWritableByPrincipal
  | ConfigurationWritableByPrincipal
  | RequestMalformed
  | PolicyUnavailableCode
  | PolicyArchiveUnavailable
  | ApprovalProviderUnavailable
  | DecisionContended
  | DecisionStoreUnavailable

datatype access_state = Writable | NotWritable | UnknownAccess

record loaded_policy =
  lp_policy :: policy
  lp_policy_version :: string
  lp_content :: "string option"

datatype policy_load = PolicyUnavailable | PolicyLoaded loaded_policy

datatype archive_state = Present | Absent | Damaged

record archived_policy =
  av_version :: string
  av_state :: archive_state

text \<open>
  An append refuses before its first byte, cannot say whether it finished (and may or may not have), or returns
  a receipt that the core can read or cannot.
\<close>

datatype append_outcome = AppendRefused | AppendIndeterminate bool | Appended bool

record composition =
  co_system_mode :: bool
  co_configured :: bool
  co_archive :: bool
  co_approvals :: bool
  co_settings :: grant_settings

record world =
  w_policy_access :: "principal \<Rightarrow> access_state"
  w_configuration_access :: "int \<Rightarrow> int list \<Rightarrow> access_state"
  w_schema_refuses :: "decision_ask \<Rightarrow> bool"
  w_version_moved :: bool
  w_current_version :: string
  w_load :: policy_load
  w_keep :: "string \<Rightarrow> string \<Rightarrow> archived_policy option"
  w_others :: "nat \<Rightarrow> approval_store \<Rightarrow> approval_store"
  w_store_clock :: "nat \<Rightarrow> int"
  w_takes_up :: "approval \<Rightarrow> bool"
  w_append :: "decision \<Rightarrow> append_outcome"
  w_delivers :: bool
  w_version_after :: string
  w_writer :: signal_writer
  w_registry_clock :: int
  w_decision_ref :: string
  w_approval_ref :: string
  w_grant_id :: string

datatype decision_event =
    DecisionRefused string problem_code
  | DecisionRecorded string string
  | ApprovalExpired string string string string
  | ApprovalForgotten "string list"

record daemon =
  da_store :: approval_store
  da_trace :: "answered list"
  da_grants :: registry
  da_log :: "decision list"
  da_events :: "decision_event list"

text \<open>One call of the approval store, after whatever others did to it.\<close>

definition call :: "world \<Rightarrow> store_op \<Rightarrow> daemon \<Rightarrow> daemon \<times> approval list result" where
  "call w x s =
     (let (st, r) = apply_op x (w_others w (length (da_trace s)) (da_store s))
      in (s\<lparr>da_store := st, da_trace := da_trace s @ [(x, r)]\<rparr>, r))"

abbreviation store_now :: "world \<Rightarrow> daemon \<Rightarrow> int" where
  "store_now w s \<equiv> w_store_clock w (length (da_trace s))"

definition log_decision_event :: "decision_event \<Rightarrow> daemon \<Rightarrow> daemon" where
  "log_decision_event e s = s\<lparr>da_events := da_events s @ [e]\<rparr>"

section \<open>Sweeping\<close>

definition expired_event :: "approval \<Rightarrow> decision_event" where
  "expired_event a = ApprovalExpired (ap_ref a) (ap_decision_ref a) (ap_scope a) (instant_text (deadline_us a))"

definition end_the_waits_that_ran_out :: "world \<Rightarrow> int \<Rightarrow> (daemon, unit) op" where
  "end_the_waits_that_ran_out w now s =
     (case call w (OpExpirePast now) s of
        (s1, Inl e) \<Rightarrow> (s1, Inl e)
      | (s1, Inr expired) \<Rightarrow>
          let s2 = fold (\<lambda>a. log_decision_event (expired_event a)) expired s1
          in case call w (OpForgetLapsed now) s2 of
               (s3, Inl e) \<Rightarrow> (s3, Inl e)
             | (s3, Inr forgotten) \<Rightarrow>
                 (if forgotten = [] then s3
                  else log_decision_event (ApprovalForgotten (map ap_ref forgotten)) s3, Inr ()))"

text \<open>
  \<open>sweep\<close>: the reload tells the registry of a version that moved, the registry ends what has run out, and the
  waits are ended in the same breath.
\<close>

definition sweep :: "composition \<Rightarrow> world \<Rightarrow> int \<Rightarrow> (daemon, unit) op" where
  "sweep conf w now s =
     (let v = w_current_version w;
          moved = (if w_version_moved w
                   then policy_version_changed (w_writer w) v (w_registry_clock w) (da_grants s)
                   else da_grants s);
          s1 = s\<lparr>da_grants := tick (w_writer w) now v moved\<rparr>
      in if co_approvals conf then end_the_waits_that_ran_out w now s1 else (s1, Inr ()))"

section \<open>Consulting the approvals\<close>

definition CLAIM_TRIES :: nat where
  "CLAIM_TRIES = 5"

definition NO_DIGEST :: string where
  "NO_DIGEST = ''-''"

record consulted =
  cs_outcome :: outcome
  cs_reason :: reason
  cs_approval_ref :: string
  cs_spend :: bool
  cs_opened :: bool

datatype contention = HeldExecution | OpeningWait

datatype unsettled = Contended contention | ApprovalUnavailable | RaisedBy exn

text \<open>
  \<open>_open_with\<close> and \<open>_put_the_suspension_to\<close>: the provider takes the wait up, or the wait is withdrawn and
  whatever the withdrawal raises is suppressed.
\<close>

definition open_with :: "world \<Rightarrow> approval \<Rightarrow> daemon \<Rightarrow> daemon \<times> (unsettled + unit)" where
  "open_with w opened s =
     (if w_takes_up w opened then (s, Inr ())
      else (fst (call w (OpAbandon (ap_scope opened) (ap_ref opened)) s), Inl ApprovalUnavailable))"

text \<open>The loop of \<open>_consult_approvals\<close>; the pause between two looks is what \<open>w_others\<close> does in it.\<close>

fun consult_loop ::
  "world \<Rightarrow> nat \<Rightarrow> approval \<Rightarrow> contention \<Rightarrow> daemon \<Rightarrow> daemon \<times> (unsettled + consulted)" where
  "consult_loop w 0 opening contended s = (s, Inl (Contended contended))"
| "consult_loop w (Suc tries) opening contended s =
     (case call w (OpOpenIfAbsent opening (store_now w s)) s of
        (s1, Inl e) \<Rightarrow> (s1, Inl (RaisedBy e))
      | (s1, Inr answer) \<Rightarrow>
          let found = hd answer
          in if ap_ref found = ap_ref opening
             then (case open_with w opening s1 of
                     (s2, Inl e) \<Rightarrow> (s2, Inl e)
                   | (s2, Inr _) \<Rightarrow>
                       (s2, Inr \<lparr>cs_outcome = SUSPEND, cs_reason = POLICY_REQUIRES_REVIEW,
                              cs_approval_ref = ap_ref found, cs_spend = False, cs_opened = True\<rparr>))
             else if ap_state found = PENDING
             then (if \<not> ap_published found then consult_loop w tries opening OpeningWait s1
                   else (s1, Inr \<lparr>cs_outcome = SUSPEND, cs_reason = POLICY_REQUIRES_REVIEW,
                              cs_approval_ref = ap_ref found, cs_spend = False, cs_opened = False\<rparr>))
             else if ap_state found = REJECTED
             then (s1, Inr \<lparr>cs_outcome = DENY, cs_reason = APPROVAL_REJECTED,
                         cs_approval_ref = ap_ref found, cs_spend = False, cs_opened = False\<rparr>)
             else if ap_state found \<noteq> APPROVED then (s1, Inl (RaisedBy AssertionError))
             else if \<not> ap_claimed found
             then (case call w (OpClaim (ap_scope found) (ap_ref found)) s1 of
                     (s2, Inl ApprovalAlreadyClaimed) \<Rightarrow> consult_loop w tries opening HeldExecution s2
                   | (s2, Inl ApprovalUnknown) \<Rightarrow> consult_loop w tries opening contended s2
                   | (s2, Inl e) \<Rightarrow> (s2, Inl (RaisedBy e))
                   | (s2, Inr _) \<Rightarrow>
                       (s2, Inr \<lparr>cs_outcome = ALLOW, cs_reason = APPROVAL_GRANTED,
                              cs_approval_ref = ap_ref found, cs_spend = True, cs_opened = False\<rparr>))
             else consult_loop w tries opening HeldExecution s1)"

definition asked_question :: "decision_question \<Rightarrow> question" where
  "asked_question q = \<lparr>q_scope = ask_scope (dq_ask q), q_principal_reference = pr_reference (dq_principal q),
     q_capability = ask_capability (dq_ask q),
     q_arguments_digest = (case ask_arguments_digest (dq_ask q) of
        None \<Rightarrow> NO_DIGEST | Some d \<Rightarrow> if d = [] then NO_DIGEST else d)\<rparr>"

definition consult_approvals ::
  "world \<Rightarrow> decision_question \<Rightarrow> rule \<Rightarrow> string \<Rightarrow> int \<Rightarrow> daemon \<Rightarrow> daemon \<times> (unsettled + consulted)" where
  "consult_approvals w q ru decision_ref now s =
     (case ru_review_deadline_seconds ru of
        None \<Rightarrow> (s, Inl (RaisedBy AssertionError))
      | Some n \<Rightarrow>
          (case bind_r (question_post_init (asked_question q)) (\<lambda>asked.
                  approval_post_init (pending_approval (w_approval_ref w) decision_ref asked
                    (Aware now) (Aware (now + seconds n)))) of
             Inl e \<Rightarrow> (s, Inl (RaisedBy e))
           | Inr opening \<Rightarrow> consult_loop w CLAIM_TRIES opening HeldExecution s))"

section \<open>What follows the record, best effort\<close>

definition publish_opened :: "world \<Rightarrow> string \<Rightarrow> consulted option \<Rightarrow> daemon \<Rightarrow> daemon" where
  "publish_opened w scope c s = (case c of
      None \<Rightarrow> s
    | Some c \<Rightarrow> if cs_opened c then fst (call w (OpPublish scope (cs_approval_ref c)) s) else s)"

definition withdraw_opened :: "world \<Rightarrow> string \<Rightarrow> consulted option \<Rightarrow> daemon \<Rightarrow> daemon" where
  "withdraw_opened w scope c s = (case c of
      None \<Rightarrow> s
    | Some c \<Rightarrow> if cs_opened c then fst (call w (OpAbandon scope (cs_approval_ref c)) s) else s)"

definition release_claimed :: "world \<Rightarrow> string \<Rightarrow> consulted option \<Rightarrow> daemon \<Rightarrow> daemon" where
  "release_claimed w scope c s = (case c of
      None \<Rightarrow> s
    | Some c \<Rightarrow> if cs_spend c then fst (call w (OpReleaseClaim scope (cs_approval_ref c)) s) else s)"

definition consume_claimed :: "world \<Rightarrow> string \<Rightarrow> consulted option \<Rightarrow> daemon \<Rightarrow> daemon" where
  "consume_claimed w scope c s = (case c of
      None \<Rightarrow> s
    | Some c \<Rightarrow>
        if cs_spend c then fst (call w (OpConsume scope (cs_approval_ref c) (store_now w s)) s) else s)"

definition cancel_reserved :: "nat option \<Rightarrow> daemon \<Rightarrow> daemon" where
  "cancel_reserved r s = (case r of
      None \<Rightarrow> s
    | Some i \<Rightarrow> s\<lparr>da_grants := fst (reservation_cancel i (da_grants s))\<rparr>)"

section \<open>Building the decision and its grant\<close>

definition archive_policy :: "composition \<Rightarrow> world \<Rightarrow> loaded_policy \<Rightarrow> problem_code option" where
  "archive_policy conf w loaded =
     (if \<not> co_archive conf then None
      else case lp_content loaded of
        None \<Rightarrow> Some PolicyArchiveUnavailable
      | Some content \<Rightarrow>
          (case w_keep w (lp_policy_version loaded) content of
             None \<Rightarrow> Some PolicyArchiveUnavailable
           | Some archived \<Rightarrow>
               if av_state archived \<noteq> Present \<or> av_version archived \<noteq> lp_policy_version loaded
               then Some PolicyArchiveUnavailable else None))"

definition EVALUATION_RECIPE :: string where
  "EVALUATION_RECIPE = ''sayfirst/policy-evaluation/v1''"

definition CONTRACT_GENERATION :: int where
  "CONTRACT_GENERATION = 1"

definition decision_extra :: "decision_question \<Rightarrow> policy \<Rightarrow> string option \<Rightarrow> string option \<Rightarrow> document" where
  "decision_extra q p rule_id grant_id =
     [(''principal'', JObj [(''kind'', JStr (pr_kind (dq_principal q))), (''uid'', JInt (pr_uid (dq_principal q))),
        (''name'', JStr (pr_user_name (dq_principal q)))]),
      (''arguments_digest'', opt_str (ask_arguments_digest (dq_ask q))),
      (''rule_id'', opt_str rule_id),
      (''grant_id'', opt_str grant_id),
      (''principal_references'', JArr (map JStr (references_read p q))),
      (''evaluation_recipe'', JStr EVALUATION_RECIPE),
      (''correlation_source'', JStr (if ask_correlation (dq_ask q) = None then ''absent'' else ''boundary_supplied''))]"

definition build_decision ::
  "world \<Rightarrow> decision_question \<Rightarrow> loaded_policy \<Rightarrow> verdict \<Rightarrow> consulted option \<Rightarrow> int \<Rightarrow> string option \<Rightarrow> decision" where
  "build_decision w q loaded v c now grant_id =
     \<lparr>de_ref = w_decision_ref w, de_scope = ask_scope (dq_ask q), de_capability = ask_capability (dq_ask q),
      de_outcome = (case c of None \<Rightarrow> vd_outcome v | Some c \<Rightarrow> cs_outcome c),
      de_reason = (case c of None \<Rightarrow> vd_reason v | Some c \<Rightarrow> cs_reason c),
      de_policy_version = Some (lp_policy_version loaded),
      de_approval_ref = map_option cs_approval_ref c,
      de_decided_at = instant_text now, de_correlation = ask_correlation (dq_ask q),
      de_contract_generation = CONTRACT_GENERATION,
      de_extra = decision_extra q (lp_policy loaded) (vd_rule_id v) grant_id\<rparr>"

text \<open>\<open>_prepare_grant\<close>: the least of the bounds that are set.\<close>

definition grant_lifetime :: "grant_settings \<Rightarrow> int option \<Rightarrow> int" where
  "grant_lifetime settings rule_lifetime =
     (let default = min (se_default_lifetime_seconds settings) (se_max_lifetime_seconds settings)
      in case rule_lifetime of None \<Rightarrow> default | Some n \<Rightarrow> min n default)"

definition prepare_grant ::
  "composition \<Rightarrow> world \<Rightarrow> decision \<Rightarrow> int option \<Rightarrow> int \<Rightarrow> string \<Rightarrow> nat option \<Rightarrow> grant option result" where
  "prepare_grant conf w d rule_lifetime now policy_version reservation =
     (if de_outcome d \<noteq> ALLOW \<or> reservation = None then Inr None
      else bind_r (mint_grant d now (grant_lifetime (co_settings conf) rule_lifetime) policy_version
             (se_heartbeat_seconds (co_settings conf)) (w_grant_id w)) (\<lambda>g. Inr (Some g)))"

definition grant_document :: "grant \<Rightarrow> json" where
  "grant_document g = JObj
     [(''grant_id'', JStr (gr_id g)), (''decision_ref'', JStr (gr_decision_ref g)),
      (''policy_version'', JStr (gr_policy_version g)), (''issued_at'', JStr (instant_text (gr_issued_at g))),
      (''lifetime_seconds'', JInt (gr_lifetime_seconds g)), (''expires_at'', JStr (instant_text (gr_expires_at g))),
      (''heartbeat_seconds'', JInt (gr_heartbeat_seconds g)),
      (''conditions'', JObj
        [(''scope'', JStr (gc_scope (gr_conditions g))), (''capability'', JStr (gc_capability (gr_conditions g))),
         (''principal_reference'', JStr (gc_principal_reference (gr_conditions g))),
         (''arguments_digest'', opt_str (gc_arguments_digest (gr_conditions g)))])]"

section \<open>Asking\<close>

record decision_answer =
  an_decision :: decision
  an_grant :: "grant option"
  an_connection :: "nat option"

datatype answer = DecisionProblem problem_code | DecisionAnswer decision_answer

text \<open>The delivery of an answer that carries a grant, and its registration (the end of \<open>ask\<close>).\<close>

definition deliver_and_register ::
  "world \<Rightarrow> decision_answer \<Rightarrow> grant \<Rightarrow> nat \<Rightarrow> (daemon, answer) op" where
  "deliver_and_register w a g r s =
     (if \<not> w_delivers w then (cancel_reserved (Some r) s, Inl RuntimeError)
      else case reservation_open (w_writer w) r g (w_registry_clock w) (da_grants s) of
        (grants, Inl e) \<Rightarrow> (s\<lparr>da_grants := grants\<rparr>, Inl e)
      | (grants, Inr connection) \<Rightarrow>
          let grants' = (if w_version_after w \<noteq> gr_policy_version g
                then policy_version_changed (w_writer w) (w_version_after w) (w_registry_clock w) grants else grants)
          in (s\<lparr>da_grants := grants'\<rparr>, Inr (DecisionAnswer (a\<lparr>an_connection := Some connection\<rparr>))))"

text \<open>
  From the append to the end of \<open>ask\<close>. The flag in the answer is \<open>recorded\<close>: whether the record is, or may be,
  there; the \<open>finally\<close> clause of the caller reads it.
\<close>

definition append_and_answer ::
  "world \<Rightarrow> decision \<Rightarrow> consulted option \<Rightarrow> grant option \<Rightarrow> nat option \<Rightarrow> daemon \<Rightarrow> daemon \<times> bool \<times> answer result" where
  "append_and_answer w d c g reservation s =
     (case w_append w d of
        AppendIndeterminate committed \<Rightarrow>
          let s1 = (if committed then s\<lparr>da_log := da_log s @ [d]\<rparr> else s);
              s2 = consume_claimed w (de_scope d) c (publish_opened w (de_scope d) c s1)
          in (cancel_reserved reservation s2, True, Inr (DecisionProblem DecisionStoreUnavailable))
      | AppendRefused \<Rightarrow> (cancel_reserved reservation s, False, Inr (DecisionProblem DecisionStoreUnavailable))
      | Appended readable \<Rightarrow>
          let s1 = publish_opened w (de_scope d) c (s\<lparr>da_log := da_log s @ [d]\<rparr>)
          in if \<not> readable
             then (cancel_reserved reservation (consume_claimed w (de_scope d) c s1), True,
                   Inr (DecisionProblem DecisionStoreUnavailable))
             else
               (case (case c of
                        Some c \<Rightarrow> if cs_spend c
                          then call w (OpConsume (de_scope d) (cs_approval_ref c) (store_now w s1)) s1
                          else (s1, Inr [])
                      | None \<Rightarrow> (s1, Inr [])) of
                  (s2, Inl e) \<Rightarrow> (cancel_reserved reservation s2, True, Inl e)
                | (s2, Inr _) \<Rightarrow>
                    let s3 = log_decision_event (DecisionRecorded (de_scope d) (de_ref d)) s2;
                        a = \<lparr>an_decision = d\<lparr>de_extra := de_extra d @
                               [(''grant'', case g of None \<Rightarrow> JNull | Some g \<Rightarrow> grant_document g)]\<rparr>,
                             an_grant = g, an_connection = None\<rparr>
                    in case (g, reservation) of
                         (Some g, Some r) \<Rightarrow>
                           (case deliver_and_register w a g r s3 of (s4, x) \<Rightarrow> (s4, True, x))
                       | _ \<Rightarrow> (s3, True, Inr (DecisionAnswer a))))"

text \<open>The body of \<open>ask\<close> between the consultation and its \<open>finally\<close>.\<close>

definition decide ::
  "composition \<Rightarrow> world \<Rightarrow> decision_question \<Rightarrow> loaded_policy \<Rightarrow> verdict \<Rightarrow> consulted option \<Rightarrow> int \<Rightarrow> bool \<Rightarrow>
   daemon \<Rightarrow> daemon \<times> bool \<times> answer result" where
  "decide conf w q loaded v c now on_connection s =
     (let d = build_decision w q loaded v c now None;
          spends = (case c of None \<Rightarrow> False | Some c \<Rightarrow> cs_spend c);
          (grants, reservation) =
            (if de_outcome d = ALLOW \<and> on_connection \<and> \<not> spends
             then reserve (pr_uid (dq_principal q)) (da_grants s) else (da_grants s, None));
          s1 = s\<lparr>da_grants := grants\<rparr>
      in case prepare_grant conf w d (Option.bind (vd_rule v) ru_grant_lifetime_seconds) now
                (lp_policy_version loaded) reservation of
           Inl e \<Rightarrow> (s1, False, Inl e)
         | Inr g \<Rightarrow>
             append_and_answer w
               (case g of None \<Rightarrow> d | Some g \<Rightarrow> build_decision w q loaded v c now (Some (gr_id g)))
               c g reservation s1)"

text \<open>The \<open>finally\<close> of \<open>ask\<close>.\<close>

definition settle :: "world \<Rightarrow> string \<Rightarrow> consulted option \<Rightarrow> daemon \<times> bool \<times> answer result \<Rightarrow> daemon \<times> answer result" where
  "settle w scope c t = (case t of (s, recorded, x) \<Rightarrow>
     (if recorded then s else withdraw_opened w scope c (release_claimed w scope c s), x))"

text \<open>The first half: the refusals that come before a policy is loaded.\<close>

definition refused_access :: "composition \<Rightarrow> world \<Rightarrow> principal \<Rightarrow> problem_code option" where
  "refused_access conf w p =
     (if \<not> co_system_mode conf then None
      else if w_policy_access w p \<noteq> NotWritable then Some PolicyWritableByPrincipal
      else if co_configured conf \<and> w_configuration_access w (pr_uid p) (pr_gids p) \<noteq> NotWritable
      then Some ConfigurationWritableByPrincipal
      else None)"

definition ask_loaded ::
  "composition \<Rightarrow> world \<Rightarrow> decision_question \<Rightarrow> loaded_policy \<Rightarrow> int \<Rightarrow> bool \<Rightarrow> (daemon, answer) op" where
  "ask_loaded conf w q loaded now on_connection s =
     (case archive_policy conf w loaded of
        Some code \<Rightarrow> (s, Inr (DecisionProblem code))
      | None \<Rightarrow>
          (case evaluate (lp_policy loaded) q of
             Inl e \<Rightarrow> (s, Inl e)
           | Inr v \<Rightarrow>
               (case vd_rule v of
                  None \<Rightarrow>
                    if vd_outcome v = SUSPEND then (s, Inl AssertionError)
                    else settle w (ask_scope (dq_ask q)) None (decide conf w q loaded v None now on_connection s)
                | Some ru \<Rightarrow>
                    if vd_outcome v = SUSPEND \<and> co_approvals conf
                    then (case consult_approvals w q ru (w_decision_ref w) now s of
                            (s1, Inl ApprovalUnavailable) \<Rightarrow> (s1, Inr (DecisionProblem ApprovalProviderUnavailable))
                          | (s1, Inl (Contended _)) \<Rightarrow> (s1, Inr (DecisionProblem DecisionContended))
                          | (s1, Inl (RaisedBy e)) \<Rightarrow> (s1, Inl e)
                          | (s1, Inr c) \<Rightarrow>
                              settle w (ask_scope (dq_ask q)) (Some c)
                                (decide conf w q loaded v (Some c) now on_connection s1))
                    else settle w (ask_scope (dq_ask q)) None (decide conf w q loaded v None now on_connection s))))"

definition ask :: "composition \<Rightarrow> world \<Rightarrow> decision_question \<Rightarrow> int \<Rightarrow> bool \<Rightarrow> (daemon, answer) op" where
  "ask conf w q now on_connection s =
     (case sweep conf w now s of
        (s1, Inl e) \<Rightarrow> (s1, Inl e)
      | (s1, Inr _) \<Rightarrow>
          (case refused_access conf w (dq_principal q) of
             Some code \<Rightarrow> (log_decision_event (DecisionRefused (pr_reference (dq_principal q)) code) s1,
                           Inr (DecisionProblem code))
           | None \<Rightarrow>
               if w_schema_refuses w (dq_ask q) then (s1, Inr (DecisionProblem RequestMalformed))
               else case w_load w of
                 PolicyUnavailable \<Rightarrow> (s1, Inr (DecisionProblem PolicyUnavailableCode))
               | PolicyLoaded loaded \<Rightarrow> ask_loaded conf w q loaded now on_connection s1))"

end
