(* ===== verification/DecisionTraces.thy ===== *)
theory DecisionTraces
  imports Decisions
begin

text \<open>
  What one ask does to the approval store, step by step: how many claims its calls took and gave back, on
  which wait, whatever other asks, acts and sweeps did between its calls.
\<close>

section \<open>Counting an ask's calls\<close>

definition claims :: "key \<Rightarrow> daemon \<Rightarrow> nat" where
  "claims k s = times (takes_claim k) (da_trace s)"

definition backs :: "key \<Rightarrow> daemon \<Rightarrow> nat" where
  "backs k s = times (gives_back k) (da_trace s)"

text \<open>Other threads go through the store's operations, so they keep it well formed.\<close>

definition rely :: "world \<Rightarrow> bool" where
  "rely w \<longleftrightarrow> (\<forall>n st. store_ok st \<longrightarrow> store_ok (w_others w n st))"

lemma times_append [simp]: "times P (xs @ ys) = times P xs + times P ys"
  by (simp add: times_def)

lemma call_parts [simp]:
  "da_log (fst (call w x s)) = da_log s" "da_grants (fst (call w x s)) = da_grants s"
  "da_events (fst (call w x s)) = da_events s"
  "da_trace (fst (call w x s)) = da_trace s @ [(x, snd (call w x s))]"
  by (simp_all add: call_def split: prod.split)

lemma call_counts [simp]:
  "claims k (fst (call w x s)) = claims k s + (if takes_claim k (x, snd (call w x s)) then 1 else 0)"
  "backs k (fst (call w x s)) = backs k s + (if gives_back k (x, snd (call w x s)) then 1 else 0)"
  by (simp_all add: claims_def backs_def)

lemma call_ok: "rely w \<Longrightarrow> store_ok (da_store s) \<Longrightarrow> op_ok x \<Longrightarrow> store_ok (da_store (fst (call w x s)))"
  by (simp add: call_def rely_def apply_op_ok split: prod.split) (metis apply_op_ok fst_conv)

lemma events_parts [simp]:
  "da_store (log_decision_event e s) = da_store s" "da_log (log_decision_event e s) = da_log s"
  "da_grants (log_decision_event e s) = da_grants s" "da_trace (log_decision_event e s) = da_trace s"
  "claims k (log_decision_event e s) = claims k s" "backs k (log_decision_event e s) = backs k s"
  by (simp_all add: log_decision_event_def claims_def backs_def)

text \<open>An ask's effect on the store and the log, up to the claims it takes and gives back.\<close>

definition keeps :: "daemon \<Rightarrow> daemon \<Rightarrow> bool" where
  "keeps s s' \<longleftrightarrow> da_log s' = da_log s \<and> (\<forall>k. claims k s' = claims k s) \<and> (\<forall>k. backs k s' = backs k s)"

lemma keeps_refl [simp]: "keeps s s"
  by (simp add: keeps_def)

lemma keeps_trans: "keeps s s' \<Longrightarrow> keeps s' s'' \<Longrightarrow> keeps s s''"
  by (simp add: keeps_def)

lemma plain_calls:
  "\<not> takes_claim k (OpExpirePast now, r)" "\<not> gives_back k (OpExpirePast now, r)"
  "\<not> takes_claim k (OpForgetLapsed now, r)" "\<not> gives_back k (OpForgetLapsed now, r)"
  "\<not> takes_claim k (OpOpenIfAbsent a now, r)" "\<not> gives_back k (OpOpenIfAbsent a now, r)"
  "\<not> takes_claim k (OpPublish sc ref, r)" "\<not> gives_back k (OpPublish sc ref, r)"
  "\<not> takes_claim k (OpAbandon sc ref, r)" "\<not> gives_back k (OpAbandon sc ref, r)"
  "\<not> takes_claim k (OpConsume sc ref now, r)" "\<not> gives_back k (OpConsume sc ref now, r)"
  "\<not> gives_back k (OpClaim sc ref, r)" "\<not> takes_claim k (OpReleaseClaim sc ref, r)"
  "takes_claim k (OpClaim sc ref, Inr x) \<longleftrightarrow> k = (sc, ref)" "\<not> takes_claim k (OpClaim sc ref, Inl e)"
  by (cases r; auto)+

lemma keeps_call:
  "keeps s (fst (call w (OpExpirePast now) s))" "keeps s (fst (call w (OpForgetLapsed now) s))"
  "keeps s (fst (call w (OpOpenIfAbsent a now) s))" "keeps s (fst (call w (OpPublish sc ref) s))"
  "keeps s (fst (call w (OpAbandon sc ref) s))" "keeps s (fst (call w (OpConsume sc ref now) s))"
  by (simp_all add: keeps_def plain_calls)

section \<open>The sweep\<close>

lemma keeps_events: "keeps s (fold (\<lambda>a. log_decision_event (f a)) xs s) \<and>
    da_store (fold (\<lambda>a. log_decision_event (f a)) xs s) = da_store s"
  by (induction xs arbitrary: s) (auto simp: keeps_def)

lemma end_the_waits_keeps:
  assumes "rely w" and "store_ok (da_store s)" and "end_the_waits_that_ran_out w now s = (s', r)"
  shows "keeps s s' \<and> store_ok (da_store s')"
proof -
  obtain s1 r1 where c1: "call w (OpExpirePast now) s = (s1, r1)" by (metis surj_pair)
  have one: "keeps s s1" "store_ok (da_store s1)"
    using keeps_call(1) [of s w now] call_ok [OF assms(1,2), of "OpExpirePast now"] by (simp_all add: c1)
  show ?thesis
  proof (cases r1)
    case (Inl e)
    with assms(3) c1 one show ?thesis by (simp add: end_the_waits_that_ran_out_def)
  next
    case (Inr expired)
    define s2 where "s2 = fold (\<lambda>a. log_decision_event (expired_event a)) expired s1"
    have two: "keeps s1 s2" "store_ok (da_store s2)"
      using keeps_events [of s1 expired_event expired] one(2) by (simp_all add: s2_def)
    obtain s3 r3 where c3: "call w (OpForgetLapsed now) s2 = (s3, r3)" by (metis surj_pair)
    have three: "keeps s2 s3" "store_ok (da_store s3)"
      using keeps_call(2) [of s2 w now] call_ok [OF assms(1) two(2), of "OpForgetLapsed now"] by (simp_all add: c3)
    have kept_all: "keeps s s3" using one two three keeps_trans by blast
    with assms(3) c1 Inr c3 three(2) show ?thesis
      by (auto simp: end_the_waits_that_ran_out_def s2_def [symmetric] keeps_def split: sum.splits if_splits)
  qed
qed

lemma sweep_keeps:
  assumes "rely w" and "store_ok (da_store s)" and "sweep conf w now s = (s', r)"
  shows "keeps s s' \<and> store_ok (da_store s')"
proof -
  let ?v = "w_current_version w"
  let ?g = "tick (w_writer w) now ?v (if w_version_moved w
      then policy_version_changed (w_writer w) ?v (w_registry_clock w) (da_grants s) else da_grants s)"
  have "keeps s (s\<lparr>da_grants := ?g\<rparr>)" by (simp add: keeps_def claims_def backs_def)
  with assms end_the_waits_keeps [OF assms(1), of "s\<lparr>da_grants := ?g\<rparr>" now s' r] show ?thesis
    by (auto simp: sweep_def Let_def intro: keeps_trans split: if_splits)
qed

section \<open>The consultation\<close>

definition consulted_ok :: "consulted \<Rightarrow> bool" where
  "consulted_ok c \<longleftrightarrow> (cs_spend c \<longleftrightarrow> cs_outcome c = ALLOW) \<and> (cs_spend c \<longleftrightarrow> cs_reason c = APPROVAL_GRANTED) \<and>
     (cs_opened c \<longrightarrow> cs_outcome c = SUSPEND)"

lemma open_if_absent_question:
  assumes "store_ok st" and "open_if_absent a now st = (st', Inr b)"
  shows "ap_question b = ap_question a"
proof (cases "List.find (live now) (rev (records_of st (ap_question a)))")
  case None
  with assms have "open_approval a st = (st', Inr b)" by (simp add: open_if_absent_eq)
  then have "b = a" by (simp add: open_approval_def Let_def split: if_splits)
  then show ?thesis by simp
next
  case (Some c)
  with assms have "c = b" by (simp add: open_if_absent_eq)
  moreover have "c \<in> set (records_of st (ap_question a))"
    using Some by (metis find_Some_iff nth_mem set_rev)
  ultimately show ?thesis using records_of_mem [OF assms(1)] by simp
qed

lemma call_open:
  assumes "rely w" and "store_ok (da_store s)" and "call w (OpOpenIfAbsent a now) s = (s', Inr answer)"
  shows "ap_scope (hd answer) = ap_scope a"
proof -
  let ?st = "w_others w (length (da_trace s)) (da_store s)"
  have "store_ok ?st" using assms(1,2) by (simp add: rely_def)
  moreover obtain b where "open_if_absent a now ?st = (fst (open_if_absent a now ?st), Inr b)" "answer = [b]"
    using assms(3) by (auto simp: call_def one_def prod_eq_iff split: prod.splits sum.splits)
  ultimately show ?thesis using open_if_absent_question [of ?st a now _ b] by (simp add: ap_scope_def)
qed

definition spent_claim :: "approval \<Rightarrow> unsettled + consulted \<Rightarrow> key \<Rightarrow> nat" where
  "spent_claim opening r k = (case r of
      Inl _ \<Rightarrow> 0
    | Inr c \<Rightarrow> if cs_spend c \<and> k = (ap_scope opening, cs_approval_ref c) then 1 else 0)"

definition consulting :: "approval \<Rightarrow> daemon \<Rightarrow> daemon \<Rightarrow> unsettled + consulted \<Rightarrow> bool" where
  "consulting opening s s' r \<longleftrightarrow> store_ok (da_store s') \<and> da_log s' = da_log s \<and> da_grants s' = da_grants s \<and>
     (\<forall>k. backs k s' = backs k s) \<and> (\<forall>k. claims k s' = claims k s + spent_claim opening r k) \<and>
     (\<forall>c. r = Inr c \<longrightarrow> consulted_ok c)"

lemma open_with_keeps:
  assumes "rely w" and "store_ok (da_store s)" and "open_with w opened s = (s', r)"
  shows "keeps s s' \<and> store_ok (da_store s') \<and> da_grants s' = da_grants s \<and>
    (r = Inr () \<longleftrightarrow> w_takes_up w opened) \<and> (r = Inr () \<or> r = Inl ApprovalUnavailable)"
  using assms keeps_call(5) call_ok [OF assms(1,2), of "OpAbandon (ap_scope opened) (ap_ref opened)"]
  by (auto simp: open_with_def split: if_splits)

lemma consulting_after:
  "keeps s s1 \<Longrightarrow> da_grants s1 = da_grants s \<Longrightarrow> consulting opening s1 s' r \<Longrightarrow> consulting opening s s' r"
  by (simp add: consulting_def keeps_def)

lemma consulting_no_claim:
  "keeps s s' \<Longrightarrow> da_grants s' = da_grants s \<Longrightarrow> store_ok (da_store s') \<Longrightarrow>
   (\<And>c. r = Inr c \<Longrightarrow> \<not> cs_spend c \<and> consulted_ok c) \<Longrightarrow> consulting opening s s' r"
  by (auto simp: consulting_def keeps_def spent_claim_def split: sum.split)

lemma consulting_unsettled: "store_ok (da_store s) \<Longrightarrow> consulting opening s s (Inl u)"
  by (simp add: consulting_def spent_claim_def)

lemma consult_loop_consulting:
  assumes "rely w" and "approval_ok opening" and "store_ok (da_store s)"
    and "consult_loop w n opening contended s = (s', r)"
  shows "consulting opening s s' r"
  using assms(3,4)
proof (induction n arbitrary: contended s)
  case 0
  then show ?case by (auto intro: consulting_no_claim)
next
  case (Suc n)
  obtain s1 r1 where c1: "call w (OpOpenIfAbsent opening (store_now w s)) s = (s1, r1)" by (metis surj_pair)
  have one: "keeps s s1" "da_grants s1 = da_grants s" "store_ok (da_store s1)"
    using keeps_call(3) [of s w "opening" "w_store_clock w (length (da_trace s))"] call_parts(2) [of w "OpOpenIfAbsent opening (store_now w s)" s]
      call_ok [OF assms(1) Suc.prems(1), of "OpOpenIfAbsent opening (store_now w s)"] assms(2)
    by (simp_all add: c1)
  note again = consulting_after [OF one(1,2)]
  show ?case
  proof (cases r1)
    case (Inl e)
    with Suc.prems(2) c1 one show ?thesis by (auto intro: consulting_no_claim)
  next
    case (Inr answer)
    define found where "found = hd answer"
    have scope: "ap_scope found = ap_scope opening"
      using call_open [OF assms(1) Suc.prems(1), of "opening" "w_store_clock w (length (da_trace s))"] c1 Inr by (simp add: found_def)
    note run = Suc.prems(2) [simplified, unfolded c1 Inr, simplified, folded found_def]
    show ?thesis
    proof (cases "ap_ref found = ap_ref opening")
      case True
      obtain s2 r2 where o: "open_with w opening s1 = (s2, r2)" by (metis surj_pair)
      note o' = open_with_keeps [OF assms(1) one(3) o]
      from run True o o' show ?thesis
        by (intro again consulting_no_claim) (auto simp: consulted_ok_def Let_def split: sum.splits)
    next
      case False
      consider (pending) "ap_state found = PENDING" | (rejected) "ap_state found = REJECTED"
        | (expired) "ap_state found = EXPIRED" | (taken) "ap_state found = APPROVED" "ap_claimed found"
        | (free) "ap_state found = APPROVED" "\<not> ap_claimed found"
        by (cases "ap_state found") auto
      then show ?thesis
      proof cases
        case pending
        with run False Suc.IH [OF one(3)] one(3) show ?thesis
          by (cases "ap_published found")
            (auto simp: consulted_ok_def Let_def intro!: again intro: consulting_no_claim)
      next
        case rejected
        with run False one(3) show ?thesis
          by (intro again consulting_no_claim) (auto simp: consulted_ok_def Let_def)
      next
        case expired
        with run False one(3) show ?thesis
          by (intro again consulting_no_claim) (auto simp: Let_def)
      next
        case taken
        with run False Suc.IH [OF one(3)] show ?thesis by (intro again) (simp add: Let_def)
      next
        case free
        obtain s2 r2 where c2: "call w (OpClaim (ap_scope found) (ap_ref found)) s1 = (s2, r2)" by (metis surj_pair)
        have two: "da_log s2 = da_log s1" "da_grants s2 = da_grants s1" "backs k s2 = backs k s1"
            "claims k s2 = claims k s1 + (case r2 of Inr _ \<Rightarrow> if k = (ap_scope found, ap_ref found) then 1 else 0 | Inl _ \<Rightarrow> 0)"
            "store_ok (da_store s2)" for k
          using call_parts [of w "OpClaim (ap_scope found) (ap_ref found)" s1]
            call_counts [of k w "OpClaim (ap_scope found) (ap_ref found)" s1]
            call_ok [OF assms(1) one(3), of "OpClaim (ap_scope found) (ap_ref found)"]
          by (auto simp: c2 plain_calls split: sum.splits)
        show ?thesis
        proof (cases r2)
          case (Inr x)
          with run False free c2 have "s' = s2" "r = Inr \<lparr>cs_outcome = ALLOW, cs_reason = APPROVAL_GRANTED,
              cs_approval_ref = ap_ref found, cs_spend = True, cs_opened = False\<rparr>"
            by (simp_all add: Let_def)
          with two Inr show ?thesis
            by (intro again) (simp add: consulting_def spent_claim_def consulted_ok_def scope)
        next
          case (Inl e)
          with two have keep: "keeps s1 s2" by (simp add: keeps_def)
          note again2 = consulting_after [OF keep two(2)]
          from run False free c2 Inl Suc.IH [OF two(5)] two(5) show ?thesis
            by (intro again again2; cases e)
              (auto simp: Let_def intro: consulting_unsettled)
        qed
      qed
    qed
  qed
qed

end
