(* ===== verification/DecisionEffects.thy ===== *)
theory DecisionEffects
  imports DecisionTraces
begin

text \<open>
  What the rest of an ask does: the record and what follows it, and the \<open>finally\<close> that gives a claim back
  when there is no record. One lemma per function of the service, composed in \<open>ask_effect\<close>.
\<close>

section \<open>The calls that follow a record\<close>

definition quiet :: "daemon \<Rightarrow> daemon \<Rightarrow> bool" where
  "quiet s s' \<longleftrightarrow> keeps s s' \<and> store_ok (da_store s') \<and> (\<exists>t. da_trace s' = da_trace s @ t)"

lemma quiet_refl: "store_ok (da_store s) \<Longrightarrow> quiet s s"
  by (simp add: quiet_def)

lemma quiet_trans: "quiet s s' \<Longrightarrow> quiet s' s'' \<Longrightarrow> quiet s s''"
  by (auto simp: quiet_def intro: keeps_trans)

lemma quiet_ok: "quiet s s' \<Longrightarrow> store_ok (da_store s')"
  by (simp add: quiet_def)

lemma quiet_counts: "quiet s s' \<Longrightarrow> claims k s' = claims k s" "quiet s s' \<Longrightarrow> backs k s' = backs k s"
  "quiet s s' \<Longrightarrow> da_log s' = da_log s"
  by (simp_all add: quiet_def keeps_def)

lemma quiet_call:
  assumes "rely w" and "store_ok (da_store s)" and "op_ok x" and "keeps s (fst (call w x s))"
  shows "quiet s (fst (call w x s))"
  using assms call_ok by (simp add: quiet_def)

lemma quiet_grants [simp]: "quiet s (s'\<lparr>da_grants := g\<rparr>) \<longleftrightarrow> quiet s s'"
  by (simp add: quiet_def keeps_def claims_def backs_def)

lemma quiet_event [simp]: "quiet s (log_decision_event e s') \<longleftrightarrow> quiet s s'"
  by (simp add: quiet_def keeps_def)

lemma grants_parts [simp]:
  "claims k (s\<lparr>da_grants := g\<rparr>) = claims k s" "backs k (s\<lparr>da_grants := g\<rparr>) = backs k s"
  "claims k (s\<lparr>da_log := l\<rparr>) = claims k s" "backs k (s\<lparr>da_log := l\<rparr>) = backs k s"
  by (simp_all add: claims_def backs_def)

lemma publish_opened_quiet:
  "rely w \<Longrightarrow> store_ok (da_store s) \<Longrightarrow> quiet s (publish_opened w scope c s)"
  by (auto simp: publish_opened_def quiet_refl quiet_call keeps_call split: option.split)

lemma withdraw_opened_quiet:
  "rely w \<Longrightarrow> store_ok (da_store s) \<Longrightarrow> quiet s (withdraw_opened w scope c s)"
  by (auto simp: withdraw_opened_def quiet_refl quiet_call keeps_call split: option.split)

lemma consume_claimed_quiet:
  "rely w \<Longrightarrow> store_ok (da_store s) \<Longrightarrow> quiet s (consume_claimed w scope c s)"
  by (auto simp: consume_claimed_def quiet_refl quiet_call keeps_call split: option.split)

lemma cancel_reserved_quiet: "quiet s (cancel_reserved r s') \<longleftrightarrow> quiet s s'"
  by (simp add: cancel_reserved_def split: option.split)

lemma cancel_reserved_parts [simp]:
  "da_log (cancel_reserved r s) = da_log s" "da_trace (cancel_reserved r s) = da_trace s"
  "da_store (cancel_reserved r s) = da_store s" "claims k (cancel_reserved r s) = claims k s"
  "backs k (cancel_reserved r s) = backs k s"
  by (simp_all add: cancel_reserved_def split: option.split)

text \<open>The release of a claim: at most one is given back, on the wait that was claimed.\<close>

definition spent_on :: "string \<Rightarrow> consulted option \<Rightarrow> key \<Rightarrow> nat" where
  "spent_on scope c k = (case c of
      None \<Rightarrow> 0 | Some c \<Rightarrow> if cs_spend c \<and> k = (scope, cs_approval_ref c) then 1 else 0)"

lemma release_claimed_effect:
  assumes "rely w" and "store_ok (da_store s)"
  shows "da_log (release_claimed w scope c s) = da_log s"
    and "store_ok (da_store (release_claimed w scope c s))"
    and "claims k (release_claimed w scope c s) = claims k s"
    and "backs k s \<le> backs k (release_claimed w scope c s)"
    and "backs k (release_claimed w scope c s) \<le> backs k s + spent_on scope c k"
proof -
  have gives: "gives_back k (OpReleaseClaim sc ref, r) \<Longrightarrow> k = (sc, ref)" for sc ref r
    by (cases r) simp_all
  show "da_log (release_claimed w scope c s) = da_log s"
    and "store_ok (da_store (release_claimed w scope c s))"
    and "claims k (release_claimed w scope c s) = claims k s"
    and "backs k s \<le> backs k (release_claimed w scope c s)"
    and "backs k (release_claimed w scope c s) \<le> backs k s + spent_on scope c k"
    using assms call_ok [OF assms, of "OpReleaseClaim scope r" for r]
    by (auto simp: release_claimed_def spent_on_def plain_calls dest: gives split: option.split)
qed

definition calls :: "daemon \<Rightarrow> store_op set" where
  "calls s = fst ` set (da_trace s)"

lemma calls_parts [simp]:
  "calls (fst (call w x s)) = insert x (calls s)" "calls (s\<lparr>da_grants := g\<rparr>) = calls s"
  "calls (s\<lparr>da_log := l\<rparr>) = calls s" "calls (cancel_reserved r s) = calls s"
  "calls (log_decision_event e s) = calls s"
  by (simp_all add: calls_def)

lemma quiet_calls: "quiet s s' \<Longrightarrow> calls s \<subseteq> calls s'"
  by (auto simp: quiet_def calls_def)

text \<open>What is owed to the wait and to the claim of an ask once its record is, or may be, there; and otherwise.\<close>

definition kept_for_record :: "string \<Rightarrow> consulted option \<Rightarrow> daemon \<Rightarrow> bool" where
  "kept_for_record scope c s \<longleftrightarrow> (\<forall>c'. c = Some c' \<longrightarrow>
     (cs_opened c' \<longrightarrow> OpPublish scope (cs_approval_ref c') \<in> calls s) \<and>
     (cs_spend c' \<longrightarrow> (\<exists>t. OpConsume scope (cs_approval_ref c') t \<in> calls s)))"

definition undone_without_record :: "string \<Rightarrow> consulted option \<Rightarrow> daemon \<Rightarrow> bool" where
  "undone_without_record scope c s \<longleftrightarrow> (\<forall>c'. c = Some c' \<longrightarrow>
     (cs_opened c' \<longrightarrow> OpAbandon scope (cs_approval_ref c') \<in> calls s) \<and>
     (cs_spend c' \<longrightarrow> OpReleaseClaim scope (cs_approval_ref c') \<in> calls s))"

lemma kept_for_record_mono: "kept_for_record scope c s \<Longrightarrow> calls s \<subseteq> calls s' \<Longrightarrow> kept_for_record scope c s'"
  by (auto simp: kept_for_record_def)

lemma kept_for_record_parts [simp]:
  "kept_for_record scope c (cancel_reserved r s) = kept_for_record scope c s"
  "kept_for_record scope c (log_decision_event e s) = kept_for_record scope c s"
  "kept_for_record scope c (s\<lparr>da_grants := g\<rparr>) = kept_for_record scope c s"
  by (simp_all add: kept_for_record_def)

lemma published_and_consumed:
  assumes "rely w" and "store_ok (da_store s)"
  shows "kept_for_record scope c (consume_claimed w scope c (publish_opened w scope c s))"
  by (auto simp: kept_for_record_def consume_claimed_def publish_opened_def)

lemma withdrawn_and_released:
  "undone_without_record scope c (withdraw_opened w scope c (release_claimed w scope c s))"
  by (auto simp: undone_without_record_def withdraw_opened_def release_claimed_def)

section \<open>The record and the answer\<close>

definition recorded_as ::
  "world \<Rightarrow> decision \<Rightarrow> consulted option \<Rightarrow> grant option \<Rightarrow> daemon \<Rightarrow> daemon \<Rightarrow> bool \<Rightarrow> answer result \<Rightarrow> bool" where
  "recorded_as w d c g s s' recorded x \<longleftrightarrow>
     (\<forall>k. claims k s' = claims k s \<and> backs k s' = backs k s) \<and> store_ok (da_store s') \<and> calls s \<subseteq> calls s' \<and>
     (recorded \<longrightarrow> kept_for_record (de_scope d) c s') \<and>
     (da_log s' = da_log s \<and> (recorded \<longrightarrow> w_append w d = AppendIndeterminate False) \<or>
      da_log s' = da_log s @ [d] \<and> recorded) \<and>
     (case x of
        Inr (DecisionAnswer a) \<Rightarrow> recorded \<and> w_append w d = Appended True \<and> da_log s' = da_log s @ [d] \<and>
          an_grant a = g \<and>
          an_decision a = d\<lparr>de_extra := de_extra d @
            [(''grant'', case g of None \<Rightarrow> JNull | Some g \<Rightarrow> grant_document g)]\<rparr>
      | Inr (DecisionProblem code) \<Rightarrow> code = DecisionStoreUnavailable \<and>
          (da_log s' = da_log s @ [d] \<longrightarrow> w_append w d \<in> {AppendIndeterminate True, Appended False})
      | Inl e \<Rightarrow> True)"

lemma recorded_asI:
  assumes "quiet mid s'" and "recorded \<longrightarrow> kept_for_record (de_scope d) c s'"
    and "mid = s \<and> (recorded \<longrightarrow> w_append w d = AppendIndeterminate False) \<or>
      mid = s\<lparr>da_log := da_log s @ [d]\<rparr> \<and> recorded"
    and "case x of
        Inr (DecisionAnswer a) \<Rightarrow> recorded \<and> w_append w d = Appended True \<and>
          mid = s\<lparr>da_log := da_log s @ [d]\<rparr> \<and> an_grant a = g \<and>
          an_decision a = d\<lparr>de_extra := de_extra d @
            [(''grant'', case g of None \<Rightarrow> JNull | Some g \<Rightarrow> grant_document g)]\<rparr>
      | Inr (DecisionProblem code) \<Rightarrow> code = DecisionStoreUnavailable \<and>
          (da_log mid = da_log s @ [d] \<longrightarrow> w_append w d \<in> {AppendIndeterminate True, Appended False})
      | Inl e \<Rightarrow> True"
  shows "recorded_as w d c g s s' recorded x"
  using assms quiet_counts [OF assms(1)] quiet_ok [OF assms(1)] quiet_calls [OF assms(1)]
  by (auto simp: recorded_as_def split: sum.splits answer.splits)

lemma deliver_effect:
  assumes "deliver_and_register w a g r s = (s', x)"
  shows "(\<exists>gr. s' = s\<lparr>da_grants := gr\<rparr>) \<and>
    (case x of Inr (DecisionAnswer b) \<Rightarrow> \<exists>n. b = a\<lparr>an_connection := Some n\<rparr>
             | Inr (DecisionProblem c) \<Rightarrow> False | Inl e \<Rightarrow> True)"
  using assms
  by (auto simp: deliver_and_register_def cancel_reserved_def Let_def split: if_splits prod.splits sum.splits)

lemma spend_after_record:
  assumes "rely w" and "store_ok (da_store s)"
    and "(case c of
            Some c \<Rightarrow> if cs_spend c
              then call w (OpConsume scope (cs_approval_ref c) (store_now w s)) s
              else (s, Inr [])
          | None \<Rightarrow> (s, Inr [])) = (s', r)"
  shows "quiet s s'" and "s' = consume_claimed w scope c s"
proof -
  show same: "s' = consume_claimed w scope c s"
    using assms(3) by (auto simp: consume_claimed_def split: option.splits if_splits)
  show "quiet s s'" unfolding same by (rule consume_claimed_quiet [OF assms(1,2)])
qed

lemma append_and_answer_effect:
  assumes "rely w" and "store_ok (da_store s)" and "append_and_answer w d c g reservation s = (s', recorded, x)"
  shows "recorded_as w d c g s s' recorded x"
proof (cases "w_append w d")
  case AppendRefused
  with assms show ?thesis
    by (intro recorded_asI [where mid = s]) (auto simp: append_and_answer_def cancel_reserved_quiet quiet_refl)
next
  case (AppendIndeterminate committed)
  define s1 where "s1 = (if committed then s\<lparr>da_log := da_log s @ [d]\<rparr> else s)"
  have ok: "store_ok (da_store s1)" using assms(2) by (simp add: s1_def)
  note p = publish_opened_quiet [OF assms(1) ok, of "de_scope d" c]
  note q = quiet_trans [OF p consume_claimed_quiet [OF assms(1) quiet_ok [OF p]]]
  have ends: "recorded" "x = Inr (DecisionProblem DecisionStoreUnavailable)"
    "s' = cancel_reserved reservation (consume_claimed w (de_scope d) c (publish_opened w (de_scope d) c s1))"
    using assms(3) AppendIndeterminate by (simp_all add: append_and_answer_def Let_def s1_def)
  have "kept_for_record (de_scope d) c s'"
    using published_and_consumed [OF assms(1) ok] by (simp add: ends(3))
  with ends q [of "de_scope d" c] AppendIndeterminate show ?thesis
    by (intro recorded_asI [where mid = s1]) (auto simp: cancel_reserved_quiet s1_def split: if_splits)
next
  case (Appended readable)
  let ?s0 = "s\<lparr>da_log := da_log s @ [d]\<rparr>"
  define s1 where "s1 = publish_opened w (de_scope d) c ?s0"
  define s2 where "s2 = consume_claimed w (de_scope d) c s1"
  have ok: "store_ok (da_store ?s0)" using assms(2) by simp
  have p: "quiet ?s0 s1" using publish_opened_quiet [OF assms(1) ok] by (simp add: s1_def)
  have q: "quiet ?s0 s2"
    using quiet_trans [OF p consume_claimed_quiet [OF assms(1) quiet_ok [OF p]]] by (simp add: s2_def)
  have k: "kept_for_record (de_scope d) c s2"
    using published_and_consumed [OF assms(1) ok] by (simp add: s2_def s1_def)
  note run = assms(3) [unfolded append_and_answer_def, simplified, unfolded Appended, simplified, folded s1_def]
  show ?thesis
  proof (cases readable)
    case False
    have "s' = cancel_reserved reservation s2" "recorded" "x = Inr (DecisionProblem DecisionStoreUnavailable)"
      using run False by (simp_all add: Let_def s2_def)
    with q k Appended False show ?thesis
      by (intro recorded_asI [where mid = ?s0]) (auto simp: cancel_reserved_quiet)
  next
    case True
    define spend where "spend = (case c of
        Some c \<Rightarrow> if cs_spend c then call w (OpConsume (de_scope d) (cs_approval_ref c) (store_now w s1)) s1
          else (s1, Inr [])
      | None \<Rightarrow> (s1, Inr []))"
    obtain s2' r2 where s2': "spend = (s2', r2)" by (metis surj_pair)
    with spend_after_record(2) [OF assms(1) quiet_ok [OF p], where c = c and scope = "de_scope d" and s' = s2' and r = r2]
    have spend: "spend = (s2, r2)" by (simp add: spend_def s2_def)
    note run2 = run [unfolded Let_def, simplified True, simplified, folded spend_def, unfolded spend, simplified]
    note by_mid = recorded_asI [where mid = ?s0]
    show ?thesis
    proof (cases r2)
      case (Inl e)
      with run2 q k show ?thesis by (intro by_mid) (auto simp: cancel_reserved_quiet)
    next
      case (Inr y)
      note Appended = Appended [unfolded True [THEN eqTrueI]]
      show ?thesis
      proof (cases "g = None \<or> reservation = None")
        case True
        with run2 q k Inr Appended show ?thesis
          by (intro by_mid) (auto split: option.splits)
      next
        case False
        then obtain g' i where gi: "g = Some g'" "reservation = Some i" by auto
        show ?thesis
          using run2 q k Inr gi Appended
          by (intro by_mid) (auto split: prod.splits sum.splits answer.splits
              dest!: deliver_effect)
      qed
    qed
  qed
qed

section \<open>One ask\<close>

text \<open>What an answer or a problem says of the record, from the append to the end of the ask.\<close>

definition answers_for :: "world \<Rightarrow> decision \<Rightarrow> grant option \<Rightarrow> daemon \<Rightarrow> daemon \<Rightarrow> answer result \<Rightarrow> bool" where
  "answers_for w d g s s' x \<longleftrightarrow> (case x of
      Inr (DecisionAnswer a) \<Rightarrow> w_append w d = Appended True \<and> da_log s' = da_log s @ [d] \<and> an_grant a = g \<and>
        an_decision a = d\<lparr>de_extra := de_extra d @
          [(''grant'', case g of None \<Rightarrow> JNull | Some g \<Rightarrow> grant_document g)]\<rparr>
    | Inr (DecisionProblem code) \<Rightarrow> code = DecisionStoreUnavailable \<and>
        (da_log s' = da_log s @ [d] \<longrightarrow> w_append w d \<in> {AppendIndeterminate True, Appended False})
    | Inl e \<Rightarrow> True)"

text \<open>Committed, or perhaps committed, or undone.\<close>

definition settled_by :: "world \<Rightarrow> decision \<Rightarrow> consulted option \<Rightarrow> daemon \<Rightarrow> daemon \<Rightarrow> bool" where
  "settled_by w d c s s' \<longleftrightarrow> store_ok (da_store s') \<and> (\<forall>k. claims k s' = claims k s) \<and>
     (da_log s' = da_log s @ [d] \<and> kept_for_record (de_scope d) c s' \<and> (\<forall>k. backs k s' = backs k s) \<or>
      da_log s' = da_log s \<and> w_append w d = AppendIndeterminate False \<and> kept_for_record (de_scope d) c s' \<and>
        (\<forall>k. backs k s' = backs k s) \<or>
      da_log s' = da_log s \<and> undone_without_record (de_scope d) c s' \<and>
        (\<forall>k. backs k s' \<le> backs k s + spent_on (de_scope d) c k))"

lemma settle_effect:
  assumes "rely w" and "recorded_as w d c g s s1 recorded x" and "settle w (de_scope d) c (s1, recorded, x) = (s', y)"
  shows "settled_by w d c s s' \<and> answers_for w d g s s' y"
proof (cases recorded)
  case True
  with assms(2,3) show ?thesis
    by (auto simp: settle_def recorded_as_def settled_by_def answers_for_def split: sum.splits answer.splits)
next
  case False
  have log: "da_log s1 = da_log s" and ok: "store_ok (da_store s1)" and same: "claims k s1 = claims k s"
      "backs k s1 = backs k s" for k
    using assms(2) False by (auto simp: recorded_as_def)
  define s2 where "s2 = release_claimed w (de_scope d) c s1"
  note rel = release_claimed_effect [OF assms(1) ok, where scope = "de_scope d" and c = c, folded s2_def]
  have s': "s' = withdraw_opened w (de_scope d) c s2" "y = x"
    using assms(3) False by (simp_all add: settle_def s2_def)
  have q: "quiet s2 s'"
    using withdraw_opened_quiet [OF assms(1) rel(2)] by (simp add: s')
  have "undone_without_record (de_scope d) c s'"
    using withdrawn_and_released by (simp add: s' s2_def)
  moreover have "backs k s' \<le> backs k s + spent_on (de_scope d) c k" "claims k s' = claims k s" for k
    using rel(3) [of k] rel(5) [of k] quiet_counts(1,2) [OF q, of k] same [of k] by simp_all
  moreover have "da_log s' = da_log s"
    using quiet_counts(3) [OF q] rel(1) log by simp
  ultimately show ?thesis
    using assms(2) False quiet_ok [OF q] log
    by (auto simp: settled_by_def answers_for_def recorded_as_def s'(2) split: sum.splits answer.splits)
qed

definition spends :: "consulted option \<Rightarrow> bool" where
  "spends c = (case c of None \<Rightarrow> False | Some c \<Rightarrow> cs_spend c)"

definition minted_for ::
  "composition \<Rightarrow> world \<Rightarrow> decision_question \<Rightarrow> loaded_policy \<Rightarrow> verdict \<Rightarrow> consulted option \<Rightarrow> int \<Rightarrow> bool \<Rightarrow> grant \<Rightarrow> bool" where
  "minted_for conf w q loaded v c now on_connection g \<longleftrightarrow>
     de_outcome (build_decision w q loaded v c now None) = ALLOW \<and> on_connection \<and> \<not> spends c \<and>
     mint_grant (build_decision w q loaded v c now None) now
       (grant_lifetime (co_settings conf) (Option.bind (vd_rule v) ru_grant_lifetime_seconds))
       (lp_policy_version loaded) (se_heartbeat_seconds (co_settings conf)) (w_grant_id w) = Inr g"

lemma recorded_as_parts [simp]:
  "recorded_as w d c g (s\<lparr>da_grants := gr\<rparr>) s' recorded x \<longleftrightarrow> recorded_as w d c g s s' recorded x"
  by (simp add: recorded_as_def split: sum.split answer.split)

lemma decide_effect:
  assumes "rely w" and "store_ok (da_store s)"
    and "decide conf w q loaded v c now on_connection s = (s', recorded, x)"
  shows "\<exists>g. (\<forall>g'. g = Some g' \<longrightarrow> minted_for conf w q loaded v c now on_connection g') \<and>
    recorded_as w (build_decision w q loaded v c now (map_option gr_id g)) c g s s' recorded x"
proof -
  let ?d = "build_decision w q loaded v c now None"
  define r where "r = (if de_outcome ?d = ALLOW \<and> on_connection \<and> \<not> spends c
    then reserve (pr_uid (dq_principal q)) (da_grants s) else (da_grants s, None))"
  define m where "m = prepare_grant conf w ?d (Option.bind (vd_rule v) ru_grant_lifetime_seconds) now
    (lp_policy_version loaded) (snd r)"
  let ?s1 = "s\<lparr>da_grants := fst r\<rparr>"
  have run: "(case m of Inl e \<Rightarrow> (?s1, False, Inl e)
      | Inr g \<Rightarrow> append_and_answer w
          (case g of None \<Rightarrow> ?d | Some g \<Rightarrow> build_decision w q loaded v c now (Some (gr_id g))) c g (snd r) ?s1) =
      (s', recorded, x)"
    using assms(3) by (simp only: decide_def Let_def m_def r_def spends_def case_prod_unfold)
  show ?thesis
  proof (cases m)
    case (Inl e)
    with run assms(2) show ?thesis
      by (intro exI [of _ None]) (auto simp: recorded_as_def)
  next
    case (Inr g)
    have "minted_for conf w q loaded v c now on_connection g'" if "g = Some g'" for g'
      using Inr that
      by (auto simp: m_def r_def prepare_grant_def minted_for_def bind_r_def split: if_splits sum.splits)
    moreover have "recorded_as w (build_decision w q loaded v c now (map_option gr_id g)) c g ?s1 s' recorded x"
      using append_and_answer_effect [OF assms(1), of ?s1] run Inr assms(2)
      by (cases g) auto
    ultimately show ?thesis by auto
  qed
qed

section \<open>From the question to the answer\<close>

lemma pending_scope: "approval_post_init (pending_approval ref dref asked t deadline) = Inr a \<Longrightarrow>
    approval_ok a \<and> ap_question a = asked \<and> ap_ref a = ref"
  using post_init_same [of "pending_approval ref dref asked t deadline" a]
  by (auto simp: approval_ok_def) (simp_all add: pending_approval_def)

lemma asked_scope: "question_post_init (asked_question q) = Inr a \<Longrightarrow> q_scope a = ask_scope (dq_ask q)"
  by (auto simp: question_post_init_def asked_question_def split: if_splits)

lemma consult_approvals_cases:
  assumes "consult_approvals w q ru ref now s = (s', r)"
  obtains (raised) e where "s' = s" and "r = Inl (RaisedBy e)"
  | (looped) opened where "approval_ok opened" and "ap_scope opened = ask_scope (dq_ask q)"
      and "ap_ref opened = w_approval_ref w" and "consult_loop w CLAIM_TRIES opened HeldExecution s = (s', r)"
proof (cases "ru_review_deadline_seconds ru")
  case None
  with assms have "s' = s" "r = Inl (RaisedBy AssertionError)" by (simp_all add: consult_approvals_def)
  with raised show ?thesis by blast
next
  case (Some n)
  define built where "built = bind_r (question_post_init (asked_question q)) (\<lambda>asked.
    approval_post_init (pending_approval (w_approval_ref w) ref asked (Aware now) (Aware (now + seconds n))))"
  have run: "(case built of Inl e \<Rightarrow> (s, Inl (RaisedBy e))
      | Inr a \<Rightarrow> consult_loop w CLAIM_TRIES a HeldExecution s) = (s', r)"
    using assms Some by (simp add: consult_approvals_def built_def)
  show ?thesis
  proof (cases built)
    case (Inl e)
    with run have "s' = s" "r = Inl (RaisedBy e)" by simp_all
    with raised show ?thesis by blast
  next
    case (Inr a)
    then obtain asked where asked: "question_post_init (asked_question q) = Inr asked"
      "approval_post_init (pending_approval (w_approval_ref w) ref asked (Aware now) (Aware (now + seconds n))) = Inr a"
      by (auto simp: built_def bind_r_def split: sum.splits)
    with run Inr looped [of a] pending_scope [OF asked(2)] asked_scope [OF asked(1)] show ?thesis
      by (simp add: ap_scope_def)
  qed
qed

lemma consult_approvals_effect:
  assumes "rely w" and "store_ok (da_store s)" and "consult_approvals w q ru ref now s = (s', r)"
  defines "scope \<equiv> ask_scope (dq_ask q)"
  shows "store_ok (da_store s') \<and> da_log s' = da_log s \<and> da_grants s' = da_grants s \<and>
    (\<forall>k. backs k s' = backs k s \<and>
      claims k s' = claims k s + (case r of Inl _ \<Rightarrow> 0 | Inr c \<Rightarrow> spent_on scope (Some c) k)) \<and>
    (\<forall>c. r = Inr c \<longrightarrow> consulted_ok c)"
  using assms(3)
proof (cases rule: consult_approvals_cases)
  case raised
  with assms(2) show ?thesis by simp
next
  case (looped opened)
  with consult_loop_consulting [OF assms(1) looped(1) assms(2) looped(4)] show ?thesis
    by (auto simp: consulting_def spent_claim_def spent_on_def scope_def split: sum.splits)
qed

text \<open>What the consultation may have been: none, or one on a suspension.\<close>

definition consulted_for :: "composition \<Rightarrow> verdict \<Rightarrow> consulted option \<Rightarrow> bool" where
  "consulted_for conf v c \<longleftrightarrow> (case c of
      None \<Rightarrow> vd_outcome v \<noteq> SUSPEND \<or> \<not> co_approvals conf
    | Some c \<Rightarrow> vd_outcome v = SUSPEND \<and> co_approvals conf \<and> consulted_ok c)"

lemma ask_loaded_effect:
  assumes "rely w" and "store_ok (da_store s)" and "ask_loaded conf w q loaded now on_connection s = (s', x)"
  obtains (undecided) "store_ok (da_store s')" and "da_log s' = da_log s"
      and "\<And>k. claims k s' = claims k s \<and> backs k s' = backs k s"
      and "\<And>a. x \<noteq> Inr (DecisionAnswer a)"
  | (decided) v c g s1 where "archive_policy conf w loaded = None" and "evaluate (lp_policy loaded) q = Inr v"
      and "consulted_for conf v c"
      and "\<And>g'. g = Some g' \<Longrightarrow> minted_for conf w q loaded v c now on_connection g'"
      and "store_ok (da_store s1)" and "da_log s1 = da_log s"
      and "\<And>k. claims k s1 = claims k s + spent_on (ask_scope (dq_ask q)) c k \<and> backs k s1 = backs k s"
      and "settled_by w (build_decision w q loaded v c now (map_option gr_id g)) c s1 s'"
      and "answers_for w (build_decision w q loaded v c now (map_option gr_id g)) g s1 s' x"
proof -
  let ?scope = "ask_scope (dq_ask q)"
  let ?d = "\<lambda>v c g. build_decision w q loaded v c now (map_option gr_id g)"
  have scope: "de_scope (?d v c g) = ?scope" for v c and g :: "grant option"
    by (simp add: build_decision_def)
  have finish: ?thesis
    if "archive_policy conf w loaded = None" and "evaluate (lp_policy loaded) q = Inr v" and "consulted_for conf v c"
      and "store_ok (da_store s1)" and "da_log s1 = da_log s"
      and "\<And>k. claims k s1 = claims k s + spent_on ?scope c k \<and> backs k s1 = backs k s"
      and "settle w ?scope c (decide conf w q loaded v c now on_connection s1) = (s', x)" for v c s1
  proof -
    obtain s2 recorded y where d: "decide conf w q loaded v c now on_connection s1 = (s2, recorded, y)"
      by (metis prod_cases3)
    from decide_effect [OF assms(1) that(4) d] obtain g where
      g: "\<forall>g'. g = Some g' \<longrightarrow> minted_for conf w q loaded v c now on_connection g'"
         "recorded_as w (?d v c g) c g s1 s2 recorded y" by blast
    have "settle w (de_scope (?d v c g)) c (s2, recorded, y) = (s', x)"
      using that(7) d by (simp add: scope)
    from settle_effect [OF assms(1) g(2) this] g(1) that decided show ?thesis by blast
  qed
  note run = assms(3) [unfolded ask_loaded_def]
  show ?thesis
  proof (cases "archive_policy conf w loaded")
    case (Some code)
    with run assms(2) have "s' = s" "\<And>a. x \<noteq> Inr (DecisionAnswer a)" by auto
    with assms(2) undecided show ?thesis by simp
  next
    case None
    show ?thesis
    proof (cases "evaluate (lp_policy loaded) q")
      case (Inl e)
      with run None have "s' = s" "\<And>a. x \<noteq> Inr (DecisionAnswer a)" by auto
      with assms(2) undecided show ?thesis by simp
    next
      case (Inr v)
      note run2 = run [unfolded None Inr, simplified]
      have plain: ?thesis if "settle w ?scope None (decide conf w q loaded v None now on_connection s) = (s', x)"
          and "vd_outcome v \<noteq> SUSPEND \<or> \<not> co_approvals conf"
        using finish [of v None s, OF None Inr] that assms(2) by (simp add: consulted_for_def spent_on_def)
      show ?thesis
      proof (cases "vd_rule v")
        case no_rule: None
        with run2 assms(2) undecided plain show ?thesis by (auto split: if_splits)
      next
        case (Some ru)
        show ?thesis
        proof (cases "vd_outcome v = SUSPEND \<and> co_approvals conf")
          case False
          with run2 Some plain show ?thesis by auto
        next
          case True
          obtain s1 r where c1: "consult_approvals w q ru (w_decision_ref w) now s = (s1, r)" by (metis surj_pair)
          note e = consult_approvals_effect [OF assms(1,2) c1]
          show ?thesis
          proof (cases r)
            case (Inl u)
            with run2 Some True c1 e have "s' = s1" "\<And>a. x \<noteq> Inr (DecisionAnswer a)"
              by (auto split: unsettled.splits)
            with e Inl undecided show ?thesis by simp
          next
            case (Inr c)
            with run2 Some True c1 have
              "settle w ?scope (Some c) (decide conf w q loaded v (Some c) now on_connection s1) = (s', x)" by simp
            moreover have "consulted_for conf v (Some c)"
              using True e Inr by (simp add: consulted_for_def)
            ultimately show ?thesis
              using finish [of v "Some c" s1, OF None \<open>evaluate (lp_policy loaded) q = Inr v\<close>] e Inr by auto
          qed
        qed
      qed
    qed
  qed
qed

lemma ask_effect:
  assumes "rely w" and "store_ok (da_store s)" and "ask conf w q now on_connection s = (s', x)"
  obtains (undecided) "store_ok (da_store s')" and "da_log s' = da_log s"
      and "\<And>k. claims k s' = claims k s \<and> backs k s' = backs k s"
      and "\<And>a. x \<noteq> Inr (DecisionAnswer a)"
  | (decided) loaded v c g s1 where "refused_access conf w (dq_principal q) = None"
      and "\<not> w_schema_refuses w (dq_ask q)" and "w_load w = PolicyLoaded loaded"
      and "archive_policy conf w loaded = None" and "evaluate (lp_policy loaded) q = Inr v"
      and "consulted_for conf v c"
      and "\<And>g'. g = Some g' \<Longrightarrow> minted_for conf w q loaded v c now on_connection g'"
      and "store_ok (da_store s1)" and "da_log s1 = da_log s"
      and "\<And>k. claims k s1 = claims k s + spent_on (ask_scope (dq_ask q)) c k \<and> backs k s1 = backs k s"
      and "settled_by w (build_decision w q loaded v c now (map_option gr_id g)) c s1 s'"
      and "answers_for w (build_decision w q loaded v c now (map_option gr_id g)) g s1 s' x"
proof -
  obtain s0 r0 where s0: "sweep conf w now s = (s0, r0)" by (metis surj_pair)
  note swept = sweep_keeps [OF assms(1,2) s0]
  have same: "da_log s0 = da_log s" "claims k s0 = claims k s" "backs k s0 = backs k s" "store_ok (da_store s0)" for k
    using swept by (simp_all add: keeps_def)
  have stop: ?thesis if "s' = s0 \<or> (\<exists>e. s' = log_decision_event e s0)" and "\<And>a. x \<noteq> Inr (DecisionAnswer a)"
    using that same undecided by auto
  show ?thesis
  proof (cases r0)
    case (Inl e)
    with assms(3) s0 have "s' = s0 \<and> x = Inl e" by (simp add: ask_def)
    with stop show ?thesis by simp
  next
    case (Inr u)
    note run = assms(3) [unfolded ask_def, unfolded s0 Inr, simplified]
    show ?thesis
    proof (cases "refused_access conf w (dq_principal q)")
      case (Some code)
      with run have "\<exists>e. s' = log_decision_event e s0" "\<And>a. x \<noteq> Inr (DecisionAnswer a)" by auto
      with stop show ?thesis by blast
    next
      case no_refusal: None
      show ?thesis
      proof (cases "w_schema_refuses w (dq_ask q) \<or> w_load w = PolicyUnavailable")
        case True
        with run no_refusal have "s' = s0" "\<And>a. x \<noteq> Inr (DecisionAnswer a)" by (auto split: if_splits)
        with stop show ?thesis by blast
      next
        case False
        then obtain loaded where loaded: "w_load w = PolicyLoaded loaded" by (cases "w_load w") auto
        with run no_refusal False have "ask_loaded conf w q loaded now on_connection s0 = (s', x)" by simp
        from assms(1) same(4) this show ?thesis
        proof (cases rule: ask_loaded_effect)
          case undecided
          with same that(1) show ?thesis by simp
        next
          case (decided v c g s1)
          with same that(2) [of loaded v c g s1] no_refusal False loaded show ?thesis by simp
        qed
      qed
    qed
  qed
qed

section \<open>Approval allows, and the claims that pay for them\<close>

text \<open>A recorded decision that allows on the authority of the approval kept under \<open>k\<close>.\<close>

definition allows_on :: "key \<Rightarrow> decision \<Rightarrow> bool" where
  "allows_on k d \<longleftrightarrow> de_outcome d = ALLOW \<and> map_option (Pair (de_scope d)) (de_approval_ref d) = Some k"

definition allowed_on :: "key \<Rightarrow> decision list \<Rightarrow> nat" where
  "allowed_on k ds = length (filter (allows_on k) ds)"

lemma allowed_on_simps [simp]: "allowed_on k [] = 0"
  "allowed_on k (ds @ es) = allowed_on k ds + allowed_on k es"
  "allowed_on k [d] = (if allows_on k d then 1 else 0)"
  by (simp_all add: allowed_on_def)

lemma built_decision_allows:
  assumes "consulted_for conf v c" and "allows_on k (build_decision w q loaded v c now gid)"
  shows "spent_on (ask_scope (dq_ask q)) c k = 1"
  using assms
  by (auto simp: consulted_for_def allows_on_def build_decision_def spent_on_def consulted_ok_def
      split: option.splits if_splits)

text \<open>Every claim an ask takes pays for at most one thing: one recorded allow, or one release.\<close>

lemma ask_pays:
  assumes "rely w" and "store_ok (da_store s)" and "ask conf w q now on_connection s = (s', x)"
  shows "store_ok (da_store s') \<and>
    allowed_on k (da_log s') + backs k s' + claims k s \<le> allowed_on k (da_log s) + backs k s + claims k s'"
  using assms
proof (cases rule: ask_effect)
  case undecided
  then show ?thesis by simp
next
  case (decided loaded v c g s1)
  let ?d = "build_decision w q loaded v c now (map_option gr_id g)"
  have scope: "de_scope ?d = ask_scope (dq_ask q)" by (simp add: build_decision_def)
  note paid = built_decision_allows [OF decided(6), of k w q loaded now "map_option gr_id g"]
  have "backs k s' \<le> backs k s1 + spent_on (ask_scope (dq_ask q)) c k"
    using decided(11) scope by (auto simp: settled_by_def)
  then show ?thesis
    using decided(8,9,11) decided(10) [of k] paid scope by (auto simp: settled_by_def)
qed

end
