(* ===== verification/DecisionProperties.thy ===== *)
theory DecisionProperties
  imports DecisionEffects PolicyProperties StoreProperties RegistryProperties
begin

text \<open>
  The properties of the decision service. The examples run the service: one question under a policy that
  suspends it, asked twice, with a person's act in between.
\<close>

section \<open>Two asks and an act\<close>

definition example_composition :: composition where
  "example_composition = \<lparr>co_system_mode = True, co_configured = False, co_archive = False, co_approvals = True,
     co_settings = \<lparr>se_default_lifetime_seconds = 300, se_max_lifetime_seconds = 3600, se_heartbeat_seconds = 15\<rparr>\<rparr>"

definition example_world :: "policy \<Rightarrow> int \<Rightarrow> string \<Rightarrow> string \<Rightarrow> world" where
  "example_world p t aref dref = \<lparr>w_policy_access = (\<lambda>_. NotWritable), w_configuration_access = (\<lambda>_ _. NotWritable),
     w_schema_refuses = (\<lambda>_. False), w_version_moved = False, w_current_version = ''v1'',
     w_load = PolicyLoaded \<lparr>lp_policy = p, lp_policy_version = ''v1'', lp_content = None\<rparr>,
     w_keep = (\<lambda>_ _. None), w_others = (\<lambda>_ st. st), w_store_clock = (\<lambda>_. t), w_takes_up = (\<lambda>_. True),
     w_append = (\<lambda>_. Appended True), w_delivers = True, w_version_after = ''v1'', w_writer = obliging,
     w_registry_clock = t, w_decision_ref = dref, w_approval_ref = aref, w_grant_id = ''g1''\<rparr>"

lemma example_world_rely: "rely (example_world p t aref dref)"
  by (simp add: rely_def example_world_def)

definition starting :: "approval_store \<Rightarrow> daemon" where
  "starting st = \<lparr>da_store = st, da_trace = [], da_grants = example_registry, da_log = [], da_events = []\<rparr>"

definition asked_wait :: "question" where
  "asked_wait = \<lparr>q_scope = ''local'', q_principal_reference = ''user:ada'', q_capability = ''disk.write'',
     q_arguments_digest = ''-''\<rparr>"

definition first_wait :: approval where
  "first_wait = pending_approval ''a1'' ''d1'' asked_wait (Aware 0) (Aware 300000000)"

definition first_key :: key where
  "first_key = (''local'', ''a1'')"

definition kept_wait :: "approval \<Rightarrow> (int \<times> key) list \<Rightarrow> approval_store" where
  "kept_wait a lapses = \<lparr>by_reference = [(first_key, a)], by_question = [(asked_wait, [first_key])],
     due = [(300000000, first_key)], lapsing = lapses\<rparr>"

definition acted_wait :: approval where
  "acted_wait = acted_record (first_wait\<lparr>ap_published := True\<rparr>) ''user:bo'' APPROVE None 5"

definition spent_wait :: approval where
  "spent_wait = acted_wait\<lparr>ap_claimed := True, ap_consumed := True, ap_consumed_at := Some (Aware 10)\<rparr>"

lemmas wait_eval = first_key_def first_wait_def asked_wait_def kept_wait_def acted_wait_def spent_wait_def

lemma quiet_expiry: "(case due st of [] \<Rightarrow> True | x # _ \<Rightarrow> now < fst x) \<Longrightarrow>
    apply_op (OpExpirePast now) st = (st, Inr [])"
  by (auto simp: expire_past_def expire_loop.simps heapfront_def split: list.splits)

lemma quiet_forgetting: "lapsing st = [] \<Longrightarrow> apply_op (OpForgetLapsed now) st = (st, Inr [])"
  by (auto simp: forget_lapsed_def forget_loop.simps heapfront_def)

lemma wait_steps:
  "apply_op (OpExpirePast 0) empty_store = (empty_store, Inr [])"
  "apply_op (OpForgetLapsed 0) empty_store = (empty_store, Inr [])"
  "apply_op (OpExpirePast 10) (kept_wait a []) = (kept_wait a [], Inr [])"
  "apply_op (OpForgetLapsed 10) (kept_wait a []) = (kept_wait a [], Inr [])"
  by (simp_all add: quiet_forgetting quiet_expiry empty_store_def kept_wait_def del: apply_op.simps)

lemma wait_operations:
  "apply_op (OpOpenIfAbsent first_wait 0) empty_store = (kept_wait first_wait [], Inr [first_wait])"
  "apply_op (OpPublish ''local'' ''a1'') (kept_wait first_wait []) =
     (kept_wait (first_wait\<lparr>ap_published := True\<rparr>) [], Inr [first_wait\<lparr>ap_published := True\<rparr>])"
  "apply_op (OpResolve ''local'' ''a1'' ''user:bo'' APPROVE None 5) (kept_wait (first_wait\<lparr>ap_published := True\<rparr>) []) =
     (kept_wait acted_wait [], Inr [acted_wait])"
  "ap_question a = asked_wait \<Longrightarrow> apply_op (OpOpenIfAbsent a 10) (kept_wait acted_wait []) =
     (kept_wait acted_wait [], Inr [acted_wait])"
  "apply_op (OpClaim ''local'' ''a1'') (kept_wait acted_wait []) =
     (kept_wait (acted_wait\<lparr>ap_claimed := True\<rparr>) [], Inr [acted_wait\<lparr>ap_claimed := True\<rparr>])"
  "apply_op (OpConsume ''local'' ''a1'' 10) (kept_wait (acted_wait\<lparr>ap_claimed := True\<rparr>) []) =
     (kept_wait spent_wait [(300000010, first_key)], Inr [spent_wait])"
  by (simp_all add: store_eval wait_eval Let_def state_at_def)

lemma example_no_grants:
  "tick wr now v example_registry = example_registry" "snapshot example_registry = []"
  by (simp_all add: tick_def snapshot_def example_registry_def)

definition first_world :: world where
  "first_world = example_world example_policy 0 ''a1'' ''d1''"

definition second_world :: world where
  "second_world = example_world example_policy 10 ''a2'' ''d2''"

definition second_wait :: approval where
  "second_wait = pending_approval ''a2'' ''d2'' asked_wait (Aware 10) (Aware 300000010)"

lemma asked_example: "question_post_init (asked_question example_asking) = Inr asked_wait"
  by (simp add: question_post_init_def asked_question_def example_asking_def asked_wait_def pr_reference_def NO_DIGEST_def)

lemma example_openings:
  "approval_post_init (pending_approval ''a1'' ''d1'' asked_wait (Aware 0) (Aware 300000000)) = Inr first_wait"
  "approval_post_init (pending_approval ''a2'' ''d2'' asked_wait (Aware 10) (Aware 300000010)) = Inr second_wait"
proof -
  have "approval_ok first_wait" "approval_ok second_wait"
    by (simp_all add: approval_ok_iff first_wait_def second_wait_def pending_approval_def ended_inside_its_wait_def
        spent_after_its_act_def ACTED_def)
  then show "approval_post_init (pending_approval ''a1'' ''d1'' asked_wait (Aware 0) (Aware 300000000)) = Inr first_wait"
    "approval_post_init (pending_approval ''a2'' ''d2'' asked_wait (Aware 10) (Aware 300000010)) = Inr second_wait"
    by (simp_all add: approval_ok_def first_wait_def second_wait_def)
qed

lemma call_eq: "w_others w = (\<lambda>_ st. st) \<Longrightarrow> call w x s =
    (s\<lparr>da_store := fst (apply_op x (da_store s)), da_trace := da_trace s @ [(x, snd (apply_op x (da_store s)))]\<rparr>,
     snd (apply_op x (da_store s)))"
  by (simp add: call_def case_prod_unfold Let_def)

lemma example_sweeps:
  "sweep example_composition first_world 0 (starting empty_store) =
     ((starting empty_store)\<lparr>da_trace := [(OpExpirePast 0, Inr []), (OpForgetLapsed 0, Inr [])]\<rparr>, Inr ())"
  "sweep example_composition second_world 10 (starting (kept_wait acted_wait [])) =
     ((starting (kept_wait acted_wait []))\<lparr>da_trace := [(OpExpirePast 10, Inr []), (OpForgetLapsed 10, Inr [])]\<rparr>, Inr ())"
  by (simp_all add: sweep_def first_world_def second_world_def example_world_def example_composition_def
      end_the_waits_that_ran_out_def call_eq wait_steps starting_def example_no_grants del: apply_op.simps)

lemma wait_parts:
  "ap_ref first_wait = ''a1''" "ap_ref second_wait = ''a2''" "ap_ref acted_wait = ''a1''"
  "ap_scope first_wait = ''local''" "ap_scope acted_wait = ''local''" "ap_state acted_wait = APPROVED"
  "ap_claimed acted_wait = False" "ap_question second_wait = asked_wait"
  by (simp_all add: first_wait_def second_wait_def acted_wait_def acted_record_def pending_approval_def ap_scope_def
      asked_wait_def state_of_def)

definition first_trace :: "answered list" where
  "first_trace = [(OpExpirePast 0, Inr []), (OpForgetLapsed 0, Inr []), (OpOpenIfAbsent first_wait 0, Inr [first_wait]),
     (OpPublish ''local'' ''a1'', Inr [first_wait\<lparr>ap_published := True\<rparr>])]"

definition second_trace :: "answered list" where
  "second_trace = [(OpExpirePast 10, Inr []), (OpForgetLapsed 10, Inr []), (OpOpenIfAbsent second_wait 10, Inr [acted_wait]),
     (OpClaim ''local'' ''a1'', Inr [acted_wait\<lparr>ap_claimed := True\<rparr>]),
     (OpConsume ''local'' ''a1'' 10, Inr [spent_wait])]"

definition suspending :: "consulted" where
  "suspending = \<lparr>cs_outcome = SUSPEND, cs_reason = POLICY_REQUIRES_REVIEW, cs_approval_ref = ''a1'', cs_spend = False,
     cs_opened = True\<rparr>"

definition granting :: "consulted" where
  "granting = \<lparr>cs_outcome = ALLOW, cs_reason = APPROVAL_GRANTED, cs_approval_ref = ''a1'', cs_spend = True,
     cs_opened = False\<rparr>"

definition example_suspended :: verdict where
  "example_suspended = \<lparr>vd_outcome = SUSPEND, vd_reason = POLICY_REQUIRES_REVIEW, vd_rule_id = Some ''ask'',
     vd_rule = Some (example_rule ''ask'' SUSPEND)\<rparr>"

definition example_loaded :: "policy \<Rightarrow> loaded_policy" where
  "example_loaded p = \<lparr>lp_policy = p, lp_policy_version = ''v1'', lp_content = None\<rparr>"

definition first_decision :: decision where
  "first_decision = build_decision first_world example_asking (example_loaded example_policy) example_suspended
     (Some suspending) 0 None"

definition second_decision :: decision where
  "second_decision = build_decision second_world example_asking (example_loaded example_policy) example_suspended
     (Some granting) 10 None"

lemma example_consultations:
  "consult_approvals first_world example_asking (example_rule ''ask'' SUSPEND) ''d1'' 0
     ((starting empty_store)\<lparr>da_trace := take 2 first_trace\<rparr>) =
   ((starting (kept_wait first_wait []))\<lparr>da_trace := take 3 first_trace\<rparr>, Inr suspending)"
  "consult_approvals second_world example_asking (example_rule ''ask'' SUSPEND) ''d2'' 10
     ((starting (kept_wait acted_wait []))\<lparr>da_trace := take 2 second_trace\<rparr>) =
   ((starting (kept_wait (acted_wait\<lparr>ap_claimed := True\<rparr>) []))\<lparr>da_trace := take 4 second_trace\<rparr>, Inr granting)"
  by (simp_all add: consult_approvals_def first_world_def second_world_def example_world_def example_rule_def
      seconds_def asked_example example_openings CLAIM_TRIES_def numeral_eq_Suc call_eq starting_def wait_operations
      Let_def wait_parts open_with_def first_trace_def second_trace_def suspending_def granting_def
      del: apply_op.simps)

lemma example_decisions:
  "de_scope first_decision = ''local''" "de_scope second_decision = ''local''"
  "de_outcome first_decision = SUSPEND" "de_outcome second_decision = ALLOW"
  "de_approval_ref second_decision = Some ''a1''" "de_approval_ref first_decision = Some ''a1''"
  by (simp_all add: first_decision_def second_decision_def build_decision_def example_asking_def suspending_def
      granting_def)

lemma example_asked:
  "ask_scope (dq_ask example_asking) = ''local''" "w_schema_refuses (example_world p t a d) = (\<lambda>_. False)"
  "refused_access example_composition (example_world p t a d) y = None"
  "w_load (example_world p t a d) = PolicyLoaded (example_loaded p)"
  "archive_policy example_composition w l = None" "lp_policy (example_loaded p) = p"
  "co_approvals example_composition" "vd_outcome example_suspended = SUSPEND"
  "vd_rule example_suspended = Some (example_rule ''ask'' SUSPEND)"
  by (simp_all add: example_asking_def example_world_def refused_access_def example_composition_def example_loaded_def
      archive_policy_def example_suspended_def)

lemma example_suspends: "evaluate example_policy example_asking = Inr example_suspended"
  by (simp add: example_verdict example_suspended_def)

definition first_answer :: answer where
  "first_answer = DecisionAnswer \<lparr>an_decision = first_decision\<lparr>de_extra := de_extra first_decision @ [(''grant'', JNull)]\<rparr>,
     an_grant = None, an_connection = None\<rparr>"

definition second_answer :: answer where
  "second_answer = DecisionAnswer \<lparr>an_decision = second_decision\<lparr>de_extra := de_extra second_decision @ [(''grant'', JNull)]\<rparr>,
     an_grant = None, an_connection = None\<rparr>"

definition first_end :: daemon where
  "first_end = \<lparr>da_store = kept_wait (first_wait\<lparr>ap_published := True\<rparr>) [], da_trace = first_trace,
     da_grants = example_registry, da_log = [first_decision], da_events = [DecisionRecorded ''local'' ''d1'']\<rparr>"

definition second_end :: daemon where
  "second_end = \<lparr>da_store = kept_wait spent_wait [(300000010, first_key)], da_trace = second_trace,
     da_grants = example_registry, da_log = [second_decision], da_events = [DecisionRecorded ''local'' ''d2'']\<rparr>"

lemma example_decides:
  "settle first_world ''local'' (Some suspending)
     (decide example_composition first_world example_asking (example_loaded example_policy) example_suspended
        (Some suspending) 0 False ((starting (kept_wait first_wait []))\<lparr>da_trace := take 3 first_trace\<rparr>)) =
   (first_end, Inr first_answer)"
  "settle second_world ''local'' (Some granting)
     (decide example_composition second_world example_asking (example_loaded example_policy) example_suspended
        (Some granting) 10 False
        ((starting (kept_wait (acted_wait\<lparr>ap_claimed := True\<rparr>) []))\<lparr>da_trace := take 4 second_trace\<rparr>)) =
   (second_end, Inr second_answer)"
proof -
  have parts: "w_append (example_world p t a d) x = Appended True"
      "w_others (example_world p t a d) = (\<lambda>_ st. st)" "w_store_clock (example_world p t a d) n = t" for p t a d x n
    by (simp_all add: example_world_def)
  have refs: "de_ref first_decision = ''d1''" "de_ref second_decision = ''d2''"
    by (simp_all add: first_decision_def second_decision_def build_decision_def first_world_def second_world_def
        example_world_def)
  note eval = settle_def decide_def Let_def prepare_grant_def append_and_answer_def publish_opened_def parts call_eq
    wait_operations starting_def example_decisions log_decision_event_def refs
  show "settle first_world ''local'' (Some suspending)
     (decide example_composition first_world example_asking (example_loaded example_policy) example_suspended
        (Some suspending) 0 False ((starting (kept_wait first_wait []))\<lparr>da_trace := take 3 first_trace\<rparr>)) =
   (first_end, Inr first_answer)"
    by (simp add: decide_def first_decision_def [symmetric])
      (simp add: eval first_world_def suspending_def first_end_def first_answer_def first_trace_def del: apply_op.simps)
  show "settle second_world ''local'' (Some granting)
     (decide example_composition second_world example_asking (example_loaded example_policy) example_suspended
        (Some granting) 10 False
        ((starting (kept_wait (acted_wait\<lparr>ap_claimed := True\<rparr>) []))\<lparr>da_trace := take 4 second_trace\<rparr>)) =
   (second_end, Inr second_answer)"
    by (simp add: decide_def second_decision_def [symmetric])
      (simp add: eval second_world_def granting_def second_end_def second_answer_def second_trace_def del: apply_op.simps)
qed

lemma example_asks:
  "ask example_composition first_world example_asking 0 False (starting empty_store) = (first_end, Inr first_answer)"
  "ask example_composition second_world example_asking 10 False (starting (kept_wait acted_wait [])) =
     (second_end, Inr second_answer)"
proof -
  have refs: "w_decision_ref first_world = ''d1''" "w_decision_ref second_world = ''d2''"
    by (simp_all add: first_world_def second_world_def example_world_def)
  have traces: "take 2 first_trace = [(OpExpirePast 0, Inr []), (OpForgetLapsed 0, Inr [])]"
    "take 2 second_trace = [(OpExpirePast 10, Inr []), (OpForgetLapsed 10, Inr [])]"
    by (simp_all add: first_trace_def second_trace_def)
  note consult = example_consultations [unfolded traces]
  note asked = example_asked(2-4) [where p = example_policy and t = 0 and a = "''a1''" and d = "''d1''", folded first_world_def]
    example_asked(2-4) [where p = example_policy and t = 10 and a = "''a2''" and d = "''d2''", folded second_world_def]
  show "ask example_composition first_world example_asking 0 False (starting empty_store) = (first_end, Inr first_answer)"
    "ask example_composition second_world example_asking 10 False (starting (kept_wait acted_wait [])) =
       (second_end, Inr second_answer)"
    by (simp_all add: ask_def example_sweeps asked ask_loaded_def example_asked(1,5-9) example_suspends refs consult example_decides)
qed

section \<open>One approval, one recorded allow\<close>

text \<open>What one ask leaves: started with no call and no record of its own, on a well-formed store.\<close>

definition left_by_an_ask :: "daemon \<Rightarrow> bool" where
  "left_by_an_ask s' \<longleftrightarrow> (\<exists>conf w q now on_connection s x. rely w \<and> store_ok (da_store s) \<and> da_trace s = [] \<and>
     da_log s = [] \<and> ask conf w q now on_connection s = (s', x))"

lemma times_mset: "times P xs = size (filter_mset P (mset xs))"
  by (simp add: times_def flip: mset_filter)

lemma left_by_an_ask_pays:
  assumes "left_by_an_ask s"
  shows "allowed_on k (da_log s) + times (gives_back k) (da_trace s) \<le> times (takes_claim k) (da_trace s)"
  using assms ask_pays [of _ _ _ _ _ _ _ _ k]
  by (fastforce simp: left_by_an_ask_def claims_def backs_def)

lemma asks_pay:
  assumes "\<forall>s \<in> set finals. left_by_an_ask s"
  shows "(\<Sum>s\<leftarrow>finals. allowed_on k (da_log s)) + size (filter_mset (gives_back k) (\<Sum>s\<leftarrow>finals. mset (da_trace s))) \<le>
    size (filter_mset (takes_claim k) (\<Sum>s\<leftarrow>finals. mset (da_trace s)))"
  using assms
proof (induction finals)
  case Nil
  then show ?case by simp
next
  case (Cons s finals)
  with left_by_an_ask_pays [of s k] show ?case by (simp add: times_mset)
qed

lemma held_le_outstanding:
  assumes "store_ok st"
  shows "held (kept st k) \<le> outstanding st k"
proof (cases "kept st k")
  case None
  then show ?thesis by simp
next
  case (Some a)
  then have "approval_ok a" using store_okD(1) [OF assms] by simp
  with Some claimed_approved [of a] show ?thesis by (auto simp: held_def outstanding_def)
qed

text \<open>
  C2: whatever the interleaving of asks, acts, releases and sweeps on the approval store, the decisions recorded
  as allowed on an approval never outnumber the acts by which a person approved it, as long as only asks give
  claims back: one approval authorises one recorded allow.
\<close>

theorem one_approval_one_recorded_allow:
  assumes "\<forall>x \<in> set ops. op_ok x" and "\<forall>s \<in> set finals. left_by_an_ask s"
    and "mset (snd (run_ops ops empty_store)) = (\<Sum>s\<leftarrow>finals. mset (da_trace s)) + others"
    and "\<forall>x \<in># others. \<not> gives_back k x"
  shows "(\<Sum>s\<leftarrow>finals. allowed_on k (da_log s)) \<le> times (grants_execution k) (snd (run_ops ops empty_store))"
proof -
  let ?H = "snd (run_ops ops empty_store)" and ?st = "fst (run_ops ops empty_store)"
  have ok: "store_ok ?st" by (rule run_ops_ok [OF empty_store_ok assms(1)])
  have none: "filter_mset (gives_back k) others = {#}" using assms(4) by (auto simp: multiset_eq_iff count_eq_zero_iff)
  have "(\<Sum>s\<leftarrow>finals. allowed_on k (da_log s)) + times (gives_back k) ?H \<le> times (takes_claim k) ?H"
    using asks_pay [OF assms(2), of k] by (simp add: times_mset assms(3) none)
  moreover have "times (takes_claim k) ?H = held (kept ?st k) + times (gives_back k) ?H + times (spends_execution k) ?H"
    using run_ops_claims [OF empty_store_ok assms(1), of k] by (simp add: empty_store_def)
  moreover have "times (grants_execution k) ?H = outstanding ?st k + times (spends_execution k) ?H"
    using run_ops_conserves [OF empty_store_ok assms(1), of k] by (simp add: outstanding_def empty_store_def)
  ultimately show ?thesis using held_le_outstanding [OF ok, of k] by simp
qed

definition act_on_wait :: store_op where
  "act_on_wait = OpResolve ''local'' ''a1'' ''user:bo'' APPROVE None 5"

definition history :: "store_op list" where
  "history = map fst first_trace @ [act_on_wait] @ map fst second_trace"

lemma history_run: "snd (run_ops history empty_store) = first_trace @ [(act_on_wait, Inr [acted_wait])] @ second_trace"
  by (simp add: history_def first_trace_def second_trace_def act_on_wait_def wait_steps wait_operations wait_parts
      del: apply_op.simps)

lemma opened_ok: "approval_ok first_wait" "approval_ok second_wait"
  using example_openings post_init_same [OF example_openings(1)] post_init_same [OF example_openings(2)]
  by (simp_all add: approval_ok_def)

lemma second_start: "rely second_world" "store_ok (da_store (starting (kept_wait acted_wait [])))"
proof -
  have "store_ok (kept_wait acted_wait [])"
    using run_ops_ok [OF empty_store_ok, of "[OpOpenIfAbsent first_wait 0, OpPublish ''local'' ''a1'', act_on_wait]"]
      opened_ok by (simp add: wait_operations act_on_wait_def del: apply_op.simps)
  then show "rely second_world" "store_ok (da_store (starting (kept_wait acted_wait [])))"
    by (simp_all add: second_world_def example_world_rely starting_def)
qed

lemma asks_left: "left_by_an_ask first_end" "left_by_an_ask second_end"
proof -
  have "da_trace (starting st) = []" "da_log (starting st) = []" "rely first_world"
    "store_ok (da_store (starting empty_store))" for st
    by (simp_all add: starting_def first_world_def example_world_rely empty_store_ok)
  with second_start example_asks show "left_by_an_ask first_end" "left_by_an_ask second_end"
    unfolding left_by_an_ask_def by metis+
qed

theorem one_approval_one_recorded_allow_witness:
  "allowed_on first_key (da_log second_end) = 1 \<and>
   allowed_on first_key (da_log first_end) + allowed_on first_key (da_log second_end) \<le> 1"
proof -
  have ops: "\<forall>x \<in> set history. op_ok x"
    using opened_ok by (simp add: history_def first_trace_def second_trace_def act_on_wait_def)
  have split: "mset (snd (run_ops history empty_store)) =
      (\<Sum>s\<leftarrow>[first_end, second_end]. mset (da_trace s)) + {#(act_on_wait, Inr [acted_wait])#}"
    by (simp add: history_run first_end_def second_end_def)
  have "times (grants_execution first_key) (snd (run_ops history empty_store)) = 1"
    unfolding history_run by (simp add: first_trace_def second_trace_def act_on_wait_def first_key_def)
  with one_approval_one_recorded_allow [OF ops _ split, of first_key] asks_left show ?thesis
    by (simp add: act_on_wait_def second_end_def allows_on_def example_decisions first_key_def)
qed

section \<open>An answer is a decision that was taken and recorded\<close>

text \<open>
  C3: an ask answers with a decision only when nothing refused it first: in a system installation the principal
  could write neither the policy nor the configuration, the ask obeyed the published schema, a policy was loaded
  and archived, and the evaluation decided. Exactly that decision, and no other, was appended to the record; its
  outcome and reason are the policy's own, or, on a suspension put to the approvals, an allow that took a claim
  on the approval it names, a deny or a suspension.
\<close>

theorem every_answer_was_decided_and_recorded:
  assumes "rely w" and "store_ok (da_store s)"
    and "ask conf w q now on_connection s = (s', Inr (DecisionAnswer a))"
  shows "refused_access conf w (dq_principal q) = None \<and> \<not> w_schema_refuses w (dq_ask q) \<and>
    (\<exists>loaded v d. w_load w = PolicyLoaded loaded \<and> archive_policy conf w loaded = None \<and>
       evaluate (lp_policy loaded) q = Inr v \<and> w_append w d = Appended True \<and>
       da_log s' = da_log s @ [d] \<and> (\<exists>extra. an_decision a = d\<lparr>de_extra := extra\<rparr>) \<and>
       de_scope d = ask_scope (dq_ask q) \<and> de_policy_version d = Some (lp_policy_version loaded) \<and>
       (de_outcome d = vd_outcome v \<and> de_reason d = vd_reason v \<and> de_approval_ref d = None \<or>
        vd_outcome v = SUSPEND \<and> co_approvals conf \<and> (\<exists>ref. de_approval_ref d = Some ref \<and>
          (de_outcome d = ALLOW \<longleftrightarrow> de_reason d = APPROVAL_GRANTED) \<and>
          (de_outcome d = ALLOW \<longrightarrow>
             claims (ask_scope (dq_ask q), ref) s' = Suc (claims (ask_scope (dq_ask q), ref) s)))))"
  using assms
proof (cases rule: ask_effect)
  case undecided
  from undecided(4) [of a] show ?thesis by simp
next
  case (decided loaded v c g s1)
  let ?d = "build_decision w q loaded v c now (map_option gr_id g)"
  have ends_so: "w_append w ?d = Appended True" "da_log s' = da_log s @ [?d]"
      "\<exists>extra. an_decision a = ?d\<lparr>de_extra := extra\<rparr>"
    using decided(9,12) by (auto simp: answers_for_def)
  have from_claims: "claims k s' = claims k s + spent_on (ask_scope (dq_ask q)) c k" for k
    using decided(10,11) by (simp add: settled_by_def)
  have "de_outcome ?d = vd_outcome v \<and> de_reason ?d = vd_reason v \<and> de_approval_ref ?d = None \<or>
      vd_outcome v = SUSPEND \<and> co_approvals conf \<and> (\<exists>ref. de_approval_ref ?d = Some ref \<and>
        (de_outcome ?d = ALLOW \<longleftrightarrow> de_reason ?d = APPROVAL_GRANTED) \<and>
        (de_outcome ?d = ALLOW \<longrightarrow>
           claims (ask_scope (dq_ask q), ref) s' = Suc (claims (ask_scope (dq_ask q), ref) s)))"
    using decided(6) unfolding from_claims
    by (cases c) (auto simp: build_decision_def consulted_for_def consulted_ok_def spent_on_def)
  moreover have "de_scope ?d = ask_scope (dq_ask q)" "de_policy_version ?d = Some (lp_policy_version loaded)"
    by (simp_all add: build_decision_def)
  ultimately show ?thesis using decided(1-5) ends_so by blast
qed

theorem every_answer_was_decided_and_recorded_witness:
  "da_log second_end = [second_decision] \<and> claims first_key second_end = 1"
proof -
  have asked: "ask example_composition second_world example_asking 10 False (starting (kept_wait acted_wait [])) =
      (second_end, Inr (DecisionAnswer \<lparr>an_decision = second_decision\<lparr>de_extra := de_extra second_decision @
        [(''grant'', JNull)]\<rparr>, an_grant = None, an_connection = None\<rparr>))"
    using example_asks(2) by (simp add: second_answer_def)
  have start: "claims k (starting st) = 0" "da_log (starting st) = []" for k st
    by (simp_all add: claims_def starting_def)
  have log: "da_log second_end = [second_decision]" by (simp add: second_end_def)
  from every_answer_was_decided_and_recorded [OF second_start asked] obtain d v where
    "da_log second_end = da_log (starting (kept_wait acted_wait [])) @ [d]" and
    paid: "de_approval_ref d = None \<or> (\<exists>ref. de_approval_ref d = Some ref \<and> (de_outcome d = ALLOW \<longrightarrow>
      claims (ask_scope (dq_ask example_asking), ref) second_end =
        Suc (claims (ask_scope (dq_ask example_asking), ref) (starting (kept_wait acted_wait [])))))"
    by blast
  then have "d = second_decision" by (simp add: log start)
  with paid have "claims (''local'', ''a1'') second_end = 1"
    by (simp add: start example_decisions example_asked)
  with log show ?thesis by (simp add: first_key_def)
qed



definition broken_world :: world where
  "broken_world = first_world\<lparr>w_load := PolicyUnavailable\<rparr>"

lemma broken_ask: "ask example_composition broken_world example_asking 0 False (starting empty_store) =
    ((starting empty_store)\<lparr>da_trace := take 2 first_trace\<rparr>, Inr (DecisionProblem PolicyUnavailableCode))"
proof -
  have "sweep example_composition broken_world 0 (starting empty_store) =
      ((starting empty_store)\<lparr>da_trace := take 2 first_trace\<rparr>, Inr ())"
    by (simp add: sweep_def broken_world_def first_world_def example_world_def example_composition_def
      end_the_waits_that_ran_out_def call_eq wait_steps starting_def example_no_grants first_trace_def
      del: apply_op.simps)
  moreover have "refused_access example_composition broken_world (dq_principal example_asking) = None"
    "\<not> w_schema_refuses broken_world (dq_ask example_asking)"
    by (simp_all add: broken_world_def first_world_def refused_access_def example_composition_def example_world_def)
  ultimately show ?thesis by (simp add: ask_def) (simp add: broken_world_def)
qed

text \<open>
  C22: a grant rides only on an allow the policy itself gave on a connection that can carry one, never on an
  allow that spends a person's approval, and it lives no longer than the rule's lifetime, the default and the
  configured maximum.
\<close>

theorem grants_follow_policy_allows:
  assumes "rely w" and "store_ok (da_store s)"
    and "ask conf w q now on_connection s = (s', Inr (DecisionAnswer a))" and "an_grant a = Some g"
  shows "on_connection \<and> de_outcome (an_decision a) = ALLOW \<and> de_approval_ref (an_decision a) = None \<and>
    gr_decision_ref g = de_ref (an_decision a) \<and>
    gr_expires_at g = now + seconds (gr_lifetime_seconds g) \<and>
    gr_lifetime_seconds g \<le> se_max_lifetime_seconds (co_settings conf) \<and>
    gr_lifetime_seconds g \<le> se_default_lifetime_seconds (co_settings conf) \<and>
    (\<exists>loaded v. w_load w = PolicyLoaded loaded \<and> evaluate (lp_policy loaded) q = Inr v \<and> vd_outcome v = ALLOW \<and>
       (\<forall>n \<in> set_option (Option.bind (vd_rule v) ru_grant_lifetime_seconds). gr_lifetime_seconds g \<le> n))"
  using assms(1-3)
proof (cases rule: ask_effect)
  case undecided
  from undecided(4) [of a] show ?thesis by simp
next
  case (decided loaded v c g' s1)
  have g': "g' = Some g" using decided(12) assms(4) by (simp add: answers_for_def)
  note minted = decided(7) [OF g', unfolded minted_for_def]
  have c: "c = None" and v: "vd_outcome v = ALLOW"
    using minted decided(6)
    by (auto simp: consulted_for_def build_decision_def spends_def consulted_ok_def split: option.splits)
  have parts: "gr_decision_ref g = w_decision_ref w" "gr_expires_at g = now + seconds (gr_lifetime_seconds g)"
      "gr_lifetime_seconds g = grant_lifetime (co_settings conf) (Option.bind (vd_rule v) ru_grant_lifetime_seconds)"
    using minted by (auto simp: mint_grant_Inr grant_post_init_ok build_decision_def)
  have decision: "de_outcome (an_decision a) = ALLOW" "de_approval_ref (an_decision a) = None"
      "de_ref (an_decision a) = w_decision_ref w"
    using decided(12) c v by (simp_all add: answers_for_def build_decision_def)
  have bounds: "grant_lifetime st l \<le> se_max_lifetime_seconds st" "grant_lifetime st l \<le> se_default_lifetime_seconds st"
      "\<forall>n \<in> set_option l. grant_lifetime st l \<le> n" for st l
    by (auto simp: grant_lifetime_def Let_def min_def split: option.split)
  show ?thesis
    using decided(3,5) v minted parts decision bounds [where st = "co_settings conf"] by auto
qed

text \<open>The same question under a policy that allows it, on a connection that can carry a grant.\<close>

definition allowing_policy :: policy where
  "allowing_policy = \<lparr>po_format = 1, po_revision_reason = ''first'', po_rules = [example_rule ''open'' ALLOW]\<rparr>"

definition allowing_world :: world where
  "allowing_world = example_world allowing_policy 0 ''a1'' ''d1''"

definition allowing_verdict :: verdict where
  "allowing_verdict = \<lparr>vd_outcome = ALLOW, vd_reason = POLICY_ALLOWS, vd_rule_id = Some ''open'',
     vd_rule = Some (example_rule ''open'' ALLOW)\<rparr>"

lemma allowing_evaluation: "evaluate allowing_policy example_asking = Inr allowing_verdict"
  by (simp add: evaluate_def allowing_policy_def example_applies STRICTEST_FIRST_def allowing_verdict_def)
    (simp add: example_rule_def)

definition allowed_decision :: "string option \<Rightarrow> decision" where
  "allowed_decision gid = build_decision allowing_world example_asking (example_loaded allowing_policy) allowing_verdict
     None 0 gid"

definition allowed_grant :: grant where
  "allowed_grant = \<lparr>gr_id = ''g1'', gr_decision_ref = ''d1'', gr_policy_version = ''v1'', gr_issued_at = 0,
     gr_lifetime_seconds = 60, gr_expires_at = 60000000, gr_heartbeat_seconds = 15,
     gr_conditions = \<lparr>gc_scope = ''local'', gc_capability = ''disk.write'', gc_principal_reference = ''user:ada'',
       gc_arguments_digest = None\<rparr>\<rparr>"

lemma allowed_grant_minted: "mint_grant (allowed_decision None) 0 60 ''v1'' 15 ''g1'' = Inr allowed_grant"
  by (simp add: mint_grant_def allowed_decision_def build_decision_def allowing_world_def example_world_def
      allowing_verdict_def example_loaded_def decision_extra_def example_asking_def grant_post_init_def
      allowed_grant_def seconds_def text_or_none_def opt_str_def)

lemma allowing_sweep: "sweep example_composition allowing_world 0 (starting empty_store) =
    ((starting empty_store)\<lparr>da_trace := take 2 first_trace\<rparr>, Inr ())"
  by (simp add: sweep_def allowing_world_def example_world_def example_composition_def
      end_the_waits_that_ran_out_def call_eq wait_steps starting_def example_no_grants first_trace_def
      del: apply_op.simps)

lemma example_capacity: "reserve 1000 example_registry =
    (example_registry\<lparr>rg_reserved_total := 1, rg_reserved_by_principal := [(1000, 1)], rg_reservations := [(1000, True)]\<rparr>,
     Some 0)"
  by (simp add: reserve_def has_capacity_def example_registry_def reserved_by_def connected_by_def)

lemma example_delivery:
  assumes "da_grants s = example_registry\<lparr>rg_reserved_total := 1, rg_reserved_by_principal := [(1000, 1)],
      rg_reservations := [(1000, True)]\<rparr>"
  shows "snd (deliver_and_register allowing_world a allowed_grant 0 s) = Inr (DecisionAnswer (a\<lparr>an_connection := Some 0\<rparr>))"
  by (simp add: assms deliver_and_register_def allowing_world_def example_world_def reservation_open_def
      example_registry_def open_reserved_def release_reservation_def allowed_grant_def Let_def reserved_by_def
      log_event_def)

lemma allowing_ask: "\<exists>s' a. ask example_composition allowing_world example_asking 0 True (starting empty_store) =
    (s', Inr (DecisionAnswer a)) \<and> an_grant a = Some allowed_grant"
proof -
  let ?s = "(starting empty_store)\<lparr>da_trace := take 2 first_trace\<rparr>"
  let ?d = "allowed_decision (Some ''g1'')"
  have d: "de_outcome (allowed_decision gid) = ALLOW" "de_scope (allowed_decision gid) = ''local''" for gid
    by (simp_all add: allowed_decision_def build_decision_def allowing_verdict_def example_asking_def)
  have w: "w_append allowing_world x = Appended True" "w_grant_id allowing_world = ''g1''" for x
    by (simp_all add: allowing_world_def example_world_def)
  have conf: "se_heartbeat_seconds (co_settings example_composition) = 15"
    "grant_lifetime (co_settings example_composition) (Some 60) = 60"
    by (simp_all add: example_composition_def grant_lifetime_def)
  have v: "Option.bind (vd_rule allowing_verdict) ru_grant_lifetime_seconds = Some 60"
    "lp_policy_version (example_loaded allowing_policy) = ''v1''" "gr_id allowed_grant = ''g1''"
    "pr_uid (dq_principal example_asking) = 1000" "da_grants (starting st) = example_registry" for st
    by (simp_all add: allowing_verdict_def example_rule_def example_loaded_def allowed_grant_def example_asking_def
        starting_def)
  have prepared: "prepare_grant example_composition allowing_world (allowed_decision None) (Some 60) 0 ''v1'' (Some 0) =
      Inr (Some allowed_grant)"
    by (simp add: prepare_grant_def d conf w allowed_grant_minted)
  have "\<exists>s' a. settle allowing_world ''local'' None (decide example_composition allowing_world example_asking
      (example_loaded allowing_policy) allowing_verdict None 0 True ?s) = (s', Inr (DecisionAnswer a)) \<and>
      an_grant a = Some allowed_grant"
    unfolding decide_def allowed_decision_def [symmetric]
    by (simp add: Let_def d v example_capacity prepared settle_def append_and_answer_def w publish_opened_def
        log_decision_event_def case_prod_unfold example_delivery)
  then show ?thesis
    using allowing_evaluation
    by (simp add: ask_def allowing_sweep ask_loaded_def example_asked)
      (simp add: allowing_world_def example_asked ask_loaded_def allowing_verdict_def)
qed

theorem grants_follow_policy_allows_witness:
  "gr_lifetime_seconds allowed_grant \<le> 300 \<and> gr_expires_at allowed_grant = seconds (gr_lifetime_seconds allowed_grant)"
proof -
  obtain s' a where asked: "ask example_composition allowing_world example_asking 0 True (starting empty_store) =
      (s', Inr (DecisionAnswer a))" "an_grant a = Some allowed_grant"
    using allowing_ask by blast
  have "rely allowing_world" "store_ok (da_store (starting empty_store))"
    by (simp_all add: allowing_world_def example_world_rely empty_store_ok starting_def)
  from grants_follow_policy_allows [OF this asked] show ?thesis
    by (simp add: example_composition_def)
qed

end
