(* ===== verification/Canonical.thy ===== *)
theory Canonical
  imports Json
begin

text \<open>
  The one serialisation every hash of the program is taken over: \<open>canonical_json\<close> of domain/evidence_chain.py and
  of contract/evidence_recipes.py, which is \<open>json.dumps\<close> with sorted keys, no spaces and ASCII escapes. A string
  is a list of code points below 256, so its UTF-8 has one or two bytes for each.
\<close>

section \<open>Bytes\<close>

definition utf8 :: "string \<Rightarrow> string" where
  "utf8 s = concat (map (\<lambda>c. let n = of_char c :: nat in
     if n < 128 then [c] else [char_of (192 + n div 64), char_of (128 + n mod 64)]) s)"

definition hex_digit :: "nat \<Rightarrow> char" where
  "hex_digit n = char_of (if n < 10 then 48 + n else 87 + n)"

definition hex_value :: "char \<Rightarrow> nat" where
  "hex_value c = (let n = of_char c in if n < 58 then n - 48 else n - 87)"

lemma hex_value_digit [simp]: "n < 16 \<Longrightarrow> hex_value (hex_digit n) = n"
  by (auto simp: hex_value_def hex_digit_def of_char_of)

section \<open>Strings\<close>

text \<open>\<open>py_encode_basestring_ascii\<close>: what is not printable ASCII is escaped.\<close>

definition escape :: "char \<Rightarrow> string" where
  "escape c = (let n = of_char c in
     if n = 34 then [char_of (92::nat), c]
     else if n = 92 then [c, c]
     else if n = 10 then [char_of (92::nat), CHR ''n'']
     else if n = 13 then [char_of (92::nat), CHR ''r'']
     else if n = 9 then [char_of (92::nat), CHR ''t'']
     else if n = 12 then [char_of (92::nat), CHR ''f'']
     else if n = 8 then [char_of (92::nat), CHR ''b'']
     else if 32 \<le> n \<and> n \<le> 126 then [c]
     else [char_of (92::nat), CHR ''u'', CHR ''0'', CHR ''0'', hex_digit (n div 16), hex_digit (n mod 16)])"

definition quoted :: "string \<Rightarrow> string" where
  "quoted s = CHR 0x22 # concat (map escape s) @ [CHR 0x22]"

text \<open>Reading one escaped character back.\<close>

definition unescape :: "string \<Rightarrow> (char \<times> string) option" where
  "unescape s = (case s of
      [] \<Rightarrow> None
    | c # r \<Rightarrow> if of_char c \<noteq> (92::nat) then Some (c, r)
        else (case r of
            [] \<Rightarrow> None
          | e # t \<Rightarrow>
              if e = CHR ''n'' then Some (char_of (10::nat), t)
              else if e = CHR ''r'' then Some (char_of (13::nat), t)
              else if e = CHR ''t'' then Some (char_of (9::nat), t)
              else if e = CHR ''f'' then Some (char_of (12::nat), t)
              else if e = CHR ''b'' then Some (char_of (8::nat), t)
              else if e = CHR ''u''
              then Some (char_of (16 * hex_value (t ! 2) + hex_value (t ! 3)), drop 4 t)
              else Some (e, t)))"

lemma unescape_escape: "unescape (escape c @ r) = Some (c, r)"
proof -
  define n where "n = (of_char c :: nat)"
  have n: "n < 256" and c: "c = char_of n" by (simp_all add: n_def)
  have value_n: "16 * (n div 16) + n mod 16 = n" by simp
  have hexes: "hex_value (hex_digit (n div 16)) = n div 16" "hex_value (hex_digit (n mod 16)) = n mod 16"
    using n by simp_all
  note code = escape_def unescape_def Let_def of_char_of
  consider "n \<in> {8, 9, 10, 12, 13, 34, 92}" | (plain) "n \<notin> {8, 9, 10, 12, 13, 34, 92}" "32 \<le> n" "n \<le> 126"
    | (hex) "n \<notin> {8, 9, 10, 12, 13, 34, 92}" "\<not> (32 \<le> n \<and> n \<le> 126)" by blast
  then show ?thesis
  proof cases
    case 1
    then show ?thesis unfolding c by (elim insertE emptyE) (simp_all add: code char_of_def bit_0)
  next
    case plain
    then show ?thesis unfolding c using n by (simp add: code)
  next
    case hex
    then have "escape c = [char_of (92::nat), CHR ''u'', CHR ''0'', CHR ''0'', hex_digit (n div 16), hex_digit (n mod 16)]"
      unfolding c using n by (simp add: escape_def Let_def of_char_of)
    moreover have "unescape ([char_of (92::nat), CHR ''u'', CHR ''0'', CHR ''0'', a, b] @ r) =
        Some (char_of (16 * hex_value a + hex_value b), r)" for a b
    proof -
      have "(x # y # a # b # r) ! 2 = a" "(x # y # a # b # r) ! 3 = b" "drop 4 (x # y # a # b # r) = r" for x y
        by (simp_all add: numeral_2_eq_2 numeral_3_eq_3 eval_nat_numeral)
      then show ?thesis by (simp add: unescape_def)
    qed
    ultimately show ?thesis by (simp only: hexes value_n c)
  qed
qed

lemma escape_nonempty [simp]: "escape c \<noteq> []"
  by (simp add: escape_def Let_def)

lemma escape_hd: "hd (escape c) = CHR 0x22 \<Longrightarrow> False"
proof -
  assume "hd (escape c) = CHR 0x22"
  then have "(of_char (hd (escape c)) :: nat) = 34" by simp
  then show False
    by (auto simp: escape_def Let_def of_char_of split: if_splits)
qed

lemma escape_not_quote: "escape c @ x \<noteq> CHR 0x22 # y" "CHR 0x22 # y \<noteq> escape c @ x"
  using escape_hd [of c] by (cases "escape c"; auto)+

lemma escape_prefix: "escape c @ x = escape c' @ y \<longleftrightarrow> c = c' \<and> x = y"
proof
  assume "escape c @ x = escape c' @ y"
  then have "unescape (escape c @ x) = unescape (escape c' @ y)" by (rule arg_cong)
  then show "c = c' \<and> x = y" by (simp only: unescape_escape option.inject prod.inject)
qed simp

lemma escaped_prefix:
  "concat (map escape s) @ CHR 0x22 # r = concat (map escape s') @ CHR 0x22 # r' \<longleftrightarrow> s = s' \<and> r = r'"
proof (induction s arbitrary: s')
  case Nil
  show ?case
  proof (cases s')
    case Nil
    then show ?thesis by simp
  next
    case (Cons c' t)
    then show ?thesis using escape_not_quote(2) [of r c'] by (simp only: list.map concat.simps append_assoc append_Nil) simp
  qed
next
  case (Cons c s)
  show ?case
  proof (cases s')
    case Nil
    then show ?thesis using escape_not_quote(1) [of c] by (simp only: list.map concat.simps append_assoc append_Nil) simp
  next
    case (Cons c' t)
    then show ?thesis by (simp only: list.map concat.simps append_assoc escape_prefix Cons.IH) simp
  qed
qed

lemma quoted_prefix: "quoted s @ r = quoted s' @ r' \<longleftrightarrow> s = s' \<and> r = r'"
  by (simp add: quoted_def escaped_prefix)

section \<open>Values\<close>

definition int_text :: "int \<Rightarrow> string" where
  "int_text n = (if n < 0 then CHR ''-'' # dec (nat (- n)) else dec (nat n))"

fun joined :: "string list \<Rightarrow> string" where
  "joined [] = []"
| "joined [x] = x"
| "joined (x # y # xs) = x @ '','' @ joined (y # xs)"

primrec json_text :: "json \<Rightarrow> string" where
  "json_text JNull = ''null''"
| "json_text (JBool b) = (if b then ''true'' else ''false'')"
| "json_text (JInt n) = int_text n"
| "json_text (JFloat f) = f"
| "json_text (JStr s) = quoted s"
| "json_text (JArr xs) = ''['' @ joined (map json_text xs) @ '']''"
| "json_text (JObj d) = ''{'' @ joined (map (\<lambda>(k, s). quoted k @ '':'' @ s) (map (map_prod id json_text) d)) @ ''}''"

text \<open>\<open>sort_keys\<close>, at every depth.\<close>

primrec sorted_json :: "json \<Rightarrow> json" where
  "sorted_json JNull = JNull"
| "sorted_json (JBool b) = JBool b"
| "sorted_json (JInt n) = JInt n"
| "sorted_json (JFloat f) = JFloat f"
| "sorted_json (JStr s) = JStr s"
| "sorted_json (JArr xs) = JArr (map sorted_json xs)"
| "sorted_json (JObj d) = JObj (sort_key fst (map (map_prod id sorted_json) d))"

definition canonical_json :: "json \<Rightarrow> string" where
  "canonical_json v = json_text (sorted_json v)"

section \<open>One text, one value\<close>

text \<open>
  The text of a float is its Python \<open>repr\<close>, or one of \<open>NaN\<close>, \<open>Infinity\<close> and \<open>-Infinity\<close>: it begins like a
  number, holds something no integer holds and nothing that separates values or lines.
\<close>

definition separators :: "char set" where
  "separators = set '',]}''"

definition float_text :: "string \<Rightarrow> bool" where
  "float_text f \<longleftrightarrow> f \<noteq> [] \<and> (is_digit (hd f) \<or> hd f \<in> set ''-NI'') \<and> set f \<inter> separators = {} \<and>
     list_ex (\<lambda>c. \<not> is_digit c \<and> c \<noteq> CHR ''-'') f \<and> CHR 0x0A \<notin> set f"

primrec json_ok :: "json \<Rightarrow> bool" where
  "json_ok JNull = True"
| "json_ok (JBool b) = True"
| "json_ok (JInt n) = True"
| "json_ok (JFloat f) = float_text f"
| "json_ok (JStr s) = True"
| "json_ok (JArr xs) = list_all id (map json_ok xs)"
| "json_ok (JObj d) = list_all snd (map (map_prod id json_ok) d)"

definition closes :: "string \<Rightarrow> bool" where
  "closes r \<longleftrightarrow> r = [] \<or> hd r \<in> separators"

lemma digit_not_separator: "is_digit c \<Longrightarrow> c \<notin> separators"
  by (auto simp: separators_def is_digit_def)

lemma int_text_chars: "list_all (\<lambda>c. is_digit c \<or> c = CHR ''-'') (int_text n)"
  using dec_digits [of "nat n"] dec_digits [of "nat (- n)"]
  by (auto simp: int_text_def list_all_iff)

lemma int_text_inj [simp]: "int_text m = int_text n \<longleftrightarrow> m = n"
proof -
  have "CHR ''-'' # x \<noteq> dec k" for x k
    using dec_digits [of k] by (cases "dec k") (auto simp: is_digit_def)
  then show ?thesis
    by (auto simp: int_text_def) (metis list.inject dec_inj nat_eq_iff2 minus_equation_iff neg_0_le_iff_le not_less)+
qed

lemma joined_Cons: "joined (x # xs) = x @ (if xs = [] then [] else CHR '','' # joined xs)"
  by (cases xs) simp_all

lemma joined_prefix:
  assumes "\<And>x y r r'. x \<in> set xs \<Longrightarrow> y \<in> set ys \<Longrightarrow> closes r \<Longrightarrow> closes r' \<Longrightarrow> f x @ r = f y @ r' \<Longrightarrow> x = y \<and> r = r'"
    and "\<And>x. x \<in> set xs \<union> set ys \<Longrightarrow> f x \<noteq> [] \<and> hd (f x) \<notin> separators"
    and "e \<in> separators" and "e \<noteq> CHR '',''"
    and "joined (map f xs) @ e # r = joined (map f ys) @ e # r'"
  shows "xs = ys \<and> r = r'"
  using assms(1,2,5)
proof (induction xs arbitrary: ys)
  case Nil
  show ?case
  proof (cases ys)
    case (Cons y ys')
    then have "hd (joined (map f ys) @ e # r') = hd (f y)" using Nil.prems(2) [of y] by (simp add: joined_Cons)
    moreover have "hd (joined (map f ys) @ e # r') = e" using Nil.prems(3) by (metis joined.simps(1) list.sel(1) list.map(1) append_Nil)
    ultimately show ?thesis using Nil.prems(2) [of y] Cons assms(3) by simp
  qed (use Nil in simp)
next
  case (Cons x xs)
  show ?case
  proof (cases ys)
    case Nil
    then have "hd (joined (map f (x # xs)) @ e # r) = e" using Cons.prems(3) by simp
    moreover have "hd (joined (map f (x # xs)) @ e # r) = hd (f x)" using Cons.prems(2) [of x] by (simp add: joined_Cons)
    ultimately show ?thesis using Cons.prems(2) [of x] assms(3) by simp
  next
    case (Cons y ys')
    define rest where "rest zs q = (if zs = [] then e # q else CHR '','' # joined (map f zs) @ e # q)" for zs q
    have split: "joined (map f (z # zs)) @ e # q = f z @ rest zs q" for z zs q
      by (simp add: joined_Cons rest_def)
    have e: "closes (rest zs q)" for zs q
      using assms(3) by (simp add: rest_def closes_def separators_def)
    have "f x @ rest xs r = f y @ rest ys' r'"
      using Cons.prems(3) unfolding Cons split .
    then have "x = y" "rest xs r = rest ys' r'"
      using Cons.prems(1) [of x y "rest xs r" "rest ys' r'"] e Cons by auto
    moreover have "joined (map f xs) @ e # r = joined (map f ys') @ e # r'"
      using \<open>rest xs r = rest ys' r'\<close> assms(4) by (auto simp: rest_def split: if_splits)
    then have "xs = ys' \<and> r = r'"
      using Cons.IH [of ys'] Cons.prems(1,2) Cons by (metis Un_iff list.set_intros(2))
    ultimately show ?thesis using Cons by simp
  qed
qed

lemma token_split:
  assumes "set a \<inter> separators = {}" and "set b \<inter> separators = {}" and "closes r" and "closes r'" and "a @ r = b @ r'"
  shows "a = b \<and> r = r'"
proof -
  have "takeWhile (\<lambda>c. c \<notin> separators) (x @ q) = x" if "set x \<inter> separators = {}" "closes q" for x q
    using that by (cases q) (auto simp: takeWhile_append closes_def)
  with assms show ?thesis by (metis same_append_eq)
qed

fun scalar :: "json \<Rightarrow> bool" where
  "scalar (JStr s) = False"
| "scalar (JArr xs) = False"
| "scalar (JObj d) = False"
| "scalar v = True"

lemma scalar_text:
  assumes "scalar v" and "json_ok v"
  shows "json_text v \<noteq> [] \<and> set (json_text v) \<inter> separators = {} \<and> hd (json_text v) \<notin> set [CHR 0x22, CHR ''['', CHR ''{'']"
proof (cases v)
  case (JInt n)
  have "int_text n \<noteq> []" by (simp add: int_text_def)
  moreover have "c \<notin> separators \<and> c \<noteq> CHR 0x22 \<and> c \<noteq> CHR ''['' \<and> c \<noteq> CHR ''{''" if "c \<in> set (int_text n)" for c
    using int_text_chars [of n] that by (auto simp: list_all_iff separators_def is_digit_def)
  ultimately show ?thesis using JInt by auto
next
  case (JFloat f)
  with assms show ?thesis by (auto simp: float_text_def is_digit_def)
qed (use assms in \<open>auto simp: separators_def\<close>)

lemma scalar_inj:
  assumes "scalar v" "scalar v'" "json_ok v" "json_ok v'" "json_text v = json_text v'"
  shows "v = v'"
proof -
  have words: "''null'' \<noteq> int_text n" "''true'' \<noteq> int_text n" "''false'' \<noteq> int_text n" for n
  proof -
    have "\<not> list_all (\<lambda>c. is_digit c \<or> c = CHR ''-'') ''null''"
      "\<not> list_all (\<lambda>c. is_digit c \<or> c = CHR ''-'') ''true''"
      "\<not> list_all (\<lambda>c. is_digit c \<or> c = CHR ''-'') ''false''"
      by (simp_all add: is_digit_def)
    then show "''null'' \<noteq> int_text n" "''true'' \<noteq> int_text n" "''false'' \<noteq> int_text n"
      using int_text_chars [of n] by metis+
  qed
  have num: "json_text x \<noteq> int_text n" if "scalar x" "json_ok x" "\<forall>m. x \<noteq> JInt m" for x n
  proof (cases x)
    case (JFloat f)
    with that have "list_ex (\<lambda>c. \<not> is_digit c \<and> c \<noteq> CHR ''-'') f" by (simp add: float_text_def)
    with JFloat int_text_chars [of n] show ?thesis by (auto simp: list_all_iff list_ex_iff)
  qed (use that words [of n] in auto)
  have fl: "\<not> float_text ''null''" "\<not> float_text ''true''" "\<not> float_text ''false''"
    by (simp_all add: float_text_def is_digit_def)
  show ?thesis
    using assms num [of v] num [of v'] fl by (cases v; cases v') (auto split: if_splits dest: sym)
qed

lemma text_start:
  assumes "json_ok v"
  shows "json_text v \<noteq> [] \<and> hd (json_text v) \<notin> separators"
proof (cases "scalar v")
  case True
  then show ?thesis using scalar_text [OF True assms] by (metis Int_iff empty_iff hd_in_set)
next
  case False
  then show ?thesis by (cases v) (auto simp: quoted_def separators_def)
qed

lemma text_kind:
  assumes "json_ok v"
  shows "hd (json_text v) = CHR 0x22 \<longleftrightarrow> (\<exists>s. v = JStr s)" "hd (json_text v) = CHR ''['' \<longleftrightarrow> (\<exists>xs. v = JArr xs)"
    "hd (json_text v) = CHR ''{'' \<longleftrightarrow> (\<exists>d. v = JObj d)"
  using scalar_text [of v] assms by (cases v; force simp: quoted_def)+

lemma text_hd:
  assumes "json_ok v" "json_ok v'" "json_text v @ r = json_text v' @ r'"
  shows "hd (json_text v) = hd (json_text v')"
  using text_start [OF assms(1)] text_start [OF assms(2)] assms(3) by (metis hd_append2)

lemma scalar_case:
  assumes "scalar v" "json_ok v" "json_ok v'" "closes r" "closes r'" "json_text v @ r = json_text v' @ r'"
  shows "v = v' \<and> r = r'"
proof -
  have "scalar v'"
    using scalar_text [OF assms(1,2)] text_hd [OF assms(2,3,6)] text_kind [OF assms(3)] by (cases v') auto
  then show ?thesis
    using token_split [of "json_text v" "json_text v'" r r'] scalar_text [OF assms(1,2)] scalar_text [OF _ assms(3)]
      scalar_inj [OF assms(1) _ assms(2,3)] assms(4-6) by simp
qed

lemma json_text_prefix:
  assumes "json_ok v" and "json_ok v'" and "closes r" and "closes r'" and "json_text v @ r = json_text v' @ r'"
  shows "v = v' \<and> r = r'"
  using assms
proof (induction v arbitrary: v' r r')
  case (JStr s)
  note same = text_hd [OF JStr.prems(1,2,5)]
  then obtain s' where "v' = JStr s'" using text_kind(1) [OF JStr.prems(2)] by (auto simp: quoted_def)
  with JStr.prems(5) show ?case by (simp add: quoted_prefix)
next
  case (JArr xs)
  then obtain ys where v': "v' = JArr ys"
    using text_kind(2) [OF JArr.prems(2)] text_hd [OF JArr.prems(1,2,5)] by auto
  have "joined (map json_text xs) @ CHR '']'' # r = joined (map json_text ys) @ CHR '']'' # r'"
    using JArr.prems(5) v' by simp
  moreover have ok: "json_ok x" if "x \<in> set xs \<union> set ys" for x
    using that JArr.prems(1,2) v' by (auto simp: list_all_iff)
  moreover have "x = y \<and> q = q'"
    if "x \<in> set xs" "y \<in> set ys" "closes q" "closes q'" "json_text x @ q = json_text y @ q'" for x y q q'
    using JArr.IH [OF that(1) ok ok that(3-5)] that(1,2) by blast
  ultimately have "xs = ys \<and> r = r'"
    using text_start by (intro joined_prefix [where f = json_text and e = "CHR '']''"]) (auto simp: separators_def)
  with v' show ?case by simp
next
  case (JObj d)
  then obtain d' where v': "v' = JObj d'"
    using text_kind(3) [OF JObj.prems(2)] text_hd [OF JObj.prems(1,2,5)] by auto
  define f where "f = (\<lambda>(k, v). quoted k @ '':'' @ json_text v)"
  have object: "json_text (JObj e) @ q = CHR ''{'' # joined (map f e) @ CHR ''}'' # q" for e q
    by (simp add: f_def comp_def case_prod_unfold)
  have "joined (map f d) @ CHR ''}'' # r = joined (map f d') @ CHR ''}'' # r'"
    using JObj.prems(5) unfolding v' object by simp
  moreover have ok: "json_ok (snd x)" if "x \<in> set d \<union> set d'" for x
    using that JObj.prems(1,2) v' by (auto simp: list_all_iff)
  moreover have "x = y \<and> q = q'"
    if "x \<in> set d" "y \<in> set d'" "closes q" "closes q'" "f x @ q = f y @ q'" for x y q q'
  proof -
    have "quoted (fst x) @ CHR '':'' # json_text (snd x) @ q = quoted (fst y) @ CHR '':'' # json_text (snd y) @ q'"
      using that(5) by (simp add: f_def case_prod_unfold)
    then have "fst x = fst y" "json_text (snd x) @ q = json_text (snd y) @ q'"
      by (simp_all add: quoted_prefix)
    with JObj.IH [of x "snd x" "snd y" q q'] ok [of x] ok [of y] that show ?thesis
      by (simp add: prod_eq_iff snds.simps)
  qed
  ultimately have "d = d' \<and> r = r'"
    by (intro joined_prefix [where f = f and e = "CHR ''}''"]) (auto simp: separators_def f_def quoted_def)
  with v' show ?case by simp
qed (rule scalar_case; simp)+

lemma json_ok_sorted [simp]: "json_ok (sorted_json v) = json_ok v"
  by (induction v) (auto simp: list_all_iff snds.simps)

text \<open>Canonical text determines the value, up to the order of the members of its objects.\<close>

lemma canonical_json_inj:
  assumes "json_ok v" and "json_ok v'" and "canonical_json v = canonical_json v'"
  shows "sorted_json v = sorted_json v'"
  using json_text_prefix [of "sorted_json v" "sorted_json v'" "[]" "[]"] assms
  by (simp add: canonical_json_def closes_def)

section \<open>Netstrings\<close>

text \<open>\<open>_component\<close>: a length, a colon and that many bytes; \<open>-:\<close> for nothing.\<close>

definition component :: "string option \<Rightarrow> string" where
  "component raw = (case raw of None \<Rightarrow> ''-:'' | Some s \<Rightarrow> dec (length s) @ '':'' @ s)"

lemma component_prefix: "component a @ r = component b @ r' \<longleftrightarrow> a = b \<and> r = r'"
proof -
  have colon: "CHR '':'' \<notin> set (dec n)" "CHR ''-'' \<notin> set (dec n)" for n
    using dec_digits [of n] by (auto simp: list_all_iff is_digit_def)
  have minus: "dec n @ x \<noteq> CHR ''-'' # y" "CHR ''-'' # y \<noteq> dec n @ x" for n x y
    using colon(2) [of n] by (cases "dec n"; auto)+
  have some: "dec (length s) @ CHR '':'' # s @ r = dec (length s') @ CHR '':'' # s' @ r' \<longleftrightarrow> s = s' \<and> r = r'" for s s'
  proof
    assume "dec (length s) @ CHR '':'' # s @ r = dec (length s') @ CHR '':'' # s' @ r'"
    from split_at_separator [OF colon(1) colon(1) this] show "s = s' \<and> r = r'" by auto
  qed simp
  show ?thesis
    by (auto simp: component_def minus some split: option.splits)
qed

lemma components_inj: "length xs = length ys \<Longrightarrow>
    concat (map component xs) = concat (map component ys) \<longleftrightarrow> xs = ys"
proof (induction xs ys rule: list_induct2)
  case (Cons x xs y ys)
  then show ?case by (simp add: component_prefix)
qed simp

lemma utf8_inj: "utf8 s = utf8 s' \<longleftrightarrow> s = s'"
proof
  define enc where "enc = (\<lambda>c :: char. let n = of_char c :: nat in
     if n < 128 then [c] else [char_of (192 + n div 64), char_of (128 + n mod 64)])"
  define decode where "decode = (\<lambda>r :: string. if (of_char (hd r) :: nat) < 128 then (hd r, tl r)
     else (char_of ((of_char (hd r) - 192) * 64 + (of_char (hd (tl r)) - 128) :: nat), tl (tl r)))"
  have reads: "decode (enc c @ r) = (c, r)" for c r
  proof -
    define n where "n = (of_char c :: nat)"
    have c: "c = char_of n" and n: "n < 256" by (simp_all add: n_def)
    have "n div 64 < 4" "n mod 64 < 64" using n by (simp_all add: less_mult_imp_div_less)
    then have "192 + n div 64 < 256" "128 + n mod 64 < 256" by simp_all
    then show ?thesis using n by (simp add: c decode_def enc_def Let_def of_char_of)
  qed
  have nonnil: "enc c \<noteq> []" for c by (simp add: enc_def Let_def)
  have whole: "utf8 x = concat (map enc x)" for x by (simp add: utf8_def enc_def)
  have step: "concat (map enc x) = concat (map enc y) \<Longrightarrow> x = y" for x y
  proof (induction x arbitrary: y)
    case Nil
    then show ?case using nonnil by (cases y) auto
  next
    case (Cons c x)
    show ?case
    proof (cases y)
      case Nil
      with Cons.prems nonnil show ?thesis by auto
    next
      case (Cons c' y')
      have "decode (enc c @ concat (map enc x)) = decode (enc c' @ concat (map enc y'))"
        using Cons.prems Cons by simp
      then have "c = c' \<and> concat (map enc x) = concat (map enc y')" by (simp only: reads prod.inject)
      with Cons Cons.IH show ?thesis by simp
    qed
  qed
  show "s = s'" if "utf8 s = utf8 s'" using that step by (simp add: whole)
qed simp

end
