(* ===== verification/Sha256.thy ===== *)
theory Sha256
  imports Canonical
begin

text \<open>
  \<open>hashlib.sha256(raw).hexdigest()\<close>: SHA-256 of FIPS 180-4 over 32-bit words, and its lowercase text.
\<close>

unbundle bit_operations_syntax

type_synonym word32 = "32 word"

text \<open>
  The constants, as the standard defines them: the first 32 bits of the fractional parts of the cube roots of the first 64
  primes, and of the square roots of the first 8. An integer root is found bit by bit.
\<close>

fun integer_root :: "nat \<Rightarrow> nat \<Rightarrow> nat \<Rightarrow> nat \<Rightarrow> nat" where
  "integer_root k 0 r n = r"
| "integer_root k (Suc b) r n = integer_root k b (if (r + 2 ^ b) ^ k \<le> n then r + 2 ^ b else r) n"

definition small_primes :: "nat list" where
  "small_primes = filter (\<lambda>n. list_all (\<lambda>d. n mod d \<noteq> 0) [2..<n]) [2..<312]"

definition fraction_of_root :: "nat \<Rightarrow> nat \<Rightarrow> word32" where
  "fraction_of_root k p = of_nat (integer_root k 40 0 (p * 2 ^ (32 * k)))"

definition ROUND_CONSTANTS :: "word32 list" where
  "ROUND_CONSTANTS = map (fraction_of_root 3) small_primes"

definition INITIAL_HASH :: "word32 list" where
  "INITIAL_HASH = map (fraction_of_root 2) [2, 3, 5, 7, 11, 13, 17, 19]"

definition rotr :: "nat \<Rightarrow> word32 \<Rightarrow> word32" where
  "rotr n x = word_rotr n x"

definition small_sigma0 :: "word32 \<Rightarrow> word32" where
  "small_sigma0 x = rotr 7 x XOR rotr 18 x XOR drop_bit 3 x"

definition small_sigma1 :: "word32 \<Rightarrow> word32" where
  "small_sigma1 x = rotr 17 x XOR rotr 19 x XOR drop_bit 10 x"

definition big_sigma0 :: "word32 \<Rightarrow> word32" where
  "big_sigma0 x = rotr 2 x XOR rotr 13 x XOR rotr 22 x"

definition big_sigma1 :: "word32 \<Rightarrow> word32" where
  "big_sigma1 x = rotr 6 x XOR rotr 11 x XOR rotr 25 x"

text \<open>The message schedule: the last sixteen words, newest first, give the next.\<close>

fun extend_schedule :: "nat \<Rightarrow> word32 list \<Rightarrow> word32 list" where
  "extend_schedule 0 ws = rev ws"
| "extend_schedule (Suc n) ws =
     extend_schedule n ((small_sigma1 (ws ! 1) + ws ! 6 + small_sigma0 (ws ! 14) + ws ! 15) # ws)"

definition schedule :: "word32 list \<Rightarrow> word32 list" where
  "schedule block = extend_schedule 48 (rev block)"

definition sha_round :: "word32 list \<Rightarrow> word32 \<times> word32 \<Rightarrow> word32 list" where
  "sha_round s kw = (case s of
      [a, b, c, d, e, f, g, h] \<Rightarrow>
        let t1 = h + big_sigma1 e + ((e AND f) XOR (NOT e AND g)) + fst kw + snd kw;
            t2 = big_sigma0 a + ((a AND b) XOR (a AND c) XOR (b AND c))
        in [t1 + t2, a, b, c, d + t1, e, f, g]
    | _ \<Rightarrow> s)"

definition compress :: "word32 list \<Rightarrow> word32 list \<Rightarrow> word32 list" where
  "compress s block = map2 (+) s (foldl sha_round s (zip ROUND_CONSTANTS (schedule block)))"

section \<open>Bytes and words\<close>

fun be_word :: "string \<Rightarrow> word32" where
  "be_word bs = of_nat (foldl (\<lambda>n c. 256 * n + of_char c) 0 bs)"

fun chunks :: "nat \<Rightarrow> nat \<Rightarrow> string \<Rightarrow> string list" where
  "chunks 0 w s = []"
| "chunks (Suc n) w s = take w s # chunks n w (drop w s)"

definition padded_message :: "string \<Rightarrow> string" where
  "padded_message m =
     (let n = length m; z = (119 - n mod 64) mod 64
      in m @ [char_of (128::nat)] @ replicate z (char_of (0::nat)) @
         map (\<lambda>i. char_of (8 * n div 256 ^ (7 - i))) [0..<8])"

definition sha256_words :: "string \<Rightarrow> word32 list" where
  "sha256_words m =
     (let p = padded_message m
      in foldl (\<lambda>s b. compress s (map be_word (chunks 16 4 b))) INITIAL_HASH (chunks (length p div 64) 64 p))"

definition hex_word :: "word32 \<Rightarrow> string" where
  "hex_word w = map (\<lambda>i. hex_digit (unat w div 16 ^ (7 - i) mod 16)) [0..<8]"

definition sha256 :: "string \<Rightarrow> string" where
  "sha256 m = concat (map hex_word (sha256_words m))"

section \<open>The shape of a digest\<close>

definition is_hex64 :: "string \<Rightarrow> bool" where
  "is_hex64 s \<longleftrightarrow> length s = 64 \<and> list_all (\<lambda>c. is_digit c \<or> (97 \<le> (of_char c :: nat) \<and> (of_char c :: nat) \<le> 102)) s"

lemma sha_round_length: "length s = 8 \<Longrightarrow> length (sha_round s kw) = 8"
  by (auto simp: sha_round_def Let_def split: list.split)

lemma rounds_length: "length s = 8 \<Longrightarrow> length (foldl sha_round s xs) = 8"
  by (induction xs arbitrary: s) (simp_all add: sha_round_length)

lemma blocks_length:
  "length s = 8 \<Longrightarrow> length (foldl (\<lambda>s b. compress s (map be_word (chunks 16 4 b))) s xs) = 8"
  by (induction xs arbitrary: s) (simp_all add: compress_def rounds_length)

lemma sha256_shape: "is_hex64 (sha256 m)"
proof -
  have hex: "is_digit (hex_digit n) \<or> (97 \<le> (of_char (hex_digit n) :: nat) \<and> (of_char (hex_digit n) :: nat) \<le> 102)"
    if "n < 16" for n
    using that by (auto simp: hex_digit_def is_digit_def of_char_of)
  have "length (sha256_words m) = 8"
    by (simp add: sha256_words_def Let_def blocks_length INITIAL_HASH_def)
  moreover have "length (concat (map hex_word ws)) = 8 * length ws" for ws
    by (induction ws) (simp_all add: hex_word_def)
  ultimately show ?thesis
    using hex by (auto simp: is_hex64_def sha256_def list_all_iff hex_word_def)
qed

end
