(* ===== verification/EvidenceChain.thy ===== *)
theory EvidenceChain
  imports Sha256 Calendar
begin

text \<open>
  The append-only evidence record, its chain recipe and its verifier (domain/evidence_chain.py), with the grades
  of domain/integrity_grade.py. A body is a JSON object; a raised exception is its class.
\<close>

section \<open>Vocabulary\<close>

definition FIRST_SEQUENCE :: int where
  "FIRST_SEQUENCE = 1"

definition PREIMAGE_VERSION :: string where
  "PREIMAGE_VERSION = ''sayfirst-control-plane/evidence/v1''"

definition ENTRY_KINDS :: "string list" where
  "ENTRY_KINDS = [''effect'', ''grade'', ''gap'', ''composition'', ''recovery'']"

definition GAP_REASONS :: "string list" where
  "GAP_REASONS = [''dropped'', ''purged'', ''torn'', ''unflushed'']"

definition RECOVERY_EVENTS :: "string list" where
  "RECOVERY_EVENTS = [''baseline'', ''clean_stop'', ''unclean_stop'']"

definition GAP_ACCOUNTING :: "string list" where
  "GAP_ACCOUNTING = [''physical_record'', ''decision'', ''event'']"

definition CHAIN_REASONS :: "string list" where
  "CHAIN_REASONS = [''policy_allows'', ''policy_denies'', ''policy_absent'', ''policy_requires_review'',
     ''capability_unknown'', ''approval_granted'', ''approval_rejected'']"

definition EFFECT_DECISION_MEMBERS :: "string list" where
  "EFFECT_DECISION_MEMBERS = [''reason'', ''rule_id'', ''arguments_digest'', ''correlation'', ''correlation_source'',
     ''principal_references'', ''evaluation_recipe'', ''decision_position'']"

definition BODY_MEMBERS :: "string \<Rightarrow> string list" where
  "BODY_MEMBERS kind =
     (if kind = ''effect'' then
        [''capability'', ''decision_id'', ''outcome'', ''decided_at'', ''policy_version'', ''capture'',
         ''recording_epoch''] @ EFFECT_DECISION_MEMBERS
      else if kind = ''grade'' then
        [''grade'', ''basis'', ''evaluated_at'', ''paths_inspected'', ''recording_epoch'']
      else if kind = ''gap'' then
        [''reason'', ''count'', ''first_at'', ''last_at'', ''kinds'', ''decision_ids'', ''decision_positions'',
         ''accounting'', ''recording_epoch'']
      else if kind = ''composition'' then [''providers'', ''recording_epoch'']
      else
        [''event'', ''epoch_id'', ''from_sequence'', ''through_sequence'', ''lost_event_count'',
         ''possibly_lost_kinds'', ''coverage'', ''store_id'', ''first_decision_position'',
         ''first_covered_sequence'', ''legacy_effects_without_authority'', ''established_at'',
         ''recording_epoch''])"

definition BODY_REQUIRED :: "string \<Rightarrow> string list" where
  "BODY_REQUIRED kind =
     (if kind = ''effect'' then [''capability'', ''decision_id'', ''outcome'', ''decided_at'', ''policy_version'']
      else if kind = ''grade'' then [''grade'', ''basis'', ''evaluated_at'', ''paths_inspected'']
      else if kind = ''gap'' then [''reason'', ''count'', ''first_at'', ''last_at'', ''kinds'']
      else if kind = ''composition'' then [''providers'']
      else [''event'', ''recording_epoch''])"

definition RECOVERY_REQUIRED :: "string \<Rightarrow> string list" where
  "RECOVERY_REQUIRED event =
     (if event = ''baseline'' then
        [''store_id'', ''first_decision_position'', ''first_covered_sequence'',
         ''legacy_effects_without_authority'', ''established_at'']
      else if event = ''clean_stop'' then [''epoch_id'', ''from_sequence'', ''through_sequence'']
      else [''epoch_id'', ''from_sequence'', ''through_sequence'', ''lost_event_count'',
            ''possibly_lost_kinds'', ''coverage''])"

datatype chain_grade = Unverified | Observability | Evidence

definition GRADE_RANK :: "chain_grade \<Rightarrow> nat" where
  "GRADE_RANK g = (case g of Unverified \<Rightarrow> 0 | Observability \<Rightarrow> 1 | Evidence \<Rightarrow> 2)"

definition grade_value :: "chain_grade \<Rightarrow> string" where
  "grade_value g = (case g of
      Unverified \<Rightarrow> ''unverified'' | Observability \<Rightarrow> ''observability'' | Evidence \<Rightarrow> ''evidence'')"

text \<open>\<open>Grade(text)\<close>, for a text a validated body holds.\<close>

definition grade_of :: "string \<Rightarrow> chain_grade" where
  "grade_of s = (if s = ''unverified'' then Unverified else if s = ''observability'' then Observability else Evidence)"

text \<open>\<open>weakest\<close>: the first of the least.\<close>

fun weakest :: "chain_grade list \<Rightarrow> chain_grade" where
  "weakest [] = Unverified"
| "weakest [g] = g"
| "weakest (g # h # gs) = (let w = weakest (h # gs) in if GRADE_RANK w < GRADE_RANK g then w else g)"

section \<open>Reading a body\<close>

text \<open>
  \<open>body.get(k)\<close>. Where the code writes \<open>body[k]\<close> it has required the member before, so the two read alike.
\<close>

definition member :: "document \<Rightarrow> string \<Rightarrow> json" where
  "member d k = (case map_of d k of None \<Rightarrow> JNull | Some v \<Rightarrow> v)"

definition has_member :: "document \<Rightarrow> string \<Rightarrow> bool" where
  "has_member d k \<longleftrightarrow> k \<in> fst ` set d"

definition some_text :: "json \<Rightarrow> bool" where
  "some_text v \<longleftrightarrow> (case v of JStr s \<Rightarrow> s \<noteq> [] | _ \<Rightarrow> False)"

text \<open>\<open>isinstance(v, int)\<close>, which a \<open>bool\<close> is, and the number it is; then without the bools.\<close>

definition int_of :: "json \<Rightarrow> int option" where
  "int_of v = (case v of JInt n \<Rightarrow> Some n | JBool b \<Rightarrow> Some (of_bool b) | _ \<Rightarrow> None)"

definition int_at_least :: "int \<Rightarrow> json \<Rightarrow> bool" where
  "int_at_least m v \<longleftrightarrow> (case int_of v of None \<Rightarrow> False | Some n \<Rightarrow> m \<le> n)"

definition plain_int_at_least :: "int \<Rightarrow> json \<Rightarrow> bool" where
  "plain_int_at_least m v \<longleftrightarrow> (case v of JInt n \<Rightarrow> m \<le> n | _ \<Rightarrow> False)"

text \<open>Membership in a set asks for a hash, which lists and objects do not have; membership in a tuple does not.\<close>

definition in_set :: "json \<Rightarrow> string list \<Rightarrow> bool result" where
  "in_set v xs = (case v of
      JStr s \<Rightarrow> Inr (s \<in> set xs)
    | JArr _ \<Rightarrow> Inl TypeError
    | JObj _ \<Rightarrow> Inl TypeError
    | _ \<Rightarrow> Inr False)"

definition in_tuple :: "json \<Rightarrow> string list \<Rightarrow> bool" where
  "in_tuple v xs \<longleftrightarrow> (case v of JStr s \<Rightarrow> s \<in> set xs | _ \<Rightarrow> False)"

abbreviation require :: "bool \<Rightarrow> unit result" where
  "require b \<equiv> (if b then Inr () else Inl ValueError)"

lemma require_Inr [simp]: "require b = Inr u \<longleftrightarrow> b"
  by simp

abbreviation require_r :: "bool result \<Rightarrow> unit result" where
  "require_r r \<equiv> bind_r r (\<lambda>b. require b)"

abbreviation and_then :: "unit result \<Rightarrow> unit result \<Rightarrow> unit result" where
  "and_then r s \<equiv> bind_r r (\<lambda>_. s)"

definition is_policy_digest :: "string \<Rightarrow> bool" where
  "is_policy_digest s \<longleftrightarrow> take 7 s = ''sha256:'' \<and> is_hex64 (drop 7 s)"

definition is_chain_reference :: "string \<Rightarrow> bool" where
  "is_chain_reference s \<longleftrightarrow>
     (let rest = (if take 5 s = ''user:'' then drop 5 s else drop 6 s)
      in (take 5 s = ''user:'' \<or> take 6 s = ''group:'') \<and> rest \<noteq> [] \<and> CHR 0x0A \<notin> set rest)"

section \<open>Validation\<close>

definition nonempty_text :: "document \<Rightarrow> string \<Rightarrow> unit result" where
  "nonempty_text d k = require (some_text (member d k))"

fun each :: "('a \<Rightarrow> unit result) \<Rightarrow> 'a list \<Rightarrow> unit result" where
  "each f [] = Inr ()"
| "each f (x # xs) = and_then (f x) (each f xs)"

definition members :: "document \<Rightarrow> string list" where
  "members d = map fst d"

definition validate_capture :: "json \<Rightarrow> unit result" where
  "validate_capture v = (case v of
      JObj d \<Rightarrow>
        (if member d ''captured'' = JBool True then
           let required = [''captured'', ''provider'', ''bytes'', ''truncated'', ''content'']
           in and_then
             (require (set (members d) \<subseteq> set (''encoding'' # required) \<and> set required \<subseteq> set (members d)))
             (require (some_text (member d ''provider'') \<and>
                (case int_of (member d ''bytes'') of None \<Rightarrow> False | Some n \<Rightarrow> 0 \<le> n \<and> n \<le> 65536) \<and>
                (case member d ''truncated'' of JBool _ \<Rightarrow> True | _ \<Rightarrow> False) \<and>
                (case member d ''content'' of JStr _ \<Rightarrow> True | _ \<Rightarrow> False) \<and>
                (has_member d ''encoding'' \<longrightarrow> member d ''encoding'' = JStr ''base64'')))
         else if member d ''captured'' = JBool False then
           and_then
             (require (set (members d) = set [''captured'', ''provider'', ''withheld''] \<and>
                (case member d ''provider'' of JStr _ \<Rightarrow> True | _ \<Rightarrow> False)))
             (require (some_text (member d ''provider'') \<and> member d ''withheld'' = JStr ''redaction_failed''))
         else Inl ValueError)
    | _ \<Rightarrow> Inl ValueError)"

definition validate_position :: "json \<Rightarrow> unit result" where
  "validate_position v = (case v of
      JObj d \<Rightarrow> require (set (members d) = set [''store_id'', ''position''] \<and> some_text (member d ''store_id'') \<and>
        plain_int_at_least 1 (member d ''position''))
    | _ \<Rightarrow> Inl ValueError)"

definition strictly_sorted :: "string list \<Rightarrow> bool" where
  "strictly_sorted xs \<longleftrightarrow> xs = sort (remdups xs)"

definition texts :: "json list \<Rightarrow> string list" where
  "texts xs = concat (map (\<lambda>v. case v of JStr s \<Rightarrow> [s] | _ \<Rightarrow> []) xs)"

definition is_text :: "json \<Rightarrow> bool" where
  "is_text v \<longleftrightarrow> (case v of JStr _ \<Rightarrow> True | _ \<Rightarrow> False)"

definition validate_references :: "json \<Rightarrow> unit result" where
  "validate_references v = (case v of
      JArr xs \<Rightarrow> require (list_all (\<lambda>x. case x of JStr s \<Rightarrow> is_chain_reference s | _ \<Rightarrow> False) xs \<and>
        strictly_sorted (texts xs))
    | _ \<Rightarrow> Inl ValueError)"

definition validate_copied_decision :: "document \<Rightarrow> unit result" where
  "validate_copied_decision body =
     (let present = filter (\<lambda>m. has_member body m) EFFECT_DECISION_MEMBERS;
          correlation = member body ''correlation''
      in if present = [] then Inr ()
         else if present \<noteq> EFFECT_DECISION_MEMBERS then Inl ValueError
         else and_then (require_r (in_set (member body ''reason'') CHAIN_REASONS))
           (and_then (require (member body ''rule_id'' = JNull \<or> some_text (member body ''rule_id'')))
           (and_then (require (case member body ''arguments_digest'' of
                JNull \<Rightarrow> True | JStr s \<Rightarrow> is_policy_digest s | _ \<Rightarrow> False))
           (and_then (require (case correlation of JNull \<Rightarrow> True | JStr s \<Rightarrow> length s \<le> 128 | _ \<Rightarrow> False))
           (and_then (require (member body ''correlation_source'' =
                JStr (if correlation = JNull then ''absent'' else ''boundary_supplied'')))
           (and_then (validate_references (member body ''principal_references''))
           (and_then (nonempty_text body ''evaluation_recipe'')
           (validate_position (member body ''decision_position'')))))))))"

text \<open>The store and the position a validated position names.\<close>

definition position_key :: "json \<Rightarrow> string \<times> int" where
  "position_key v = (case v of
      JObj d \<Rightarrow> (case (member d ''store_id'', member d ''position'') of (JStr s, JInt n) \<Rightarrow> (s, n) | _ \<Rightarrow> ([], 0))
    | _ \<Rightarrow> ([], 0))"

definition validate_named_losses :: "document \<Rightarrow> unit result" where
  "validate_named_losses body =
     and_then (require (has_member body ''accounting'' \<longrightarrow> in_tuple (member body ''accounting'') GAP_ACCOUNTING))
     (if \<not> has_member body ''decision_ids'' \<and> \<not> has_member body ''decision_positions'' then Inr ()
      else if \<not> (has_member body ''decision_ids'' \<and> has_member body ''decision_positions'') then Inl ValueError
      else (case (member body ''decision_ids'', member body ''decision_positions'') of
          (JArr ids, JArr positions) \<Rightarrow>
            and_then (require (1 \<le> length ids \<and> length ids \<le> 8192 \<and> length ids = length positions))
            (and_then (require (list_all some_text ids))
            (and_then (require (distinct (texts ids)))
            (and_then (each validate_position positions)
            (and_then (require (sorted (map position_key positions)))
            (require (member body ''accounting'' = JStr ''decision'' \<longrightarrow>
               int_of (member body ''count'') = Some (int (length ids))))))))
        | _ \<Rightarrow> Inl ValueError))"

text \<open>\<open>v == 1\<close> holds of the integer, of \<open>True\<close> and of the float \<open>1.0\<close>.\<close>

definition equals_one :: "json \<Rightarrow> bool" where
  "equals_one v \<longleftrightarrow> v = JInt 1 \<or> v = JBool True \<or> v = JFloat ''1.0''"

text \<open>\<open>set(kinds)\<close>, for a list of values.\<close>

definition hashable :: "json \<Rightarrow> bool" where
  "hashable v \<longleftrightarrow> (case v of JArr _ \<Rightarrow> False | JObj _ \<Rightarrow> False | _ \<Rightarrow> True)"

definition names_every_kind :: "json \<Rightarrow> unit result" where
  "names_every_kind v = (case v of
      JArr xs \<Rightarrow> if \<not> list_all hashable xs then Inl TypeError
        else require (set [''effect'', ''grade'', ''composition'', ''gap''] \<subseteq> set (texts xs))
    | _ \<Rightarrow> Inl ValueError)"

definition validate_recovery :: "document \<Rightarrow> unit result" where
  "validate_recovery body = (case member body ''event'' of
      JStr event \<Rightarrow>
        and_then (require (event \<in> set RECOVERY_EVENTS))
        (and_then (require (set (RECOVERY_REQUIRED event) \<subseteq> set (members body)))
        (and_then (each (\<lambda>m. require (has_member body m \<longrightarrow> plain_int_at_least 1 (member body m)))
            [''from_sequence'', ''through_sequence'', ''first_covered_sequence''])
        (and_then (if event \<noteq> ''unclean_stop'' then Inr ()
            else and_then (require (member body ''lost_event_count'' = JNull \<and>
                     member body ''coverage'' = JStr ''unknown''))
                   (names_every_kind (member body ''possibly_lost_kinds'')))
        (if event \<noteq> ''baseline'' then Inr ()
         else and_then (require (equals_one (member body ''first_decision_position'')))
           (require (int_of (member body ''legacy_effects_without_authority'') \<noteq> None))))))
    | _ \<Rightarrow> Inl ValueError)"

definition kind_counts :: "document \<Rightarrow> int list" where
  "kind_counts kinds = map (\<lambda>(k, v). case int_of v of None \<Rightarrow> 0 | Some n \<Rightarrow> n) kinds"

definition validate_gap :: "document \<Rightarrow> unit result" where
  "validate_gap body =
     and_then (require (in_tuple (member body ''reason'') GAP_REASONS))
     (and_then (require (int_at_least 1 (member body ''count'')))
     (case member body ''kinds'' of
        JObj kinds \<Rightarrow>
          and_then (require (list_all (\<lambda>(k, v). k \<in> set ENTRY_KINDS \<and> int_at_least 1 v) kinds))
          (and_then (require (if member body ''reason'' = JStr ''torn'' then kinds = []
              else Some (sum_list (kind_counts kinds)) = int_of (member body ''count'')))
          (and_then (nonempty_text body ''first_at'')
          (and_then (nonempty_text body ''last_at'')
          (validate_named_losses body))))
      | _ \<Rightarrow> Inl ValueError))"

definition validate_provider :: "json \<Rightarrow> unit result" where
  "validate_provider v = (case v of
      JObj d \<Rightarrow> and_then (require (set (members d) = set [''interface'', ''version'', ''provider'']))
        (require (some_text (member d ''interface'') \<and> some_text (member d ''provider'') \<and>
           int_at_least 1 (member d ''version'')))
    | _ \<Rightarrow> Inl ValueError)"

definition validate_effect :: "document \<Rightarrow> unit result" where
  "validate_effect body =
     and_then (each (nonempty_text body) [''capability'', ''decision_id'', ''decided_at'', ''policy_version''])
     (and_then (require_r (in_set (member body ''outcome'') [''allow'', ''deny'', ''suspend'']))
     (and_then (if has_member body ''capture'' then validate_capture (member body ''capture'') else Inr ())
     (validate_copied_decision body)))"

definition validate_grade :: "document \<Rightarrow> unit result" where
  "validate_grade body =
     and_then (require_r (in_set (member body ''grade'') (map grade_value [Unverified, Observability, Evidence])))
     (and_then (require_r (in_set (member body ''basis'')
          [''caller_can_write'', ''caller_cannot_write'', ''access_not_established'']))
     (and_then (require (int_at_least 0 (member body ''paths_inspected'')))
     (nonempty_text body ''evaluated_at'')))"

definition validate_body :: "string \<Rightarrow> document \<Rightarrow> unit result" where
  "validate_body kind body =
     and_then (require (has_member body ''recording_epoch'' \<longrightarrow> some_text (member body ''recording_epoch'')))
     (if kind = ''effect'' then validate_effect body
      else if kind = ''recovery'' then validate_recovery body
      else if kind = ''grade'' then validate_grade body
      else if kind = ''gap'' then validate_gap body
      else (case member body ''providers'' of
          JArr providers \<Rightarrow> each validate_provider providers
        | _ \<Rightarrow> Inl ValueError))"

section \<open>Records and entries\<close>

datatype chain_principal = Chain_Principal (cp_kind: string) (cp_id: string) (cp_via: "chain_principal list")

definition principal_post_init :: "chain_principal \<Rightarrow> unit result" where
  "principal_post_init p = require (cp_kind p \<noteq> [] \<and> cp_id p \<noteq> [])"

record evidence_record =
  er_scope :: string
  er_kind :: string
  er_recorded_at :: datetime
  er_connection_id :: string
  er_principal :: chain_principal
  er_body :: document

record evidence_entry = evidence_record +
  en_sequence :: int
  en_previous_hash :: "string option"
  en_entry_hash :: string
  en_preimage_version :: string

definition record_post_init :: "'x evidence_record_scheme \<Rightarrow> unit result" where
  "record_post_init r =
     and_then (require (er_scope r \<noteq> []))
     (and_then (require (er_kind r \<in> set ENTRY_KINDS))
     (and_then (require (is_aware (er_recorded_at r)))
     (and_then (require (er_connection_id r \<noteq> []))
     (and_then (require (set (members (er_body r)) \<subseteq> set (BODY_MEMBERS (er_kind r))))
     (and_then (require (set (BODY_REQUIRED (er_kind r)) \<subseteq> set (members (er_body r))))
     (validate_body (er_kind r) (er_body r)))))))"

definition entry_post_init :: "evidence_entry \<Rightarrow> unit result" where
  "entry_post_init e =
     and_then (record_post_init e)
     (and_then (require (FIRST_SEQUENCE \<le> en_sequence e))
     (and_then (require (en_sequence e = FIRST_SEQUENCE \<longrightarrow> en_previous_hash e = None))
     (and_then (require (FIRST_SEQUENCE < en_sequence e \<longrightarrow> en_previous_hash e \<noteq> None))
     (and_then (require (case en_previous_hash e of None \<Rightarrow> True | Some h \<Rightarrow> is_hex64 h))
     (require (is_hex64 (en_entry_hash e)))))))"

text \<open>\<open>_record\<close>: the record of an entry, built again and so validated again.\<close>

definition bare_record :: "evidence_entry \<Rightarrow> evidence_record result" where
  "bare_record e = bind_r (record_post_init e) (\<lambda>_. Inr (evidence_record.truncate e))"

section \<open>The recipe\<close>

text \<open>
  \<open>_instant\<close>: whole seconds of an instant whose UTC year is one of the calendar's. The platform's \<open>%Y\<close> is taken to
  write four digits, as the contract's schema asks.
\<close>

definition chain_instant :: "datetime \<Rightarrow> string result" where
  "chain_instant d = (case d of
      Naive _ \<Rightarrow> Inl ValueError
    | Aware t \<Rightarrow>
        if t < - 62135596800000000 \<or> 253402300800000000 \<le> t then Inl OverflowError
        else Inr (instant_text (t - t mod 1000000)))"

primrec principal_to_document :: "chain_principal \<Rightarrow> json" where
  "principal_to_document (Chain_Principal kind ident via) =
     JObj [(''kind'', JStr kind), (''id'', JStr ident), (''via'', JArr (map principal_to_document via))]"

definition preimage ::
  "string \<Rightarrow> int \<Rightarrow> string \<Rightarrow> datetime \<Rightarrow> string \<Rightarrow> chain_principal \<Rightarrow> document \<Rightarrow> string option \<Rightarrow> string result" where
  "preimage scope sequence kind recorded_at connection_id p body previous_hash =
     bind_r (chain_instant recorded_at) (\<lambda>instant.
       Inr (concat (map component
         [Some (utf8 PREIMAGE_VERSION), Some (utf8 scope), Some (utf8 (int_text sequence)), Some (utf8 kind),
          Some (utf8 instant), Some (utf8 connection_id), Some (canonical_json (principal_to_document p)),
          Some (canonical_json (JObj body)), map_option utf8 previous_hash])))"

definition record_preimage :: "evidence_record \<Rightarrow> int \<Rightarrow> string option \<Rightarrow> string result" where
  "record_preimage r sequence previous_hash =
     preimage (er_scope r) sequence (er_kind r) (er_recorded_at r) (er_connection_id r) (er_principal r) (er_body r)
       previous_hash"

definition chain_hash :: "evidence_record \<Rightarrow> int \<Rightarrow> string option \<Rightarrow> string result" where
  "chain_hash r sequence previous_hash = bind_r (record_preimage r sequence previous_hash) (\<lambda>x. Inr (sha256 x))"

definition UNAPPLIABLE :: "exn list" where
  "UNAPPLIABLE = [InvalidEvidence, KeyError, TypeError, ValueError, OverflowError]"

text \<open>\<open>_hash(_record(entry), entry.sequence, entry.previous_hash)\<close>.\<close>

definition entry_hash_again :: "evidence_entry \<Rightarrow> string result" where
  "entry_hash_again e = bind_r (bare_record e) (\<lambda>r. chain_hash r (en_sequence e) (en_previous_hash e))"

definition entry_verifies :: "evidence_entry \<Rightarrow> bool result" where
  "entry_verifies e =
     (if en_preimage_version e \<noteq> PREIMAGE_VERSION then Inr False
      else (case entry_hash_again e of
          Inr h \<Rightarrow> Inr (h = en_entry_hash e)
        | Inl x \<Rightarrow> if x \<in> set UNAPPLIABLE then Inr False else Inl x))"

definition placed :: "evidence_record \<Rightarrow> int \<Rightarrow> string option \<Rightarrow> string \<Rightarrow> evidence_entry" where
  "placed r sequence previous_hash h =
     \<lparr>er_scope = er_scope r, er_kind = er_kind r, er_recorded_at = er_recorded_at r,
      er_connection_id = er_connection_id r, er_principal = er_principal r, er_body = er_body r,
      en_sequence = sequence, en_previous_hash = previous_hash, en_entry_hash = h,
      en_preimage_version = PREIMAGE_VERSION\<rparr>"

text \<open>The constructor at the end of \<open>chained\<close> and of \<open>chained_after_break\<close>.\<close>

definition place :: "evidence_record \<Rightarrow> int \<Rightarrow> string option \<Rightarrow> evidence_entry result" where
  "place r sequence previous_hash =
     bind_r (chain_hash r sequence previous_hash) (\<lambda>h.
       let e = placed r sequence previous_hash h in bind_r (entry_post_init e) (\<lambda>_. Inr e))"

definition chained_after_break :: "evidence_record \<Rightarrow> evidence_entry \<Rightarrow> evidence_entry result" where
  "chained_after_break r previous =
     (if er_scope previous \<noteq> er_scope r then Inl ValueError
      else place r (en_sequence previous + 1) (Some (en_entry_hash previous)))"

definition chained :: "evidence_record \<Rightarrow> evidence_entry option \<Rightarrow> evidence_entry result" where
  "chained r previous = (case previous of
      None \<Rightarrow> place r FIRST_SEQUENCE None
    | Some p \<Rightarrow>
        if er_scope p \<noteq> er_scope r then Inl ValueError
        else bind_r (entry_hash_again p) (\<lambda>h.
          if h \<noteq> en_entry_hash p then Inl ValueError
          else place r (en_sequence p + 1) (Some (en_entry_hash p))))"

definition entry_to_document :: "evidence_entry \<Rightarrow> document result" where
  "entry_to_document e =
     bind_r (chain_instant (er_recorded_at e)) (\<lambda>instant. Inr
       [(''scope'', JStr (er_scope e)), (''kind'', JStr (er_kind e)), (''recorded_at'', JStr instant),
        (''connection_id'', JStr (er_connection_id e)), (''principal'', principal_to_document (er_principal e)),
        (''body'', JObj (er_body e)), (''sequence'', JInt (en_sequence e)),
        (''previous_hash'', opt_str (en_previous_hash e)), (''entry_hash'', JStr (en_entry_hash e)),
        (''preimage_version'', JStr (en_preimage_version e))])"

section \<open>The verdict\<close>

datatype chain_condition = Intact | Broken_At | Gap_At | Unverifiable

definition condition_value :: "chain_condition \<Rightarrow> string" where
  "condition_value c = (case c of
      Intact \<Rightarrow> ''intact'' | Broken_At \<Rightarrow> ''broken_at'' | Gap_At \<Rightarrow> ''gap_at'' | Unverifiable \<Rightarrow> ''unverifiable'')"

record declared_gap =
  dg_sequence :: int
  dg_reason :: string
  dg_count :: int

record chain_verdict =
  cv_scope :: string
  cv_condition :: chain_condition
  cv_from_sequence :: int
  cv_to_sequence :: "int option"
  cv_up_to :: "int option"
  cv_sequence :: "int option"
  cv_expected :: "string option"
  cv_found :: "string option"
  cv_version :: "string option"
  cv_covers_an_entry :: bool
  cv_declared_gaps :: "declared_gap list"
  cv_grades :: "(string \<times> chain_grade) list"

definition opt_int :: "int option \<Rightarrow> json" where
  "opt_int v = (case v of None \<Rightarrow> JNull | Some n \<Rightarrow> JInt n)"

definition verdict_to_document :: "chain_verdict \<Rightarrow> document" where
  "verdict_to_document v =
     [(''scope'', JStr (cv_scope v)), (''condition'', JStr (condition_value (cv_condition v))),
      (''from_sequence'', JInt (cv_from_sequence v)), (''to_sequence'', opt_int (cv_to_sequence v)),
      (''up_to'', opt_int (cv_up_to v)), (''sequence'', opt_int (cv_sequence v)),
      (''expected'', opt_str (cv_expected v)), (''found'', opt_str (cv_found v)), (''version'', opt_str (cv_version v)),
      (''covers_an_entry'', JBool (cv_covers_an_entry v)),
      (''declared_gaps'', JArr (map (\<lambda>g. JObj [(''sequence'', JInt (dg_sequence g)), (''reason'', JStr (dg_reason g)),
          (''count'', JInt (dg_count g))]) (cv_declared_gaps v))),
      (''grades'', JArr (map (\<lambda>(c, g). JObj [(''connection_id'', JStr c), (''grade'', JStr (grade_value g))])
          (cv_grades v)))]"

definition text_of :: "json \<Rightarrow> string" where
  "text_of v = (case v of JStr s \<Rightarrow> s | _ \<Rightarrow> [])"

text \<open>The loop of \<open>_grades\<close>: the grade in force per connection, and the grades covered per connection.\<close>

fun grades_loop ::
  "(string, chain_grade) dict \<Rightarrow> (string, chain_grade list) dict \<Rightarrow> evidence_entry list \<Rightarrow> (string, chain_grade list) dict" where
  "grades_loop current covered [] = covered"
| "grades_loop current covered (e # es) =
     (let c = er_connection_id e;
          current = (if er_kind e = ''grade'' then AList.update c (grade_of (text_of (member (er_body e) ''grade''))) current
                     else current);
          now = (case map_of current c of None \<Rightarrow> Unverified | Some g \<Rightarrow> g);
          before = (case map_of covered c of None \<Rightarrow> [] | Some gs \<Rightarrow> gs)
      in grades_loop current (AList.update c (before @ [now]) covered) es)"

definition grades_over :: "evidence_entry list \<Rightarrow> (string, chain_grade) dict \<Rightarrow> (string \<times> chain_grade) list" where
  "grades_over es grades_before =
     map (\<lambda>(c, gs). (c, weakest gs)) (sort_key fst (grades_loop grades_before [] es))"

definition declared_gaps :: "evidence_entry list \<Rightarrow> declared_gap list" where
  "declared_gaps es = map (\<lambda>e. \<lparr>dg_sequence = en_sequence e, dg_reason = text_of (member (er_body e) ''reason''),
      dg_count = (case int_of (member (er_body e) ''count'') of None \<Rightarrow> 0 | Some n \<Rightarrow> n)\<rparr>)
    (filter (\<lambda>e. er_kind e = ''gap'') es)"

definition last_sequence :: "evidence_entry list \<Rightarrow> int option" where
  "last_sequence es = (if es = [] then None else Some (en_sequence (last es)))"

text \<open>\<open>_verdict\<close>: what is found wrong, and the entries the grades are read from.\<close>

definition verdict_on ::
  "evidence_entry list \<Rightarrow> string \<Rightarrow> int \<Rightarrow> (string, chain_grade) dict \<Rightarrow> chain_condition \<Rightarrow> int option \<Rightarrow>
   string option \<Rightarrow> string option \<Rightarrow> string option \<Rightarrow> evidence_entry list \<Rightarrow> chain_verdict" where
  "verdict_on es scope from_sequence grades_before condition sequence expected found version graded =
     \<lparr>cv_scope = scope, cv_condition = condition, cv_from_sequence = from_sequence, cv_to_sequence = last_sequence es,
      cv_up_to = (if condition = Intact then last_sequence es else None), cv_sequence = sequence,
      cv_expected = expected, cv_found = found, cv_version = version, cv_covers_an_entry = (es \<noteq> []),
      cv_declared_gaps = declared_gaps es, cv_grades = grades_over graded grades_before\<rparr>"

section \<open>The verifier\<close>

text \<open>
  The loops of \<open>verify\<close>, each the place and the nature of the first complaint: the missing sequence after a pair that
  is not contiguous, the entry whose recipe is unknown or cannot be applied, the hash that does not recompute, and
  the link that names another predecessor.
\<close>

fun first_gap :: "nat \<Rightarrow> evidence_entry list \<Rightarrow> (nat \<times> int) option" where
  "first_gap i (a # b # es) =
     (if en_sequence b \<noteq> en_sequence a + 1 then Some (i, en_sequence a + 1) else first_gap (Suc i) (b # es))"
| "first_gap i _ = None"

datatype hash_complaint = No_Recipe | Not_Appliable | Not_Recomputed string

fun first_bad_hash :: "nat \<Rightarrow> evidence_entry list \<Rightarrow> (nat \<times> evidence_entry \<times> hash_complaint) option result" where
  "first_bad_hash i [] = Inr None"
| "first_bad_hash i (e # es) =
     (if en_preimage_version e \<noteq> PREIMAGE_VERSION then Inr (Some (i, e, No_Recipe))
      else (case entry_hash_again e of
          Inl x \<Rightarrow> if x \<in> set UNAPPLIABLE then Inr (Some (i, e, Not_Appliable)) else Inl x
        | Inr h \<Rightarrow> if h \<noteq> en_entry_hash e then Inr (Some (i, e, Not_Recomputed h)) else first_bad_hash (Suc i) es))"

fun first_bad_link :: "nat \<Rightarrow> evidence_entry list \<Rightarrow> (nat \<times> evidence_entry \<times> evidence_entry) option" where
  "first_bad_link i (a # b # es) =
     (if en_previous_hash b \<noteq> Some (en_entry_hash a) then Some (i, a, b) else first_bad_link (Suc i) (b # es))"
| "first_bad_link i _ = None"

fun ascending :: "evidence_entry list \<Rightarrow> bool" where
  "ascending (a # b # es) \<longleftrightarrow> en_sequence a < en_sequence b \<and> ascending (b # es)"
| "ascending _ \<longleftrightarrow> True"

text \<open>\<open>verify\<close>, behind the guards of its arguments.\<close>

definition verify_asked ::
  "evidence_entry list \<Rightarrow> string \<Rightarrow> int \<Rightarrow> int option \<Rightarrow> (string, chain_grade) dict \<Rightarrow> chain_verdict result" where
  "verify_asked es scope from_sequence to_sequence grades_before =
     (let say = verdict_on es scope from_sequence grades_before
      in if es = [] then
           (if to_sequence = None then Inr (say Unverifiable None None None None es)
            else Inr (say Gap_At (Some from_sequence) None None None []))
         else if en_sequence (hd es) \<noteq> from_sequence then Inr (say Gap_At (Some from_sequence) None None None [])
         else (case first_gap 1 es of
             Some (i, missing) \<Rightarrow> Inr (say Gap_At (Some missing) None None None (take i es))
           | None \<Rightarrow>
               if (case to_sequence of None \<Rightarrow> False | Some t \<Rightarrow> en_sequence (last es) < t)
               then Inr (say Gap_At (Some (en_sequence (last es) + 1)) None None None es)
               else bind_r (first_bad_hash 0 es) (\<lambda>bad. case bad of
                   Some (i, e, Not_Recomputed h) \<Rightarrow>
                     Inr (say Broken_At (Some (en_sequence e)) (Some h) (Some (en_entry_hash e)) None (take i es))
                 | Some (i, e, _) \<Rightarrow>
                     Inr (say Unverifiable (Some (en_sequence e)) None (Some (en_entry_hash e))
                       (Some (en_preimage_version e)) (take i es))
                 | None \<Rightarrow> (case first_bad_link 1 es of
                       Some (i, a, b) \<Rightarrow>
                         Inr (say Broken_At (Some (en_sequence b)) (Some (en_entry_hash a)) (en_previous_hash b) None
                           (take i es))
                     | None \<Rightarrow> Inr (say Intact None None None None es)))))"

definition verify ::
  "evidence_entry list \<Rightarrow> string \<Rightarrow> int \<Rightarrow> int option \<Rightarrow> (string, chain_grade) dict \<Rightarrow> chain_verdict result" where
  "verify es scope from_sequence to_sequence grades_before =
     (if scope = [] \<or> from_sequence < FIRST_SEQUENCE
         \<or> (case to_sequence of None \<Rightarrow> False | Some t \<Rightarrow> t < from_sequence)
         \<or> list_ex (\<lambda>e. er_scope e \<noteq> scope) es \<or> \<not> ascending es
      then Inl InvalidEvidence
      else verify_asked es scope from_sequence to_sequence grades_before)"

end
