(* ===== verification/EvidenceLemmas.thy ===== *)
theory EvidenceLemmas
  imports EvidenceChain
begin

text \<open>
  What the validators raise, what the loops of the verifier find, and what the recipe reads: the facts the
  properties of the chain rest on.
\<close>

section \<open>What an operation can raise\<close>

definition only_raises :: "exn set \<Rightarrow> 'a result \<Rightarrow> bool" where
  "only_raises X r \<longleftrightarrow> (\<forall>x. r = Inl x \<longrightarrow> x \<in> X)"

named_theorems raising \<open>what the validators raise\<close>

lemma only_raises_simps [simp]: "only_raises X (Inr v)" "only_raises X (Inl x) \<longleftrightarrow> x \<in> X"
  by (simp_all add: only_raises_def)

lemma only_raises_bind [raising]:
  "only_raises X r \<Longrightarrow> (\<And>v. r = Inr v \<Longrightarrow> only_raises X (f v)) \<Longrightarrow> only_raises X (bind_r r f)"
  by (cases r) (auto simp: only_raises_def)

lemma only_raises_if [raising]:
  "(b \<Longrightarrow> only_raises X r) \<Longrightarrow> (\<not> b \<Longrightarrow> only_raises X s) \<Longrightarrow> only_raises X (if b then r else s)"
  by simp

lemma only_raises_each [raising]: "(\<And>x. only_raises X (f x)) \<Longrightarrow> only_raises X (each f xs)"
  by (induction xs) (simp_all add: only_raises_bind)

lemma only_raises_json [raising]:
  assumes "only_raises X n" "\<And>b. only_raises X (tb b)" "\<And>i. only_raises X (ti i)" "\<And>f. only_raises X (tf f)"
    "\<And>s. only_raises X (ts s)" "\<And>a. only_raises X (ta a)" "\<And>d. only_raises X (td d)"
  shows "only_raises X (case v of JNull \<Rightarrow> n | JBool b \<Rightarrow> tb b | JInt i \<Rightarrow> ti i | JFloat f \<Rightarrow> tf f | JStr s \<Rightarrow> ts s
    | JArr a \<Rightarrow> ta a | JObj d \<Rightarrow> td d)"
  using assms by (cases v) simp_all

lemma only_raises_prod [raising]:
  "(\<And>a b. only_raises X (f a b)) \<Longrightarrow> only_raises X (case p of (a, b) \<Rightarrow> f a b)"
  by (cases p) simp

abbreviation "shape_errors \<equiv> {ValueError, TypeError}"

lemma only_raises_shape [raising]: "only_raises X (Inr v)" "only_raises shape_errors (Inl ValueError)"
    "only_raises shape_errors (Inl TypeError)"
  by simp_all

lemma in_set_raises [raising]: "only_raises shape_errors (in_set v xs)"
  unfolding in_set_def by (intro raising)

lemma position_raises [raising]: "only_raises shape_errors (validate_position v)"
  unfolding validate_position_def by (intro raising)

lemma capture_raises [raising]: "only_raises shape_errors (validate_capture v)"
  unfolding validate_capture_def Let_def by (intro raising)

lemma references_raises [raising]: "only_raises shape_errors (validate_references v)"
  unfolding validate_references_def by (intro raising)

lemma copied_raises [raising]: "only_raises shape_errors (validate_copied_decision d)"
  unfolding validate_copied_decision_def nonempty_text_def Let_def by (intro raising)

lemma losses_raises [raising]: "only_raises shape_errors (validate_named_losses d)"
  unfolding validate_named_losses_def by (intro raising)

lemma recovery_raises [raising]: "only_raises shape_errors (validate_recovery d)"
  unfolding validate_recovery_def names_every_kind_def by (intro raising)

lemma gap_raises [raising]: "only_raises shape_errors (validate_gap d)"
  unfolding validate_gap_def nonempty_text_def by (intro raising)

lemma provider_raises [raising]: "only_raises shape_errors (validate_provider v)"
  unfolding validate_provider_def by (intro raising)

lemma effect_raises [raising]: "only_raises shape_errors (validate_effect d)"
  unfolding validate_effect_def nonempty_text_def by (intro raising)

lemma grade_raises [raising]: "only_raises shape_errors (validate_grade d)"
  unfolding validate_grade_def nonempty_text_def by (intro raising)

lemma body_raises [raising]: "only_raises shape_errors (validate_body kind body)"
  unfolding validate_body_def by (intro raising)

lemma record_post_init_raises: "only_raises shape_errors (record_post_init r)"
  unfolding record_post_init_def by (intro raising)

lemma entry_hash_again_raises: "only_raises (set UNAPPLIABLE) (entry_hash_again e)"
proof -
  have "only_raises (set UNAPPLIABLE) (record_post_init e)"
    using record_post_init_raises [of e] by (auto simp: only_raises_def UNAPPLIABLE_def)
  moreover have "only_raises (set UNAPPLIABLE) (chain_instant d)" for d
    by (simp add: chain_instant_def UNAPPLIABLE_def split: datetime.split)
  ultimately show ?thesis
    unfolding entry_hash_again_def bare_record_def chain_hash_def record_preimage_def preimage_def
    by (intro only_raises_bind) simp_all
qed

section \<open>What the loops find\<close>

definition contiguous :: "evidence_entry list \<Rightarrow> bool" where
  "contiguous es \<longleftrightarrow> successively (\<lambda>a b. en_sequence b = en_sequence a + 1) es"

definition linked :: "evidence_entry list \<Rightarrow> bool" where
  "linked es \<longleftrightarrow> successively (\<lambda>a b. en_previous_hash b = Some (en_entry_hash a)) es"

definition recomputes :: "evidence_entry \<Rightarrow> bool" where
  "recomputes e \<longleftrightarrow> en_preimage_version e = PREIMAGE_VERSION \<and> entry_hash_again e = Inr (en_entry_hash e)"

lemma successively_take: "successively P xs \<Longrightarrow> successively P (take n xs)"
  by (metis append_take_drop_id successively_append_iff)

lemma successively_drop: "successively P xs \<Longrightarrow> successively P (drop n xs)"
  by (metis append_take_drop_id successively_append_iff)

lemma successively_snoc:
  "successively P (xs @ [x]) \<longleftrightarrow> successively P xs \<and> (xs = [] \<or> P (last xs) x)"
  by (auto simp: successively_append_iff)

lemma first_gap_None: "first_gap i es = None \<longleftrightarrow> contiguous es"
  by (induction i es rule: first_gap.induct) (auto simp: contiguous_def)

lemma first_gap_from:
  assumes "first_gap i es = Some (j, m)"
  shows "\<exists>k. j = i + k \<and> Suc k < length es \<and> contiguous (take (Suc k) es) \<and> m = en_sequence (es ! k) + 1 \<and>
    en_sequence (es ! Suc k) \<noteq> m"
  using assms
proof (induction i es arbitrary: j m rule: first_gap.induct)
  case (1 i a b es)
  show ?case
  proof (cases "en_sequence b = en_sequence a + 1")
    case True
    with 1 obtain k where "j = Suc i + k" "Suc k < length (b # es)" "contiguous (take (Suc k) (b # es))"
      "m = en_sequence ((b # es) ! k) + 1" "en_sequence ((b # es) ! Suc k) \<noteq> m" by auto
    with True show ?thesis by (intro exI [of _ "Suc k"]) (simp add: contiguous_def)
  next
    case False
    with "1.prems" show ?thesis by (intro exI [of _ 0]) (auto simp: contiguous_def)
  qed
qed simp_all

lemma first_bad_link_None: "first_bad_link i es = None \<longleftrightarrow> linked es"
  by (induction i es rule: first_bad_link.induct) (auto simp: linked_def)

lemma first_bad_link_from:
  assumes "first_bad_link i es = Some (j, a, b)"
  shows "\<exists>k. j = i + k \<and> Suc k < length es \<and> linked (take (Suc k) es) \<and> a = es ! k \<and> b = es ! Suc k \<and>
    en_previous_hash b \<noteq> Some (en_entry_hash a)"
  using assms
proof (induction i es arbitrary: j a b rule: first_bad_link.induct)
  case (1 i c d es)
  show ?case
  proof (cases "en_previous_hash d = Some (en_entry_hash c)")
    case True
    with 1 obtain k where "j = Suc i + k" "Suc k < length (d # es)" "linked (take (Suc k) (d # es))"
      "a = (d # es) ! k" "b = (d # es) ! Suc k" "en_previous_hash b \<noteq> Some (en_entry_hash a)" by auto
    with True show ?thesis by (intro exI [of _ "Suc k"]) (simp add: linked_def)
  next
    case False
    with "1.prems" show ?thesis by (intro exI [of _ 0]) (auto simp: linked_def)
  qed
qed simp_all

text \<open>What a complaint of the hash loop says of its entry.\<close>

definition complaint_holds :: "evidence_entry \<Rightarrow> hash_complaint \<Rightarrow> bool" where
  "complaint_holds e c \<longleftrightarrow> (case c of
      No_Recipe \<Rightarrow> en_preimage_version e \<noteq> PREIMAGE_VERSION
    | Not_Appliable \<Rightarrow> en_preimage_version e = PREIMAGE_VERSION \<and> (\<exists>x. entry_hash_again e = Inl x)
    | Not_Recomputed h \<Rightarrow> en_preimage_version e = PREIMAGE_VERSION \<and> entry_hash_again e = Inr h \<and> h \<noteq> en_entry_hash e)"

lemma first_bad_hash_None: "first_bad_hash i es = Inr None \<longleftrightarrow> list_all recomputes es"
  by (induction es arbitrary: i) (auto simp: recomputes_def split: sum.splits)

lemma first_bad_hash_total: "\<exists>r. first_bad_hash i es = Inr r"
proof (induction es arbitrary: i)
  case (Cons e es)
  then show ?case
    using entry_hash_again_raises [of e] by (auto simp: only_raises_def split: sum.split)
qed simp

lemma first_bad_hash_from:
  assumes "first_bad_hash i es = Inr (Some (j, e, c))"
  shows "\<exists>k. j = i + k \<and> k < length es \<and> list_all recomputes (take k es) \<and> e = es ! k \<and> complaint_holds e c"
  using assms
proof (induction es arbitrary: i)
  case (Cons a es)
  show ?case
  proof (cases "recomputes a")
    case True
    with Cons.prems have "first_bad_hash (Suc i) es = Inr (Some (j, e, c))" by (simp add: recomputes_def)
    from Cons.IH [OF this] obtain k where "j = Suc i + k" "k < length es" "list_all recomputes (take k es)"
      "e = es ! k" "complaint_holds e c" by blast
    with True show ?thesis by (intro exI [of _ "Suc k"]) simp
  next
    case False
    with Cons.prems show ?thesis
      by (intro exI [of _ 0]) (auto simp: recomputes_def complaint_holds_def split: if_splits sum.splits)
  qed
qed simp

lemma contiguous_nth:
  assumes "contiguous es" "k < length es"
  shows "en_sequence (es ! k) = en_sequence (hd es) + int k"
  using assms
proof (induction es arbitrary: k)
  case (Cons e es)
  show ?case
  proof (cases k)
    case (Suc k')
    then have k': "k' < length es" using Cons.prems by simp
    then obtain a es' where es: "es = a # es'" by (cases es) auto
    have "contiguous es" "en_sequence a = en_sequence e + 1"
      using Cons.prems(1) by (simp_all add: contiguous_def es)
    with Cons.IH [OF _ k'] Suc show ?thesis by (simp add: es)
  qed simp
qed simp

lemma contiguous_ascending: "contiguous es \<Longrightarrow> ascending es"
  by (induction es rule: ascending.induct) (auto simp: contiguous_def)

section \<open>What the verifier answers\<close>

definition range_asked :: "evidence_entry list \<Rightarrow> string \<Rightarrow> int \<Rightarrow> int option \<Rightarrow> bool" where
  "range_asked es scope from_sequence to_sequence \<longleftrightarrow>
     scope \<noteq> [] \<and> FIRST_SEQUENCE \<le> from_sequence \<and> (\<forall>t. to_sequence = Some t \<longrightarrow> from_sequence \<le> t) \<and>
     (\<forall>e \<in> set es. er_scope e = scope) \<and> ascending es"

lemma verify_refuses:
  "\<not> range_asked es scope f t \<Longrightarrow> verify es scope f t gb = Inl InvalidEvidence"
  by (auto simp: verify_def range_asked_def Let_def list_ex_iff split: option.splits)

text \<open>The end the caller named, if any, is reached.\<close>

definition reaches :: "evidence_entry list \<Rightarrow> int option \<Rightarrow> bool" where
  "reaches es t \<longleftrightarrow> (case t of None \<Rightarrow> True | Some n \<Rightarrow> n \<le> en_sequence (last es))"

lemma verify_cases:
  assumes "range_asked es scope f t"
  obtains
    (empty) "es = []" "t = None" "verify es scope f t gb = Inr (verdict_on es scope f gb Unverifiable None None None None es)"
  | (nothing) "es = []" "t \<noteq> None" "verify es scope f t gb = Inr (verdict_on es scope f gb Gap_At (Some f) None None None [])"
  | (late) "es \<noteq> []" "en_sequence (hd es) \<noteq> f"
      "verify es scope f t gb = Inr (verdict_on es scope f gb Gap_At (Some f) None None None [])"
  | (hole) k where "es \<noteq> []" "en_sequence (hd es) = f" "Suc k < length es" "contiguous (take (Suc k) es)"
      "en_sequence (es ! Suc k) \<noteq> en_sequence (es ! k) + 1"
      "verify es scope f t gb = Inr (verdict_on es scope f gb Gap_At (Some (en_sequence (es ! k) + 1)) None None None (take (Suc k) es))"
  | (short) "es \<noteq> []" "en_sequence (hd es) = f" "contiguous es" "\<not> reaches es t"
      "verify es scope f t gb = Inr (verdict_on es scope f gb Gap_At (Some (en_sequence (last es) + 1)) None None None es)"
  | (unread) k c where "es \<noteq> []" "en_sequence (hd es) = f" "contiguous es" "reaches es t" "k < length es"
      "list_all recomputes (take k es)" "complaint_holds (es ! k) c" "c = No_Recipe \<or> c = Not_Appliable"
      "verify es scope f t gb = Inr (verdict_on es scope f gb Unverifiable (Some (en_sequence (es ! k))) None
         (Some (en_entry_hash (es ! k))) (Some (en_preimage_version (es ! k))) (take k es))"
  | (broken) k h where "es \<noteq> []" "en_sequence (hd es) = f" "contiguous es" "reaches es t" "k < length es"
      "list_all recomputes (take k es)" "complaint_holds (es ! k) (Not_Recomputed h)"
      "verify es scope f t gb = Inr (verdict_on es scope f gb Broken_At (Some (en_sequence (es ! k))) (Some h)
         (Some (en_entry_hash (es ! k))) None (take k es))"
  | (unlinked) k where "es \<noteq> []" "en_sequence (hd es) = f" "contiguous es" "reaches es t" "list_all recomputes es"
      "Suc k < length es" "linked (take (Suc k) es)" "en_previous_hash (es ! Suc k) \<noteq> Some (en_entry_hash (es ! k))"
      "verify es scope f t gb = Inr (verdict_on es scope f gb Broken_At (Some (en_sequence (es ! Suc k)))
         (Some (en_entry_hash (es ! k))) (en_previous_hash (es ! Suc k)) None (take (Suc k) es))"
  | (intact) "es \<noteq> []" "en_sequence (hd es) = f" "contiguous es" "reaches es t" "list_all recomputes es" "linked es"
      "verify es scope f t gb = Inr (verdict_on es scope f gb Intact None None None None es)"
proof -
  have same: "verify es scope f t gb = verify_asked es scope f t gb"
    using assms by (auto simp: verify_def range_asked_def list_ex_iff split: option.splits)
  note run = same verify_asked_def Let_def
  have reach: "(case t of None \<Rightarrow> False | Some n \<Rightarrow> en_sequence (last es) < n) \<longleftrightarrow> \<not> reaches es t"
    by (auto simp: reaches_def split: option.split)
  show thesis
  proof (cases "es = []")
    case True
    then show ?thesis using that(1,2) same by (cases "t = None") (simp_all add: verify_asked_def)
  next
    case ne: False
    show ?thesis
    proof (cases "en_sequence (hd es) = f")
      case False
      with ne show ?thesis using that(3) by (simp only: run if_True if_False simp_thms)
    next
      case first: True
      show ?thesis
      proof (cases "first_gap 1 es")
        case (Some p)
        obtain j m where p: "p = (j, m)" by (cases p)
        from first_gap_from [OF Some [unfolded p]] obtain k where "j = Suc k" "Suc k < length es"
          "contiguous (take (Suc k) es)" "m = en_sequence (es ! k) + 1" "en_sequence (es ! Suc k) \<noteq> m" by auto
        with ne first Some p show ?thesis
          using that(4) [of k] by (simp only: run if_False simp_thms option.case prod.case)
      next
        case None
        then have con: "contiguous es" by (simp only: first_gap_None)
        show ?thesis
        proof (cases "reaches es t")
          case False
          with ne first None con show ?thesis using that(5) by (simp only: run reach if_True if_False simp_thms option.case)
        next
          case True
          have rest: "verify es scope f t gb = bind_r (first_bad_hash 0 es) (\<lambda>bad. case bad of
                   Some (i, e, Not_Recomputed h) \<Rightarrow>
                     Inr (verdict_on es scope f gb Broken_At (Some (en_sequence e)) (Some h) (Some (en_entry_hash e)) None (take i es))
                 | Some (i, e, _) \<Rightarrow>
                     Inr (verdict_on es scope f gb Unverifiable (Some (en_sequence e)) None (Some (en_entry_hash e))
                       (Some (en_preimage_version e)) (take i es))
                 | None \<Rightarrow> (case first_bad_link 1 es of
                       Some (i, a, b) \<Rightarrow>
                         Inr (verdict_on es scope f gb Broken_At (Some (en_sequence b)) (Some (en_entry_hash a)) (en_previous_hash b) None
                           (take i es))
                     | None \<Rightarrow> Inr (verdict_on es scope f gb Intact None None None None es)))"
            using ne first None True by (simp only: run reach if_False simp_thms option.case)
          obtain r where r: "first_bad_hash 0 es = Inr r" using first_bad_hash_total by blast
          show ?thesis
          proof (cases r)
            case (Some p)
            obtain j e c where p: "p = (j, e, c)" by (cases p)
            from first_bad_hash_from [OF r [unfolded Some p]] obtain k where k: "j = k" "k < length es"
              "list_all recomputes (take k es)" "e = es ! k" "complaint_holds e c" by auto
            note eq = rest [unfolded r Some p k(4), simplified]
            note facts = ne first con True k(2,3) k(5) [unfolded k(4)]
            show ?thesis
              using that(6) [OF facts] that(7) [OF facts(1-6)] facts(7) eq k(1) by (cases c) simp_all
          next
            case None
            then have re: "list_all recomputes es" using r by (simp add: first_bad_hash_None)
            show ?thesis
            proof (cases "first_bad_link 1 es")
              case (Some p)
              obtain j a b where p: "p = (j, a, b)" by (cases p)
              from first_bad_link_from [OF Some [unfolded p]] obtain k where "j = Suc k" "Suc k < length es"
                "linked (take (Suc k) es)" "a = es ! k" "b = es ! Suc k" "en_previous_hash b \<noteq> Some (en_entry_hash a)" by auto
              with that(8) [of k] ne first con True re rest r None Some p show ?thesis by simp
            next
              case link: None
              then have "linked es" by (simp only: first_bad_link_None)
              with that(9) ne first con True re rest r None link show ?thesis by simp
            qed
          qed
        qed
      qed
    qed
  qed
qed

lemma verdict_on_sel [simp]:
  "cv_condition (verdict_on es scope f gb c sequence x y z gs) = c"
  "cv_sequence (verdict_on es scope f gb c sequence x y z gs) = sequence"
  "cv_expected (verdict_on es scope f gb c sequence x y z gs) = x"
  "cv_found (verdict_on es scope f gb c sequence x y z gs) = y"
  "cv_grades (verdict_on es scope f gb c sequence x y z gs) = grades_over gs gb"
  "cv_declared_gaps (verdict_on es scope f gb c sequence x y z gs) = declared_gaps es"
  "cv_to_sequence (verdict_on es scope f gb c sequence x y z gs) = last_sequence es"
  "cv_up_to (verdict_on es scope f gb c sequence x y z gs) = (if c = Intact then last_sequence es else None)"
  by (simp_all add: verdict_on_def)

lemma verify_Inr: "verify es scope f t gb = Inr v \<Longrightarrow> range_asked es scope f t"
  using verify_refuses [of es scope f t gb] by fastforce

lemma verify_answers:
  assumes "range_asked es scope f t"
  obtains v where "verify es scope f t gb = Inr v"
  by (rule verify_cases [OF assms, where gb = gb]) (rule that, assumption)+

end
