(* ===== verification/EvidenceProperties.thy ===== *)
theory EvidenceProperties
  imports EvidenceLemmas
begin

text \<open>
  The properties of the chain: what the writer writes the verifier finds intact, two intact histories with one last
  digest are one history, a verdict names the first fault, and an append after damage hides nothing.
\<close>

section \<open>What the recipe reads\<close>

text \<open>What an entry says, as far as its hash covers it: the order of a body's members does not matter, and an
  instant counts by its rendering.\<close>

type_synonym entry_content =
  "string \<times> int \<times> string \<times> string result \<times> string \<times> chain_principal \<times> json \<times> string option"

definition content_of :: "evidence_entry \<Rightarrow> entry_content" where
  "content_of e = (er_scope e, en_sequence e, er_kind e, chain_instant (er_recorded_at e), er_connection_id e,
     er_principal e, sorted_json (JObj (er_body e)), en_previous_hash e)"

definition entry_preimage :: "evidence_entry \<Rightarrow> string result" where
  "entry_preimage e = record_preimage (evidence_record.truncate e) (en_sequence e) (en_previous_hash e)"

lemma json_ok_principal [simp]: "json_ok (principal_to_document p)"
  by (induction p) (simp add: list_all_iff)

lemma sorted_principal:
  "sorted_json (JObj [(''kind'', a), (''id'', b), (''via'', c)]) =
   JObj [(''id'', sorted_json b), (''kind'', sorted_json a), (''via'', sorted_json c)]"
  by (simp add: sort_key_def insort_key_def)

lemma principal_document_inj:
  "sorted_json (principal_to_document p) = sorted_json (principal_to_document q) \<longleftrightarrow> p = q"
proof
  show "p = q" if "sorted_json (principal_to_document p) = sorted_json (principal_to_document q)"
    using that
  proof (induction p arbitrary: q)
    case (Chain_Principal kind ident via)
    obtain kind' ident' via' where q: "q = Chain_Principal kind' ident' via'" by (cases q)
    have "map (sorted_json \<circ> principal_to_document) via = map (sorted_json \<circ> principal_to_document) via'"
      and top: "kind = kind'" "ident = ident'"
      using Chain_Principal.prems by (simp_all only: q principal_to_document.simps sorted_principal sorted_json.simps) simp_all
    moreover have "via = ws"
      if "map (sorted_json \<circ> principal_to_document) via = map (sorted_json \<circ> principal_to_document) ws" for ws
      using that Chain_Principal.IH by (induction via arbitrary: ws) (auto simp: Cons_eq_map_conv)
    ultimately show ?case by (simp add: q)
  qed
qed simp

lemma canonical_principal_inj:
  "canonical_json (principal_to_document p) = canonical_json (principal_to_document q) \<longleftrightarrow> p = q"
  using canonical_json_inj [of "principal_to_document p" "principal_to_document q"]
  by (auto simp: principal_document_inj)

lemma preimage_determines_content:
  assumes "entry_preimage e = Inr x" and "entry_preimage e' = Inr x"
    and "json_ok (JObj (er_body e))" and "json_ok (JObj (er_body e'))"
  shows "content_of e = content_of e'"
proof -
  let ?r = "evidence_record.truncate e" and ?r' = "evidence_record.truncate e'"
  obtain i i' where i: "chain_instant (er_recorded_at e) = Inr i" "chain_instant (er_recorded_at e') = Inr i'"
    using assms(1,2)
    by (auto simp: entry_preimage_def record_preimage_def preimage_def evidence_record.defs)
  define parts where "parts d j =
     [Some (utf8 PREIMAGE_VERSION), Some (utf8 (er_scope d)), Some (utf8 (int_text (en_sequence d))), Some (utf8 (er_kind d)),
      Some (utf8 j), Some (utf8 (er_connection_id d)), Some (canonical_json (principal_to_document (er_principal d))),
      Some (canonical_json (JObj (er_body d))), map_option utf8 (en_previous_hash d)]" for d :: evidence_entry and j
  have "concat (map component (parts e i)) = concat (map component (parts e' i'))"
    using assms(1,2) i
    by (simp add: entry_preimage_def record_preimage_def preimage_def evidence_record.defs parts_def)
  then have "parts e i = parts e' i'"
    using components_inj [of "parts e i" "parts e' i'"] by (simp add: parts_def)
  then have parts: "er_scope e = er_scope e'" "en_sequence e = en_sequence e'" "er_kind e = er_kind e'" "i = i'"
    "er_connection_id e = er_connection_id e'" "er_principal e = er_principal e'"
    "canonical_json (JObj (er_body e)) = canonical_json (JObj (er_body e'))"
    "map_option utf8 (en_previous_hash e) = map_option utf8 (en_previous_hash e')"
    by (simp_all add: parts_def utf8_inj canonical_principal_inj)
  have "en_previous_hash e = en_previous_hash e'"
    using parts(8) by (cases "en_previous_hash e"; cases "en_previous_hash e'") (simp_all add: utf8_inj)
  with parts canonical_json_inj [OF assms(3,4) parts(7)] i show ?thesis by (simp add: content_of_def)
qed

lemma recomputes_preimage:
  assumes "recomputes e"
  obtains x where "entry_preimage e = Inr x" "en_entry_hash e = sha256 x"
  using assms
  by (auto simp: recomputes_def entry_hash_again_def bare_record_def chain_hash_def entry_preimage_def)

section \<open>What the writer writes\<close>

lemma place_recomputes:
  assumes "place r n h = Inr e"
  shows "recomputes e" "en_sequence e = n" "en_previous_hash e = h" "er_scope e = er_scope r" "er_scope e \<noteq> []"
    "er_body e = er_body r"
proof -
  obtain d where d: "chain_hash r n h = Inr d" and e: "e = placed r n h d" and ok: "entry_post_init e = Inr ()"
    using assms by (auto simp: place_def Let_def)
  have "record_post_init e = Inr ()" using ok by (simp add: entry_post_init_def)
  moreover have "evidence_record.truncate e = r" by (simp add: e placed_def evidence_record.defs)
  ultimately show "recomputes e" "en_sequence e = n" "en_previous_hash e = h" "er_scope e = er_scope r" "er_scope e \<noteq> []"
    "er_body e = er_body r"
    using d by (simp_all add: recomputes_def entry_hash_again_def bare_record_def e placed_def record_post_init_def)
qed

lemma place_fields:
  "place r n h = Inr e \<Longrightarrow> er_connection_id e = er_connection_id r \<and> er_kind e = er_kind r \<and>
     er_recorded_at e = er_recorded_at r \<and> en_preimage_version e = PREIMAGE_VERSION \<and> entry_post_init e = Inr ()"
  by (auto simp: place_def Let_def placed_def)

definition last_entry :: "evidence_entry list \<Rightarrow> evidence_entry option" where
  "last_entry es = (if es = [] then None else Some (last es))"

text \<open>A chain a writer grows, one \<open>chained\<close> at a time.\<close>

inductive written :: "evidence_entry list \<Rightarrow> bool" where
  none: "written []"
| more: "written es \<Longrightarrow> chained r (last_entry es) = Inr e \<Longrightarrow> written (es @ [e])"

inductive_cases written_snoc: "written (es @ [e])"

lemma chained_first: "chained r None = Inr e \<Longrightarrow> place r FIRST_SEQUENCE None = Inr e"
  by (simp add: chained_def)

lemma chained_next: "chained r (Some p) = Inr e \<Longrightarrow>
    er_scope p = er_scope r \<and> place r (en_sequence p + 1) (Some (en_entry_hash p)) = Inr e"
  by (simp add: chained_def split: if_splits)

lemma written_sound:
  assumes "written es"
  shows "list_all recomputes es \<and> linked es \<and> contiguous es \<and> (es \<noteq> [] \<longrightarrow> en_sequence (hd es) = FIRST_SEQUENCE) \<and>
    (\<exists>s. s \<noteq> [] \<and> (\<forall>e \<in> set es. er_scope e = s))"
  using assms
proof induction
  case none
  have "\<exists>s :: string. s \<noteq> []" by blast
  then show ?case by (simp add: linked_def contiguous_def)
next
  case (more es r e)
  then obtain s where s: "s \<noteq> []" "\<forall>e \<in> set es. er_scope e = s" by blast
  show ?case
  proof (cases "es = []")
    case True
    with more.hyps(2) have "place r FIRST_SEQUENCE None = Inr e" using chained_first by (simp add: last_entry_def)
    note new = place_recomputes [OF this]
    have "linked [e]" "contiguous [e]" by (simp_all add: linked_def contiguous_def)
    with True new show ?thesis by (intro conjI exI [of _ "er_scope e"]) auto
  next
    case False
    with more.hyps(2) have p: "er_scope (last es) = er_scope r"
      "place r (en_sequence (last es) + 1) (Some (en_entry_hash (last es))) = Inr e"
      using chained_next by (auto simp: last_entry_def)
    note new = place_recomputes [OF p(2)]
    have "er_scope e = s" using s False p(1) new(4) by simp
    moreover have "linked (es @ [e])" "contiguous (es @ [e])"
      using more.IH new(2,3) by (simp_all add: linked_def contiguous_def successively_snoc)
    ultimately show ?thesis using more.IH False new(1) s by (intro conjI exI [of _ s]) auto
  qed
qed

lemma intact_range:
  assumes "es \<noteq> []" "contiguous es" "en_sequence (hd es) = f" "FIRST_SEQUENCE \<le> f" "list_all recomputes es" "linked es"
    "s \<noteq> []" "\<forall>e \<in> set es. er_scope e = s" "t = None \<or> t = last_sequence es"
  shows "\<exists>v. verify es s f t gb = Inr v \<and> cv_condition v = Intact \<and> cv_up_to v = last_sequence es"
proof -
  have "en_sequence (last es) = f + int (length es - 1)"
    using assms(1-3) contiguous_nth [of es "length es - 1"] by (simp add: last_conv_nth)
  then have asked: "range_asked es s f t" and reach: "reaches es t"
    using assms contiguous_ascending by (auto simp: range_asked_def reaches_def last_sequence_def split: option.splits)
  show ?thesis using asked
  proof (cases rule: verify_cases [where gb = gb])
    case (hole k)
    then show ?thesis using assms(2) by (auto simp: contiguous_def successively_conv_nth)
  next
    case (unread k c)
    then have "recomputes (es ! k)" using assms(5) by (simp add: list_all_iff)
    with unread show ?thesis by (auto simp: recomputes_def complaint_holds_def)
  next
    case (broken k h)
    then have "recomputes (es ! k)" using assms(5) by (simp add: list_all_iff)
    with broken show ?thesis by (auto simp: recomputes_def complaint_holds_def)
  next
    case (unlinked k)
    then show ?thesis using assms(6) by (auto simp: linked_def successively_conv_nth)
  qed (use assms reach in simp_all)
qed

section \<open>Properties\<close>

text \<open>C0: every range of a chain grown by \<open>chained\<close>, one record after another from nothing, is found intact by
  \<open>verify\<close>, asked for from its first to its last sequence, and is intact up to its last.\<close>

theorem what_is_written_verifies:
  assumes "written es" and "1 \<le> a" and "a \<le> b" and "b \<le> length es"
  shows "\<exists>v. verify (take (b - a + 1) (drop (a - 1) es)) (er_scope (hd es)) (int a) (Some (int b)) gb = Inr v \<and>
    cv_condition v = Intact \<and> cv_up_to v = Some (int b)"
proof -
  define ds where "ds = take (b - a + 1) (drop (a - 1) es)"
  note sound = written_sound [OF assms(1)]
  have ne: "es \<noteq> []" "ds \<noteq> []" and len: "length ds = b - a + 1" and sub: "set ds \<subseteq> set es"
    using assms by (auto simp: ds_def dest: in_set_takeD in_set_dropD)
  from sound ne obtain s where s: "s \<noteq> []" "\<forall>e \<in> set es. er_scope e = s" "er_scope (hd es) = s" by auto
  have "en_sequence (ds ! k) = int (a + k)" if "k < length ds" for k
    using contiguous_nth [of es "a - 1 + k"] sound ne assms that by (simp add: ds_def len FIRST_SEQUENCE_def)
  then have ends: "en_sequence (hd ds) = int a" "last_sequence ds = Some (int b)"
    using ne len assms(2,3) by (simp_all add: hd_conv_nth last_conv_nth last_sequence_def)
  have "\<exists>v. verify ds s (int a) (Some (int b)) gb = Inr v \<and> cv_condition v = Intact \<and> cv_up_to v = last_sequence ds"
  proof (rule intact_range)
    show "contiguous ds" "linked ds"
      using sound by (auto simp: ds_def contiguous_def linked_def intro: successively_take successively_drop)
    show "list_all recomputes ds" using sound sub by (auto simp: list_all_iff)
    show "\<forall>e \<in> set ds. er_scope e = s" using s sub by blast
  qed (use ne ends s assms in \<open>simp_all add: FIRST_SEQUENCE_def\<close>)
  then show ?thesis using ends s by (simp add: ds_def)
qed

text \<open>A record of a grade, and the first entry of a chain it makes; its digest stays a call of \<open>sha256\<close>.\<close>

definition example_record :: evidence_record where
  "example_record = \<lparr>er_scope = ''default'', er_kind = ''grade'', er_recorded_at = Aware 1700000000000000,
     er_connection_id = ''c1'', er_principal = Chain_Principal ''process'' ''7'' [],
     er_body = [(''grade'', JStr ''observability''), (''basis'', JStr ''caller_can_write''),
       (''evaluated_at'', JStr ''2023-11-14T22:13:20Z''), (''paths_inspected'', JInt 3)]\<rparr>"

lemma placed_somewhere:
  assumes "er_recorded_at r = Aware 1700000000000000" and "\<And>d. record_post_init (placed r n h d) = Inr ()"
    and "case h of None \<Rightarrow> n = 1 | Some x \<Rightarrow> 1 < n \<and> is_hex64 x"
  shows "\<exists>e. place r n h = Inr e"
proof -
  obtain x where x: "record_preimage r n h = Inr x"
    by (simp add: record_preimage_def preimage_def assms(1) chain_instant_def)
  have "entry_post_init (placed r n h (sha256 x)) = Inr ()"
    using assms(2,3) by (auto simp: entry_post_init_def placed_def FIRST_SEQUENCE_def sha256_shape split: option.splits)
  with x show ?thesis by (simp add: place_def chain_hash_def)
qed

lemma example_valid: "record_post_init (placed example_record n h d) = Inr ()"
  by (simp add: record_post_init_def placed_def example_record_def ENTRY_KINDS_def BODY_MEMBERS_def BODY_REQUIRED_def
      members_def validate_body_def validate_grade_def has_member_def member_def in_set_def int_at_least_def int_of_def
      nonempty_text_def some_text_def grade_value_def)

lemma example_placed:
  "case h of None \<Rightarrow> n = 1 | Some x \<Rightarrow> 1 < n \<and> is_hex64 x \<Longrightarrow> \<exists>e. place example_record n h = Inr e"
  by (rule placed_somewhere) (simp_all add: example_valid, simp add: example_record_def)

definition example_entry :: evidence_entry where
  "example_entry = (case place example_record 1 None of Inr e \<Rightarrow> e | Inl _ \<Rightarrow> undefined)"

lemma example_entry: "place example_record 1 None = Inr example_entry"
  using example_placed [of 1 None] by (auto simp: example_entry_def)

lemma example_written: "written [example_entry]"
  using written.more [OF written.none, of example_record example_entry] example_entry
  by (simp add: last_entry_def chained_def FIRST_SEQUENCE_def)

theorem what_is_written_verifies_witness:
  "\<exists>v. verify [example_entry] (er_scope (hd [example_entry])) 1 (Some 1) [] = Inr v \<and> cv_condition v = Intact \<and>
     cv_up_to v = Some 1"
  using what_is_written_verifies [OF example_written, of 1 1 "[]"] by simp

text \<open>C13: two ranges that verify as intact, over the same sequences and with the same last digest, say the same things
  entry by entry, unless at some place they hold two different preimages of one SHA-256 digest. So the digest of the last
  entry fixes the history behind it.\<close>

theorem one_digest_one_history:
  assumes "verify es s f t gb = Inr v" and "cv_condition v = Intact"
    and "verify es' s' f t' gb' = Inr v'" and "cv_condition v' = Intact"
    and "cv_up_to v = cv_up_to v'" and "en_entry_hash (last es) = en_entry_hash (last es')"
    and "\<forall>e \<in> set es \<union> set es'. json_ok (JObj (er_body e))"
  shows "map content_of es = map content_of es' \<or>
    (\<exists>k x x'. k < length es \<and> entry_preimage (es ! k) = Inr x \<and> entry_preimage (es' ! k) = Inr x' \<and> x \<noteq> x' \<and>
       sha256 x = sha256 x')"
proof -
  define same where "same xs ys \<longleftrightarrow> (map content_of xs = map content_of ys \<or>
    (\<exists>k x x'. k < length xs \<and> entry_preimage (xs ! k) = Inr x \<and> entry_preimage (ys ! k) = Inr x' \<and> x \<noteq> x' \<and>
       sha256 x = sha256 x'))" for xs ys
  have chain_back: "same xs ys"
    if "length xs = length ys" "xs \<noteq> [] \<Longrightarrow> en_entry_hash (last xs) = en_entry_hash (last ys)" "linked xs" "linked ys"
      "list_all recomputes xs" "list_all recomputes ys" "\<forall>e \<in> set xs \<union> set ys. json_ok (JObj (er_body e))" for xs ys
    using that
  proof (induction xs arbitrary: ys rule: rev_induct)
    case Nil
    then show ?case by (simp add: same_def)
  next
    case (snoc a xs)
    then obtain zs b where ys: "ys = zs @ [b]" and len: "length xs = length zs"
      by (cases ys rule: rev_cases) auto
    obtain x where x: "entry_preimage a = Inr x" "en_entry_hash a = sha256 x"
      using snoc.prems(5) recomputes_preimage [of a] by auto
    obtain y where y: "entry_preimage b = Inr y" "en_entry_hash b = sha256 y"
      using snoc.prems(6) ys recomputes_preimage [of b] by auto
    have digest: "sha256 x = sha256 y" using snoc.prems(2) x y ys by simp
    show ?case
    proof (cases "x = y")
      case False
      with x y digest len ys show ?thesis
        unfolding same_def by (intro disjI2 exI [of _ "length xs"] exI [of _ x] exI [of _ y]) (simp add: nth_append)
    next
      case True
      with x y snoc.prems(7) ys have content: "content_of a = content_of b"
        using preimage_determines_content [of a x b] by simp
      then have "en_previous_hash a = en_previous_hash b" by (simp add: content_of_def)
      moreover have "xs \<noteq> [] \<Longrightarrow> en_previous_hash a = Some (en_entry_hash (last xs))"
        "zs \<noteq> [] \<Longrightarrow> en_previous_hash b = Some (en_entry_hash (last zs))"
        using snoc.prems(3,4) ys by (simp_all add: linked_def successively_snoc)
      moreover have "linked xs" "linked zs"
        using snoc.prems(3,4) ys by (simp_all add: linked_def successively_snoc)
      moreover have "zs = [] \<longleftrightarrow> xs = []" using len by (cases xs; cases zs) simp_all
      ultimately have "same xs zs"
        using snoc.IH [of zs] snoc.prems(5-7) ys len by simp
      then show ?thesis
      proof (unfold same_def, elim disjE exE conjE, goal_cases)
        case 1
        with content ys show ?case by simp
      next
        case (2 k z z')
        with ys len show ?case
          by (intro disjI2 exI [of _ k] exI [of _ z] exI [of _ z']) (simp add: nth_append)
      qed
    qed
  qed
  have intact: "ds \<noteq> [] \<and> contiguous ds \<and> en_sequence (hd ds) = f \<and> list_all recomputes ds \<and> linked ds \<and>
      cv_up_to u = Some (f + int (length ds - 1))"
    if "verify ds r f q g = Inr u" "cv_condition u = Intact" for ds r q g u
    using verify_Inr [OF that(1)]
  proof (cases rule: verify_cases [where gb = g])
    case intact
    have "en_sequence (last ds) = f + int (length ds - 1)"
      using intact contiguous_nth [of ds "length ds - 1"] by (simp add: last_conv_nth)
    with intact that show ?thesis by (auto simp: last_sequence_def)
  qed (use that in auto)
  have "length es = length es'"
    using intact [OF assms(1,2)] intact [OF assms(3,4)] assms(5) by (cases es; cases es') simp_all
  with chain_back [of es es'] intact [OF assms(1,2)] intact [OF assms(3,4)] assms(6,7) show ?thesis
    by (simp only: same_def)
qed

theorem one_digest_one_history_witness:
  "\<exists>v. verify [example_entry] ''default'' 1 None [] = Inr v \<and> cv_condition v = Intact \<and>
    (map content_of [example_entry] = map content_of [example_entry] \<or>
      (\<exists>k x x'. k < length [example_entry] \<and> entry_preimage ([example_entry] ! k) = Inr x \<and>
        entry_preimage ([example_entry] ! k) = Inr x' \<and> x \<noteq> x' \<and> sha256 x = sha256 x'))"
proof -
  note new = place_recomputes [OF example_entry]
  obtain v where v: "verify [example_entry] ''default'' 1 None [] = Inr v" "cv_condition v = Intact"
    using intact_range [of "[example_entry]" 1 "''default''" None "[]"] new
    by (auto simp: contiguous_def linked_def FIRST_SEQUENCE_def example_record_def)
  moreover have "\<forall>e \<in> set [example_entry] \<union> set [example_entry]. json_ok (JObj (er_body e))"
    using new(6) by (simp add: example_record_def)
  ultimately show ?thesis
    using one_digest_one_history [OF v v refl refl] by blast
qed

text \<open>\<open>verify\<close> raises exactly when its arguments are not those of a range (no scope, bounds that do not follow one
  another, entries of another scope or out of order), and then \<open>InvalidEvidence\<close>; otherwise it answers, and intact exactly
  when the entries begin where asked, leave no sequence out, reach the end asked for, each recompute under the known
  recipe and each name the digest of the one before.\<close>

theorem intact_exactly_when_sound:
  "if \<not> range_asked es s f t then verify es s f t gb = Inl InvalidEvidence
   else \<exists>v. verify es s f t gb = Inr v \<and>
     (cv_condition v = Intact \<longleftrightarrow> es \<noteq> [] \<and> en_sequence (hd es) = f \<and> contiguous es \<and> reaches es t \<and>
        list_all recomputes es \<and> linked es)"
proof (cases "range_asked es s f t")
  case True
  have nth: "recomputes (es ! k)" if "list_all recomputes es" "k < length es" for k
    using that by (simp add: list_all_iff)
  have "\<exists>v. verify es s f t gb = Inr v \<and>
     (cv_condition v = Intact \<longleftrightarrow> es \<noteq> [] \<and> en_sequence (hd es) = f \<and> contiguous es \<and> reaches es t \<and>
        list_all recomputes es \<and> linked es)"
    using True
  proof (cases rule: verify_cases [where gb = gb])
    case (hole k)
    then show ?thesis by (auto simp: contiguous_def successively_conv_nth)
  next
    case (unread k c)
    then show ?thesis using nth [of k] by (auto simp: recomputes_def complaint_holds_def)
  next
    case (broken k h)
    then show ?thesis using nth [of k] by (auto simp: recomputes_def complaint_holds_def)
  next
    case (unlinked k)
    then show ?thesis by (auto simp: linked_def successively_conv_nth)
  qed auto
  with True show ?thesis by simp
qed (simp add: verify_refuses)

text \<open>An entry whose digest was replaced.\<close>

definition other_digest :: "string \<Rightarrow> string" where
  "other_digest h = (if h = replicate 64 CHR ''0'' then replicate 64 CHR ''1'' else replicate 64 CHR ''0'')"

lemma other_digest: "other_digest h \<noteq> h" "is_hex64 (other_digest h)"
  by (auto simp: other_digest_def is_hex64_def is_digit_def list_all_iff)

definition damaged_entry :: evidence_entry where
  "damaged_entry = example_entry\<lparr>en_entry_hash := other_digest (en_entry_hash example_entry)\<rparr>"

lemma damaged_hash: "entry_hash_again damaged_entry = Inr (en_entry_hash example_entry)"
  "en_entry_hash damaged_entry \<noteq> en_entry_hash example_entry" "en_preimage_version damaged_entry = PREIMAGE_VERSION"
proof -
  have "entry_hash_again (e\<lparr>en_entry_hash := h\<rparr>) = entry_hash_again e" for e h
    by (simp add: entry_hash_again_def bare_record_def record_post_init_def evidence_record.defs)
  then show "entry_hash_again damaged_entry = Inr (en_entry_hash example_entry)"
    using place_recomputes(1) [OF example_entry] by (simp add: damaged_entry_def recomputes_def)
qed (use place_recomputes(1) [OF example_entry] other_digest(1) in \<open>auto simp: damaged_entry_def recomputes_def\<close>)

lemma damaged_verdict:
  "\<exists>v. verify [damaged_entry] ''default'' 1 None [] = Inr v \<and> cv_condition v = Broken_At \<and> cv_sequence v = Some 1"
proof -
  note new = place_recomputes [OF example_entry]
  have shape: "er_scope damaged_entry = ''default''" "en_sequence damaged_entry = 1"
    using new by (simp_all add: damaged_entry_def example_record_def)
  have asked: "range_asked [damaged_entry] ''default'' 1 None"
    by (simp add: range_asked_def shape FIRST_SEQUENCE_def)
  have no: "\<not> recomputes damaged_entry" using damaged_hash by (simp add: recomputes_def)
  show ?thesis using asked
  proof (cases rule: verify_cases [where gb = "[]"])
    case (unread k c)
    then show ?thesis using damaged_hash by (auto simp: complaint_holds_def)
  qed (use no shape in \<open>auto simp: reaches_def contiguous_def\<close>)
qed

text \<open>C0: a chain whose last entry does not recompute is not continued by \<open>chained\<close>; \<open>chained_after_break\<close> continues a
  damaged chain, and the verdict on the longer chain is still broken at the same entry, on the same grounds and with the
  same grades.\<close>

theorem an_append_hides_no_break:
  assumes "verify es s f None gb = Inr v" and "cv_condition v = Broken_At" and "chained_after_break r (last es) = Inr e"
  shows "(entry_hash_again (last es) \<noteq> Inr (en_entry_hash (last es)) \<longrightarrow> (\<nexists>d. chained r (Some (last es)) = Inr d)) \<and>
    (\<exists>v'. verify (es @ [e]) s f None gb = Inr v' \<and> cv_condition v' = Broken_At \<and> cv_sequence v' = cv_sequence v \<and>
      cv_expected v' = cv_expected v \<and> cv_found v' = cv_found v \<and> cv_grades v' = cv_grades v)"
proof -
  note asked = verify_Inr [OF assms(1)]
  have p: "er_scope (last es) = er_scope r" "place r (en_sequence (last es) + 1) (Some (en_entry_hash (last es))) = Inr e"
    using assms(3) by (simp_all add: chained_after_break_def split: if_splits)
  note new = place_recomputes [OF p(2)]
  have sound: "es \<noteq> []" "contiguous es" "en_sequence (hd es) = f"
    using asked by (cases rule: verify_cases [where gb = gb]; use assms(1,2) in auto)+
  have con: "contiguous (es @ [e])" "linked es \<Longrightarrow> linked (es @ [e])"
    using sound new(2,3) by (simp_all add: contiguous_def linked_def successively_snoc)
  have asked': "range_asked (es @ [e]) s f None"
    using asked sound(1) p(1) new(4) contiguous_ascending [OF con(1)] by (auto simp: range_asked_def)
  have "\<exists>v'. verify (es @ [e]) s f None gb = Inr v' \<and> cv_condition v' = Broken_At \<and> cv_sequence v' = cv_sequence v \<and>
      cv_expected v' = cv_expected v \<and> cv_found v' = cv_found v \<and> cv_grades v' = cv_grades v"
    using asked
  proof (cases rule: verify_cases [where gb = gb])
    case (broken k h)
    have bad: "\<not> recomputes (es ! k)" using broken(7) by (auto simp: recomputes_def complaint_holds_def)
    have here: "j = k" if "j < length (es @ [e])" "list_all recomputes (take j (es @ [e]))" "\<not> recomputes ((es @ [e]) ! j)" for j
    proof (rule ccontr)
      assume "j \<noteq> k"
      then consider "k < j" | "j < k" by linarith
      then show False
      proof cases
        case 1
        with that(1,2) broken(5) have "recomputes (es ! k)" by (auto simp: list_all_length nth_append split: if_splits)
        with bad 1 broken(5) show False by (simp add: nth_append)
      next
        case 2
        with broken(5,6) have "recomputes (es ! j)" by (auto simp: list_all_length)
        with that(3) 2 broken(5) show False by (simp add: nth_append)
      qed
    qed
    have some: "\<not> list_all recomputes (es @ [e])" using bad broken(5) by (auto simp: list_all_iff)
    show ?thesis using asked'
    proof (cases rule: verify_cases [where gb = gb])
      case (hole j)
      with con(1) show ?thesis by (auto simp: contiguous_def successively_conv_nth)
    next
      case (unread j c)
      then have "j = k" using here [of j] by (auto simp: recomputes_def complaint_holds_def)
      with unread(7,8) broken(5,7) show ?thesis by (auto simp: complaint_holds_def nth_append)
    next
      case new: (broken j h')
      then have "j = k" using here [of j] by (auto simp: recomputes_def complaint_holds_def)
      with new(7,8) broken(5,7,8) assms(1) show ?thesis by (auto simp: complaint_holds_def nth_append)
    qed (use some sound in \<open>auto simp: reaches_def\<close>)
  next
    case (unlinked k)
    then have all: "list_all recomputes (es @ [e])" using new(1) by simp
    have bad: "en_previous_hash ((es @ [e]) ! Suc k) \<noteq> Some (en_entry_hash ((es @ [e]) ! k))"
      using unlinked(6,8) by (simp add: nth_append)
    show ?thesis using asked'
    proof (cases rule: verify_cases [where gb = gb])
      case (hole j)
      with con(1) show ?thesis by (auto simp: contiguous_def successively_conv_nth)
    next
      case (unread j c)
      then have "recomputes ((es @ [e]) ! j)" using all by (metis list_all_length)
      with unread(7,8) show ?thesis by (auto simp: recomputes_def complaint_holds_def)
    next
      case (broken j h)
      then have "recomputes ((es @ [e]) ! j)" using all by (metis list_all_length)
      with broken(7) show ?thesis by (auto simp: recomputes_def complaint_holds_def)
    next
      case new: (unlinked j)
      have "j = k"
      proof (rule ccontr)
        assume "j \<noteq> k"
        then consider "k < j" | "j < k" by linarith
        then show False
        proof cases
          case 1
          with new(6,7) unlinked(6,8) show False by (auto simp: linked_def successively_conv_nth nth_append)
        next
          case 2
          with new(8) unlinked(6,7) show False by (auto simp: linked_def successively_conv_nth nth_append)
        qed
      qed
      with new(9) unlinked(6,9) assms(1) show ?thesis by (auto simp: nth_append)
    next
      case intact
      with bad unlinked(6) show ?thesis by (auto simp: linked_def successively_conv_nth)
    qed (use sound in \<open>auto simp: reaches_def\<close>)
  qed (use assms(1,2) in auto)
  moreover have "\<nexists>d. chained r (Some (last es)) = Inr d" if "entry_hash_again (last es) \<noteq> Inr (en_entry_hash (last es))"
    using that by (auto simp: chained_def split: if_splits)
  ultimately show ?thesis by blast
qed

theorem an_append_hides_no_break_witness:
  "\<exists>v e v'. verify [damaged_entry] ''default'' 1 None [] = Inr v \<and> chained_after_break example_record damaged_entry = Inr e \<and>
    verify ([damaged_entry] @ [e]) ''default'' 1 None [] = Inr v' \<and> cv_condition v' = Broken_At \<and> cv_sequence v' = Some 1"
proof -
  obtain v where v: "verify [damaged_entry] ''default'' 1 None [] = Inr v" "cv_condition v = Broken_At" "cv_sequence v = Some 1"
    using damaged_verdict by blast
  note new = place_recomputes [OF example_entry]
  have shape: "er_scope damaged_entry = er_scope example_record" "en_sequence damaged_entry = 1"
    "is_hex64 (en_entry_hash damaged_entry)"
    using new other_digest(2) by (simp_all add: damaged_entry_def)
  then obtain e where "chained_after_break example_record (last [damaged_entry]) = Inr e"
    using example_placed [of 2 "Some (en_entry_hash damaged_entry)"] by (auto simp: chained_after_break_def)
  with an_append_hides_no_break [OF v(1,2) this] v show ?thesis by auto
qed

section \<open>Grades\<close>

text \<open>The grade in force for a connection after some entries: of its last \<open>grade\<close> entry, else what held before the range.\<close>

definition in_force :: "(string, chain_grade) dict \<Rightarrow> evidence_entry list \<Rightarrow> string \<Rightarrow> chain_grade" where
  "in_force gb es c = (case filter (\<lambda>e. er_connection_id e = c \<and> er_kind e = ''grade'') es of
      [] \<Rightarrow> (case map_of gb c of None \<Rightarrow> Unverified | Some g \<Rightarrow> g)
    | gs \<Rightarrow> grade_of (text_of (member (er_body (last gs)) ''grade'')))"

definition forces :: "(string, chain_grade) dict \<Rightarrow> evidence_entry list \<Rightarrow> string \<Rightarrow> chain_grade list" where
  "forces gb es c = map (\<lambda>i. in_force gb (take (Suc i) es) c) (filter (\<lambda>i. er_connection_id (es ! i) = c) [0..<length es])"

definition graded :: "evidence_entry \<Rightarrow> (string, chain_grade) dict \<Rightarrow> (string, chain_grade) dict" where
  "graded e gb = (if er_kind e = ''grade'' then AList.update (er_connection_id e) (grade_of (text_of (member (er_body e) ''grade''))) gb
     else gb)"

lemma in_force_Cons: "in_force gb (e # es) c = in_force (graded e gb) es c"
  by (auto simp: in_force_def graded_def split: list.splits)

lemma forces_Cons:
  "forces gb (e # es) c = (if er_connection_id e = c then [in_force (graded e gb) [] c] else []) @ forces (graded e gb) es c"
proof -
  have "[0..<length (e # es)] = 0 # map Suc [0..<length es]"
    by (metis length_Cons map_Suc_upt upt_conv_Cons zero_less_Suc)
  then show ?thesis by (simp add: forces_def in_force_Cons filter_map comp_def)
qed

lemma grades_loop_forces:
  "map_of (grades_loop gb covered es) c =
     (if forces gb es c = [] then map_of covered c
      else Some ((case map_of covered c of None \<Rightarrow> [] | Some gs \<Rightarrow> gs) @ forces gb es c))"
proof (induction es arbitrary: gb covered)
  case Nil
  then show ?case by (simp add: forces_def)
next
  case (Cons e es)
  then show ?case
    by (simp add: Let_def forces_Cons graded_def [symmetric]) (auto simp: in_force_def graded_def split: option.splits)
qed

lemma grades_loop_keys: "well_keyed covered \<Longrightarrow> well_keyed (grades_loop gb covered es)"
  by (induction es arbitrary: gb covered) (simp_all add: Let_def)

lemma weakest_least: "gs \<noteq> [] \<Longrightarrow> weakest gs \<in> set gs \<and> (\<forall>g \<in> set gs. GRADE_RANK (weakest gs) \<le> GRADE_RANK g)"
  by (induction gs rule: weakest.induct) (auto simp: Let_def not_less intro: order_trans less_imp_le)

lemma rank_inj: "GRADE_RANK g = GRADE_RANK h \<longleftrightarrow> g = h"
  by (simp add: GRADE_RANK_def split: chain_grade.splits)

lemma weakest_iff: "gs \<noteq> [] \<Longrightarrow> weakest gs = g \<longleftrightarrow> g \<in> set gs \<and> (\<forall>h \<in> set gs. GRADE_RANK g \<le> GRADE_RANK h)"
  using weakest_least [of gs] rank_inj by (metis order_antisym)

lemma grades_over_mem: "(c, g) \<in> set (grades_over es gb) \<longleftrightarrow> forces gb es c \<noteq> [] \<and> weakest (forces gb es c) = g"
proof -
  have keys: "well_keyed (grades_loop gb [] es)" by (rule grades_loop_keys) simp
  have "(c, g) \<in> set (grades_over es gb) \<longleftrightarrow> (\<exists>gs. map_of (grades_loop gb [] es) c = Some gs \<and> g = weakest gs)"
  proof
    assume "\<exists>gs. map_of (grades_loop gb [] es) c = Some gs \<and> g = weakest gs"
    then obtain gs where gs: "(c, gs) \<in> set (grades_loop gb [] es)" and g: "g = weakest gs"
      by (auto dest: map_of_SomeD)
    from gs have "(\<lambda>(c, gs). (c, weakest gs)) (c, gs) \<in> (\<lambda>(c, gs). (c, weakest gs)) ` set (grades_loop gb [] es)"
      by (rule imageI)
    then show "(c, g) \<in> set (grades_over es gb)" by (simp add: grades_over_def g)
  next
    assume "(c, g) \<in> set (grades_over es gb)"
    then obtain gs where gs: "(c, gs) \<in> set (grades_loop gb [] es)" "g = weakest gs"
      by (auto simp: grades_over_def)
    have "map_of (grades_loop gb [] es) c = Some gs" by (rule map_of_is_SomeI [OF keys gs(1)])
    with gs(2) show "\<exists>gs. map_of (grades_loop gb [] es) c = Some gs \<and> g = weakest gs" by blast
  qed
  moreover have "map_of (grades_loop gb [] es) c = (if forces gb es c = [] then None else Some (forces gb es c))"
    by (simp add: grades_loop_forces [of gb "[]"])
  ultimately show ?thesis by (cases "forces gb es c = []") auto
qed

end
