(* ===== verification/Protection.thy ===== *)
theory Protection
  imports Prelude
begin

text \<open>
  Who can replace what stands on a path: the shared rule of domain/write_reach.py, the grade of a caller's access to
  the store (domain/integrity_grade.py) and the protection of the directory that holds the local address and of its
  ancestors (domain/directory_protection.py). Modes are Python's integers, read bitwise.
\<close>

unbundle bit_operations_syntax

section \<open>Write on a directory and the entry below it\<close>

definition STICKY :: int where
  "STICKY = 0x200"

definition write_reaches_the_entry_below :: "int \<Rightarrow> bool \<Rightarrow> bool \<Rightarrow> bool \<Rightarrow> bool" where
  "write_reaches_the_entry_below mode is_directory writer_owns_the_directory writer_owns_the_entry =
     (if \<not> is_directory then True
      else if mode AND STICKY = 0 then True
      else writer_owns_the_directory \<or> writer_owns_the_entry)"

section \<open>The grade of a caller's access\<close>

datatype grade = Grade_unverified | Grade_observability | Grade_evidence

record caller_access =
  ca_uid :: int
  ca_gids :: "int set"

record path_facts =
  pf_exists :: bool
  pf_owner_uid :: "int option"
  pf_owner_gid :: "int option"
  pf_mode :: "int option"
  pf_acl_present :: "bool option"

record grade_evaluation =
  ge_grade :: grade
  ge_basis :: string
  ge_evaluated_at :: datetime
  ge_paths_inspected :: nat

definition class_bits :: "caller_access \<Rightarrow> path_facts \<Rightarrow> int result" where
  "class_bits caller pf = (case pf_mode pf of
      None \<Rightarrow> Inl AssertionError
    | Some mode \<Rightarrow> Inr
        (if Some (ca_uid caller) = pf_owner_uid pf then drop_bit 6 mode AND 7
         else if (case pf_owner_gid pf of None \<Rightarrow> False | Some g \<Rightarrow> g \<in> ca_gids caller) then drop_bit 3 mode AND 7
         else mode AND 7))"

definition not_established :: "path_facts \<Rightarrow> bool" where
  "not_established pf \<longleftrightarrow> \<not> pf_exists pf \<or> pf_owner_uid pf = None \<or> pf_owner_gid pf = None \<or>
     pf_mode pf = None \<or> pf_acl_present pf \<noteq> Some False"

text \<open>Whether the write of one path of the walk reaches what is under it.\<close>

definition reaches_below :: "caller_access \<Rightarrow> path_facts \<Rightarrow> path_facts option \<Rightarrow> bool" where
  "reaches_below caller pf child = (case child of
      None \<Rightarrow> True
    | Some c \<Rightarrow> \<not> pf_exists c \<or>
        write_reaches_the_entry_below (case pf_mode pf of None \<Rightarrow> 0 | Some m \<Rightarrow> m) True (Some (ca_uid caller) = pf_owner_uid pf)
          (pf_owner_uid c = Some (ca_uid caller)))"

text \<open>The walk: the number of the first path whose write replaces the store, counted from one.\<close>

fun walk :: "caller_access \<Rightarrow> bool \<Rightarrow> nat \<Rightarrow> path_facts list \<Rightarrow> nat option result" where
  "walk caller reachable i [] = Inr None"
| "walk caller reachable i (pf # facts) =
     bind_r (class_bits caller pf) (\<lambda>bits.
       if reachable \<and> (Some (ca_uid caller) = pf_owner_uid pf \<or> bits AND 2 \<noteq> 0) \<and>
          reaches_below caller pf (case facts of [] \<Rightarrow> None | c # _ \<Rightarrow> Some c)
       then Inr (Some (Suc i))
       else walk caller (reachable \<and> bits AND 1 \<noteq> 0) (Suc i) facts)"

definition evaluate_grade :: "caller_access \<Rightarrow> path_facts list \<Rightarrow> datetime \<Rightarrow> grade_evaluation result" where
  "evaluate_grade caller facts at =
     (let evaluation = (\<lambda>g b n. \<lparr>ge_grade = g, ge_basis = b, ge_evaluated_at = at, ge_paths_inspected = n\<rparr>)
      in if ca_uid caller = 0 then Inr (evaluation Grade_observability ''caller_can_write'' (length facts))
         else if facts = [] \<or> list_ex not_established facts
         then Inr (evaluation Grade_unverified ''access_not_established'' (length facts))
         else bind_r (walk caller True 0 facts) (\<lambda>found. Inr (case found of
             Some n \<Rightarrow> evaluation Grade_observability ''caller_can_write'' n
           | None \<Rightarrow> evaluation Grade_unverified ''caller_cannot_write'' (length facts))))"

section \<open>The protection of a directory\<close>

definition S_IWGRP :: int where
  "S_IWGRP = 0x10"

definition S_IWOTH :: int where
  "S_IWOTH = 0x2"

record directory_facts =
  df_name :: string
  df_mode :: int
  df_uid :: int
  df_is_directory :: bool
  df_has_access_acl :: "bool option"

definition CHECKED :: string where
  "CHECKED = ''checked''"

definition UNVERIFIED :: string where
  "UNVERIFIED = ''unverified''"

definition NOT_ON_THIS_PLATFORM :: string where
  "NOT_ON_THIS_PLATFORM = ''not checked on this platform''"

text \<open>A verdict; the sentence it is refused with is not kept, only the name it is about.\<close>

record protection_verdict =
  pv_refusal :: "string option"
  pv_acl :: string

definition protected :: "protection_verdict \<Rightarrow> bool" where
  "protected v \<longleftrightarrow> pv_refusal v = None"

fun ancestors_protection :: "directory_facts list \<Rightarrow> int \<Rightarrow> string \<Rightarrow> string option" where
  "ancestors_protection [] daemon_uid platform = None"
| "ancestors_protection (a # rest) daemon_uid platform =
     (if df_uid a \<notin> {0, daemon_uid} then Some (df_name a)
      else if \<not> write_reaches_the_entry_below (df_mode a) True False False
      then ancestors_protection rest daemon_uid platform
      else if df_mode a AND S_IWOTH \<noteq> 0 then Some (df_name a)
      else if df_mode a AND S_IWGRP \<noteq> 0 then Some (df_name a)
      else if platform = ''linux'' \<and> df_has_access_acl a \<noteq> Some False then Some (df_name a)
      else ancestors_protection rest daemon_uid platform)"

definition directory_protection ::
  "directory_facts \<Rightarrow> directory_facts list \<Rightarrow> int \<Rightarrow> string \<Rightarrow> protection_verdict" where
  "directory_protection st ancestors daemon_uid platform =
     (let has_reader = (platform = ''linux'');
          acl = (if \<not> has_reader then NOT_ON_THIS_PLATFORM else if df_has_access_acl st = None then UNVERIFIED else CHECKED);
          refused = (\<lambda>name. \<lparr>pv_refusal = Some name, pv_acl = acl\<rparr>)
      in if \<not> df_is_directory st then refused (df_name st)
         else if df_uid st \<notin> {0, daemon_uid} then refused (df_name st)
         else if df_mode st AND (S_IWGRP OR S_IWOTH) \<noteq> 0 then refused (df_name st)
         else if has_reader \<and> df_has_access_acl st = None then refused (df_name st)
         else if has_reader \<and> df_has_access_acl st = Some True then refused (df_name st)
         else (case ancestors_protection ancestors daemon_uid platform of
             Some name \<Rightarrow> refused name
           | None \<Rightarrow> \<lparr>pv_refusal = None, pv_acl = acl\<rparr>))"

section \<open>Properties\<close>

text \<open>
  The rule of the operating system, for a principal that is not root: the class that applies is the first of owner, group
  and other, an access control list may grant write to anyone, and only an owner removes what is in a sticky directory.
  Bits 7, 4 and 1 of a mode are the write bits of the three classes, bits 6, 3 and 0 the search bits, bit 9 is sticky.
\<close>

definition may_write :: "int \<Rightarrow> int set \<Rightarrow> int \<Rightarrow> int \<Rightarrow> int \<Rightarrow> bool" where
  "may_write uid gids owner gid mode \<longleftrightarrow>
     (if uid = owner then bit mode 7 else if gid \<in> gids then bit mode 4 else bit mode 1)"

definition may_search :: "int \<Rightarrow> int set \<Rightarrow> int \<Rightarrow> int \<Rightarrow> int \<Rightarrow> bool" where
  "may_search uid gids owner gid mode \<longleftrightarrow>
     (if uid = owner then bit mode 6 else if gid \<in> gids then bit mode 3 else bit mode 0)"

definition may_replace_in :: "int \<Rightarrow> int \<Rightarrow> int \<Rightarrow> int \<Rightarrow> bool" where
  "may_replace_in uid owner mode owner_below \<longleftrightarrow> \<not> bit mode 9 \<or> uid = owner \<or> uid = owner_below"

lemma and_numerals_int:
  fixes x :: int
  shows "x AND 2 = 0 \<longleftrightarrow> \<not> bit x 1" "x AND 1 = 0 \<longleftrightarrow> \<not> bit x 0" "x AND 0x10 = 0 \<longleftrightarrow> \<not> bit x 4"
    "x AND 0x200 = 0 \<longleftrightarrow> \<not> bit x 9"
  using and_exp_eq_0_iff_not_bit [of x 1] and_exp_eq_0_iff_not_bit [of x 0] and_exp_eq_0_iff_not_bit [of x 4]
    and_exp_eq_0_iff_not_bit [of x 9] by simp_all

lemma class_bit: "bit ((7 :: int) AND y) n \<longleftrightarrow> n < 3 \<and> bit y n" "bit (x AND (7 :: int)) n \<longleftrightarrow> n < 3 \<and> bit x n"
proof -
  have "bit (7 :: int) n \<longleftrightarrow> n < 3"
    using bit_mask_iff [of 3 n, where 'a = int] by (simp add: mask_eq_exp_minus_1)
  then show "bit ((7 :: int) AND y) n \<longleftrightarrow> n < 3 \<and> bit y n" "bit (x AND (7 :: int)) n \<longleftrightarrow> n < 3 \<and> bit x n"
    by (auto simp: bit_and_iff)
qed


definition example_run :: directory_facts where
  "example_run = \<lparr>df_name = ''run'', df_mode = 0x41C0, df_uid = 7, df_is_directory = True, df_has_access_acl = Some False\<rparr>"

definition example_tmp :: directory_facts where
  "example_tmp = \<lparr>df_name = ''tmp'', df_mode = 0x43FF, df_uid = 0, df_is_directory = True, df_has_access_acl = None\<rparr>"


section \<open>The grade of a caller\<close>

text \<open>The facts of a path that is there and was inspected in full.\<close>

definition pf_owner :: "path_facts \<Rightarrow> int" where
  "pf_owner pf = (case pf_owner_uid pf of None \<Rightarrow> 0 | Some u \<Rightarrow> u)"

definition pf_group :: "path_facts \<Rightarrow> int" where
  "pf_group pf = (case pf_owner_gid pf of None \<Rightarrow> 0 | Some g \<Rightarrow> g)"

definition pf_bits :: "path_facts \<Rightarrow> int" where
  "pf_bits pf = (case pf_mode pf of None \<Rightarrow> 0 | Some m \<Rightarrow> m)"

text \<open>The caller can replace the store at one place of the walk: it passes every directory above, writes this one (or owns
  it, and so can let itself) and what it writes reaches the path below, if there is one.\<close>

definition can_write_at :: "caller_access \<Rightarrow> path_facts list \<Rightarrow> nat \<Rightarrow> bool" where
  "can_write_at caller facts i \<longleftrightarrow>
     (\<forall>j < i. may_search (ca_uid caller) (ca_gids caller) (pf_owner (facts ! j)) (pf_group (facts ! j)) (pf_bits (facts ! j))) \<and>
     (ca_uid caller = pf_owner (facts ! i) \<or>
      may_write (ca_uid caller) (ca_gids caller) (pf_owner (facts ! i)) (pf_group (facts ! i)) (pf_bits (facts ! i))) \<and>
     (Suc i < length facts \<longrightarrow>
      may_replace_in (ca_uid caller) (pf_owner (facts ! i)) (pf_bits (facts ! i)) (pf_owner (facts ! Suc i)))"

lemma walk_finds:
  assumes "\<not> list_ex not_established facts"
  shows "\<exists>r. walk caller reachable n facts = Inr r \<and>
    (case r of None \<Rightarrow> \<not> reachable \<or> (\<forall>i < length facts. \<not> can_write_at caller facts i)
     | Some m \<Rightarrow> reachable \<and> (\<exists>i < length facts. m = n + Suc i \<and> can_write_at caller facts i))"
  using assms
proof (induction facts arbitrary: reachable n)
  case (Cons pf facts)
  obtain u g m where pf: "pf_exists pf" "pf_owner_uid pf = Some u" "pf_owner_gid pf = Some g" "pf_mode pf = Some m"
    using Cons.prems by (auto simp: not_established_def)
  note plain = pf_owner_def pf_group_def pf_bits_def
  obtain bits where bits: "class_bits caller pf = Inr bits"
    and writes: "bits AND 2 \<noteq> 0 \<longleftrightarrow> may_write (ca_uid caller) (ca_gids caller) u g m"
    and searches: "bits AND 1 \<noteq> 0 \<longleftrightarrow> may_search (ca_uid caller) (ca_gids caller) u g m"
    by (simp add: class_bits_def pf and_numerals_int may_write_def may_search_def bit_and_iff bit_drop_bit_eq class_bit)
  define child where "child = (case facts of [] \<Rightarrow> None | c # _ \<Rightarrow> Some c)"
  have below: "reaches_below caller pf child \<longleftrightarrow>
      (facts \<noteq> [] \<longrightarrow> may_replace_in (ca_uid caller) u m (pf_owner (hd facts)))"
    using Cons.prems
    by (auto simp: child_def reaches_below_def write_reaches_the_entry_below_def STICKY_def and_numerals_int
        may_replace_in_def pf plain not_established_def split: list.splits option.splits)
  define stops where "stops \<longleftrightarrow> (ca_uid caller = u \<or> bits AND 2 \<noteq> 0) \<and> reaches_below caller pf child"
  have at0: "can_write_at caller (pf # facts) 0 \<longleftrightarrow> stops"
    by (cases facts) (simp_all add: can_write_at_def stops_def below writes plain pf)
  have later: "can_write_at caller (pf # facts) (Suc i) \<longleftrightarrow> bits AND 1 \<noteq> 0 \<and> can_write_at caller facts i" for i
    by (auto simp: can_write_at_def searches plain pf All_less_Suc2)
  have step: "walk caller reachable n (pf # facts) =
      (if reachable \<and> stops then Inr (Some (Suc n)) else walk caller (reachable \<and> bits AND 1 \<noteq> 0) (Suc n) facts)"
    by (simp add: bits stops_def pf child_def)
  show ?case
  proof (cases "reachable \<and> stops")
    case True
    have "walk caller reachable n (pf # facts) = Inr (Some (Suc n))" by (subst step) (simp only: if_P [OF True])
    moreover have "reachable \<and> (\<exists>i < length (pf # facts). Suc n = n + Suc i \<and> can_write_at caller (pf # facts) i)"
      using True at0 by (intro conjI exI [of _ 0]) simp_all
    ultimately show ?thesis by (intro exI [of _ "Some (Suc n)"]) (simp only: option.case simp_thms)
  next
    case False
    obtain r where r: "walk caller (reachable \<and> bits AND 1 \<noteq> 0) (Suc n) facts = Inr r"
      "case r of None \<Rightarrow> \<not> (reachable \<and> bits AND 1 \<noteq> 0) \<or> (\<forall>i < length facts. \<not> can_write_at caller facts i)
        | Some m \<Rightarrow> (reachable \<and> bits AND 1 \<noteq> 0) \<and> (\<exists>i < length facts. m = Suc n + Suc i \<and> can_write_at caller facts i)"
      using Cons.IH [of "reachable \<and> bits AND 1 \<noteq> 0" "Suc n"] Cons.prems by auto
    have "case r of None \<Rightarrow> \<not> reachable \<or> (\<forall>i < length (pf # facts). \<not> can_write_at caller (pf # facts) i)
     | Some m \<Rightarrow> reachable \<and> (\<exists>i < length (pf # facts). m = n + Suc i \<and> can_write_at caller (pf # facts) i)"
    proof (cases r)
      case None
      with r(2) False at0 later show ?thesis by (auto simp: All_less_Suc2)
    next
      case (Some m)
      with r(2) obtain i where "i < length facts" "m = Suc n + Suc i" "can_write_at caller facts i" "reachable" "bits AND 1 \<noteq> 0"
        by auto
      with Some later show ?thesis by (auto intro!: exI [of _ "Suc i"])
    qed
    moreover have "walk caller reachable n (pf # facts) = Inr r" by (subst step) (simp only: if_not_P [OF False] r(1))
    ultimately show ?thesis by blast
  qed
qed simp

text \<open>The grade of a caller is never better than it can show. Evaluating it raises nothing; it never says evidence; it
  says observability of root and of a caller that can replace the store at some place of the walk, and of no other when the
  walk was inspected in full; it says unverified when it was not.\<close>

theorem the_grade_is_what_the_walk_allows:
  "\<exists>ev. evaluate_grade caller facts at = Inr ev \<and> ge_grade ev \<noteq> Grade_evidence \<and>
    (ge_grade ev = Grade_observability \<longleftrightarrow> ca_uid caller = 0 \<or>
       facts \<noteq> [] \<and> \<not> list_ex not_established facts \<and> (\<exists>i < length facts. can_write_at caller facts i)) \<and>
    ge_paths_inspected ev \<le> length facts"
proof (cases "ca_uid caller = 0 \<or> facts = [] \<or> list_ex not_established facts")
  case True
  then show ?thesis by (auto simp: evaluate_grade_def Let_def)
next
  case False
  then obtain r where r: "walk caller True 0 facts = Inr r" and
    found: "case r of None \<Rightarrow> \<not> True \<or> (\<forall>i < length facts. \<not> can_write_at caller facts i)
     | Some m \<Rightarrow> True \<and> (\<exists>i < length facts. m = 0 + Suc i \<and> can_write_at caller facts i)"
    using walk_finds [of facts caller True 0] by blast
  from False r have "evaluate_grade caller facts at = Inr (case r of
      Some n \<Rightarrow> \<lparr>ge_grade = Grade_observability, ge_basis = ''caller_can_write'', ge_evaluated_at = at, ge_paths_inspected = n\<rparr>
    | None \<Rightarrow> \<lparr>ge_grade = Grade_unverified, ge_basis = ''caller_cannot_write'', ge_evaluated_at = at,
        ge_paths_inspected = length facts\<rparr>)"
    by (simp add: evaluate_grade_def Let_def)
  with False found show ?thesis by (cases r) auto
qed

end
