(* ===== verification/Recipes.thy ===== *)
theory Recipes
  imports EvidenceChain Policy
begin

text \<open>
  The published recipes (contract/evidence_recipes.py): what a reader that holds nothing but entry documents and the
  wheel checks of a range, and the three digests of an export. Entries are JSON objects, read by their members. The module
  is an implementation apart from domain/evidence_chain.py; what is letter for letter the same in both (canonical JSON,
  netstring components, the shape of a digest, the shape of a verdict) has one definition.
\<close>

section \<open>What the platform does\<close>

text \<open>
  \<open>pl_reads\<close> is \<^verbatim>\<open>datetime.fromisoformat\<close>, which accepts every form of ISO 8601; \<open>pl_shows\<close> is \<open>str\<close> of a value that is not
  a string, \<open>pl_int\<close> is \<open>int\<close> of a float or a string; \<open>pl_b64decode\<close> is \<^verbatim>\<open>base64.b64decode\<close> with \<open>validate\<close>, and
  \<open>pl_loads\<close> reads TOML.
\<close>

record platform =
  pl_reads :: "string \<Rightarrow> datetime result"
  pl_shows :: "json \<Rightarrow> string"
  pl_int :: "json \<Rightarrow> int result"
  pl_b64decode :: "string \<Rightarrow> string option"
  pl_loads :: "string \<Rightarrow> table option"

definition py_str :: "platform \<Rightarrow> json \<Rightarrow> string" where
  "py_str pl v = (case v of JStr s \<Rightarrow> s | _ \<Rightarrow> pl_shows pl v)"

definition py_int :: "platform \<Rightarrow> json \<Rightarrow> int result" where
  "py_int pl v = (case v of
      JInt n \<Rightarrow> Inr n
    | JBool b \<Rightarrow> Inr (of_bool b)
    | JFloat _ \<Rightarrow> pl_int pl v
    | JStr _ \<Rightarrow> pl_int pl v
    | _ \<Rightarrow> Inl TypeError)"

section \<open>Vocabulary\<close>

definition ENTRY_MEMBERS :: "string list" where
  "ENTRY_MEMBERS = [''scope'', ''kind'', ''recorded_at'', ''connection_id'', ''principal'', ''body'', ''sequence'',
     ''previous_hash'', ''entry_hash'', ''preimage_version'']"

definition READER_RECOVERY_EVENTS :: "string list" where
  "READER_RECOVERY_EVENTS = [''clean_stop'', ''unclean_stop'']"

definition READER_BODY_REQUIRED :: "string \<Rightarrow> string list" where
  "READER_BODY_REQUIRED kind =
     (if kind = ''effect'' then [''capability'', ''decision_id'', ''outcome'', ''decided_at'', ''policy_version'']
      else if kind = ''grade'' then [''grade'', ''basis'', ''evaluated_at'', ''paths_inspected'']
      else if kind = ''gap'' then [''reason'', ''count'', ''first_at'', ''last_at'', ''kinds'']
      else if kind = ''composition'' then [''providers'']
      else if kind = ''recovery'' then [''event'', ''epoch_id'', ''from_sequence'', ''through_sequence'']
      else [])"

definition MANIFEST_V1 :: string where
  "MANIFEST_V1 = ''sayfirst-control-plane/evidence-export/v1''"

definition MANIFEST_V2 :: string where
  "MANIFEST_V2 = ''sayfirst-control-plane/evidence-export/v2''"

definition MANIFEST_V3 :: string where
  "MANIFEST_V3 = ''sayfirst-control-plane/evidence-export/v3''"

definition MANIFEST_VERSIONS :: "string list" where
  "MANIFEST_VERSIONS = [MANIFEST_V1, MANIFEST_V2, MANIFEST_V3]"

definition ASYNCHRONOUS_KINDS :: "string list" where
  "ASYNCHRONOUS_KINDS = [''effect'', ''grade'', ''composition'']"

section \<open>The recipe on documents\<close>

text \<open>\<open>str.replace("Z", "+00:00")\<close>.\<close>

definition zulu_offset :: "string \<Rightarrow> string" where
  "zulu_offset s = concat (map (\<lambda>c. if c = CHR ''Z'' then ''+00:00'' else [c]) s)"

definition render_instant :: "platform \<Rightarrow> string \<Rightarrow> string result" where
  "render_instant pl v = (case pl_reads pl (zulu_offset v) of
      Inl x \<Rightarrow> Inl (if x = OverflowError then InvalidBundle else x)
    | Inr parsed \<Rightarrow> (case chain_instant parsed of
          Inl _ \<Rightarrow> Inl InvalidBundle
        | Inr text \<Rightarrow> Inr text))"

text \<open>\<open>document[k]\<close>\<close>

definition item :: "document \<Rightarrow> string \<Rightarrow> json result" where
  "item d k = (case map_of d k of None \<Rightarrow> Inl KeyError | Some v \<Rightarrow> Inr v)"

lemma member_smaller:
  assumes "map_of d k = Some (JArr xs)" and "x \<in> set xs"
  shows "size x < size (JObj d)"
proof -
  have kd: "(k, JArr xs) \<in> set d" using assms(1) by (rule map_of_SomeD)
  have "size x \<le> size_list size xs" using assms(2) by (rule size_list_estimation') simp
  also have "\<dots> < size (JArr xs)" by simp
  also have "\<dots> \<le> size_prod (\<lambda>_. 0) size (k, JArr xs)" by (simp add: size_prod_simp)
  also have "\<dots> \<le> size_list (size_prod (\<lambda>_. 0) size) d" using kd by (rule size_list_estimation') simp
  finally show ?thesis by simp
qed

function principal_document :: "platform \<Rightarrow> json \<Rightarrow> json result" where
  "principal_document pl v = (case v of
      JObj d \<Rightarrow> (case map_of d ''via'' of
          None \<Rightarrow> bind_r (item d ''kind'') (\<lambda>k. bind_r (item d ''id'') (\<lambda>i.
            Inr (JObj [(''kind'', JStr (py_str pl k)), (''id'', JStr (py_str pl i)), (''via'', JArr [])])))
        | Some (JArr xs) \<Rightarrow> bind_r (item d ''kind'') (\<lambda>k. bind_r (item d ''id'') (\<lambda>i.
            bind_r (collect (principal_document pl) xs) (\<lambda>via.
              Inr (JObj [(''kind'', JStr (py_str pl k)), (''id'', JStr (py_str pl i)), (''via'', JArr via)]))))
        | Some _ \<Rightarrow> Inl InvalidBundle)
    | _ \<Rightarrow> Inl InvalidBundle)"
  by pat_completeness auto
termination
  by (relation "measure (\<lambda>(pl, v). size v)") (auto dest: member_smaller)

declare principal_document.simps [simp del]

text \<open>\<open>entry_hash_of\<close> up to the digest, for an entry whose body is the object its type says.\<close>

definition document_preimage :: "platform \<Rightarrow> document \<Rightarrow> string result" where
  "document_preimage pl entry =
     bind_r (item entry ''scope'') (\<lambda>scope. bind_r (item entry ''sequence'') (\<lambda>q. bind_r (py_int pl q) (\<lambda>sequence.
     bind_r (item entry ''kind'') (\<lambda>kind. bind_r (item entry ''recorded_at'') (\<lambda>recorded_at.
     bind_r (item entry ''connection_id'') (\<lambda>connection_id. bind_r (item entry ''principal'') (\<lambda>p.
     bind_r (item entry ''body'') (\<lambda>body. bind_r (item entry ''previous_hash'') (\<lambda>previous.
     bind_r (render_instant pl (py_str pl recorded_at)) (\<lambda>instant.
     bind_r (principal_document pl p) (\<lambda>p.
     case body of
       JObj b \<Rightarrow> Inr (concat (map component
         [Some (utf8 PREIMAGE_VERSION), Some (utf8 (py_str pl scope)), Some (utf8 (int_text sequence)),
          Some (utf8 (py_str pl kind)), Some (utf8 instant), Some (utf8 (py_str pl connection_id)),
          Some (canonical_json p), Some (canonical_json (JObj b)),
          (if previous = JNull then None else Some (utf8 (py_str pl previous)))]))
     | _ \<Rightarrow> Inl TypeError)))))))))))"

definition entry_hash_of :: "platform \<Rightarrow> document \<Rightarrow> string result" where
  "entry_hash_of pl entry = bind_r (document_preimage pl entry) (\<lambda>x. Inr (sha256 x))"

definition READER_UNAPPLIABLE :: "exn list" where
  "READER_UNAPPLIABLE = [InvalidBundle, KeyError, TypeError, ValueError, OverflowError]"

definition document_verifies :: "platform \<Rightarrow> document \<Rightarrow> bool result" where
  "document_verifies pl entry =
     (if member entry ''preimage_version'' \<noteq> JStr PREIMAGE_VERSION then Inr False
      else (case entry_hash_of pl entry of
          Inr h \<Rightarrow> Inr (JStr h = member entry ''entry_hash'')
        | Inl x \<Rightarrow> if x \<in> set READER_UNAPPLIABLE then Inr False else Inl x))"

text \<open>\<open>chained_document\<close>, for documents of the published types.\<close>

definition chained_document :: "platform \<Rightarrow> document \<Rightarrow> document option \<Rightarrow> document result" where
  "chained_document pl record previous =
     bind_r (item record ''scope'') (\<lambda>scope.
     bind_r (case previous of
         None \<Rightarrow> Inr (1, JNull)
       | Some p \<Rightarrow> bind_r (item p ''scope'') (\<lambda>s. if s \<noteq> scope then Inl ValueError
           else bind_r (item p ''sequence'') (\<lambda>q. bind_r (py_int pl q) (\<lambda>n. bind_r (item p ''entry_hash'') (\<lambda>h.
             Inr (n + 1, JStr (py_str pl h))))))) (\<lambda>(sequence, previous_hash).
     bind_r (item record ''kind'') (\<lambda>kind. bind_r (item record ''recorded_at'') (\<lambda>recorded_at.
     bind_r (item record ''connection_id'') (\<lambda>connection_id. bind_r (item record ''principal'') (\<lambda>p.
     bind_r (principal_document pl p) (\<lambda>principal. bind_r (item record ''body'') (\<lambda>body.
       let placed = [(''scope'', JStr (py_str pl scope)), (''kind'', JStr (py_str pl kind)),
             (''recorded_at'', JStr (py_str pl recorded_at)), (''connection_id'', JStr (py_str pl connection_id)),
             (''principal'', principal), (''body'', body), (''sequence'', JInt sequence), (''previous_hash'', previous_hash),
             (''preimage_version'', JStr PREIMAGE_VERSION)]
       in bind_r (entry_hash_of pl placed) (\<lambda>h. Inr (placed @ [(''entry_hash'', JStr h)]))))))))))"

definition manifest_hash :: "platform \<Rightarrow> document \<Rightarrow> string \<Rightarrow> string result" where
  "manifest_hash pl bundle version =
     (if version = MANIFEST_V3
      then Inr (sha256 (canonical_json (JObj (filter (\<lambda>(k, _). k \<noteq> ''manifest_hash'') bundle))))
      else (case (member bundle ''entries'', member bundle ''verification'') of
          (JArr entries, JObj verification) \<Rightarrow>
            bind_r (collect (\<lambda>e. case e of JObj d \<Rightarrow> item d ''entry_hash'' | _ \<Rightarrow> Inl TypeError) entries) (\<lambda>hashes.
              let document = [(''version'', JStr version), (''scope'', member bundle ''scope''),
                    (''from_sequence'', member bundle ''from_sequence''), (''to_sequence'', member bundle ''to_sequence''),
                    (''contract_version'', member bundle ''contract_version''), (''entry_hashes'', JArr hashes)]
              in if version = MANIFEST_V2
                 then Inr (sha256 (canonical_json (JObj (document @ [(''verdict'', JObj verification)]))))
                 else if version = MANIFEST_V1
                 then Inr (sha256 (canonical_json (JObj (document @
                   [(''condition'', JStr (py_str pl (member verification ''condition''))),
                    (''up_to'', (case member verification ''up_to'' of JInt n \<Rightarrow> JInt n | _ \<Rightarrow> JNull))]))))
                 else Inl ValueError)
        | _ \<Rightarrow> Inl InvalidBundle))"

section \<open>Reading an entry\<close>

definition is_object :: "json \<Rightarrow> bool" where
  "is_object v \<longleftrightarrow> (case v of JObj _ \<Rightarrow> True | _ \<Rightarrow> False)"

definition is_plain_int :: "json \<Rightarrow> bool" where
  "is_plain_int v \<longleftrightarrow> (case v of JInt _ \<Rightarrow> True | _ \<Rightarrow> False)"

definition is_digest_text :: "json \<Rightarrow> bool" where
  "is_digest_text v \<longleftrightarrow> (case v of JStr s \<Rightarrow> is_hex64 s | _ \<Rightarrow> False)"

text \<open>The object a member holds, when it holds one.\<close>

definition object_of :: "json \<Rightarrow> document" where
  "object_of v = (case v of JObj d \<Rightarrow> d | _ \<Rightarrow> [])"

definition body_of :: "document \<Rightarrow> document" where
  "body_of entry = object_of (member entry ''body'')"

definition sequence_of :: "document \<Rightarrow> int" where
  "sequence_of entry = (case member entry ''sequence'' of JInt n \<Rightarrow> n | _ \<Rightarrow> 0)"

definition read_entry :: "json \<Rightarrow> document result" where
  "read_entry v = (case v of
      JObj entry \<Rightarrow>
        (let previous = member entry ''previous_hash''; kind = member entry ''kind''; body = body_of entry
         in if set ENTRY_MEMBERS \<subseteq> set (members entry) \<and> plain_int_at_least 1 (member entry ''sequence'') \<and>
               (previous = JNull \<or> is_digest_text previous) \<and>
               (sequence_of entry = 1 \<longrightarrow> previous = JNull) \<and> (1 < sequence_of entry \<longrightarrow> previous \<noteq> JNull) \<and>
               is_digest_text (member entry ''entry_hash'') \<and>
               list_all (\<lambda>m. some_text (member entry m))
                 [''scope'', ''kind'', ''recorded_at'', ''connection_id'', ''preimage_version''] \<and>
               is_object (member entry ''principal'') \<and> is_object (member entry ''body'') \<and>
               list_all (\<lambda>m. is_text (member (object_of (member entry ''principal'')) m)) [''kind'', ''id''] \<and>
               list_all (has_member body) (READER_BODY_REQUIRED (text_of kind)) \<and>
               (kind = JStr ''gap'' \<longrightarrow> in_tuple (member body ''reason'') GAP_REASONS) \<and>
               (kind = JStr ''recovery'' \<longrightarrow> in_tuple (member body ''event'') READER_RECOVERY_EVENTS \<and>
                  is_plain_int (member body ''from_sequence'') \<and> is_plain_int (member body ''through_sequence''))
            then Inr entry else Inl InvalidBundle)
    | _ \<Rightarrow> Inl InvalidBundle)"

section \<open>The verdict\<close>

definition known_grade :: "string \<Rightarrow> chain_grade" where
  "known_grade s = (if s \<in> set (map grade_value [Unverified, Observability, Evidence]) then grade_of s else Unverified)"

text \<open>The members an entry that was read has.\<close>

definition entry_text :: "document \<Rightarrow> string \<Rightarrow> string" where
  "entry_text entry k = text_of (member entry k)"

fun reader_grades_loop ::
  "platform \<Rightarrow> (string, chain_grade) dict \<Rightarrow> (string, chain_grade list) dict \<Rightarrow> document list \<Rightarrow> (string, chain_grade list) dict" where
  "reader_grades_loop pl current covered [] = covered"
| "reader_grades_loop pl current covered (e # es) =
     (let c = entry_text e ''connection_id'';
          current = (if entry_text e ''kind'' = ''grade''
                     then AList.update c (known_grade (py_str pl (member (body_of e) ''grade''))) current else current);
          now = (case map_of current c of None \<Rightarrow> Unverified | Some g \<Rightarrow> g);
          before = (case map_of covered c of None \<Rightarrow> [] | Some gs \<Rightarrow> gs)
      in reader_grades_loop pl current (AList.update c (before @ [now]) covered) es)"

definition reader_grades :: "platform \<Rightarrow> document list \<Rightarrow> string list \<Rightarrow> (string \<times> chain_grade) list" where
  "reader_grades pl es lowered =
     map (\<lambda>(c, gs). (c, if c \<in> set lowered then Unverified else weakest gs))
       (sort_key fst (reader_grades_loop pl [] [] es))"

definition reader_gaps :: "platform \<Rightarrow> document list \<Rightarrow> declared_gap list result" where
  "reader_gaps pl es = collect (\<lambda>e. bind_r (py_int pl (member (body_of e) ''count'')) (\<lambda>n.
       Inr \<lparr>dg_sequence = sequence_of e, dg_reason = py_str pl (member (body_of e) ''reason''), dg_count = n\<rparr>))
     (filter (\<lambda>e. entry_text e ''kind'' = ''gap'') es)"

definition reader_last :: "document list \<Rightarrow> int option" where
  "reader_last es = (if es = [] then None else Some (sequence_of (last es)))"

definition reader_verdict ::
  "platform \<Rightarrow> document list \<Rightarrow> string \<Rightarrow> int \<Rightarrow> string list \<Rightarrow> chain_condition \<Rightarrow> int option \<Rightarrow>
   string option \<Rightarrow> string option \<Rightarrow> string option \<Rightarrow> document list \<Rightarrow> chain_verdict result" where
  "reader_verdict pl es scope from_sequence lowered condition sequence expected found version graded =
     bind_r (reader_gaps pl es) (\<lambda>gaps. Inr
       \<lparr>cv_scope = scope, cv_condition = condition, cv_from_sequence = from_sequence, cv_to_sequence = reader_last es,
        cv_up_to = (if condition = Intact then reader_last es else None), cv_sequence = sequence,
        cv_expected = expected, cv_found = found, cv_version = version, cv_covers_an_entry = (es \<noteq> []),
        cv_declared_gaps = gaps, cv_grades = reader_grades pl graded lowered\<rparr>)"

fun reader_gap :: "nat \<Rightarrow> document list \<Rightarrow> (nat \<times> int) option" where
  "reader_gap i (a # b # es) =
     (if sequence_of b \<noteq> sequence_of a + 1 then Some (i, sequence_of a + 1) else reader_gap (Suc i) (b # es))"
| "reader_gap i _ = None"

fun reader_bad_hash :: "platform \<Rightarrow> nat \<Rightarrow> document list \<Rightarrow> (nat \<times> document \<times> hash_complaint) option result" where
  "reader_bad_hash pl i [] = Inr None"
| "reader_bad_hash pl i (e # es) =
     (if entry_text e ''preimage_version'' \<noteq> PREIMAGE_VERSION then Inr (Some (i, e, No_Recipe))
      else (case entry_hash_of pl e of
          Inl x \<Rightarrow> if x \<in> set READER_UNAPPLIABLE then Inr (Some (i, e, Not_Appliable)) else Inl x
        | Inr h \<Rightarrow> if h \<noteq> entry_text e ''entry_hash'' then Inr (Some (i, e, Not_Recomputed h))
                 else reader_bad_hash pl (Suc i) es))"

fun reader_bad_link :: "nat \<Rightarrow> document list \<Rightarrow> (nat \<times> document \<times> document) option" where
  "reader_bad_link i (a # b # es) =
     (if member b ''previous_hash'' \<noteq> member a ''entry_hash'' then Some (i, a, b) else reader_bad_link (Suc i) (b # es))"
| "reader_bad_link i _ = None"

fun reader_ascending :: "document list \<Rightarrow> bool" where
  "reader_ascending (a # b # es) \<longleftrightarrow> sequence_of a < sequence_of b \<and> reader_ascending (b # es)"
| "reader_ascending _ \<longleftrightarrow> True"

text \<open>\<open>verify_chain\<close>, once the entries are read and their scope and order are those of a range.\<close>

definition verify_read ::
  "platform \<Rightarrow> document list \<Rightarrow> string \<Rightarrow> int \<Rightarrow> int option \<Rightarrow> string list \<Rightarrow> chain_verdict result" where
  "verify_read pl es scope from_sequence to_sequence lowered =
     (let say = reader_verdict pl es scope from_sequence lowered
      in if es = [] then
           (if to_sequence = None then say Unverifiable None None None None es
            else say Gap_At (Some from_sequence) None None None es)
         else if sequence_of (hd es) \<noteq> from_sequence then say Gap_At (Some from_sequence) None None None []
         else (case reader_gap 1 es of
             Some (i, missing) \<Rightarrow> say Gap_At (Some missing) None None None (take i es)
           | None \<Rightarrow>
               if (case to_sequence of None \<Rightarrow> False | Some t \<Rightarrow> sequence_of (last es) < t)
               then say Gap_At (Some (sequence_of (last es) + 1)) None None None es
               else bind_r (reader_bad_hash pl 0 es) (\<lambda>bad. case bad of
                   Some (i, e, Not_Recomputed h) \<Rightarrow>
                     say Broken_At (Some (sequence_of e)) (Some h) (Some (entry_text e ''entry_hash'')) None (take i es)
                 | Some (i, e, _) \<Rightarrow>
                     say Unverifiable (Some (sequence_of e)) None (Some (entry_text e ''entry_hash''))
                       (Some (entry_text e ''preimage_version'')) (take i es)
                 | None \<Rightarrow> (case reader_bad_link 1 es of
                       Some (i, a, b) \<Rightarrow>
                         say Broken_At (Some (sequence_of b)) (Some (entry_text a ''entry_hash''))
                           (Some (py_str pl (member b ''previous_hash''))) None (take i es)
                     | None \<Rightarrow> say Intact None None None None es))))"

definition verify_chain ::
  "platform \<Rightarrow> json list \<Rightarrow> string \<Rightarrow> int \<Rightarrow> int option \<Rightarrow> string list \<Rightarrow> chain_verdict result" where
  "verify_chain pl entries scope from_sequence to_sequence lowered =
     (if \<not> is_scope scope then Inl InvalidBundle
      else if from_sequence < 1 \<or> (case to_sequence of None \<Rightarrow> False | Some t \<Rightarrow> t < from_sequence) then Inl InvalidBundle
      else bind_r (collect read_entry entries) (\<lambda>read.
        if list_ex (\<lambda>e. entry_text e ''scope'' \<noteq> scope) read \<or> \<not> reader_ascending read
        then reader_verdict pl read scope from_sequence lowered Unverifiable None None None None []
        else verify_read pl read scope from_sequence to_sequence lowered))"

end
