(* ===== verification/ExportVerifier.thy ===== *)
theory ExportVerifier
  imports Recipes RetroPolicy
begin

text \<open>
  The offline export verifier (contract/evidence.py): the chain of a bundle and its digest, the recovery context, the
  attached policies, the derivation of every trusted decision anew, the coverage and the verdict over all of it.
\<close>

datatype archive_state = Present | Absent | Damaged | Unknown_State

definition archive_state_of :: "string \<Rightarrow> archive_state option" where
  "archive_state_of s =
     (if s = ''present'' then Some Present else if s = ''absent'' then Some Absent
      else if s = ''damaged'' then Some Damaged else if s = ''unknown'' then Some Unknown_State else None)"

record entry_rederivation =
  er_at :: int
  er_decision_id :: string
  er_recipe :: "string option"
  er_verdict :: rederivation
  er_cause :: "string option"
  er_expected :: "triple option"

record export_verdict =
  xv_scope :: "string option"
  xv_chain :: "chain_verdict option"
  xv_manifest_version :: "string option"
  xv_manifest_hash_recomputes :: "bool option"
  xv_policy_versions :: "(string, archive_state) dict"
  xv_evaluation_recipes :: "string list"
  xv_rederivations :: "entry_rederivation list"
  xv_rederived_decision_ids :: "string list"
  xv_confirmed_decision_ids :: "string list"
  xv_declared_missing_decision_ids :: "string list"
  xv_coverage :: string
  xv_from_sequence :: "int option"
  xv_to_sequence :: "int option"
  xv_next_from :: "int option"
  xv_issues :: "string list"
  xv_overall :: rederivation
  xv_asserted_grades :: "(string, string) dict"

definition archive_state_value :: "archive_state \<Rightarrow> string" where
  "archive_state_value s = (case s of
      Present \<Rightarrow> ''present'' | Absent \<Rightarrow> ''absent'' | Damaged \<Rightarrow> ''damaged'' | Unknown_State \<Rightarrow> ''unknown'')"

definition rederivation_value :: "rederivation \<Rightarrow> string" where
  "rederivation_value r = (case r of
      confirmed \<Rightarrow> ''confirmed'' | differs \<Rightarrow> ''differs'' | unverifiable \<Rightarrow> ''unverifiable'')"

definition texts_json :: "string list \<Rightarrow> json" where
  "texts_json xs = JArr (map JStr xs)"

definition rederivation_to_document :: "entry_rederivation \<Rightarrow> document" where
  "rederivation_to_document i =
     [(''sequence'', JInt (er_at i)), (''decision_id'', JStr (er_decision_id i)), (''evaluation_recipe'', opt_str (er_recipe i)),
      (''verdict'', JStr (rederivation_value (er_verdict i))), (''cause'', opt_str (er_cause i)),
      (''expected'', (case er_expected i of None \<Rightarrow> JNull | Some (oc, reason, rule_id) \<Rightarrow>
         JArr [JStr oc, JStr reason, opt_str rule_id]))]"

definition export_to_document :: "export_verdict \<Rightarrow> document" where
  "export_to_document v =
     [(''scope'', opt_str (xv_scope v)),
      (''chain'', (case xv_chain v of None \<Rightarrow> JNull | Some c \<Rightarrow> JObj (verdict_to_document c))),
      (''manifest_version'', opt_str (xv_manifest_version v)),
      (''manifest_hash_recomputes'', (case xv_manifest_hash_recomputes v of None \<Rightarrow> JNull | Some b \<Rightarrow> JBool b)),
      (''policy_versions'', JObj (map (\<lambda>(k, s). (k, JStr (archive_state_value s))) (xv_policy_versions v))),
      (''evaluation_recipes'', texts_json (xv_evaluation_recipes v)),
      (''rederivations'', JArr (map (\<lambda>i. JObj (rederivation_to_document i)) (xv_rederivations v))),
      (''rederived_decision_ids'', texts_json (xv_rederived_decision_ids v)),
      (''confirmed_decision_ids'', texts_json (xv_confirmed_decision_ids v)),
      (''declared_missing_decision_ids'', texts_json (xv_declared_missing_decision_ids v)),
      (''coverage'', JStr (xv_coverage v)), (''from_sequence'', opt_int (xv_from_sequence v)),
      (''to_sequence'', opt_int (xv_to_sequence v)), (''next_from'', opt_int (xv_next_from v)),
      (''issues'', texts_json (xv_issues v)), (''overall'', JStr (rederivation_value (xv_overall v))),
      (''asserted_grades'', JObj (map (\<lambda>(k, s). (k, JStr s)) (xv_asserted_grades v)))]"

text \<open>\<open>_invalid\<close>; the sentence that says why is the second issue of the code and is not kept.\<close>

definition invalid_export :: "string option \<Rightarrow> export_verdict" where
  "invalid_export scope =
     \<lparr>xv_scope = scope, xv_chain = None, xv_manifest_version = None, xv_manifest_hash_recomputes = None,
      xv_policy_versions = [], xv_evaluation_recipes = [], xv_rederivations = [], xv_rederived_decision_ids = [],
      xv_confirmed_decision_ids = [], xv_declared_missing_decision_ids = [], xv_coverage = ''unknown'',
      xv_from_sequence = None, xv_to_sequence = None, xv_next_from = None, xv_issues = [''bundle_invalid''],
      xv_overall = unverifiable, xv_asserted_grades = []\<rparr>"

definition optional_int :: "json \<Rightarrow> int option result" where
  "optional_int v = (case v of
      JNull \<Rightarrow> Inr None
    | JInt n \<Rightarrow> if n < 1 then Inl InvalidBundle else Inr (Some n)
    | _ \<Rightarrow> Inl InvalidBundle)"

definition policy_bytes :: "platform \<Rightarrow> json \<Rightarrow> (archive_state \<times> string option) result" where
  "policy_bytes pl v = (case v of
      JObj d \<Rightarrow>
        bind_r (in_set (member d ''state'') [''present'', ''absent'', ''damaged'', ''unknown'']) (\<lambda>known.
          if \<not> known then Inl InvalidBundle
          else (case archive_state_of (text_of (member d ''state'')) of
              Some Present \<Rightarrow> (case member d ''content'' of
                  JStr content \<Rightarrow> (case pl_b64decode pl content of
                      None \<Rightarrow> Inl InvalidBundle
                    | Some raw \<Rightarrow> Inr (Present, Some raw))
                | _ \<Rightarrow> Inl InvalidBundle)
            | Some state \<Rightarrow> Inr (state, None)
            | None \<Rightarrow> Inl InvalidBundle))
    | _ \<Rightarrow> Inl InvalidBundle)"

definition opt_text :: "json \<Rightarrow> string option" where
  "opt_text v = (case v of JStr s \<Rightarrow> Some s | _ \<Rightarrow> None)"

definition recorded_of :: "platform \<Rightarrow> document \<Rightarrow> string \<Rightarrow> recorded_decision" where
  "recorded_of pl body scope =
     \<lparr>rd_scope = scope, rd_capability = py_str pl (member body ''capability''),
      rd_principal_references = (case member body ''principal_references'' of
        JArr xs \<Rightarrow> Some (map (py_str pl) xs) | _ \<Rightarrow> None),
      rd_arguments_digest = opt_text (member body ''arguments_digest''),
      rd_outcome = py_str pl (member body ''outcome''), rd_reason = py_str pl (member body ''reason''),
      rd_rule_id = opt_text (member body ''rule_id''), rd_evaluation_recipe = opt_text (member body ''evaluation_recipe'')\<rparr>"

definition trusted_count :: "document list \<Rightarrow> chain_verdict \<Rightarrow> nat" where
  "trusted_count entries chain =
     (if cv_condition chain = Intact then length entries
      else (case cv_sequence chain of
          None \<Rightarrow> 0
        | Some n \<Rightarrow> length (filter (\<lambda>e. sequence_of e < n) entries)))"

definition verified_context ::
  "platform \<Rightarrow> json \<Rightarrow> document option \<Rightarrow> string \<Rightarrow> (document list \<times> bool) result" where
  "verified_context pl context last_entry scope = (case context of
      JNull \<Rightarrow> Inr ([], False)
    | JArr [] \<Rightarrow> Inr ([], False)
    | JArr items \<Rightarrow> (case last_entry of
          None \<Rightarrow> Inr ([], True)
        | Some e \<Rightarrow> (case collect read_entry items of
              Inl _ \<Rightarrow> Inr ([], True)
            | Inr read \<Rightarrow>
                if sequence_of (hd read) \<noteq> sequence_of e + 1 \<or> member (hd read) ''previous_hash'' \<noteq> member e ''entry_hash''
                then Inr ([], True)
                else bind_r (verify_chain pl items scope (sequence_of (hd read)) None []) (\<lambda>verdict.
                  if cv_condition verdict \<noteq> Intact then Inr ([], True) else Inr (read, False))))
    | _ \<Rightarrow> Inl InvalidBundle)"

definition span_of :: "document \<Rightarrow> int \<times> int" where
  "span_of marker = ((case member (body_of marker) ''from_sequence'' of JInt n \<Rightarrow> n | _ \<Rightarrow> 0),
     (case member (body_of marker) ''through_sequence'' of JInt n \<Rightarrow> n | _ \<Rightarrow> 0))"

definition epochs :: "document list \<Rightarrow> (int \<times> int) list \<times> (int \<times> int) list" where
  "epochs markers =
     (map span_of (filter (\<lambda>m. member (body_of m) ''event'' = JStr ''clean_stop'') markers),
      map span_of (filter (\<lambda>m. member (body_of m) ''event'' \<noteq> JStr ''clean_stop'') markers))"

definition within :: "int \<Rightarrow> (int \<times> int) list \<Rightarrow> bool" where
  "within n spans \<longleftrightarrow> list_ex (\<lambda>(start, stop). start \<le> n \<and> n \<le> stop) spans"

section \<open>The attached policies\<close>

record policy_readings =
  pr_states :: "(string, archive_state) dict"
  pr_contents :: "(string, string) dict"
  pr_causes :: "(string, string) dict"
  pr_incomplete :: bool

definition no_readings :: policy_readings where
  "no_readings = \<lparr>pr_states = [], pr_contents = [], pr_causes = [], pr_incomplete = False\<rparr>"

text \<open>One round of the loop over the versions the trusted effects name.\<close>

definition read_policy :: "platform \<Rightarrow> json \<Rightarrow> policy_readings \<Rightarrow> string \<Rightarrow> policy_readings result" where
  "read_policy pl attachments r version =
     (let attachment = (case attachments of JObj d \<Rightarrow> member d version | _ \<Rightarrow> JNull)
      in if attachment = JNull
         then Inr (r\<lparr>pr_states := AList.update version Absent (pr_states r),
             pr_causes := AList.update version ''policy_absent'' (pr_causes r), pr_incomplete := True\<rparr>)
         else bind_r (policy_bytes pl attachment) (\<lambda>(state, content).
           case (state, content) of
             (Present, Some raw) \<Rightarrow>
               if \<not> is_policy_digest version \<or> ''sha256:'' @ sha256 raw \<noteq> version
               then Inr (r\<lparr>pr_states := AList.update version Damaged (pr_states r),
                   pr_causes := AList.update version ''policy_damaged'' (pr_causes r), pr_incomplete := True\<rparr>)
               else Inr (r\<lparr>pr_states := AList.update version Present (pr_states r),
                   pr_contents := AList.update version raw (pr_contents r)\<rparr>)
           | _ \<Rightarrow> Inr (r\<lparr>pr_states := AList.update version state (pr_states r),
                   pr_causes := AList.update version
                     (case state of Damaged \<Rightarrow> ''policy_damaged'' | Unknown_State \<Rightarrow> ''policy_state_unknown'' | _ \<Rightarrow> ''policy_absent'')
                     (pr_causes r)\<rparr>)))"

fun read_policies :: "platform \<Rightarrow> json \<Rightarrow> policy_readings \<Rightarrow> string list \<Rightarrow> policy_readings result" where
  "read_policies pl attachments r [] = Inr r"
| "read_policies pl attachments r (v # vs) = bind_r (read_policy pl attachments r v) (\<lambda>r. read_policies pl attachments r vs)"

section \<open>Deriving the decisions anew\<close>

text \<open>One effect: named as untrusted, not derivable from its policy, or derived.\<close>

definition rederive_entry ::
  "platform \<Rightarrow> string \<Rightarrow> int \<Rightarrow> policy_readings \<Rightarrow> document \<Rightarrow> entry_rederivation result" where
  "rederive_entry pl scope last_trusted r entry =
     (let body = body_of entry; version = py_str pl (member body ''policy_version'');
          named = (\<lambda>v cause expected. \<lparr>er_at = sequence_of entry,
            er_decision_id = py_str pl (member body ''decision_id''), er_recipe = opt_text (member body ''evaluation_recipe''),
            er_verdict = v, er_cause = cause, er_expected = expected\<rparr>)
      in if last_trusted < sequence_of entry then Inr (named unverifiable (Some ''entry_untrusted'') None)
         else (case map_of (pr_contents r) version of
             None \<Rightarrow> (case map_of (pr_causes r) version of
                 None \<Rightarrow> Inl KeyError
               | Some cause \<Rightarrow> Inr (named unverifiable (Some cause) None))
           | Some raw \<Rightarrow> bind_r (rederive_recorded_decision (pl_loads pl) (recorded_of pl body scope) raw) (\<lambda>result.
               Inr (named (re_verdict result) (re_cause result) (re_expected result)))))"

definition asserted_grades :: "json \<Rightarrow> (string, string) dict" where
  "asserted_grades v = (case v of
      JArr items \<Rightarrow> foldl (\<lambda>d i. case i of
          JObj g \<Rightarrow> (case (member g ''connection_id'', member g ''grade'') of
              (JStr c, JStr s) \<Rightarrow> AList.update c s d | _ \<Rightarrow> d)
        | _ \<Rightarrow> d) [] items
    | _ \<Rightarrow> [])"

section \<open>The manifest\<close>

text \<open>The digest under the recipe the bundle names, or under the first of the two it predates that fits.\<close>

definition manifest_reading ::
  "platform \<Rightarrow> document \<Rightarrow> (string option \<times> bool option \<times> string list) result" where
  "manifest_reading pl bundle =
     (let told = member bundle ''manifest_hash''; named = member bundle ''manifest_version'' in
      if named = JNull then
        bind_r (manifest_hash pl bundle MANIFEST_V1) (\<lambda>h1.
          if JStr h1 = told then Inr (Some MANIFEST_V1, Some True, [])
          else bind_r (manifest_hash pl bundle MANIFEST_V2) (\<lambda>h2.
            if JStr h2 = told then Inr (Some MANIFEST_V2, Some True, []) else Inr (None, Some False, [''manifest_mismatch''])))
      else if in_tuple named MANIFEST_VERSIONS then
        bind_r (manifest_hash pl bundle (text_of named)) (\<lambda>h.
          Inr (Some (text_of named), Some (JStr h = told), if JStr h = told then [] else [''manifest_mismatch'']))
      else Inr (None, None, [''manifest_recipe_unsupported'']))"

section \<open>The whole verdict\<close>

definition untrusted_issues :: "chain_verdict \<Rightarrow> string list" where
  "untrusted_issues v =
     (if cv_condition v = Unverifiable then [''chain_unverifiable''] else if cv_condition v \<noteq> Intact then [''chain_damaged'']
      else [])"

text \<open>Precedence.\<close>

definition overall_of :: "string list \<Rightarrow> string \<Rightarrow> entry_rederivation list \<Rightarrow> rederivation" where
  "overall_of issues coverage rederivations =
     (if list_ex (\<lambda>i. er_verdict i = differs) rederivations then differs
      else if issues \<noteq> [] \<or> coverage \<noteq> ''complete'' \<or> rederivations = [] \<or>
              list_ex (\<lambda>i. er_verdict i \<noteq> confirmed) rederivations
      then unverifiable else confirmed)"

text \<open>The coverage of the trusted entries: what a gap declares lost, and what no clean epoch closed over.\<close>

definition coverage_of ::
  "document list \<Rightarrow> nat \<Rightarrow> bool \<Rightarrow> (int \<times> int) list \<Rightarrow> (int \<times> int) list \<Rightarrow> bool \<times> bool" where
  "coverage_of trusted untrusted context_unverified clean_spans unclean_spans =
     (let asynchronous = filter (\<lambda>e. entry_text e ''kind'' \<in> set ASYNCHRONOUS_KINDS) trusted
      in (list_ex (\<lambda>e. entry_text e ''kind'' = ''gap'') trusted,
          trusted = [] \<or> 0 < untrusted \<or> context_unverified \<or>
          list_ex (\<lambda>e. within (sequence_of e) unclean_spans) asynchronous \<or>
          list_ex (\<lambda>e. \<not> within (sequence_of e) clean_spans) asynchronous))"

definition missing_ids :: "platform \<Rightarrow> document list \<Rightarrow> string list" where
  "missing_ids pl trusted = concat (map (\<lambda>e. case member (body_of e) ''decision_ids'' of
       JArr ids \<Rightarrow> map (py_str pl) ids | _ \<Rightarrow> []) (filter (\<lambda>e. entry_text e ''kind'' = ''gap'') trusted))"

text \<open>\<open>InvalidBundle\<close> is a verdict; any other exception leaves the function.\<close>

definition or_invalid :: "string option \<Rightarrow> 'a result \<Rightarrow> ('a \<Rightarrow> export_verdict result) \<Rightarrow> export_verdict result" where
  "or_invalid scope r k = (case r of
      Inl InvalidBundle \<Rightarrow> Inr (invalid_export scope)
    | Inl x \<Rightarrow> Inl x
    | Inr v \<Rightarrow> k v)"

record bundle_reading =
  br_from :: int
  br_to :: "int option"
  br_next :: "int option"
  br_entries :: "document list"
  br_context :: "document list"
  br_context_unverified :: bool

definition read_bundle :: "platform \<Rightarrow> document \<Rightarrow> string \<Rightarrow> bundle_reading result" where
  "read_bundle pl bundle scope =
     bind_r (optional_int (member bundle ''from_sequence'')) (\<lambda>from_sequence.
     if from_sequence = None then Inl InvalidBundle else
     bind_r (optional_int (member bundle ''to_sequence'')) (\<lambda>to_sequence.
     bind_r (optional_int (member bundle ''next_from'')) (\<lambda>next_from.
     case (member bundle ''entries'', member bundle ''verification'') of
       (JArr raw, JObj _) \<Rightarrow>
         if \<not> is_text (member bundle ''manifest_hash'') then Inl InvalidBundle else
         bind_r (collect read_entry raw) (\<lambda>entries.
         if entries \<noteq> [] \<and> to_sequence \<noteq> Some (sequence_of (last entries)) then Inl InvalidBundle
         else if \<not> (member bundle ''policy_versions'' = JNull \<or> is_object (member bundle ''policy_versions'')) then Inl InvalidBundle
         else bind_r (verified_context pl (member bundle ''recovery_context'')
             (if entries = [] then None else Some (last entries)) scope) (\<lambda>(context, context_unverified).
           Inr \<lparr>br_from = the from_sequence, br_to = to_sequence, br_next = next_from, br_entries = entries,
             br_context = context, br_context_unverified = context_unverified\<rparr>))
     | _ \<Rightarrow> Inl InvalidBundle)))"

definition entries_of :: "document \<Rightarrow> json list" where
  "entries_of bundle = (case member bundle ''entries'' of JArr raw \<Rightarrow> raw | _ \<Rightarrow> [])"

definition trusted_entries :: "bundle_reading \<Rightarrow> chain_verdict \<Rightarrow> document list" where
  "trusted_entries b provisional = take (trusted_count (br_entries b) provisional) (br_entries b)"

text \<open>The spans of the epochs that closed cleanly and of those that did not.\<close>

definition spans_of :: "bundle_reading \<Rightarrow> chain_verdict \<Rightarrow> (int \<times> int) list \<times> (int \<times> int) list" where
  "spans_of b provisional =
     epochs (filter (\<lambda>e. entry_text e ''kind'' = ''recovery'') (trusted_entries b provisional @ br_context b))"

definition effects_in :: "document list \<Rightarrow> document list" where
  "effects_in es = filter (\<lambda>e. entry_text e ''kind'' = ''effect'') es"

text \<open>The end of \<open>verify_export\<close>: coverage, issues, precedence.\<close>

definition conclude_export ::
  "platform \<Rightarrow> document \<Rightarrow> string \<Rightarrow> bundle_reading \<Rightarrow> chain_verdict \<Rightarrow> chain_verdict \<Rightarrow>
   string option \<times> bool option \<times> string list \<Rightarrow> policy_readings \<Rightarrow> entry_rederivation list \<Rightarrow> export_verdict" where
  "conclude_export pl bundle scope b provisional chain manifest r rederivations =
     (let trusted = trusted_entries b provisional;
          (incomplete, unknown) = coverage_of trusted (length (br_entries b) - length trusted) (br_context_unverified b)
            (fst (spans_of b provisional)) (snd (spans_of b provisional));
          coverage = (if incomplete then ''incomplete'' else if unknown then ''unknown'' else ''complete'');
          issues = untrusted_issues provisional @ snd (snd manifest) @
            (if br_context_unverified b then [''recovery_context_unverified''] else []) @
            (if pr_incomplete r then [''policy_map_incomplete''] else []) @
            (if incomplete then [''coverage_incomplete''] else []) @ (if unknown then [''coverage_unknown''] else []) @
            (if effects_in trusted = [] then [''no_decisions''] else [])
      in \<lparr>xv_scope = Some scope, xv_chain = Some chain, xv_manifest_version = fst manifest,
          xv_manifest_hash_recomputes = fst (snd manifest), xv_policy_versions = pr_states r,
          xv_evaluation_recipes = sort (remdups (concat (map (\<lambda>e. case opt_text (member (body_of e) ''evaluation_recipe'') of
            None \<Rightarrow> [] | Some s \<Rightarrow> [s]) (effects_in (br_entries b))))),
          xv_rederivations = rederivations,
          xv_rederived_decision_ids = map er_decision_id (filter (\<lambda>i. er_verdict i \<noteq> unverifiable) rederivations),
          xv_confirmed_decision_ids = map er_decision_id (filter (\<lambda>i. er_verdict i = confirmed) rederivations),
          xv_declared_missing_decision_ids = missing_ids pl trusted, xv_coverage = coverage,
          xv_from_sequence = Some (br_from b), xv_to_sequence = br_to b, xv_next_from = br_next b, xv_issues = issues,
          xv_overall = overall_of issues coverage rederivations,
          xv_asserted_grades = asserted_grades (member (object_of (member bundle ''verification'')) ''grades'')\<rparr>)"

text \<open>\<open>verify_export\<close>, from the chain on.\<close>

definition judge_export :: "platform \<Rightarrow> document \<Rightarrow> string \<Rightarrow> bundle_reading \<Rightarrow> export_verdict result" where
  "judge_export pl bundle scope b =
     or_invalid (Some scope) (verify_chain pl (entries_of bundle) scope (br_from b) (br_to b) []) (\<lambda>provisional.
     let trusted = trusted_entries b provisional;
         lowered = map (\<lambda>e. entry_text e ''connection_id'')
           (filter (\<lambda>e. within (sequence_of e) (snd (spans_of b provisional))) trusted);
         required = sort (remdups (map (\<lambda>e. py_str pl (member (body_of e) ''policy_version'')) (effects_in trusted)));
         last_trusted = (if trusted = [] then 0 else sequence_of (last trusted))
     in
     or_invalid (Some scope) (manifest_reading pl bundle) (\<lambda>manifest.
     or_invalid (Some scope) (verify_chain pl (entries_of bundle) scope (br_from b) (br_to b) lowered) (\<lambda>chain.
     or_invalid (Some scope) (read_policies pl (member bundle ''policy_versions'') no_readings required) (\<lambda>r.
     bind_r (collect (rederive_entry pl scope last_trusted r) (effects_in (br_entries b))) (\<lambda>rederivations.
       Inr (conclude_export pl bundle scope b provisional chain manifest r rederivations))))))"

definition verify_export :: "platform \<Rightarrow> json \<Rightarrow> export_verdict result" where
  "verify_export pl v = (case v of
      JObj bundle \<Rightarrow> (case member bundle ''scope'' of
          JStr scope \<Rightarrow>
            if is_scope scope
            then or_invalid (Some scope) (read_bundle pl bundle scope) (judge_export pl bundle scope)
            else Inr (invalid_export None)
        | _ \<Rightarrow> Inr (invalid_export None))
    | _ \<Rightarrow> Inr (invalid_export None))"

end
