(* ===== verification/ExportProperties.thy ===== *)
theory ExportProperties
  imports ExportVerifier EvidenceProperties
begin

text \<open>
  What the offline verifier shows: on the documents of a chain it answers what the server answers, and it confirms an
  export only when everything in it was established.
\<close>

section \<open>The text of an instant is read back\<close>

lemma padded_chars: "c \<in> set (padded w n) \<Longrightarrow> is_digit c"
  using dec_digits [of "nat n"] by (auto simp: padded_def Let_def list_all_iff is_digit_def)

lemma zulu_plain: "CHR ''Z'' \<notin> set s \<Longrightarrow> zulu_offset (s @ ''Z'') = s @ ''+00:00''"
proof -
  have "CHR ''Z'' \<notin> set x \<Longrightarrow> concat (map (\<lambda>c. if c = CHR ''Z'' then ''+00:00'' else [c]) x) = x" for x :: string
    by (induction x) auto
  then show "CHR ''Z'' \<notin> set s \<Longrightarrow> zulu_offset (s @ ''Z'') = s @ ''+00:00''" by (simp add: zulu_offset_def)
qed

lemma zulu_instant: "zulu_offset (instant_text t) = isoformat_utc t"
proof -
  obtain y m d where ymd: "ord2ymd (t div 86400000000 + EPOCH_ORDINAL) = (y, m, d)" by (metis prod_cases3)
  define us where "us = t mod 86400000000 mod 1000000"
  define secs where "secs = t mod 86400000000 div 1000000"
  define front where "front = padded 4 y @ ''-'' @ padded 2 (int m) @ ''-'' @ padded 2 d @ ''T'' @
         padded 2 (secs div 3600) @ '':'' @ padded 2 (secs div 60 mod 60) @ '':'' @ padded 2 (secs mod 60) @
         (if us = 0 then [] else ''.'' @ padded 6 us)"
  have iso: "isoformat_utc t = front @ ''+00:00''"
    by (simp add: isoformat_utc_def Let_def ymd front_def us_def secs_def)
  have "is_digit CHR ''Z'' \<Longrightarrow> False" by (simp add: is_digit_def)
  then have "CHR ''Z'' \<notin> set front"
    unfolding front_def by (auto dest: padded_chars)
  moreover have "instant_text t = front @ ''Z''" by (simp add: instant_text_def Let_def iso)
  ultimately show ?thesis by (simp add: zulu_plain iso)
qed

section \<open>Entries as documents\<close>

definition doc :: "evidence_entry \<Rightarrow> document" where
  "doc e = (case entry_to_document e of Inr d \<Rightarrow> d | Inl _ \<Rightarrow> [])"

text \<open>An entry the server built, of a kind of marker the readers know, at an instant the platform reads back.\<close>

definition publishable :: "platform \<Rightarrow> evidence_entry \<Rightarrow> bool" where
  "publishable pl e \<longleftrightarrow> entry_post_init e = Inr () \<and> en_preimage_version e \<noteq> [] \<and>
     \<not> (er_kind e = ''recovery'' \<and> member (er_body e) ''event'' = JStr ''baseline'') \<and>
     (\<exists>t. er_recorded_at e = Aware t \<and> - 62135596800000000 \<le> t \<and> t < 253402300800000000 \<and>
        pl_reads pl (isoformat_utc (t - t mod 1000000)) = Inr (Aware (t - t mod 1000000)))"

lemma publishable_instant:
  assumes "publishable pl e"
  obtains shown where "chain_instant (er_recorded_at e) = Inr shown" "render_instant pl shown = Inr shown" "shown \<noteq> []"
proof -
  obtain t where t: "er_recorded_at e = Aware t" "- 62135596800000000 \<le> t" "t < 253402300800000000"
    "pl_reads pl (isoformat_utc (t - t mod 1000000)) = Inr (Aware (t - t mod 1000000))"
    using assms by (auto simp: publishable_def)
  define s where "s = t - t mod 1000000"
  have s: "s mod 1000000 = 0" "- 62135596800000000 \<le> s" "s < 253402300800000000"
  proof -
    show "s mod 1000000 = 0" by (simp add: s_def)
    show "s < 253402300800000000" using t(3) by (simp add: s_def)
    have "s = 1000000 * (t div 1000000)" by (simp add: s_def minus_mod_eq_mult_div)
    moreover have "- 62135596800 \<le> t div 1000000" using t(2) by (simp add: zdiv_mono1 [of "- 62135596800000000" t 1000000, simplified])
    ultimately show "- 62135596800000000 \<le> s" by simp
  qed
  have "chain_instant (Aware s) = Inr (instant_text s)" using s by (simp add: chain_instant_def)
  moreover have "chain_instant (er_recorded_at e) = Inr (instant_text s)" using t by (simp add: chain_instant_def s_def)
  moreover have "render_instant pl (instant_text s) = Inr (instant_text s)"
    using t(4) calculation(1) by (simp add: render_instant_def zulu_instant s_def)
  moreover have "instant_text s \<noteq> []" by (simp add: instant_text_def Let_def)
  ultimately show thesis using that by blast
qed

lemma doc_members:
  assumes "publishable pl e"
  obtains shown where "render_instant pl shown = Inr shown" "shown \<noteq> []" "chain_instant (er_recorded_at e) = Inr shown"
    "doc e = [(''scope'', JStr (er_scope e)), (''kind'', JStr (er_kind e)), (''recorded_at'', JStr shown),
        (''connection_id'', JStr (er_connection_id e)), (''principal'', principal_to_document (er_principal e)),
        (''body'', JObj (er_body e)), (''sequence'', JInt (en_sequence e)),
        (''previous_hash'', opt_str (en_previous_hash e)), (''entry_hash'', JStr (en_entry_hash e)),
        (''preimage_version'', JStr (en_preimage_version e))]"
  using publishable_instant [OF assms] that by (auto simp: doc_def entry_to_document_def)

lemma doc_sel:
  assumes "publishable pl e"
  shows "sequence_of (doc e) = en_sequence e" "entry_text (doc e) ''kind'' = er_kind e"
    "entry_text (doc e) ''connection_id'' = er_connection_id e" "body_of (doc e) = er_body e"
    "entry_text (doc e) ''preimage_version'' = en_preimage_version e" "entry_text (doc e) ''entry_hash'' = en_entry_hash e"
    "entry_text (doc e) ''scope'' = er_scope e" "member (doc e) ''previous_hash'' = opt_str (en_previous_hash e)"
    "member (doc e) ''entry_hash'' = JStr (en_entry_hash e)"
  by (rule doc_members [OF assms];
      simp add: sequence_of_def entry_text_def text_of_def member_def body_of_def object_of_def)+

lemma principal_rebuilt: "principal_document pl (principal_to_document p) = Inr (principal_to_document p)"
proof (induction p)
  case (Chain_Principal kind ident via)
  have "collect (principal_document pl) (map principal_to_document ws) = Inr (map principal_to_document ws)"
    if "set ws \<subseteq> set via" for ws
    using that Chain_Principal.IH by (induction ws) auto
  from this [of via] show ?case
    by (subst principal_document.simps) (simp add: item_def py_str_def)
qed

lemma record_of_valid:
  assumes "publishable pl e"
  shows "entry_hash_of pl (doc e) = entry_hash_again e" "\<exists>h. entry_hash_again e = Inr h"
proof -
  obtain shown where shown: "render_instant pl shown = Inr shown" "shown \<noteq> []" "chain_instant (er_recorded_at e) = Inr shown"
    and d: "doc e = [(''scope'', JStr (er_scope e)), (''kind'', JStr (er_kind e)), (''recorded_at'', JStr shown),
        (''connection_id'', JStr (er_connection_id e)), (''principal'', principal_to_document (er_principal e)),
        (''body'', JObj (er_body e)), (''sequence'', JInt (en_sequence e)),
        (''previous_hash'', opt_str (en_previous_hash e)), (''entry_hash'', JStr (en_entry_hash e)),
        (''preimage_version'', JStr (en_preimage_version e))]"
    by (rule doc_members [OF assms])
  have ok: "record_post_init e = Inr ()" using assms by (simp add: publishable_def entry_post_init_def)
  have "entry_hash_again e = Inr (sha256 (concat (map component
         [Some (utf8 PREIMAGE_VERSION), Some (utf8 (er_scope e)), Some (utf8 (int_text (en_sequence e))), Some (utf8 (er_kind e)),
          Some (utf8 shown), Some (utf8 (er_connection_id e)), Some (canonical_json (principal_to_document (er_principal e))),
          Some (canonical_json (JObj (er_body e))), map_option utf8 (en_previous_hash e)])))"
    using ok shown(3)
    by (simp add: entry_hash_again_def bare_record_def chain_hash_def record_preimage_def preimage_def evidence_record.defs)
  moreover have "entry_hash_of pl (doc e) = Inr (sha256 (concat (map component
         [Some (utf8 PREIMAGE_VERSION), Some (utf8 (er_scope e)), Some (utf8 (int_text (en_sequence e))), Some (utf8 (er_kind e)),
          Some (utf8 shown), Some (utf8 (er_connection_id e)), Some (canonical_json (principal_to_document (er_principal e))),
          Some (canonical_json (JObj (er_body e))), map_option utf8 (en_previous_hash e)])))"
    unfolding entry_hash_of_def document_preimage_def d
    by (simp add: item_def py_int_def py_str_def shown(1) principal_rebuilt opt_str_def del: bind_r_Inr split: option.split)
  ultimately show "entry_hash_of pl (doc e) = entry_hash_again e" "\<exists>h. entry_hash_again e = Inr h" by simp_all
qed

lemma has_member_iff: "has_member d k \<longleftrightarrow> k \<in> set (members d)"
  by (simp add: has_member_def members_def)

lemma plain_int_is: "plain_int_at_least n v \<Longrightarrow> is_plain_int v"
  by (simp add: plain_int_at_least_def is_plain_int_def split: json.splits)

text \<open>What the writer requires of a body includes what the reader does.\<close>

lemma reader_required:
  assumes "record_post_init e = Inr ()" and "\<not> (er_kind e = ''recovery'' \<and> member (er_body e) ''event'' = JStr ''baseline'')"
  shows "list_all (has_member (er_body e)) (READER_BODY_REQUIRED (er_kind e))"
    "er_kind e = ''gap'' \<Longrightarrow> in_tuple (member (er_body e) ''reason'') GAP_REASONS"
    "er_kind e = ''recovery'' \<Longrightarrow> in_tuple (member (er_body e) ''event'') READER_RECOVERY_EVENTS \<and>
       is_plain_int (member (er_body e) ''from_sequence'') \<and> is_plain_int (member (er_body e) ''through_sequence'')"
proof -
  have kind: "er_kind e \<in> set ENTRY_KINDS" and req: "set (BODY_REQUIRED (er_kind e)) \<subseteq> set (members (er_body e))"
    and body: "validate_body (er_kind e) (er_body e) = Inr ()"
    using assms(1) by (simp_all add: record_post_init_def)
  have marker: "\<exists>event. member (er_body e) ''event'' = JStr event \<and> event \<in> set READER_RECOVERY_EVENTS \<and>
      set [''epoch_id'', ''from_sequence'', ''through_sequence''] \<subseteq> set (members (er_body e)) \<and>
      is_plain_int (member (er_body e) ''from_sequence'') \<and> is_plain_int (member (er_body e) ''through_sequence'')"
    if k: "er_kind e = ''recovery''"
  proof -
    have v: "validate_recovery (er_body e) = Inr ()" using body k by (simp add: validate_body_def)
    then obtain event where event: "member (er_body e) ''event'' = JStr event"
      by (auto simp: validate_recovery_def split: json.splits)
    then have rec: "event \<in> set RECOVERY_EVENTS" "set (RECOVERY_REQUIRED event) \<subseteq> set (members (er_body e))"
      and ints: "\<And>m. m \<in> {''from_sequence'', ''through_sequence''} \<Longrightarrow> has_member (er_body e) m \<Longrightarrow> plain_int_at_least 1 (member (er_body e) m)"
      using v by (auto simp: validate_recovery_def split: if_splits)
    have "event \<in> set READER_RECOVERY_EVENTS"
      using rec(1) assms(2) k event by (auto simp: RECOVERY_EVENTS_def READER_RECOVERY_EVENTS_def)
    moreover from this have "set [''epoch_id'', ''from_sequence'', ''through_sequence''] \<subseteq> set (members (er_body e))"
      using rec(2) by (auto simp: READER_RECOVERY_EVENTS_def RECOVERY_REQUIRED_def)
    ultimately show ?thesis using event ints plain_int_is by (auto simp: has_member_iff)
  qed
  show "list_all (has_member (er_body e)) (READER_BODY_REQUIRED (er_kind e))"
  proof (cases "er_kind e = ''recovery''")
    case True
    with marker req show ?thesis by (auto simp: READER_BODY_REQUIRED_def BODY_REQUIRED_def list_all_iff has_member_iff)
  next
    case False
    with kind req show ?thesis
      by (auto simp: ENTRY_KINDS_def READER_BODY_REQUIRED_def BODY_REQUIRED_def list_all_iff has_member_iff)
  qed
  show "in_tuple (member (er_body e) ''reason'') GAP_REASONS" if "er_kind e = ''gap''"
    using body that by (simp add: validate_body_def validate_gap_def)
  show "in_tuple (member (er_body e) ''event'') READER_RECOVERY_EVENTS \<and>
       is_plain_int (member (er_body e) ''from_sequence'') \<and> is_plain_int (member (er_body e) ''through_sequence'')"
    if "er_kind e = ''recovery''"
    using marker [OF that] by (auto simp: in_tuple_def)
qed

lemma read_doc:
  assumes "publishable pl e"
  shows "read_entry (JObj (doc e)) = Inr (doc e)"
proof -
  obtain shown where shown: "shown \<noteq> []"
    and d: "doc e = [(''scope'', JStr (er_scope e)), (''kind'', JStr (er_kind e)), (''recorded_at'', JStr shown),
        (''connection_id'', JStr (er_connection_id e)), (''principal'', principal_to_document (er_principal e)),
        (''body'', JObj (er_body e)), (''sequence'', JInt (en_sequence e)),
        (''previous_hash'', opt_str (en_previous_hash e)), (''entry_hash'', JStr (en_entry_hash e)),
        (''preimage_version'', JStr (en_preimage_version e))]"
    by (rule doc_members [OF assms])
  have ok: "entry_post_init e = Inr ()" "en_preimage_version e \<noteq> []"
    and base: "\<not> (er_kind e = ''recovery'' \<and> member (er_body e) ''event'' = JStr ''baseline'')"
    using assms by (simp_all add: publishable_def)
  then have rec: "record_post_init e = Inr ()" and ord: "1 \<le> en_sequence e" "en_sequence e = 1 \<Longrightarrow> en_previous_hash e = None"
    "1 < en_sequence e \<Longrightarrow> en_previous_hash e \<noteq> None"
    "case en_previous_hash e of None \<Rightarrow> True | Some h \<Rightarrow> is_hex64 h" "is_hex64 (en_entry_hash e)"
    by (auto simp: entry_post_init_def FIRST_SEQUENCE_def)
  have texts: "er_scope e \<noteq> []" "er_kind e \<noteq> []" "er_connection_id e \<noteq> []"
    using rec by (auto simp: record_post_init_def ENTRY_KINDS_def)
  have p: "is_object (principal_to_document (er_principal e))"
    "list_all (\<lambda>m. is_text (member (object_of (principal_to_document (er_principal e))) m)) [''kind'', ''id'']"
    by (cases "er_principal e"; simp add: is_object_def object_of_def member_def is_text_def)+
  have prev: "opt_str (en_previous_hash e) = JNull \<or> is_digest_text (opt_str (en_previous_hash e))"
    using ord(4) by (auto simp: opt_str_def is_digest_text_def split: option.splits)
  have order: "sequence_of (doc e) = 1 \<longrightarrow> opt_str (en_previous_hash e) = JNull" "1 < sequence_of (doc e) \<longrightarrow> opt_str (en_previous_hash e) \<noteq> JNull"
    using ord(2,3) by (auto simp: doc_sel [OF assms] opt_str_def split: option.splits)
  have sel: "member (doc e) ''previous_hash'' = opt_str (en_previous_hash e)" "member (doc e) ''kind'' = JStr (er_kind e)"
    "body_of (doc e) = er_body e" "member (doc e) ''sequence'' = JInt (en_sequence e)"
    "member (doc e) ''entry_hash'' = JStr (en_entry_hash e)" "member (doc e) ''scope'' = JStr (er_scope e)"
    "member (doc e) ''recorded_at'' = JStr shown" "member (doc e) ''connection_id'' = JStr (er_connection_id e)"
    "member (doc e) ''preimage_version'' = JStr (en_preimage_version e)"
    "member (doc e) ''principal'' = principal_to_document (er_principal e)" "member (doc e) ''body'' = JObj (er_body e)"
    by (simp_all add: d member_def body_of_def object_of_def)
  have "set ENTRY_MEMBERS \<subseteq> set (members (doc e))" by (simp add: d ENTRY_MEMBERS_def members_def)
  moreover have "list_all (\<lambda>m. some_text (member (doc e) m)) [''scope'', ''kind'', ''recorded_at'', ''connection_id'', ''preimage_version'']"
    using texts shown ok(2) by (simp add: sel some_text_def)
  ultimately show ?thesis
    using reader_required [OF rec base] prev order ord(1,5) p
    by (simp only: read_entry_def json.case Let_def sel) (simp add: plain_int_at_least_def is_digest_text_def text_of_def is_object_def)
qed

section \<open>The loops of the two verifiers\<close>

lemma reader_gap_doc: "\<forall>e \<in> set es. publishable pl e \<Longrightarrow> reader_gap i (map doc es) = first_gap i es"
  by (induction i es rule: first_gap.induct) (simp_all add: doc_sel [where pl = pl])

lemma reader_ascending_doc: "\<forall>e \<in> set es. publishable pl e \<Longrightarrow> reader_ascending (map doc es) = ascending es"
  by (induction es rule: ascending.induct) (simp_all add: doc_sel [where pl = pl])

lemma reader_link_doc:
  "\<forall>e \<in> set es. publishable pl e \<Longrightarrow>
   reader_bad_link i (map doc es) = map_option (\<lambda>(j, a, b). (j, doc a, doc b)) (first_bad_link i es)"
  by (induction i es rule: first_bad_link.induct) (auto simp: doc_sel [where pl = pl] opt_str_def split: option.splits)

lemma reader_hash_doc:
  assumes "\<forall>e \<in> set es. publishable pl e"
  shows "reader_bad_hash pl i (map doc es) = map_sum id (map_option (\<lambda>(j, e, c). (j, doc e, c))) (first_bad_hash i es)"
  using assms
proof (induction es arbitrary: i)
  case (Cons e es)
  then have p: "publishable pl e" by simp
  obtain h where h: "entry_hash_again e = Inr h" using record_of_valid(2) [OF p] by blast
  show ?case using Cons by (simp add: record_of_valid(1) [OF p] h doc_sel [OF p])
qed simp

lemma reader_grades_doc:
  assumes "\<forall>e \<in> set es. publishable pl e"
  shows "reader_grades_loop pl current covered (map doc es) = grades_loop current covered es"
  using assms
proof (induction es arbitrary: current covered)
  case (Cons e es)
  then have p: "publishable pl e" by simp
  have "known_grade (py_str pl (member (er_body e) ''grade'')) = grade_of (text_of (member (er_body e) ''grade''))"
    if "er_kind e = ''grade''"
  proof -
    have "validate_grade (er_body e) = Inr ()"
      using p that by (simp add: publishable_def entry_post_init_def record_post_init_def validate_body_def)
    then show ?thesis
      by (auto simp: validate_grade_def in_set_def known_grade_def py_str_def text_of_def split: json.splits)
  qed
  then show ?case using Cons p by (simp add: Let_def doc_sel [OF p])
qed simp

lemma reader_gaps_doc:
  assumes "\<forall>e \<in> set es. publishable pl e"
  shows "reader_gaps pl (map doc es) = Inr (declared_gaps es)"
  using assms
proof (induction es)
  case (Cons e es)
  then have p: "publishable pl e" by simp
  have "\<exists>n r. int_of (member (er_body e) ''count'') = Some n \<and> py_int pl (member (er_body e) ''count'') = Inr n \<and>
      member (er_body e) ''reason'' = JStr r" if "er_kind e = ''gap''"
  proof -
    have "validate_gap (er_body e) = Inr ()"
      using p that by (simp add: publishable_def entry_post_init_def record_post_init_def validate_body_def)
    then show ?thesis
      by (auto simp: validate_gap_def in_tuple_def int_at_least_def int_of_def py_int_def split: json.splits option.splits)
  qed
  then show ?case using Cons p
    by (auto simp: reader_gaps_def declared_gaps_def doc_sel [OF p] py_str_def text_of_def)
qed (simp add: reader_gaps_def declared_gaps_def)

lemma reader_verdict_doc:
  assumes "\<forall>e \<in> set es. publishable pl e" and "set gs \<subseteq> set es"
  shows "reader_verdict pl (map doc es) s f [] c n x y z (map doc gs) = Inr (verdict_on es s f [] c n x y z gs)"
proof -
  have "\<forall>e \<in> set gs. publishable pl e" using assms by blast
  then have "reader_grades pl (map doc gs) [] = grades_over gs []"
    by (simp add: reader_grades_def grades_over_def reader_grades_doc)
  moreover have "reader_last (map doc es) = last_sequence es"
    using assms(1) by (auto simp: reader_last_def last_sequence_def last_map doc_sel [where pl = pl])
  ultimately show ?thesis by (simp add: reader_verdict_def verdict_on_def reader_gaps_doc [OF assms(1)])
qed

lemma verify_read_doc:
  assumes pub: "\<forall>e \<in> set es. publishable pl e" and f: "1 \<le> f"
  shows "verify_read pl (map doc es) s f t [] = verify_asked es s f t []"
proof (cases "es = []")
  case True
  then show ?thesis
    using reader_verdict_doc [of "[]" pl "[]"] by (simp add: verify_read_def verify_asked_def Let_def)
next
  case ne: False
  have say: "reader_verdict pl (map doc es) s f [] c n x y z (take i (map doc es)) =
      Inr (verdict_on es s f [] c n x y z (take i es))" for c n x y z i
    using reader_verdict_doc [OF pub, of "take i es"] by (simp add: take_map set_take_subset)
  note say_all = say [of _ _ _ _ _ "length es", simplified]
  have say_nil: "reader_verdict pl (map doc es) s f [] c n x y z [] = Inr (verdict_on es s f [] c n x y z [])" for c n x y z
    using say [of c n x y z 0] by simp
  have hd: "sequence_of (hd (map doc es)) = en_sequence (hd es)" and last: "sequence_of (last (map doc es)) = en_sequence (last es)"
    using ne pub by (simp_all add: hd_map last_map doc_sel [where pl = pl])
  have reach: "(case t of None \<Rightarrow> False | Some n \<Rightarrow> sequence_of (last (map doc es)) < n) =
      (case t of None \<Rightarrow> False | Some n \<Rightarrow> en_sequence (last es) < n)"
    by (simp only: last)
  note run = verify_read_def verify_asked_def Let_def hd last reach reader_gap_doc [OF pub] reader_hash_doc [OF pub]
    reader_link_doc [OF pub] say say_all say_nil
  show ?thesis
  proof (cases "en_sequence (hd es) = f \<and> first_gap 1 es = None \<and> \<not> (case t of None \<Rightarrow> False | Some n \<Rightarrow> en_sequence (last es) < n)")
    case False
    with ne show ?thesis by (auto simp: run split: option.splits)
  next
    case True
    obtain bad where bad: "first_bad_hash 0 es = Inr bad" using first_bad_hash_total by blast
    show ?thesis
    proof (cases bad)
      case (Some p)
      obtain i e c where p: "p = (i, e, c)" by (cases p)
      from first_bad_hash_from [OF bad [unfolded Some p]] have "e \<in> set es" by auto
      then have e: "sequence_of (doc e) = en_sequence e" "entry_text (doc e) ''entry_hash'' = en_entry_hash e"
        "entry_text (doc e) ''preimage_version'' = en_preimage_version e"
        using pub by (simp_all add: doc_sel [where pl = pl])
      show ?thesis using True ne by (cases c) (simp_all add: run bad Some p e)
    next
      case None
      show ?thesis
      proof (cases "first_bad_link 1 es")
        case link: None
        with True ne None show ?thesis by (simp add: run bad)
      next
        case (Some p)
        obtain i a b where p: "p = (i, a, b)" by (cases p)
        from first_bad_link_from [OF Some [unfolded p]] obtain k where k: "Suc k < length es" "a = es ! k" "b = es ! Suc k"
          by auto
        then have mem: "a \<in> set es" "b \<in> set es" by simp_all
        have "contiguous es" using True by (simp add: first_gap_None)
        then have "1 < en_sequence b" using contiguous_nth [OF _ k(1)] True f k(3) by simp
        then have "en_previous_hash b \<noteq> None"
          using pub mem(2) by (auto simp: publishable_def entry_post_init_def FIRST_SEQUENCE_def)
        then obtain q where "en_previous_hash b = Some q" by blast
        moreover have "sequence_of (doc b) = en_sequence b" "entry_text (doc a) ''entry_hash'' = en_entry_hash a"
          "member (doc b) ''previous_hash'' = opt_str (en_previous_hash b)"
          using pub mem by (simp_all add: doc_sel [where pl = pl])
        ultimately show ?thesis using True ne None by (simp add: run bad Some [unfolded p One_nat_def] py_str_def opt_str_def)
      qed
    qed
  qed
qed

lemma read_docs: "\<forall>e \<in> set es. publishable pl e \<Longrightarrow> collect read_entry (map (\<lambda>e. JObj (doc e)) es) = Inr (map doc es)"
  by (induction es) (simp_all add: read_doc [where pl = pl])

lemma verify_chain_doc:
  assumes "range_asked es s f t" and "is_scope s" and "\<forall>e \<in> set es. publishable pl e"
  shows "verify_chain pl (map (\<lambda>e. JObj (doc e)) es) s f t [] = verify es s f t []"
proof -
  have f: "1 \<le> f" and t: "\<not> (f < 1 \<or> (case t of None \<Rightarrow> False | Some n \<Rightarrow> n < f))"
    using assms(1) by (auto simp: range_asked_def FIRST_SEQUENCE_def split: option.split)
  have "\<not> (list_ex (\<lambda>e. entry_text e ''scope'' \<noteq> s) (map doc es) \<or> \<not> reader_ascending (map doc es))"
    using assms(1,3) by (auto simp: list_ex_iff range_asked_def reader_ascending_doc doc_sel [where pl = pl])
  then have "verify_chain pl (map (\<lambda>e. JObj (doc e)) es) s f t [] = verify_read pl (map doc es) s f t []"
    using assms(2) t by (simp add: verify_chain_def read_docs [OF assms(3)] del: bind_r_Inr)
  also have "\<dots> = verify_asked es s f t []" by (rule verify_read_doc [OF assms(3) f])
  also have "\<dots> = verify es s f t []"
    using assms(1) by (auto simp: verify_def range_asked_def list_ex_iff split: option.splits)
  finally show ?thesis .
qed

section \<open>Properties\<close>

text \<open>C15: the offline verifier answers on the documents of a range what the server answers on its entries, verdict for
  verdict (condition, sequence, digests, declared gaps, grades), with nothing carried in from before the range: for entries
  the server built, whose instants the platform reads back as it wrote them, and that are no baseline marker.\<close>

theorem offline_and_server_agree:
  assumes "range_asked es s f t" and "is_scope s" and "\<forall>e \<in> set es. publishable pl e"
  shows "verify_chain pl (map (\<lambda>e. JObj (doc e)) es) s f t [] = verify es s f t []"
  by (rule verify_chain_doc [OF assms])

definition example_platform :: platform where
  "example_platform = \<lparr>pl_reads = (\<lambda>s. Inr (Aware 1700000000000000)), pl_shows = (\<lambda>_. ''?''), pl_int = (\<lambda>_. Inl ValueError),
     pl_b64decode = Some, pl_loads = (\<lambda>_. None)\<rparr>"

lemma example_publishable: "publishable example_platform example_entry"
  using place_fields [OF example_entry]
  by (simp add: publishable_def example_platform_def PREIMAGE_VERSION_def example_record_def)

theorem offline_and_server_agree_witness:
  "verify_chain example_platform [JObj (doc example_entry)] ''default'' 1 None [] = verify [example_entry] ''default'' 1 None []"
proof -
  have "er_scope example_entry = ''default''" using place_recomputes [OF example_entry] by (simp add: example_record_def)
  then have "range_asked [example_entry] ''default'' 1 None" by (simp add: range_asked_def FIRST_SEQUENCE_def)
  from offline_and_server_agree [OF this, of example_platform] example_publishable show ?thesis
    by (simp add: is_scope_def is_lower_def)
qed

section \<open>What a confirmed export has shown\<close>

lemma or_invalid_Inr [simp]: "or_invalid s (Inr x) k = k x"
  by (simp add: or_invalid_def)

lemma or_invalid_confirmed:
  assumes "or_invalid s r k = Inr v" and "xv_overall v = confirmed"
  obtains x where "r = Inr x" "k x = Inr v"
  using assms by (cases r) (auto simp: or_invalid_def invalid_export_def split: exn.splits)

lemma judge_confirmed:
  assumes "judge_export pl bundle scope b = Inr v" and "xv_overall v = confirmed"
  obtains chain manifest chain' r ds vs n where
    "verify_chain pl (entries_of bundle) scope (br_from b) (br_to b) [] = Inr chain"
    "manifest_reading pl bundle = Inr manifest"
    "read_policies pl (member bundle ''policy_versions'') no_readings vs = Inr r"
    "collect (rederive_entry pl scope n r) (effects_in (br_entries b)) = Inr ds"
    "v = conclude_export pl bundle scope b chain chain' manifest r ds"
  using assms(1) unfolding judge_export_def Let_def
  by (elim or_invalid_confirmed [OF _ assms(2)]) (auto intro: that)

lemma collect_mem: "collect f xs = Inr ys \<Longrightarrow> x \<in> set xs \<Longrightarrow> \<exists>y \<in> set ys. f x = Inr y"
  by (induction xs arbitrary: ys) auto

definition contents_named :: "policy_readings \<Rightarrow> bool" where
  "contents_named r \<longleftrightarrow> (\<forall>v raw. map_of (pr_contents r) v = Some raw \<longrightarrow> ''sha256:'' @ sha256 raw = v)"

lemma read_policy_named:
  "read_policy pl attachments r v = Inr r' \<Longrightarrow> contents_named r \<Longrightarrow> contents_named r'"
  by (auto simp: read_policy_def contents_named_def Let_def case_prod_unfold split: if_splits archive_state.splits option.splits)

lemma read_policies_named:
  "read_policies pl attachments r vs = Inr r' \<Longrightarrow> contents_named r \<Longrightarrow> contents_named r'"
  by (induction vs arbitrary: r) (auto intro: read_policy_named)

lemma rederived_confirmed:
  assumes "rederive_recorded_decision loads rd raw = Inr res" and "re_verdict res = confirmed"
  shows "\<exists>refs. rd_principal_references rd = Some refs \<and> evaluate_recorded_inputs loads raw (rd_scope rd) (rd_capability rd)
    refs (rd_arguments_digest rd) = Inr (Inr (rd_outcome rd, rd_reason rd, rd_rule_id rd))"
proof -
  obtain recipe refs where some: "rd_evaluation_recipe rd = Some recipe" "rd_principal_references rd = Some refs"
    using assms by (auto simp: rederive_recorded_decision_def unverifiable_for_def split: option.splits)
  then obtain computed where computed:
    "evaluate_recorded_inputs loads raw (rd_scope rd) (rd_capability rd) refs (rd_arguments_digest rd) = Inr computed"
    using assms by (auto simp: rederive_recorded_decision_def unverifiable_for_def split: if_splits)
  show ?thesis
  proof (cases computed)
    case (Inl u)
    with assms some computed show ?thesis
      by (cases u) (auto simp: rederive_recorded_decision_def unverifiable_for_def split: if_splits)
  next
    case (Inr triple)
    with assms some computed show ?thesis
      by (auto simp: rederive_recorded_decision_def unverifiable_for_def split: if_splits)
  qed
qed

lemma manifest_fits: "manifest_reading pl bundle = Inr (mv, fits, []) \<Longrightarrow> fits = Some True"
  by (auto simp: manifest_reading_def Let_def split: if_splits)

text \<open>What confirming one effect of a bundle takes: policy bytes whose digest is the version it names, from which its
  recorded inputs yield its recorded outcome, reason and rule.\<close>

definition effect_shown :: "platform \<Rightarrow> string \<Rightarrow> document \<Rightarrow> bool" where
  "effect_shown pl scope e \<longleftrightarrow> (\<exists>raw refs.
     py_str pl (member (body_of e) ''policy_version'') = ''sha256:'' @ sha256 raw \<and>
     member (body_of e) ''principal_references'' = JArr refs \<and>
     evaluate_recorded_inputs (pl_loads pl) raw scope (py_str pl (member (body_of e) ''capability'')) (map (py_str pl) refs)
       (opt_text (member (body_of e) ''arguments_digest'')) =
     Inr (Inr (py_str pl (member (body_of e) ''outcome''), py_str pl (member (body_of e) ''reason''),
       opt_text (member (body_of e) ''rule_id''))))"

lemma effect_confirmed:
  assumes "rederive_entry pl scope n r e = Inr i" and "er_verdict i = confirmed" and "contents_named r"
  shows "effect_shown pl scope e"
proof -
  define version where "version = py_str pl (member (body_of e) ''policy_version'')"
  obtain raw res where raw: "map_of (pr_contents r) version = Some raw"
    and res: "rederive_recorded_decision (pl_loads pl) (recorded_of pl (body_of e) scope) raw = Inr res" "re_verdict res = confirmed"
    using assms(1,2) by (auto simp: rederive_entry_def Let_def version_def split: if_splits option.splits)
  from rederived_confirmed [OF res] obtain refs where
    "rd_principal_references (recorded_of pl (body_of e) scope) = Some refs"
    "evaluate_recorded_inputs (pl_loads pl) raw scope (py_str pl (member (body_of e) ''capability'')) refs
       (opt_text (member (body_of e) ''arguments_digest'')) =
     Inr (Inr (py_str pl (member (body_of e) ''outcome''), py_str pl (member (body_of e) ''reason''),
       opt_text (member (body_of e) ''rule_id'')))"
    by (auto simp: recorded_of_def)
  moreover have "version = ''sha256:'' @ sha256 raw" using assms(3) raw by (auto simp: contents_named_def)
  ultimately show ?thesis
    by (auto simp: effect_shown_def version_def recorded_of_def split: json.splits)
qed

text \<open>The clean epochs the recovery markers of some entries close.\<close>

definition clean_epochs :: "document list \<Rightarrow> (int \<times> int) list" where
  "clean_epochs es = fst (epochs (filter (\<lambda>e. entry_text e ''kind'' = ''recovery'') es))"

lemma overall_confirmed:
  "overall_of issues coverage ds = confirmed \<longleftrightarrow>
     issues = [] \<and> coverage = ''complete'' \<and> ds \<noteq> [] \<and> (\<forall>i \<in> set ds. er_verdict i = confirmed)"
  by (auto simp: overall_of_def list_ex_iff)

text \<open>C14: an export is confirmed only when everything it claims was established from the bundle alone: it has no issue,
  its digest recomputes, its whole chain is intact, no gap declares a loss, every effect, grade and composition lies in an
  epoch that closed cleanly, there is an effect, and each one follows again from policy bytes whose digest is the version it
  names.\<close>

theorem a_confirmed_export_is_sound:
  assumes "verify_export pl (JObj bundle) = Inr v" and "xv_overall v = confirmed"
  shows "\<exists>scope b chain. member bundle ''scope'' = JStr scope \<and> read_bundle pl bundle scope = Inr b \<and>
    xv_issues v = [] \<and> xv_manifest_hash_recomputes v = Some True \<and>
    verify_chain pl (entries_of bundle) scope (br_from b) (br_to b) [] = Inr chain \<and> cv_condition chain = Intact \<and>
    (\<exists>e \<in> set (br_entries b). entry_text e ''kind'' = ''effect'') \<and>
    (\<forall>e \<in> set (br_entries b). entry_text e ''kind'' \<noteq> ''gap'' \<and>
      (entry_text e ''kind'' \<in> set ASYNCHRONOUS_KINDS \<longrightarrow> within (sequence_of e) (clean_epochs (br_entries b @ br_context b))) \<and>
      (entry_text e ''kind'' = ''effect'' \<longrightarrow> effect_shown pl scope e))"
proof -
  obtain scope where scope: "member bundle ''scope'' = JStr scope" "is_scope scope"
    and "or_invalid (Some scope) (read_bundle pl bundle scope) (judge_export pl bundle scope) = Inr v"
    using assms by (auto simp: verify_export_def invalid_export_def split: json.splits if_splits)
  then obtain b where b: "read_bundle pl bundle scope = Inr b" "judge_export pl bundle scope b = Inr v"
    by (elim or_invalid_confirmed [OF _ assms(2)])
  obtain chain manifest chain' r ds vs n where chain: "verify_chain pl (entries_of bundle) scope (br_from b) (br_to b) [] = Inr chain"
    and manifest: "manifest_reading pl bundle = Inr manifest"
    and policies: "read_policies pl (member bundle ''policy_versions'') no_readings vs = Inr r"
    and ds: "collect (rederive_entry pl scope n r) (effects_in (br_entries b)) = Inr ds"
    and v: "v = conclude_export pl bundle scope b chain chain' manifest r ds"
    by (rule judge_confirmed [OF b(2) assms(2)])
  obtain incomplete unknown where cov: "coverage_of (trusted_entries b chain)
      (length (br_entries b) - length (trusted_entries b chain)) (br_context_unverified b)
      (fst (spans_of b chain)) (snd (spans_of b chain)) = (incomplete, unknown)" by (metis surj_pair)
  have fine: "xv_issues v = []" "xv_coverage v = ''complete''" "ds \<noteq> []" "\<forall>i \<in> set ds. er_verdict i = confirmed"
    using assms(2) overall_confirmed by (auto simp: v conclude_export_def Let_def cov)
  from fine(1) have quiet: "untrusted_issues chain = []" "snd (snd manifest) = []" "\<not> incomplete" "\<not> unknown"
    by (auto simp: v conclude_export_def Let_def cov split: if_splits)
  have intact: "cv_condition chain = Intact" using quiet(1) by (auto simp: untrusted_issues_def split: if_splits)
  then have trusted: "trusted_entries b chain = br_entries b" by (simp add: trusted_entries_def trusted_count_def)
  have "xv_manifest_hash_recomputes v = Some True"
    using manifest quiet(2) manifest_fits by (cases manifest) (auto simp: v conclude_export_def Let_def cov)
  moreover have "\<exists>e \<in> set (br_entries b). entry_text e ''kind'' = ''effect''"
    using ds fine(3) by (cases "effects_in (br_entries b)") (auto simp: effects_in_def filter_eq_Cons_iff)
  moreover have "effect_shown pl scope e" if "e \<in> set (br_entries b)" "entry_text e ''kind'' = ''effect''" for e
  proof -
    have "e \<in> set (effects_in (br_entries b))" using that by (simp add: effects_in_def)
    then obtain i where "i \<in> set ds" "rederive_entry pl scope n r e = Inr i" using collect_mem [OF ds] by blast
    moreover have "contents_named r"
      by (rule read_policies_named [OF policies]) (simp add: contents_named_def no_readings_def)
    ultimately show ?thesis using fine(4) effect_confirmed by blast
  qed
  moreover have "entry_text e ''kind'' \<noteq> ''gap'' \<and> (entry_text e ''kind'' \<in> set ASYNCHRONOUS_KINDS \<longrightarrow>
      within (sequence_of e) (clean_epochs (br_entries b @ br_context b)))" if "e \<in> set (br_entries b)" for e
    using cov quiet(3,4) that by (auto simp: coverage_of_def Let_def trusted list_ex_iff spans_of_def clean_epochs_def)
  ultimately show ?thesis using scope(1) b(1) fine(1) chain intact by blast
qed

section \<open>A confirmed export\<close>

text \<open>One denied decision and the marker of its epoch, exported under a policy without rules.\<close>

definition bare_policy :: table where
  "bare_policy = [(''format'', TInt 1), (''revision'', TTable [(''reason'', TStr ''first'')])]"

definition policy_platform :: platform where
  "policy_platform = example_platform\<lparr>pl_loads := (\<lambda>raw. if raw = ''policy'' then Some bare_policy else None)\<rparr>"

definition policy_name :: string where
  "policy_name = ''sha256:'' @ sha256 ''policy''"

definition effect_record :: evidence_record where
  "effect_record = example_record\<lparr>er_kind := ''effect'', er_body :=
     [(''capability'', JStr ''disk.write''), (''decision_id'', JStr ''d1''), (''outcome'', JStr ''deny''),
      (''decided_at'', JStr ''2023-11-14T22:13:20Z''), (''policy_version'', JStr policy_name),
      (''reason'', JStr ''policy_absent''), (''rule_id'', JNull), (''arguments_digest'', JNull), (''correlation'', JNull),
      (''correlation_source'', JStr ''absent''), (''principal_references'', JArr [JStr ''user:ada'']),
      (''evaluation_recipe'', JStr RECIPE),
      (''decision_position'', JObj [(''store_id'', JStr ''s''), (''position'', JInt 1)])]\<rparr>"

definition marker_record :: evidence_record where
  "marker_record = example_record\<lparr>er_kind := ''recovery'', er_body :=
     [(''event'', JStr ''clean_stop''), (''epoch_id'', JStr ''e1''), (''from_sequence'', JInt 1), (''through_sequence'', JInt 1),
      (''recording_epoch'', JStr ''recovery:e1'')]\<rparr>"

lemma policy_name_digest: "is_policy_digest policy_name"
  by (simp add: is_policy_digest_def policy_name_def sha256_shape)

lemma effect_valid: "record_post_init (placed effect_record n h d) = Inr ()"
  by (simp add: record_post_init_def placed_def effect_record_def example_record_def ENTRY_KINDS_def BODY_MEMBERS_def
      EFFECT_DECISION_MEMBERS_def BODY_REQUIRED_def members_def validate_body_def validate_effect_def has_member_def member_def
      in_set_def nonempty_text_def some_text_def validate_copied_decision_def CHAIN_REASONS_def validate_references_def
      is_chain_reference_def Let_def texts_def strictly_sorted_def RECIPE_def validate_position_def plain_int_at_least_def
      policy_name_def)

lemma marker_valid: "record_post_init (placed marker_record n h d) = Inr ()"
  by (simp add: record_post_init_def placed_def marker_record_def example_record_def ENTRY_KINDS_def BODY_MEMBERS_def
      BODY_REQUIRED_def members_def validate_body_def validate_recovery_def has_member_def member_def some_text_def
      RECOVERY_EVENTS_def RECOVERY_REQUIRED_def plain_int_at_least_def)

definition effect_entry :: evidence_entry where
  "effect_entry = (case place effect_record 1 None of Inr e \<Rightarrow> e | Inl _ \<Rightarrow> undefined)"

definition marker_entry :: evidence_entry where
  "marker_entry = (case place marker_record 2 (Some (en_entry_hash effect_entry)) of Inr e \<Rightarrow> e | Inl _ \<Rightarrow> undefined)"

lemma effect_entry: "place effect_record 1 None = Inr effect_entry"
  using placed_somewhere [OF _ effect_valid, of 1 None]
  by (auto simp: effect_entry_def effect_record_def example_record_def)

lemma marker_entry: "place marker_record 2 (Some (en_entry_hash effect_entry)) = Inr marker_entry"
proof -
  have "is_hex64 (en_entry_hash effect_entry)"
    using place_fields [OF effect_entry] by (simp add: entry_post_init_def)
  then show ?thesis
    using placed_somewhere [OF _ marker_valid, of 2 "Some (en_entry_hash effect_entry)"]
    by (auto simp: marker_entry_def marker_record_def example_record_def)
qed

definition exported :: "evidence_entry list" where
  "exported = [effect_entry, marker_entry]"

definition bundle_body :: document where
  "bundle_body = [(''scope'', JStr ''default''), (''from_sequence'', JInt 1), (''to_sequence'', JInt 2),
     (''entries'', JArr (map (\<lambda>e. JObj (doc e)) exported)), (''verification'', JObj []),
     (''policy_versions'', JObj [(policy_name, JObj [(''state'', JStr ''present''), (''content'', JStr ''policy'')])]),
     (''manifest_version'', JStr MANIFEST_V3)]"

definition example_bundle :: document where
  "example_bundle = bundle_body @ [(''manifest_hash'', JStr (sha256 (canonical_json (JObj bundle_body))))]"

lemma exported_publishable: "\<forall>e \<in> set exported. publishable policy_platform e"
proof -
  have "er_kind effect_entry = ''effect''" "er_body marker_entry = er_body marker_record"
    using place_fields [OF effect_entry] place_recomputes(6) [OF marker_entry] by (simp_all add: effect_record_def)
  then show ?thesis
    using place_fields [OF effect_entry] place_fields [OF marker_entry]
    by (simp add: exported_def publishable_def policy_platform_def example_platform_def PREIMAGE_VERSION_def effect_record_def
        marker_record_def example_record_def member_def)
qed

lemma exported_fields:
  "sequence_of (doc effect_entry) = 1" "sequence_of (doc marker_entry) = 2"
  "entry_text (doc effect_entry) ''kind'' = ''effect''" "entry_text (doc marker_entry) ''kind'' = ''recovery''"
  "body_of (doc effect_entry) = er_body effect_record" "body_of (doc marker_entry) = er_body marker_record"
  using exported_publishable place_fields [OF effect_entry] place_fields [OF marker_entry] place_recomputes [OF effect_entry]
    place_recomputes [OF marker_entry]
  by (simp_all add: exported_def doc_sel [where pl = policy_platform]) (simp_all add: effect_record_def marker_record_def)

lemma exported_intact:
  "\<exists>v. verify_chain policy_platform (map (\<lambda>e. JObj (doc e)) exported) ''default'' 1 (Some 2) [] = Inr v \<and> cv_condition v = Intact"
proof -
  note first = place_recomputes [OF effect_entry] and second = place_recomputes [OF marker_entry]
  have scope: "er_scope effect_entry = ''default''" "er_scope marker_entry = ''default''"
    using first(4) second(4) by (simp_all add: effect_record_def marker_record_def example_record_def)
  have "contiguous exported" "linked exported" "list_all recomputes exported"
    using first second by (simp_all add: exported_def contiguous_def linked_def)
  moreover have asked: "range_asked exported ''default'' 1 (Some 2)"
    using first(2) second(2) scope by (simp add: range_asked_def exported_def FIRST_SEQUENCE_def)
  ultimately have "\<exists>v. verify exported ''default'' 1 (Some 2) [] = Inr v \<and> cv_condition v = Intact"
    using intact_range [of exported 1 "''default''" "Some 2" "[]"] scope first(2) second(2)
    by (auto simp: exported_def last_sequence_def FIRST_SEQUENCE_def)
  then show ?thesis
    using verify_chain_doc [OF asked _ exported_publishable] by (simp add: is_scope_def is_lower_def)
qed

lemma example_read: "read_bundle policy_platform example_bundle ''default'' = Inr \<lparr>br_from = 1, br_to = Some 2, br_next = None,
    br_entries = map doc exported, br_context = [], br_context_unverified = False\<rparr>"
proof -
  have member: "member example_bundle ''from_sequence'' = JInt 1" "member example_bundle ''to_sequence'' = JInt 2"
    "member example_bundle ''next_from'' = JNull" "member example_bundle ''verification'' = JObj []"
    "member example_bundle ''entries'' = JArr (map (\<lambda>e. JObj (doc e)) exported)"
    "member example_bundle ''recovery_context'' = JNull" "is_object (member example_bundle ''policy_versions'')"
    "is_text (member example_bundle ''manifest_hash'')"
    by (simp_all add: example_bundle_def bundle_body_def member_def is_object_def is_text_def)
  show ?thesis
    using read_docs [OF exported_publishable] exported_fields(2)
    by (simp add: read_bundle_def member optional_int_def verified_context_def del: bind_r_Inr) (simp add: exported_def)
qed

lemma bare_policy_derives:
  "evaluate_recorded_inputs (pl_loads policy_platform) ''policy'' scope capability refs digest =
     Inr (Inr (''deny'', ''policy_absent'', None))"
  by (simp add: evaluate_recorded_inputs_def recipe_parse_def policy_platform_def bare_policy_def only_members_def
      ROOT_MEMBERS_def REVISION_MEMBERS_def revision_member_def rules_member_def text_member_def has_control_def is_control_def)

lemma effect_rederived:
  assumes "map_of (pr_contents r) policy_name = Some ''policy''" and "1 \<le> n"
  shows "\<exists>i. rederive_entry policy_platform scope n r (doc effect_entry) = Inr i \<and> er_verdict i = confirmed"
  using assms
  by (simp add: rederive_entry_def Let_def exported_fields effect_record_def member_def py_str_def recorded_of_def opt_text_def
      rederive_recorded_decision_def RECIPE_REASONS_def bare_policy_derives RECIPE_def)

lemma example_judged:
  "\<exists>v. verify_export policy_platform (JObj example_bundle) = Inr v \<and> xv_overall v = confirmed"
proof -
  obtain c where c: "verify_chain policy_platform (map (\<lambda>e. JObj (doc e)) exported) ''default'' 1 (Some 2) [] = Inr c"
    "cv_condition c = Intact" using exported_intact by blast
  define b where "b = \<lparr>br_from = 1 :: int, br_to = Some 2, br_next = None, br_entries = map doc exported, br_context = [],
    br_context_unverified = False\<rparr>"
  define r where "r = \<lparr>pr_states = [(policy_name, Present)], pr_contents = [(policy_name, ''policy'')], pr_causes = [],
    pr_incomplete = False\<rparr>"
  obtain i where i: "rederive_entry policy_platform ''default'' 2 r (doc effect_entry) = Inr i" "er_verdict i = confirmed"
    using effect_rederived [of r 2] by (auto simp: r_def)
  have trusted: "trusted_entries b c = map doc exported" by (simp add: trusted_entries_def trusted_count_def c(2) b_def)
  have spans: "spans_of b c = ([(1, 1)], [])"
    by (simp add: spans_of_def trusted) (simp add: b_def exported_def exported_fields epochs_def span_of_def
        marker_record_def member_def)
  have last: "exported \<noteq> []" "sequence_of (last (map doc exported)) = 2"
    by (simp_all add: exported_def exported_fields)
  have filter_none: "filter (\<lambda>e. within (sequence_of e) []) es = []" for es by (simp add: within_def)
  have effects: "effects_in (map doc exported) = [doc effect_entry]"
    by (simp add: effects_in_def exported_def exported_fields)
  have version: "py_str policy_platform (member (body_of (doc effect_entry)) ''policy_version'') = policy_name"
    by (simp add: exported_fields effect_record_def member_def py_str_def)
  have members: "entries_of example_bundle = map (\<lambda>e. JObj (doc e)) exported"
    "member example_bundle ''policy_versions'' = JObj [(policy_name, JObj [(''state'', JStr ''present''), (''content'', JStr ''policy'')])]"
    "member example_bundle ''scope'' = JStr ''default''"
    by (simp_all add: entries_of_def example_bundle_def bundle_body_def member_def)
  have "filter (\<lambda>(k, _). k \<noteq> ''manifest_hash'') example_bundle = bundle_body"
    by (simp add: example_bundle_def bundle_body_def)
  then have manifest: "manifest_reading policy_platform example_bundle = Inr (Some MANIFEST_V3, Some True, [])"
    by (simp add: manifest_reading_def Let_def manifest_hash_def) (simp add: example_bundle_def bundle_body_def member_def
        in_tuple_def MANIFEST_VERSIONS_def text_of_def)
  have bytes: "policy_bytes policy_platform (JObj [(''state'', JStr ''present''), (''content'', JStr ''policy'')]) =
      Inr (Present, Some ''policy'')"
    by (simp add: policy_bytes_def in_set_def member_def archive_state_of_def text_of_def policy_platform_def example_platform_def)
  have named: "(''sha256:'' @ sha256 ''policy'' \<noteq> policy_name) = False" by (simp add: policy_name_def)
  have "read_policy policy_platform (member example_bundle ''policy_versions'') no_readings policy_name = Inr r"
    unfolding read_policy_def members Let_def json.case
    by (simp add: member_def bytes policy_name_digest named no_readings_def r_def del: append.simps)
  then have policies: "read_policies policy_platform (member example_bundle ''policy_versions'') no_readings [policy_name] = Inr r"
    by simp
  have bound: "br_entries b = map doc exported" "br_from b = 1" "br_to b = Some 2" "br_context_unverified b = False"
    by (simp_all add: b_def)
  have judged: "judge_export policy_platform example_bundle ''default'' b =
      Inr (conclude_export policy_platform example_bundle ''default'' b c c (Some MANIFEST_V3, Some True, []) r [i])"
    using c(1) i(1) policies manifest
    by (simp add: judge_export_def Let_def members(1) bound trusted spans effects version last filter_none del: bind_r_Inr)
  moreover have "xv_overall (conclude_export policy_platform example_bundle ''default'' b c c (Some MANIFEST_V3, Some True, []) r [i])
      = confirmed"
    using i(2) by (simp add: conclude_export_def Let_def trusted spans bound effects coverage_of_def overall_of_def
        untrusted_issues_def c(2) r_def exported_fields within_def ASYNCHRONOUS_KINDS_def) (simp add: exported_def exported_fields
        ASYNCHRONOUS_KINDS_def within_def)
  ultimately show ?thesis
    using example_read by (simp add: verify_export_def members(3) is_scope_def is_lower_def b_def)
qed

theorem a_confirmed_export_is_sound_witness:
  "\<exists>v. verify_export policy_platform (JObj example_bundle) = Inr v \<and> xv_overall v = confirmed \<and> xv_issues v = [] \<and>
     xv_manifest_hash_recomputes v = Some True"
proof -
  obtain v where v: "verify_export policy_platform (JObj example_bundle) = Inr v" "xv_overall v = confirmed"
    using example_judged by blast
  with a_confirmed_export_is_sound [OF v] show ?thesis by blast
qed

end
