(* ===== verification/ExportErrors.thy ===== *)
theory ExportErrors
  imports ExportVerifier EvidenceProperties
begin

text \<open>
  What leaves the offline verifier that is no verdict: the exceptions two unchecked members of a bundle raise, and the
  marker the writer may write and the reader refuses.
\<close>

section \<open>What applying the recipe raises\<close>

text \<open>The platform's readers raise what their documentation says.\<close>

definition platform_raises :: "platform \<Rightarrow> bool" where
  "platform_raises pl \<longleftrightarrow> (\<forall>s. only_raises {ValueError, OverflowError} (pl_reads pl s)) \<and>
     (\<forall>v. only_raises {ValueError, OverflowError} (pl_int pl v))"

abbreviation "reader_errors \<equiv> set READER_UNAPPLIABLE"

lemma reader_errors: "reader_errors = {InvalidBundle, KeyError, TypeError, ValueError, OverflowError}"
  by (simp add: READER_UNAPPLIABLE_def)

lemma reader_errors_mem: "InvalidBundle \<in> reader_errors" "KeyError \<in> reader_errors" "TypeError \<in> reader_errors"
  by (simp_all add: reader_errors)

lemma only_raises_mono: "only_raises X r \<Longrightarrow> X \<subseteq> Y \<Longrightarrow> only_raises Y r"
  by (auto simp: only_raises_def)

lemma item_raises [raising]: "only_raises reader_errors (item d k)"
  by (simp add: item_def reader_errors split: option.split)

lemma collect_raises: "(\<And>x. x \<in> set xs \<Longrightarrow> only_raises X (f x)) \<Longrightarrow> only_raises X (collect f xs)"
  by (induction xs) (auto intro!: only_raises_bind)

lemma principal_document_raises [raising]: "only_raises reader_errors (principal_document pl v)"
proof (induction pl v rule: principal_document.induct)
  case (1 pl v)
  show ?case
  proof (cases v)
    case (JObj d)
    show ?thesis
    proof (cases "map_of d ''via''")
      case None
      with JObj show ?thesis
        by (subst principal_document.simps) (auto intro!: raising)
    next
      case (Some w)
      then show ?thesis
        using 1 JObj
        by (subst principal_document.simps) (cases w; auto intro!: raising collect_raises simp: reader_errors_mem)
    qed
  qed (subst principal_document.simps; simp add: reader_errors)+
qed

lemma render_instant_raises [raising]: "platform_raises pl \<Longrightarrow> only_raises reader_errors (render_instant pl s)"
  unfolding platform_raises_def only_raises_def render_instant_def reader_errors
  by (fastforce split: sum.splits)

lemma py_int_raises [raising]: "platform_raises pl \<Longrightarrow> only_raises reader_errors (py_int pl v)"
  unfolding platform_raises_def only_raises_def py_int_def reader_errors
  by (fastforce split: json.splits)

lemma document_preimage_raises: "platform_raises pl \<Longrightarrow> only_raises reader_errors (document_preimage pl e)"
  unfolding document_preimage_def
  by (intro raising; assumption?) (simp_all add: reader_errors)

lemma reader_bad_hash_total: "platform_raises pl \<Longrightarrow> \<exists>r. reader_bad_hash pl i es = Inr r"
proof (induction es arbitrary: i)
  case (Cons e es)
  have "only_raises reader_errors (entry_hash_of pl e)"
    unfolding entry_hash_of_def using document_preimage_raises [OF Cons.prems] by (intro only_raises_bind) simp_all
  with Cons show ?case by (auto simp: only_raises_def split: sum.split)
qed simp

section \<open>A count that is no number\<close>

lemma collect_type_error:
  assumes "x \<in> set xs" and "f x = Inl TypeError" and "\<And>y. y \<in> set xs \<Longrightarrow> f y = Inl TypeError \<or> (\<exists>z. f y = Inr z)"
  shows "collect f xs = Inl TypeError"
  using assms
proof (induction xs)
  case (Cons y ys)
  show ?case
  proof (cases "f y = Inl TypeError")
    case False
    with Cons.prems(3) [of y] obtain z where z: "f y = Inr z" by auto
    with False Cons.prems(1,2) have "x \<in> set ys" by auto
    with Cons z show ?thesis by simp
  qed simp
qed simp

definition counted_or_null :: "document \<Rightarrow> bool" where
  "counted_or_null e \<longleftrightarrow> member (body_of e) ''count'' = JNull \<or> is_plain_int (member (body_of e) ''count'')"

lemma null_count_raises:
  assumes "e \<in> set es" and "entry_text e ''kind'' = ''gap''" and "member (body_of e) ''count'' = JNull"
    and "\<forall>d \<in> set es. entry_text d ''kind'' = ''gap'' \<longrightarrow> counted_or_null d"
  shows "reader_verdict pl es scope f lowered c n x y z gs = Inl TypeError"
proof -
  have "reader_gaps pl es = Inl TypeError"
    unfolding reader_gaps_def
  proof (rule collect_type_error [of e])
    show "e \<in> set (filter (\<lambda>e. entry_text e ''kind'' = ''gap'') es)" using assms by simp
    fix d assume "d \<in> set (filter (\<lambda>e. entry_text e ''kind'' = ''gap'') es)"
    with assms(4) have "counted_or_null d" by simp
    then show "bind_r (py_int pl (member (body_of d) ''count'')) (\<lambda>n. Inr \<lparr>dg_sequence = sequence_of d,
        dg_reason = py_str pl (member (body_of d) ''reason''), dg_count = n\<rparr>) = Inl TypeError \<or>
      (\<exists>z. bind_r (py_int pl (member (body_of d) ''count'')) (\<lambda>n. Inr \<lparr>dg_sequence = sequence_of d,
        dg_reason = py_str pl (member (body_of d) ''reason''), dg_count = n\<rparr>) = Inr z)"
      by (auto simp: counted_or_null_def is_plain_int_def py_int_def split: json.splits)
  qed (use assms in \<open>simp add: py_int_def\<close>)
  then show ?thesis by (simp add: reader_verdict_def)
qed

lemma verify_chain_type_error:
  assumes "platform_raises pl" and "is_scope scope" and "1 \<le> f" and "\<forall>n. t = Some n \<longrightarrow> f \<le> n"
    and "collect read_entry raw = Inr es" and "\<And>c n x y z gs. reader_verdict pl es scope f lowered c n x y z gs = Inl TypeError"
  shows "verify_chain pl raw scope f t lowered = Inl TypeError"
proof -
  obtain bad where bad: "reader_bad_hash pl 0 es = Inr bad" using reader_bad_hash_total [OF assms(1)] by blast
  have "verify_read pl es scope f t lowered = Inl TypeError"
    unfolding verify_read_def Let_def bad bind_r_simps assms(6)
    by (simp split: option.split hash_complaint.split prod.split)
  with assms show ?thesis
    by (auto simp: verify_chain_def split: option.split)
qed


text \<open>A bundle of one such entry.\<close>

definition null_gap :: document where
  "null_gap =
     [(''scope'', JStr ''default''), (''kind'', JStr ''gap''), (''recorded_at'', JStr ''2023-11-14T22:13:20Z''),
      (''connection_id'', JStr ''c1''), (''principal'', JObj [(''kind'', JStr ''service''), (''id'', JStr ''daemon'')]),
      (''body'', JObj [(''reason'', JStr ''dropped''), (''count'', JNull), (''first_at'', JStr ''x''), (''last_at'', JStr ''x''),
         (''kinds'', JObj [])]),
      (''sequence'', JInt 1), (''previous_hash'', JNull), (''entry_hash'', JStr (replicate 64 CHR ''0'')),
      (''preimage_version'', JStr PREIMAGE_VERSION)]"

definition null_bundle :: document where
  "null_bundle = [(''scope'', JStr ''default''), (''from_sequence'', JInt 1), (''to_sequence'', JInt 1),
     (''entries'', JArr [JObj null_gap]), (''verification'', JObj []), (''manifest_hash'', JStr ''x'')]"

definition strict_platform :: platform where
  "strict_platform = \<lparr>pl_reads = (\<lambda>_. Inl ValueError), pl_shows = (\<lambda>_. ''?''), pl_int = (\<lambda>_. Inl ValueError),
     pl_b64decode = (\<lambda>_. None), pl_loads = (\<lambda>_. None)\<rparr>"

lemma null_gap_reads: "read_entry (JObj null_gap) = Inr null_gap"
  by (simp add: read_entry_def null_gap_def Let_def body_of_def member_def object_of_def ENTRY_MEMBERS_def members_def
      plain_int_at_least_def sequence_of_def is_digest_text_def is_hex64_def list_all_iff is_digit_def some_text_def
      PREIMAGE_VERSION_def is_object_def is_text_def text_of_def READER_BODY_REQUIRED_def has_member_def in_tuple_def
      GAP_REASONS_def)


section \<open>A marker the reader does not know\<close>

lemma read_entry_raises: "read_entry v = Inl x \<Longrightarrow> x = InvalidBundle"
  by (auto simp: read_entry_def Let_def split: json.splits if_splits)

lemma collect_refuses:
  assumes "v \<in> set raw" and "read_entry v = Inl InvalidBundle"
  shows "collect read_entry raw = Inl InvalidBundle"
  using assms
proof (induction raw)
  case (Cons u raw)
  show ?case
  proof (cases "read_entry u")
    case (Inl x)
    with read_entry_raises [OF Inl] show ?thesis by simp
  next
    case (Inr d)
    with Cons have "v \<in> set raw" by auto
    with Cons Inr show ?thesis by simp
  qed
qed simp

text \<open>The published schema and the writer know three recovery markers, the reader two. A range that carries the third, the
  baseline, as the writer built it, is no range the offline verifier can read: it raises \<open>InvalidBundle\<close>, and an export with
  it is invalid as a whole.\<close>

lemma a_baseline_is_refused_offline:
  assumes "entry_post_init e = Inr ()" and "er_kind e = ''recovery''" and "member (er_body e) ''event'' = JStr ''baseline''"
    and "entry_to_document e = Inr d" and "JObj d \<in> set raw"
  shows "verify_chain pl raw s f t lowered = Inl InvalidBundle"
proof -
  have "text_of (member d ''kind'') = ''recovery''" "member d ''kind'' = JStr ''recovery''"
    "member (body_of d) ''event'' = JStr ''baseline''"
    using assms(2-4) by (auto simp: entry_to_document_def member_def body_of_def object_of_def text_of_def)
  then have "read_entry (JObj d) = Inl InvalidBundle"
    by (auto simp: read_entry_def Let_def in_tuple_def READER_RECOVERY_EVENTS_def)
  from collect_refuses [OF assms(5) this] show ?thesis by (simp add: verify_chain_def)
qed

definition baseline_record :: evidence_record where
  "baseline_record = example_record\<lparr>er_kind := ''recovery'', er_body :=
     [(''event'', JStr ''baseline''), (''store_id'', JStr ''s''), (''first_decision_position'', JInt 1),
      (''first_covered_sequence'', JInt 1), (''legacy_effects_without_authority'', JInt 0),
      (''established_at'', JStr ''2023-11-14T22:13:20Z''), (''recording_epoch'', JStr ''recovery:e1'')]\<rparr>"

lemma baseline_valid: "record_post_init (placed baseline_record n h d) = Inr ()"
  by (simp add: record_post_init_def placed_def baseline_record_def example_record_def ENTRY_KINDS_def BODY_MEMBERS_def
      BODY_REQUIRED_def members_def validate_body_def validate_recovery_def has_member_def member_def some_text_def
      RECOVERY_EVENTS_def RECOVERY_REQUIRED_def plain_int_at_least_def equals_one_def int_of_def)

lemma a_baseline_example:
  "\<exists>e d. place baseline_record 1 None = Inr e \<and> entry_to_document e = Inr d \<and>
     verify_chain strict_platform [JObj d] ''default'' 1 None [] = Inl InvalidBundle"
proof -
  have "er_recorded_at baseline_record = Aware 1700000000000000" by (simp add: baseline_record_def example_record_def)
  from placed_somewhere [OF this baseline_valid, of 1 None] obtain e where e: "place baseline_record 1 None = Inr e" by auto
  note f = place_fields [OF e] place_recomputes(6) [OF e]
  from f obtain d where d: "entry_to_document e = Inr d"
    by (auto simp: entry_to_document_def baseline_record_def example_record_def chain_instant_def)
  have "verify_chain strict_platform [JObj d] ''default'' 1 None [] = Inl InvalidBundle"
    by (rule a_baseline_is_refused_offline [OF _ _ _ d]) (use f in \<open>simp_all add: baseline_record_def member_def\<close>)
  with e d show ?thesis by blast
qed

end
