(* ===== verification/DecisionDocument.thy ===== *)
theory DecisionDocument
  imports Recipes Grants
begin

text \<open>
  A decision as the document the contract publishes (contract/decisions.py, \<open>Decision.to_document\<close> and
  \<open>Decision.from_document\<close>, with \<open>read_enum\<close> of contract/values.py). Members that are not defined are kept as \<open>extra\<close>.
\<close>

definition KNOWN_REASONS :: "reason list" where
  "KNOWN_REASONS = [POLICY_ALLOWS, POLICY_DENIES, POLICY_ABSENT, POLICY_REQUIRES_REVIEW, CAPABILITY_UNKNOWN,
     APPROVAL_GRANTED, APPROVAL_REJECTED]"

text \<open>\<open>read_enum(Reason, raw)\<close>; the \<open>repr\<close> of what is not a text is its \<open>str\<close>.\<close>

definition read_reason :: "platform \<Rightarrow> json \<Rightarrow> reason" where
  "read_reason pl v = (case v of
      JStr s \<Rightarrow> (case find (\<lambda>r. reason_value r = s) KNOWN_REASONS of Some r \<Rightarrow> r | None \<Rightarrow> Unknown_Reason s)
    | _ \<Rightarrow> Unknown_Reason (pl_shows pl v))"

definition DECISION_MEMBERS :: "string list" where
  "DECISION_MEMBERS = [''contract_generation'', ''authority'', ''decision_ref'', ''scope'', ''capability'', ''outcome'',
     ''reason'', ''policy_version'', ''approval_ref'', ''decided_at'', ''correlation'']"

definition text_or_none :: "json \<Rightarrow> string option" where
  "text_or_none v = (case v of JStr s \<Rightarrow> Some s | _ \<Rightarrow> None)"

definition decision_from_document :: "platform \<Rightarrow> document \<Rightarrow> decision result" where
  "decision_from_document pl doc =
     bind_r (item doc ''outcome'') (\<lambda>raw.
     case (case raw of JStr s \<Rightarrow> outcome_of s | _ \<Rightarrow> None) of
       None \<Rightarrow> Inl ValueError
     | Some oc \<Rightarrow>
         bind_r (item doc ''decision_ref'') (\<lambda>ref.
         bind_r (item doc ''scope'') (\<lambda>scope.
         bind_r (item doc ''capability'') (\<lambda>capability.
         bind_r (item doc ''reason'') (\<lambda>reason.
         bind_r (item doc ''policy_version'') (\<lambda>version.
         bind_r (item doc ''decided_at'') (\<lambda>decided_at.
         bind_r (item doc ''correlation'') (\<lambda>correlation.
         bind_r (bind_r (item doc ''contract_generation'') (py_int pl)) (\<lambda>generation.
           Inr \<lparr>de_ref = py_str pl ref, de_scope = py_str pl scope, de_capability = py_str pl capability, de_outcome = oc,
             de_reason = read_reason pl reason, de_policy_version = text_or_none version,
             de_approval_ref = text_or_none (member doc ''approval_ref''), de_decided_at = py_str pl decided_at,
             de_correlation = text_or_none correlation, de_contract_generation = generation,
             de_extra = filter (\<lambda>(k, _). k \<notin> set DECISION_MEMBERS) doc\<rparr>)))))))))"

definition decision_members :: "decision \<Rightarrow> document" where
  "decision_members d =
     [(''contract_generation'', JInt (de_contract_generation d)), (''authority'', JStr ''authoritative''),
      (''decision_ref'', JStr (de_ref d)), (''scope'', JStr (de_scope d)), (''capability'', JStr (de_capability d)),
      (''outcome'', JStr (outcome_value (de_outcome d))), (''reason'', JStr (reason_value (de_reason d))),
      (''policy_version'', opt_str (de_policy_version d)), (''approval_ref'', opt_str (de_approval_ref d)),
      (''decided_at'', JStr (de_decided_at d)), (''correlation'', opt_str (de_correlation d))]"

definition decision_to_document :: "decision \<Rightarrow> document" where
  "decision_to_document d = fold (\<lambda>(k, v). AList.update k v) (de_extra d) (decision_members d)"

section \<open>Reading back what was written\<close>

text \<open>What a read decision is like: a known reason is not kept as an unknown one, and the extra members are others.\<close>

definition decision_ok :: "decision \<Rightarrow> bool" where
  "decision_ok d \<longleftrightarrow> (case de_reason d of Unknown_Reason s \<Rightarrow> s \<notin> reason_value ` set KNOWN_REASONS | _ \<Rightarrow> True) \<and>
     well_keyed (de_extra d) \<and> fst ` set (de_extra d) \<inter> set DECISION_MEMBERS = {}"

lemma fold_update_fresh:
  "well_keyed (d @ e) \<Longrightarrow> fold (\<lambda>(k, v). AList.update k v) e d = d @ e"
proof (induction e arbitrary: d)
  case (Cons p e)
  obtain k v where p: "p = (k, v)" by (cases p)
  have "AList.update k v d = d @ [(k, v)]"
    using Cons.prems p by (induction d) auto
  with Cons.IH [of "d @ [(k, v)]"] Cons.prems p show ?case by simp
qed simp

lemma members_of_decision: "map fst (decision_members d) = DECISION_MEMBERS"
  by (simp add: decision_members_def DECISION_MEMBERS_def)

lemma member_name: "(k, v) \<in> set (decision_members d) \<Longrightarrow> k \<in> set DECISION_MEMBERS"
  using members_of_decision [of d] by (metis fst_conv image_eqI set_map)

lemma decision_document_eq: "decision_ok d \<Longrightarrow> decision_to_document d = decision_members d @ de_extra d"
  unfolding decision_to_document_def
  by (rule fold_update_fresh)
    (auto simp: members_of_decision decision_ok_def DECISION_MEMBERS_def simp flip: set_map)

lemma known_reason_read: "r \<in> set KNOWN_REASONS \<Longrightarrow> read_reason pl (JStr (reason_value r)) = r"
  by (auto simp: KNOWN_REASONS_def read_reason_def reason_value_def)

lemma reason_known: "r \<in> set KNOWN_REASONS \<or> (\<exists>s. r = Unknown_Reason s)"
  by (cases r) (auto simp: KNOWN_REASONS_def)

lemma reason_read_back: "decision_ok d \<Longrightarrow> read_reason pl (JStr (reason_value (de_reason d))) = de_reason d"
proof -
  assume ok: "decision_ok d"
  show ?thesis
  proof (cases "de_reason d \<in> set KNOWN_REASONS")
    case True
    then show ?thesis by (rule known_reason_read)
  next
    case False
    then obtain s where s: "de_reason d = Unknown_Reason s" using reason_known by blast
    then have "s \<notin> reason_value ` set KNOWN_REASONS" using ok by (simp add: decision_ok_def)
    then have "find (\<lambda>r. reason_value r = s) KNOWN_REASONS = None" by (auto simp: find_None_iff)
    then show ?thesis by (simp add: read_reason_def s reason_value_def)
  qed
qed

text \<open>Where every defined member has the value a decision writes, and the rest are the extra members, the decision is read.\<close>

lemma decision_read:
  assumes "decision_ok d" and "\<And>k v. (k, v) \<in> set (decision_members d) \<Longrightarrow> map_of doc k = Some v"
    and "filter (\<lambda>(k, _). k \<notin> set DECISION_MEMBERS) doc = extra"
  shows "decision_from_document pl doc = Inr (d\<lparr>de_extra := extra\<rparr>)"
proof -
  have plain: "text_or_none (opt_str x) = x" for x by (cases x) (simp_all add: text_or_none_def opt_str_def)
  have read: "item doc k = Inr v" "member doc k = v" if "(k, v) \<in> set (decision_members d)" for k v
    using assms(2) [OF that] by (simp_all add: item_def member_def)
  note all = read [unfolded decision_members_def, simplified]
  have "item doc ''outcome'' = Inr (JStr (outcome_value (de_outcome d)))"
    "item doc ''decision_ref'' = Inr (JStr (de_ref d))" "item doc ''scope'' = Inr (JStr (de_scope d))"
    "item doc ''capability'' = Inr (JStr (de_capability d))" "item doc ''reason'' = Inr (JStr (reason_value (de_reason d)))"
    "item doc ''policy_version'' = Inr (opt_str (de_policy_version d))"
    "item doc ''decided_at'' = Inr (JStr (de_decided_at d))" "item doc ''correlation'' = Inr (opt_str (de_correlation d))"
    "item doc ''contract_generation'' = Inr (JInt (de_contract_generation d))"
    "member doc ''approval_ref'' = opt_str (de_approval_ref d)"
    by (rule all, simp)+
  then show ?thesis
    using reason_read_back [OF assms(1)] by (simp add: decision_from_document_def plain py_str_def py_int_def assms(3))
qed

text \<open>C38: a decision survives its document. Writing a decision as the contract's document and reading it back gives
  the same decision, extra members and reasons of a later generation included.\<close>

theorem a_decision_reads_back:
  assumes "decision_ok d"
  shows "decision_from_document pl (decision_to_document d) = Inr d"
proof -
  have eq: "decision_to_document d = decision_members d @ de_extra d" by (rule decision_document_eq [OF assms])
  have keyed: "well_keyed (decision_members d)" by (simp add: members_of_decision DECISION_MEMBERS_def)
  have "map_of (decision_to_document d) k = Some v" if "(k, v) \<in> set (decision_members d)" for k v
    using that well_keyed_mem [OF keyed] by (simp add: eq map_add_Some_iff) 
  moreover have "filter (\<lambda>(k, _). k \<notin> set DECISION_MEMBERS) (decision_to_document d) = de_extra d"
  proof -
    have "filter (\<lambda>(k, _). k \<notin> set DECISION_MEMBERS) (decision_members d) = []"
      using member_name by (auto simp: filter_empty_conv)
    moreover have "filter (\<lambda>(k, _). k \<notin> set DECISION_MEMBERS) (de_extra d) = de_extra d"
      using assms by (auto simp: filter_id_conv decision_ok_def)
    ultimately show ?thesis by (simp add: eq)
  qed
  ultimately show ?thesis using decision_read [OF assms, of "decision_to_document d" "de_extra d" pl] by simp
qed

definition later_decision :: decision where
  "later_decision = \<lparr>de_ref = ''d1'', de_scope = ''default'', de_capability = ''c'', de_outcome = ALLOW,
     de_reason = Unknown_Reason ''quorum_reached'', de_policy_version = None, de_approval_ref = None,
     de_decided_at = ''2023-11-14T22:13:20Z'', de_correlation = None, de_contract_generation = 1,
     de_extra = [(''grant'', JNull)]\<rparr>"

lemma later_decision_ok: "decision_ok later_decision"
  by (simp add: decision_ok_def later_decision_def KNOWN_REASONS_def reason_value_def DECISION_MEMBERS_def)

theorem a_decision_reads_back_witness:
  "\<forall>pl. decision_from_document pl (decision_to_document later_decision) = Inr later_decision"
  using a_decision_reads_back [OF later_decision_ok] by blast

end
