(* ===== verification/JsonReader.thy ===== *)
theory JsonReader
  imports Canonical
begin

text \<open>
  A reader of canonical JSON. The program reads what it wrote with \<^verbatim>\<open>json.loads\<close>, a parameter of the model wherever it
  does; this function shows that the law the properties ask of that parameter can hold, and the witnesses compute with it.
\<close>

fun read_string :: "nat \<Rightarrow> string \<Rightarrow> (string \<times> string) option" where
  "read_string 0 s = None"
| "read_string (Suc n) s = (case s of
      [] \<Rightarrow> None
    | c # t \<Rightarrow>
        if c = CHR 0x22 then Some ([], t)
        else (case unescape s of
            None \<Rightarrow> None
          | Some (e, r) \<Rightarrow> map_option (\<lambda>(u, q). (e # u, q)) (read_string n r)))"

definition int_value :: "string \<Rightarrow> int" where
  "int_value s = (case s of [] \<Rightarrow> 0 | c # t \<Rightarrow> if c = CHR ''-'' then - int (undec t) else int (undec s))"

definition scalar_of :: "string \<Rightarrow> json option" where
  "scalar_of s =
     (if s = ''null'' then Some JNull else if s = ''true'' then Some (JBool True) else if s = ''false'' then Some (JBool False)
      else if s \<noteq> [] \<and> list_all (\<lambda>c. is_digit c \<or> c = CHR ''-'') s then Some (JInt (int_value s))
      else if float_text s then Some (JFloat s) else None)"

fun read_value :: "nat \<Rightarrow> string \<Rightarrow> (json \<times> string) option"
  and read_items :: "nat \<Rightarrow> string \<Rightarrow> (json list \<times> string) option"
  and read_members :: "nat \<Rightarrow> string \<Rightarrow> ((string \<times> json) list \<times> string) option" where
  "read_value 0 s = None"
| "read_value (Suc n) s =
     (if s = [] then None
      else if hd s = CHR 0x22 then map_option (\<lambda>(u, r). (JStr u, r)) (read_string (Suc n) (tl s))
      else if hd s = CHR ''['' then
        (if take 1 (tl s) = '']'' then Some (JArr [], drop 2 s) else map_option (\<lambda>(vs, r). (JArr vs, r)) (read_items n (tl s)))
      else if hd s = CHR ''{'' then
        (if take 1 (tl s) = ''}'' then Some (JObj [], drop 2 s) else map_option (\<lambda>(ms, r). (JObj ms, r)) (read_members n (tl s)))
      else map_option (\<lambda>v. (v, dropWhile (\<lambda>c. c \<notin> separators) s)) (scalar_of (takeWhile (\<lambda>c. c \<notin> separators) s)))"
| "read_items 0 s = None"
| "read_items (Suc n) s = (case read_value n s of
      None \<Rightarrow> None
    | Some (v, r) \<Rightarrow>
        if take 1 r = '','' then map_option (\<lambda>(vs, q). (v # vs, q)) (read_items n (drop 1 r))
        else if take 1 r = '']'' then Some ([v], drop 1 r) else None)"
| "read_members 0 s = None"
| "read_members (Suc n) s =
     (if take 1 s \<noteq> [CHR 0x22] then None
      else (case read_string n (tl s) of
          None \<Rightarrow> None
        | Some (k, q) \<Rightarrow>
            if take 1 q \<noteq> '':'' then None
            else (case read_value n (drop 1 q) of
                None \<Rightarrow> None
              | Some (v, r) \<Rightarrow>
                  if take 1 r = '','' then map_option (\<lambda>(ms, q). ((k, v) # ms, q)) (read_members n (drop 1 r))
                  else if take 1 r = ''}'' then Some ([(k, v)], drop 1 r) else None)))"

definition json_loads :: "string \<Rightarrow> json option" where
  "json_loads s = (case read_value (length s) s of Some (v, r) \<Rightarrow> if r = [] then Some v else None | None \<Rightarrow> None)"

section \<open>It reads what is written\<close>

lemma escape_length: "1 \<le> length (escape c)"
  using escape_nonempty [of c] by (cases "escape c") auto

lemma read_string_escaped:
  "length (concat (map escape s)) < n \<Longrightarrow> read_string n (concat (map escape s) @ CHR 0x22 # r) = Some (s, r)"
proof (induction s arbitrary: n)
  case Nil
  then show ?case by (cases n) auto
next
  case (Cons c s)
  then obtain m where n: "n = Suc m" by (cases n) auto
  have m: "length (concat (map escape s)) < m" using Cons.prems n escape_length [of c] by simp
  obtain e t where e: "escape c = e # t" using escape_nonempty [of c] by (cases "escape c") auto
  have "e \<noteq> CHR 0x22" using escape_hd [of c] e by auto
  have read: "unescape (escape c @ concat (map escape s) @ CHR 0x22 # r) = Some (c, concat (map escape s) @ CHR 0x22 # r)"
    by (rule unescape_escape)
  show ?case
    using read Cons.IH [OF m] \<open>e \<noteq> CHR 0x22\<close> by (simp add: n e)
qed

lemma int_value_text [simp]: "int_value (int_text n) = n"
proof (cases "n < 0")
  case False
  have "hd (dec (nat n)) \<noteq> CHR ''-''" using dec_digits [of "nat n"] dec_nonempty [of "nat n"]
    by (cases "dec (nat n)") (auto simp: is_digit_def)
  with False show ?thesis
    using undec_dec [of "nat n"] by (cases "dec (nat n)") (simp_all add: int_value_def int_text_def)
qed (simp add: int_value_def int_text_def)

lemma scalar_of_text:
  assumes "scalar v" and "json_ok v"
  shows "scalar_of (json_text v) = Some v"
proof (cases v)
  case (JInt n)
  have "int_text n \<noteq> ''null''" "int_text n \<noteq> ''true''" "int_text n \<noteq> ''false''" "int_text n \<noteq> []"
    using int_text_chars [of n] by (auto simp: is_digit_def int_text_def)
  then show ?thesis using JInt int_text_chars [of n] by (simp add: scalar_of_def)
next
  case (JFloat f)
  then have ok: "float_text f" using assms(2) by simp
  then have "f \<noteq> ''null''" "f \<noteq> ''true''" "f \<noteq> ''false''" "\<not> list_all (\<lambda>c. is_digit c \<or> c = CHR ''-'') f"
    by (auto simp: float_text_def is_digit_def list_ex_iff list_all_iff)
  with ok JFloat show ?thesis by (simp add: scalar_of_def)
qed (use assms in \<open>simp_all add: scalar_of_def\<close>)

lemma token_of: "set a \<inter> separators = {} \<Longrightarrow> closes r \<Longrightarrow>
   takeWhile (\<lambda>c. c \<notin> separators) (a @ r) = a \<and> dropWhile (\<lambda>c. c \<notin> separators) (a @ r) = r"
  by (cases r) (auto simp: takeWhile_append dropWhile_append closes_def)

lemma read_items_text:
  assumes "\<And>x q m. x \<in> set xs \<Longrightarrow> closes q \<Longrightarrow> length (json_text x) \<le> m \<Longrightarrow> read_value m (json_text x @ q) = Some (x, q)"
    and "xs \<noteq> []" and "length (joined (map json_text xs)) < n" and "\<And>x. x \<in> set xs \<Longrightarrow> json_text x \<noteq> []"
  shows "read_items n (joined (map json_text xs) @ CHR '']'' # r) = Some (xs, r)"
  using assms
proof (induction xs arbitrary: n)
  case (Cons x xs)
  then obtain m where n: "n = Suc m" by (cases n) auto
  show ?case
  proof (cases xs)
    case Nil
    have "read_value m (json_text x @ CHR '']'' # r) = Some (x, CHR '']'' # r)"
      using Cons.prems(3) Nil n by (intro Cons.prems(1)) (auto simp: closes_def separators_def)
    then show ?thesis by (simp add: n Nil)
  next
    case (Cons y ys)
    define rest where "rest = joined (map json_text xs) @ CHR '']'' # r"
    have laid: "joined (map json_text (x # xs)) @ CHR '']'' # r = json_text x @ CHR '','' # rest"
      using Cons by (simp add: rest_def)
    have size: "length (json_text x) \<le> m" "length (joined (map json_text xs)) < m"
      using Cons.prems(3,4) Cons n by (auto simp: Suc_le_eq)
    have "read_value m (json_text x @ CHR '','' # rest) = Some (x, CHR '','' # rest)"
      using size(1) by (intro Cons.prems(1)) (auto simp: closes_def separators_def)
    moreover have "read_items m rest = Some (xs, r)"
      unfolding rest_def by (rule Cons.IH) (use Cons.prems Cons size(2) in auto)
    ultimately show ?thesis unfolding laid by (simp add: n)
  qed
qed simp


definition member_text :: "string \<times> json \<Rightarrow> string" where
  "member_text p = quoted (fst p) @ '':'' @ json_text (snd p)"

lemma read_members_text:
  assumes "\<And>p q m. p \<in> set d \<Longrightarrow> closes q \<Longrightarrow> length (json_text (snd p)) \<le> m \<Longrightarrow>
      read_value m (json_text (snd p) @ q) = Some (snd p, q)"
    and "d \<noteq> []" and "length (joined (map member_text d)) < n"
  shows "read_members n (joined (map member_text d) @ CHR ''}'' # r) = Some (d, r)"
  using assms
proof (induction d arbitrary: n)
  case (Cons p d)
  then obtain m where n: "n = Suc m" by (cases n) auto
  obtain k v where p: "p = (k, v)" by (cases p)
  have key: "read_string m (concat (map escape k) @ CHR 0x22 # q) = Some (k, q)" if "length (quoted k) \<le> Suc m" for q
    using that by (intro read_string_escaped) (simp add: quoted_def)
  show ?case
  proof (cases d)
    case Nil
    have "length (quoted k) \<le> Suc m" "length (json_text v) \<le> m"
      using Cons.prems(3) Nil n p by (auto simp: member_text_def)
    moreover have "read_value m (json_text v @ CHR ''}'' # r) = Some (v, CHR ''}'' # r)"
      using Cons.prems(1) [of p "CHR ''}'' # r" m] p calculation(2) by (simp add: closes_def separators_def)
    ultimately show ?thesis by (simp add: n Nil p member_text_def quoted_def key)
  next
    case (Cons y ys)
    define rest where "rest = joined (map member_text d) @ CHR ''}'' # r"
    have laid: "joined (map member_text (p # d)) @ CHR ''}'' # r = quoted k @ CHR '':'' # json_text v @ CHR '','' # rest"
      using Cons p by (simp add: rest_def member_text_def)
    have "length (joined (map member_text (p # d))) = length (quoted k) + 2 + length (json_text v) + length (joined (map member_text d))"
      using Cons p by (simp add: member_text_def)
    then have size: "length (quoted k) \<le> Suc m" "length (json_text v) \<le> m" "length (joined (map member_text d)) < m"
      using Cons.prems(3) n by (auto simp: quoted_def)
    have "read_value m (json_text v @ CHR '','' # rest) = Some (v, CHR '','' # rest)"
      using Cons.prems(1) [of p "CHR '','' # rest" m] p size(2) by (simp add: closes_def separators_def)
    moreover have "read_members m rest = Some (d, r)"
      unfolding rest_def by (rule Cons.IH) (use Cons.prems Cons size(3) in auto)
    ultimately show ?thesis unfolding laid by (simp add: n p quoted_def key [OF size(1)])
  qed
qed simp

lemma read_value_text:
  "json_ok v \<Longrightarrow> closes r \<Longrightarrow> length (json_text v) \<le> n \<Longrightarrow> read_value n (json_text v @ r) = Some (v, r)"
proof (induction v arbitrary: n r)
  case (JStr s)
  then obtain m where n: "n = Suc m" by (cases n) (auto simp: quoted_def)
  have "read_string n (concat (map escape s) @ CHR 0x22 # r) = Some (s, r)"
    using JStr.prems(3) by (intro read_string_escaped) (simp add: quoted_def)
  then show ?case by (simp add: n quoted_def)
next
  case (JArr xs)
  then obtain m where n: "n = Suc m" by (cases n) auto
  show ?case
  proof (cases "xs = []")
    case False
    have ok: "json_ok x" if "x \<in> set xs" for x using that JArr.prems(1) by (auto simp: list_all_iff)
    have "read_items m (joined (map json_text xs) @ CHR '']'' # r) = Some (xs, r)"
      using JArr.prems(3) n False ok JArr.IH text_start by (intro read_items_text) auto
    moreover obtain x xs' where x: "xs = x # xs'" using False by (cases xs) auto
    have "take 1 (joined (map json_text xs) @ CHR '']'' # r) \<noteq> '']''"
      using text_start [OF ok [of x]] x by (cases "json_text x") (auto simp: joined_Cons separators_def)
    ultimately show ?thesis by (simp add: n)
  qed (simp add: n)
next
  case (JObj d)
  then obtain m where n: "n = Suc m" by (cases n) auto
  have object: "json_text (JObj d) = CHR ''{'' # joined (map member_text d) @ ''}''"
    by (simp add: member_text_def [abs_def] comp_def case_prod_unfold)
  have size: "length (joined (map member_text d)) < m" using JObj.prems(3) unfolding object n by simp
  show ?case
  proof (cases "d = []")
    case False
    have "read_members m (joined (map member_text d) @ CHR ''}'' # r) = Some (d, r)"
    proof (rule read_members_text)
      fix p q k assume p: "p \<in> set d" and q: "closes q" and k: "length (json_text (snd p)) \<le> k"
      have "json_ok (snd p)" using p JObj.prems(1) by (auto simp: list_all_iff)
      with JObj.IH [OF p _ this q k] show "read_value k (json_text (snd p) @ q) = Some (snd p, q)" by (simp add: snds.simps prod_eq_iff)
    qed (use size False in simp_all)
    moreover obtain p d' where "d = p # d'" using False by (cases d) auto
    then have "take 1 (joined (map member_text d) @ CHR ''}'' # r) \<noteq> ''}''"
      by (simp add: joined_Cons member_text_def quoted_def)
    ultimately show ?thesis unfolding object by (simp add: n)
  qed (simp add: n)
next
  case (JFloat f)
  note s = scalar_text [of "JFloat f"] scalar_of_text [of "JFloat f"]
  from JFloat s token_of [of f r] show ?case by (cases n) (auto simp: hd_append)
next
  case (JInt i)
  note s = scalar_text [of "JInt i"] scalar_of_text [of "JInt i"]
  from JInt s token_of [of "int_text i" r] show ?case by (cases n) (auto simp: hd_append)
next
  case (JBool b)
  note s = scalar_text [of "JBool b"] scalar_of_text [of "JBool b"]
  from JBool s token_of [of "json_text (JBool b)" r] show ?case by (cases n) (auto simp: hd_append simp del: json_text.simps)
next
  case JNull
  note s = scalar_text [of JNull] scalar_of_text [of JNull]
  from JNull s token_of [of "json_text JNull" r] show ?case by (cases n) (auto simp: hd_append simp del: json_text.simps)
qed

text \<open>The law the model asks of \<^verbatim>\<open>json.loads\<close>: a text the program wrote is read as the value it wrote.\<close>

definition reads_canonical :: "(string \<Rightarrow> json option) \<Rightarrow> bool" where
  "reads_canonical loads \<longleftrightarrow> (\<forall>v. json_ok v \<longrightarrow> loads (canonical_json v) = Some (sorted_json v))"

lemma json_loads_reads: "reads_canonical json_loads"
  using read_value_text [of "sorted_json _" "[]"]
  by (auto simp: reads_canonical_def json_loads_def canonical_json_def closes_def)

end
