(* ===== verification/DecisionFile.thy ===== *)
theory DecisionFile
  imports DecisionDocument JsonReader
begin

text \<open>
  The decision authority on disk (adapters/file/decision_store.py): one file of JSON lines for each scope, in bytes. A write
  takes a fault: how many of its bytes reach the file before the operating system raises, or none. What is in memory is
  the index of each scope, a projection of the file; a process that dies loses it and keeps the files. The reader of JSON
  is the parameter \<open>loads\<close>. \<open>hold_root\<close>, the lock file against a second process, is left out.
\<close>

definition STORAGE_VERSION :: int where
  "STORAGE_VERSION = 1"

definition LINE_BOUND :: int where
  "LINE_BOUND = 8388608"

abbreviation newline :: char where
  "newline \<equiv> CHR 0x0A"

type_synonym json_reader = "string \<Rightarrow> json option"

text \<open>A committed record as stored.\<close>

record envelope =
  ev_scope :: string
  ev_store_id :: string
  ev_position :: int
  ev_recording_epoch :: string
  ev_decision :: decision

text \<open>The index of one scope; why it is unusable is not kept, only that it is.\<close>

record scope_state =
  ss_store_id :: string
  ss_next_position :: int
  ss_offsets :: "(string, int) dict"
  ss_positions :: "(string, string \<times> int) dict"
  ss_unusable :: bool
  ss_fenced :: bool

record decision_store =
  ds_epoch :: string
  ds_files :: "(string, string) dict"
  ds_states :: "(string, scope_state) dict"
  ds_recovered :: "(string, int) dict"

definition decision_store :: "string \<Rightarrow> (string, string) dict \<Rightarrow> decision_store" where
  "decision_store epoch files = \<lparr>ds_epoch = epoch, ds_files = files, ds_states = [], ds_recovered = []\<rparr>"

section \<open>Lines\<close>

fun split_lines :: "string \<Rightarrow> string list" where
  "split_lines [] = [[]]"
| "split_lines (c # cs) =
     (if c = newline then [] # split_lines cs
      else (case split_lines cs of [] \<Rightarrow> [[c]] | l # ls \<Rightarrow> (c # l) # ls))"

definition tail_of :: "string \<Rightarrow> string" where
  "tail_of raw = rev (takeWhile (\<lambda>c. c \<noteq> newline) (rev raw))"

text \<open>\<open>_complete_lines\<close>: the lines an append finished, and the suffix one did not.\<close>

definition complete_lines :: "string \<Rightarrow> string list \<times> string" where
  "complete_lines raw =
     (let tail = tail_of raw; complete = take (length raw - length tail - 1) raw
      in (if complete = [] then [] else split_lines complete, tail))"

definition line_of :: "document \<Rightarrow> string" where
  "line_of d = canonical_json (JObj d) @ [newline]"

definition header_document :: "string \<Rightarrow> string \<Rightarrow> document" where
  "header_document scope store_id =
     [(''storage_version'', JInt STORAGE_VERSION),
      (''header'', JObj [(''scope'', JStr scope), (''store_id'', JStr store_id)])]"

definition envelope_document :: "envelope \<Rightarrow> document" where
  "envelope_document e =
     [(''storage_version'', JInt STORAGE_VERSION), (''scope'', JStr (ev_scope e)), (''store_id'', JStr (ev_store_id e)),
      (''position'', JInt (ev_position e)), (''recording_epoch'', JStr (ev_recording_epoch e)),
      (''decision'', JObj (decision_to_document (ev_decision e)))]"

text \<open>\<open>document.get("storage_version") != STORAGE_VERSION\<close>.\<close>

definition this_version :: "document \<Rightarrow> bool" where
  "this_version d \<longleftrightarrow> equals_one (member d ''storage_version'')"

definition read_header :: "json \<Rightarrow> string \<Rightarrow> string result" where
  "read_header v scope = (case v of
      JObj d \<Rightarrow>
        if \<not> this_version d then Inl ValueError
        else (case member d ''header'' of
            JObj h \<Rightarrow>
              if member h ''scope'' \<noteq> JStr scope then Inl ValueError
              else (case member h ''store_id'' of
                  JStr s \<Rightarrow> if s = [] then Inl ValueError else Inr s
                | _ \<Rightarrow> Inl ValueError)
          | _ \<Rightarrow> Inl ValueError)
    | _ \<Rightarrow> Inl ValueError)"

definition read_envelope :: "platform \<Rightarrow> json \<Rightarrow> string \<Rightarrow> envelope result" where
  "read_envelope pl v scope = (case v of
      JObj d \<Rightarrow>
        if \<not> this_version d then Inl ValueError
        else if member d ''scope'' \<noteq> JStr scope then Inl ValueError
        else if \<not> plain_int_at_least 1 (member d ''position'') then Inl ValueError
        else if \<not> some_text (member d ''store_id'') \<or> \<not> some_text (member d ''recording_epoch'') then Inl ValueError
        else (case member d ''decision'' of
            JObj decision \<Rightarrow> bind_r (decision_from_document pl decision) (\<lambda>read.
              if de_scope read \<noteq> scope then Inl ValueError
              else Inr \<lparr>ev_scope = scope, ev_store_id = text_of (member d ''store_id''),
                ev_position = (case member d ''position'' of JInt n \<Rightarrow> n | _ \<Rightarrow> 0),
                ev_recording_epoch = text_of (member d ''recording_epoch''), ev_decision = read\<rparr>)
          | _ \<Rightarrow> Inl ValueError)
    | _ \<Rightarrow> Inl ValueError)"

definition loaded :: "json_reader \<Rightarrow> string \<Rightarrow> json result" where
  "loaded loads line = (case loads line of None \<Rightarrow> Inl ValueError | Some v \<Rightarrow> Inr v)"

section \<open>The index\<close>

text \<open>What \<open>_rebuild\<close> has read so far: the store, the index and the offset of the next line.\<close>

record rebuilding =
  rb_store_id :: "string option"
  rb_next_position :: int
  rb_offsets :: "(string, int) dict"
  rb_positions :: "(string, string \<times> int) dict"
  rb_offset :: int

definition rebuild_line :: "json_reader \<Rightarrow> platform \<Rightarrow> string \<Rightarrow> string \<Rightarrow> rebuilding \<Rightarrow> rebuilding result" where
  "rebuild_line loads pl scope line rb =
     bind_r (loaded loads line) (\<lambda>document.
       case rb_store_id rb of
         None \<Rightarrow> bind_r (read_header document scope) (\<lambda>store_id.
           Inr (rb\<lparr>rb_store_id := Some store_id, rb_offset := rb_offset rb + int (length line) + 1\<rparr>))
       | Some store_id \<Rightarrow> bind_r (read_envelope pl document scope) (\<lambda>e.
           if ev_store_id e \<noteq> store_id then Inl ValueError
           else if ev_position e \<noteq> rb_next_position rb then Inl ValueError
           else if map_of (rb_offsets rb) (de_ref (ev_decision e)) \<noteq> None then Inl ValueError
           else Inr (rb\<lparr>rb_offsets := AList.update (de_ref (ev_decision e)) (rb_offset rb) (rb_offsets rb),
                  rb_positions := AList.update (de_ref (ev_decision e)) (store_id, ev_position e) (rb_positions rb),
                  rb_next_position := ev_position e + 1, rb_offset := rb_offset rb + int (length line) + 1\<rparr>)))"

text \<open>The loop: it stops at the first line that raises one of the four classes it catches.\<close>

fun rebuild_lines ::
  "json_reader \<Rightarrow> platform \<Rightarrow> string \<Rightarrow> string list \<Rightarrow> rebuilding \<Rightarrow> (rebuilding \<times> bool) result" where
  "rebuild_lines loads pl scope [] rb = Inr (rb, False)"
| "rebuild_lines loads pl scope (line # lines) rb = (case rebuild_line loads pl scope line rb of
      Inr rb' \<Rightarrow> rebuild_lines loads pl scope lines rb'
    | Inl e \<Rightarrow> if e \<in> {ValueError, KeyError, TypeError, AssertionError} then Inr (rb, True) else Inl e)"

definition nothing_read :: rebuilding where
  "nothing_read = \<lparr>rb_store_id = None, rb_next_position = 1, rb_offsets = [], rb_positions = [], rb_offset = 0\<rparr>"

text \<open>\<open>_rebuild\<close>; \<open>fresh\<close> is the store identifier a scope without a header would get.\<close>

definition rebuild :: "json_reader \<Rightarrow> platform \<Rightarrow> string \<Rightarrow> string \<Rightarrow> string \<Rightarrow> scope_state result" where
  "rebuild loads pl scope fresh raw =
     (case complete_lines raw of (lines, tail) \<Rightarrow>
       bind_r (rebuild_lines loads pl scope lines nothing_read) (\<lambda>(rb, unusable).
         let headless = (rb_store_id rb = None \<and> \<not> unusable) in Inr
         \<lparr>ss_store_id = (case rb_store_id rb of Some s \<Rightarrow> s | None \<Rightarrow> if headless \<and> lines = [] then fresh else []),
          ss_next_position = rb_next_position rb, ss_offsets = rb_offsets rb, ss_positions = rb_positions rb,
          ss_unusable = (unusable \<or> headless \<and> lines \<noteq> []), ss_fenced = (tail \<noteq> [])\<rparr>))"

definition set_state :: "string \<Rightarrow> scope_state \<Rightarrow> decision_store \<Rightarrow> decision_store" where
  "set_state scope st s = s\<lparr>ds_states := AList.update scope st (ds_states s)\<rparr>"

definition set_file :: "string \<Rightarrow> string \<Rightarrow> decision_store \<Rightarrow> decision_store" where
  "set_file scope raw s = s\<lparr>ds_files := AList.update scope raw (ds_files s)\<rparr>"

definition file_bytes :: "decision_store \<Rightarrow> string \<Rightarrow> string" where
  "file_bytes s scope = (case map_of (ds_files s) scope of None \<Rightarrow> [] | Some raw \<Rightarrow> raw)"

text \<open>\<open>_state_locked\<close>.\<close>

definition state_locked ::
  "json_reader \<Rightarrow> platform \<Rightarrow> string \<Rightarrow> string \<Rightarrow> bool \<Rightarrow> (decision_store, scope_state) op" where
  "state_locked loads pl fresh scope rescan s =
     (case (map_of (ds_states s) scope, rescan) of
        (Some st, False) \<Rightarrow> (s, Inr st)
      | _ \<Rightarrow> (case map_of (ds_files s) scope of
            None \<Rightarrow>
              let st = \<lparr>ss_store_id = fresh, ss_next_position = 1, ss_offsets = [], ss_positions = [], ss_unusable = False,
                        ss_fenced = False\<rparr>
              in (set_state scope st s, Inr st)
          | Some raw \<Rightarrow> (case rebuild loads pl scope fresh raw of
              Inl e \<Rightarrow> (s, Inl e)
            | Inr st \<Rightarrow> (set_state scope st s, Inr st))))"

text \<open>\<open>_recover_tail\<close>: the torn suffix is dropped, looked for in a window of the bound.\<close>

definition unfence :: "string \<Rightarrow> decision_store \<Rightarrow> decision_store" where
  "unfence scope s = (case map_of (ds_states s) scope of
      None \<Rightarrow> s | Some st \<Rightarrow> set_state scope (st\<lparr>ss_fenced := False\<rparr>) s)"

definition kept_bytes :: "string \<Rightarrow> nat" where
  "kept_bytes raw =
     (let window = min (length raw) (nat LINE_BOUND + 1); tail = drop (length raw - window) raw
      in if newline \<in> set tail then length raw - length (tail_of tail) else 0)"

definition recover_tail :: "string \<Rightarrow> decision_store \<Rightarrow> decision_store \<times> int" where
  "recover_tail scope s =
     (let raw = file_bytes s scope
      in if raw = [] \<or> last raw = newline then (unfence scope s, 0)
         else let keep = kept_bytes raw; dropped = int (length raw) - int keep;
                  s = set_file scope (take keep raw) s;
                  so_far = (case map_of (ds_recovered s) scope of None \<Rightarrow> 0 | Some n \<Rightarrow> n)
              in (unfence scope (s\<lparr>ds_recovered := AList.update scope (so_far + dropped) (ds_recovered s)\<rparr>), dropped))"

section \<open>The authority\<close>

text \<open>A write to the end of a file: all of it, or the bytes before a fault.\<close>

type_synonym fault = "nat option"

definition write_bytes :: "string \<Rightarrow> fault \<Rightarrow> string \<Rightarrow> decision_store \<Rightarrow> decision_store" where
  "write_bytes scope fault payload s =
     set_file scope (file_bytes s scope @ (case fault of None \<Rightarrow> payload | Some n \<Rightarrow> take n payload)) s"

text \<open>What goes wrong in one append: the write of the header, of the envelope, the sync of the directory.\<close>

record faults =
  ft_header :: fault
  ft_payload :: fault
  ft_directory :: bool

text \<open>The part of \<open>append\<close> with the file open: the header if the file is empty, then the envelope.\<close>

definition write_envelope :: "faults \<Rightarrow> bool \<Rightarrow> scope_state \<Rightarrow> decision \<Rightarrow> (decision_store, string \<times> int) op" where
  "write_envelope ft created st d s =
     (let scope = de_scope d; header = line_of (header_document scope (ss_store_id st));
          empty = (file_bytes s scope = []);
          s = (if empty then write_bytes scope (ft_header ft) header s else s)
      in if empty \<and> ft_header ft \<noteq> None then (s, Inl OSError)
         else let payload = line_of (envelope_document \<lparr>ev_scope = scope, ev_store_id = ss_store_id st,
                    ev_position = ss_next_position st, ev_recording_epoch = ds_epoch s, ev_decision = d\<rparr>)
              in if LINE_BOUND < int (length payload) then (s, Inl DecisionStoreUnavailable)
                 else let offset = int (length (file_bytes s scope)); s = write_bytes scope (ft_payload ft) payload s
                      in if ft_payload ft \<noteq> None
                         then (set_state scope (st\<lparr>ss_fenced := True\<rparr>) s, Inl DecisionAppendIndeterminate)
                         else if created \<and> ft_directory ft then (s, Inl OSError)
                         else (set_state scope (st\<lparr>ss_offsets := AList.update (de_ref d) offset (ss_offsets st),
                                  ss_positions := AList.update (de_ref d) (ss_store_id st, ss_next_position st) (ss_positions st),
                                  ss_next_position := ss_next_position st + 1\<rparr>) s,
                               Inr (ss_store_id st, ss_next_position st)))"

text \<open>\<open>fresh\<close> and \<open>fresh'\<close> are the identifiers a scope without one would get, at the first reading and at the second.\<close>

definition append_decision ::
  "json_reader \<Rightarrow> platform \<Rightarrow> string \<Rightarrow> string \<Rightarrow> faults \<Rightarrow> decision \<Rightarrow> (decision_store, string \<times> int) op" where
  "append_decision loads pl fresh fresh' ft d s =
     (let scope = de_scope d
      in if \<not> is_scope scope then (s, Inl ValueError)
         else (case state_locked loads pl fresh scope False s of
             (s, Inl e) \<Rightarrow> (s, Inl e)
           | (s, Inr st) \<Rightarrow>
               if ss_unusable st then (s, Inl DecisionStoreUnavailable)
               else if map_of (ss_offsets st) (de_ref d) \<noteq> None then (s, Inl DecisionAlreadyExists)
               else let created = (map_of (ds_files s) scope = None); s = (if created then set_file scope [] s else s)
                    in if \<not> ss_fenced st then write_envelope ft created st d s
                       else (case state_locked loads pl fresh' scope True (fst (recover_tail scope s)) of
                           (s, Inl e) \<Rightarrow> (s, Inl e)
                         | (s, Inr st) \<Rightarrow>
                             if map_of (ss_offsets st) (de_ref d) \<noteq> None then (s, Inl DecisionAlreadyExists)
                             else write_envelope ft created st d s)))"

text \<open>\<open>scan\<close>: every committed envelope, from the file itself.\<close>

definition scan :: "json_reader \<Rightarrow> platform \<Rightarrow> string \<Rightarrow> string \<Rightarrow> (decision_store, envelope list) op" where
  "scan loads pl fresh scope s =
     (if \<not> is_scope scope then (s, Inl ValueError)
      else if map_of (ds_files s) scope = None then (s, Inr [])
      else (case state_locked loads pl fresh scope False s of
          (s, Inl e) \<Rightarrow> (s, Inl e)
        | (s, Inr st) \<Rightarrow>
            if ss_unusable st then (s, Inl DecisionStoreUnavailable)
            else (s, collect (\<lambda>line. bind_r (loaded loads line) (\<lambda>v. read_envelope pl v scope))
              (tl (fst (complete_lines (file_bytes s scope)))))))"

text \<open>\<open>get\<close>: the line at the offset the index names, to its newline.\<close>

definition line_at :: "string \<Rightarrow> nat \<Rightarrow> string" where
  "line_at raw offset = takeWhile (\<lambda>c. c \<noteq> newline) (drop offset raw)"

definition get_decision ::
  "json_reader \<Rightarrow> platform \<Rightarrow> string \<Rightarrow> string \<Rightarrow> string \<Rightarrow> (decision_store, decision option) op" where
  "get_decision loads pl fresh scope ref s =
     (if scope = [] then (s, Inl ScopeRequired)
      else if \<not> is_scope scope then (s, Inl ValueError)
      else if map_of (ds_files s) scope = None then (s, Inr None)
      else (case state_locked loads pl fresh scope False s of
          (s, Inl e) \<Rightarrow> (s, Inl e)
        | (s, Inr st) \<Rightarrow>
            if ss_unusable st then (s, Inl DecisionStoreUnavailable)
            else (case map_of (ss_offsets st) ref of
                None \<Rightarrow> (s, Inr None)
              | Some offset \<Rightarrow>
                  (case bind_r (loaded loads (line_at (file_bytes s scope) (nat offset))) (\<lambda>v. read_envelope pl v scope) of
                     Inr e \<Rightarrow> (s, Inr (Some (ev_decision e)))
                   | Inl e \<Rightarrow>
                       if e \<in> {ValueError, KeyError, TypeError}
                       then (set_state scope (st\<lparr>ss_unusable := True\<rparr>) s, Inl DecisionStoreUnavailable)
                       else (s, Inl e)))))"

definition position_of ::
  "json_reader \<Rightarrow> platform \<Rightarrow> string \<Rightarrow> string \<Rightarrow> string \<Rightarrow> (decision_store, (string \<times> int) option) op" where
  "position_of loads pl fresh scope ref s =
     (if scope = [] then (s, Inl ScopeRequired)
      else if \<not> is_scope scope then (s, Inl ValueError)
      else if map_of (ds_files s) scope = None then (s, Inr None)
      else (case state_locked loads pl fresh scope False s of
          (s, Inl e) \<Rightarrow> (s, Inl e)
        | (s, Inr st) \<Rightarrow>
            if ss_unusable st then (s, Inl DecisionStoreUnavailable) else (s, Inr (map_of (ss_positions st) ref))))"

definition store_id_of :: "json_reader \<Rightarrow> platform \<Rightarrow> string \<Rightarrow> string \<Rightarrow> (decision_store, string option) op" where
  "store_id_of loads pl fresh scope s =
     (if \<not> is_scope scope then (s, Inl ValueError)
      else if map_of (ds_files s) scope = None then (s, Inr None)
      else (case state_locked loads pl fresh scope False s of
          (s, Inl e) \<Rightarrow> (s, Inl e)
        | (s, Inr st) \<Rightarrow> (s, Inr (if ss_store_id st = [] then None else Some (ss_store_id st)))))"

text \<open>\<open>scopes_present\<close>; a scope with a file is the stem of its name.\<close>

definition scopes_present :: "decision_store \<Rightarrow> string set" where
  "scopes_present s = set (filter is_scope (map fst (ds_files s)))"

text \<open>\<open>recover\<close>: the torn suffix now, and how many bytes were dropped.\<close>

definition recover_decisions :: "json_reader \<Rightarrow> platform \<Rightarrow> string \<Rightarrow> string \<Rightarrow> (decision_store, int) op" where
  "recover_decisions loads pl fresh scope s =
     (if \<not> is_scope scope then (s, Inl ValueError)
      else if map_of (ds_files s) scope = None then (s, Inr 0)
      else (case recover_tail scope s of (s, dropped) \<Rightarrow>
          (case state_locked loads pl fresh scope True s of
             (s, Inl e) \<Rightarrow> (s, Inl e)
           | (s, Inr _) \<Rightarrow> (s, Inr dropped))))"

text \<open>The process dies: the files stay.\<close>

definition restarted :: "string \<Rightarrow> decision_store \<Rightarrow> decision_store" where
  "restarted epoch s = decision_store epoch (ds_files s)"

end
