(* ===== verification/DecisionFileLines.thy ===== *)
theory DecisionFileLines
  imports DecisionFile
begin

text \<open>
  What a decision file that no fault has touched says: its lines, the documents in them, and the index built from them.
\<close>

section \<open>Lines\<close>

lemma split_no_newline: "newline \<notin> set l \<Longrightarrow> split_lines l = [l]"
  by (induction l) auto

lemma split_line: "newline \<notin> set l \<Longrightarrow> split_lines (l @ newline # r) = l # split_lines r"
  by (induction l) auto

lemma split_joined:
  "\<forall>l \<in> set ls. newline \<notin> set l \<Longrightarrow> newline \<notin> set l \<Longrightarrow> split_lines (concat (map (\<lambda>l. l @ [newline]) ls) @ l) = ls @ [l]"
  by (induction ls) (auto simp: split_no_newline split_line)

lemma tail_of_append:
  assumes "newline \<notin> set t"
  shows "tail_of (x @ newline # t) = t"
proof -
  have "takeWhile (\<lambda>c. c \<noteq> newline) (rev t @ newline # rev x) = rev t @ takeWhile (\<lambda>c. c \<noteq> newline) (newline # rev x)"
    using assms by (intro takeWhile_append2) auto
  then show ?thesis by (simp add: tail_of_def)
qed

lemma tail_of_whole:
  assumes "newline \<notin> set t"
  shows "tail_of t = t"
proof -
  have "takeWhile (\<lambda>c. c \<noteq> newline) (rev t @ []) = rev t @ takeWhile (\<lambda>c. c \<noteq> newline) []"
    using assms by (intro takeWhile_append2) auto
  then show ?thesis by (simp only: tail_of_def append_Nil2 takeWhile.simps rev_rev_ident)
qed

definition joined_lines :: "string list \<Rightarrow> string" where
  "joined_lines ls = concat (map (\<lambda>l. l @ [newline]) ls)"

lemma joined_lines_snoc: "joined_lines (ls @ [l]) = joined_lines ls @ l @ [newline]"
  by (simp add: joined_lines_def)

lemma complete_lines_torn: "newline \<notin> set t \<Longrightarrow> complete_lines t = ([], t)"
  by (simp add: complete_lines_def tail_of_whole)

lemma complete_lines_joined:
  assumes "\<forall>l \<in> set ls. newline \<notin> set l \<and> l \<noteq> []" and "newline \<notin> set t"
  shows "complete_lines (joined_lines ls @ t) = (ls, t)"
proof (cases ls rule: rev_cases)
  case Nil
  then show ?thesis using complete_lines_torn [OF assms(2)] by (simp add: joined_lines_def)
next
  case (snoc ls' l)
  define front where "front = concat (map (\<lambda>l. l @ [newline]) ls') @ l"
  have raw: "joined_lines ls @ t = front @ newline # t" by (simp add: snoc joined_lines_def front_def)
  have front: "front \<noteq> []" "split_lines front = ls"
    using assms(1) snoc split_joined [of ls' l] by (auto simp: front_def)
  have "take (length (front @ newline # t) - length t - 1) (front @ newline # t) = front" by simp
  then show ?thesis
    using front tail_of_append [OF assms(2), of front] by (simp add: complete_lines_def raw Let_def)
qed

lemma escape_no_newline: "newline \<notin> set (escape c)"
proof -
  have "of_char c < (256 :: nat)" by simp
  then have hex: "of_char c div 16 < (16 :: nat)" "of_char c mod 16 < (16 :: nat)" by linarith+
  have digit: "of_char (hex_digit n) \<noteq> (10 :: nat)" if "n < 16" for n
    using that by (auto simp: hex_digit_def of_char_of)
  have "of_char d \<noteq> (10 :: nat)" if "d \<in> set (escape c)" for d
    using that hex digit by (auto simp: escape_def Let_def of_char_of split: if_splits)
  then show ?thesis by fastforce
qed

lemma quoted_no_newline: "newline \<notin> set (quoted s)"
  using escape_no_newline by (auto simp: quoted_def)

lemma joined_set: "set (joined xs) \<subseteq> insert (CHR '','') (\<Union> (set ` set xs))"
  by (induction xs rule: joined.induct) auto

lemma json_text_no_newline: "json_ok v \<Longrightarrow> newline \<notin> set (json_text v)"
proof (induction v)
  case (JInt n)
  show ?case using int_text_chars [of n] by (auto simp: list_all_iff is_digit_def)
next
  case (JFloat f)
  then show ?case by (simp add: float_text_def)
next
  case (JStr s)
  show ?case by (simp add: quoted_no_newline)
next
  case (JArr xs)
  then have "newline \<notin> set (joined (map json_text xs))"
    using joined_set [of "map json_text xs"] by (auto simp: list_all_iff)
  then show ?case by simp
next
  case (JObj d)
  have "newline \<notin> set (quoted k @ '':'' @ json_text v)" if "(k, v) \<in> set d" for k v
  proof -
    have "json_ok v" using JObj.prems that by (auto simp: list_all_iff)
    with JObj.IH [OF that, of v] show ?thesis by (simp add: quoted_no_newline snds.simps)
  qed
  then have "newline \<notin> set (joined (map (\<lambda>(k, s). quoted k @ '':'' @ s) (map (map_prod id json_text) d)))"
    using joined_set [of "map (\<lambda>(k, s). quoted k @ '':'' @ s) (map (map_prod id json_text) d)"] by fastforce
  then show ?case by simp
qed simp_all

lemma canonical_no_newline: "json_ok v \<Longrightarrow> newline \<notin> set (canonical_json v)"
  by (simp add: canonical_json_def json_text_no_newline)

lemma canonical_nonempty: "json_ok v \<Longrightarrow> canonical_json v \<noteq> []"
  using text_start [of "sorted_json v"] by (simp add: canonical_json_def)

section \<open>Documents\<close>

lemma well_keyed_sorted: "well_keyed d \<Longrightarrow> well_keyed (sort_key fst d)"
proof -
  assume "well_keyed d"
  moreover have "mset (map fst (sort_key fst d)) = mset (map fst d)" by simp
  ultimately show ?thesis by (metis mset_eq_imp_distinct_iff)
qed

lemma map_of_sorted: "well_keyed d \<Longrightarrow> map_of (sort_key fst d) k = map_of d k"
  using well_keyed_sorted [of d] well_keyed_mem [of d k] well_keyed_mem [of "sort_key fst d" k]
  by (metis not_None_eq set_sort)

lemma member_sorted:
  assumes "well_keyed d"
  shows "map_of (sort_key fst (map (map_prod id sorted_json) d)) k = map_option sorted_json (map_of d k)"
proof -
  have "well_keyed (map (map_prod id sorted_json) d)" using assms by (simp add: comp_def)
  moreover have "map_of (map (map_prod id sorted_json) d) k = map_option sorted_json (map_of d k)" by (induction d) auto
  ultimately show ?thesis by (simp add: map_of_sorted)
qed

text \<open>What a decision comes back as: its extra members are in the order of the canonical text.\<close>

definition normal_extra :: "document \<Rightarrow> document" where
  "normal_extra d = sort_key fst (map (map_prod id sorted_json) d)"

definition normal_decision :: "decision \<Rightarrow> decision" where
  "normal_decision d = d\<lparr>de_extra := normal_extra (de_extra d)\<rparr>"

lemma normal_fields [simp]: "de_ref (normal_decision d) = de_ref d" "de_scope (normal_decision d) = de_scope d"
  by (simp_all add: normal_decision_def)

definition storable :: "decision \<Rightarrow> bool" where
  "storable d \<longleftrightarrow> decision_ok d \<and> json_ok (JObj (de_extra d))"

lemma sorted_scalars: "(k, v) \<in> set (decision_members d) \<Longrightarrow> sorted_json v = v \<and> json_ok v"
  by (auto simp: decision_members_def opt_str_def split: option.splits)

lemma decision_keyed:
  assumes "decision_ok d"
  shows "well_keyed (decision_members d)" "well_keyed (decision_to_document d)"
proof -
  show "well_keyed (decision_members d)" by (simp add: members_of_decision DECISION_MEMBERS_def)
  with assms show "well_keyed (decision_to_document d)"
    by (simp add: decision_document_eq decision_ok_def Int_commute flip: members_of_decision [of d])
qed

lemma decision_json_ok: "storable d \<Longrightarrow> json_ok (JObj (decision_to_document d))"
  using sorted_scalars by (fastforce simp: storable_def decision_document_eq list_all_iff)

lemma decision_reads_normal:
  assumes "decision_ok d"
  shows "decision_from_document pl (normal_extra (decision_to_document d)) = Inr (normal_decision d)"
  unfolding normal_decision_def
proof (rule decision_read [OF assms])
  note keyed = decision_keyed [OF assms] and eq = decision_document_eq [OF assms]
  show "map_of (normal_extra (decision_to_document d)) k = Some v" if "(k, v) \<in> set (decision_members d)" for k v
  proof -
    have "(k, v) \<in> set (decision_to_document d)" using that by (simp add: eq)
    then have "map_of (decision_to_document d) k = Some v" using well_keyed_mem [OF keyed(2)] by blast
    then show ?thesis using sorted_scalars [OF that] by (simp add: normal_extra_def member_sorted [OF keyed(2)])
  qed
  have "filter (\<lambda>(k, _). k \<notin> set DECISION_MEMBERS) (map (map_prod id sorted_json) (decision_members d)) = []"
    using member_name [of _ _ d] by (auto simp: filter_empty_conv)
  moreover have "filter (\<lambda>(k, _). k \<notin> set DECISION_MEMBERS) (map (map_prod id sorted_json) (de_extra d)) =
      map (map_prod id sorted_json) (de_extra d)"
    using assms unfolding filter_id_conv decision_ok_def by (auto simp: disjoint_iff image_iff)
  ultimately show "filter (\<lambda>(k, _). k \<notin> set DECISION_MEMBERS) (normal_extra (decision_to_document d)) = normal_extra (de_extra d)"
    by (simp add: normal_extra_def filter_sort eq)
qed

section \<open>Lines of a decision file\<close>

text \<open>An envelope as an append writes it.\<close>

definition envelope_ok :: "string \<Rightarrow> string \<Rightarrow> envelope \<Rightarrow> bool" where
  "envelope_ok scope sid e \<longleftrightarrow> ev_scope e = scope \<and> ev_store_id e = sid \<and> sid \<noteq> [] \<and> 1 \<le> ev_position e \<and>
     ev_recording_epoch e \<noteq> [] \<and> de_scope (ev_decision e) = scope \<and> storable (ev_decision e)"

lemma envelope_json_ok: "storable (ev_decision e) \<Longrightarrow> json_ok (JObj (envelope_document e))"
  using decision_json_ok [of "ev_decision e"] by (simp add: envelope_document_def)

lemma header_json_ok: "json_ok (JObj (header_document scope sid))"
  by (simp add: header_document_def)

lemma envelope_reads:
  assumes "envelope_ok scope sid e"
  shows "read_envelope pl (sorted_json (JObj (envelope_document e))) scope = Inr (e\<lparr>ev_decision := normal_decision (ev_decision e)\<rparr>)"
proof -
  define doc where "doc = sort_key fst (map (map_prod id sorted_json) (envelope_document e))"
  have "well_keyed (envelope_document e)" by (simp add: envelope_document_def)
  then have "member doc ''storage_version'' = JInt 1" "member doc ''scope'' = JStr scope" "member doc ''store_id'' = JStr sid"
    "member doc ''position'' = JInt (ev_position e)" "member doc ''recording_epoch'' = JStr (ev_recording_epoch e)"
    "member doc ''decision'' = JObj (normal_extra (decision_to_document (ev_decision e)))"
    using assms by (simp_all add: doc_def member_def member_sorted normal_extra_def envelope_document_def STORAGE_VERSION_def envelope_ok_def)
  moreover have "sorted_json (JObj (envelope_document e)) = JObj doc" by (simp add: doc_def)
  moreover have "decision_from_document pl (normal_extra (decision_to_document (ev_decision e))) = Inr (normal_decision (ev_decision e))"
    using assms decision_reads_normal by (simp add: envelope_ok_def storable_def)
  ultimately show ?thesis
    using assms by (simp add: read_envelope_def this_version_def equals_one_def plain_int_at_least_def some_text_def text_of_def envelope_ok_def)
qed

lemma header_reads: "sid \<noteq> [] \<Longrightarrow> read_header (sorted_json (JObj (header_document scope sid))) scope = Inr sid"
proof -
  define h where "h = sort_key fst (map (map_prod id sorted_json) [(''scope'', JStr scope), (''store_id'', JStr sid)])"
  define doc where "doc = sort_key fst (map (map_prod id sorted_json) (header_document scope sid))"
  assume "sid \<noteq> []"
  moreover have "member h ''scope'' = JStr scope" "member h ''store_id'' = JStr sid"
    by (simp_all only: h_def member_def member_sorted [of "[(''scope'', JStr scope), (''store_id'', JStr sid)]"] simp_thms) simp_all
  moreover have "member doc ''storage_version'' = JInt 1" "member doc ''header'' = JObj h"
    using member_sorted [of "header_document scope sid"]
    by (simp_all add: doc_def h_def member_def header_document_def STORAGE_VERSION_def)
  moreover have "sorted_json (JObj (header_document scope sid)) = JObj doc" by (simp add: doc_def)
  ultimately show ?thesis by (simp add: read_header_def this_version_def equals_one_def)
qed

end
