(* ===== verification/DecisionFileInvariant.thy ===== *)
theory DecisionFileInvariant
  imports DecisionFileLines
begin

text \<open>
  What a decision file holds while the authority runs: either no complete line, or a header and the envelopes of the
  committed decisions at positions 1, 2, ..., and after them at most one torn suffix. The index in memory is that of a
  prefix of the file, and of all of it when the scope is not fenced.
\<close>

section \<open>A file and its index\<close>

definition envelope_line :: "envelope \<Rightarrow> string" where
  "envelope_line e = canonical_json (JObj (envelope_document e))"

definition lines_of :: "string \<Rightarrow> string \<Rightarrow> envelope list \<Rightarrow> string list" where
  "lines_of scope sid es = canonical_json (JObj (header_document scope sid)) # map envelope_line es"

definition file_of :: "string \<Rightarrow> string \<Rightarrow> envelope list \<Rightarrow> string" where
  "file_of scope sid es = joined_lines (lines_of scope sid es)"

lemma file_of_Nil: "file_of scope sid [] = line_of (header_document scope sid)"
  by (simp add: file_of_def lines_of_def joined_lines_def line_of_def)

lemma file_of_snoc: "file_of scope sid (es @ [e]) = file_of scope sid es @ line_of (envelope_document e)"
  by (simp add: file_of_def lines_of_def joined_lines_def envelope_line_def line_of_def)

lemma file_of_nonempty [simp]: "file_of scope sid es \<noteq> []"
  by (simp add: file_of_def lines_of_def joined_lines_def)

lemma file_of_last: "last (file_of scope sid es) = newline"
  by (cases es rule: rev_cases) (simp_all add: file_of_Nil file_of_snoc line_of_def)

definition envelope_ref :: "envelope \<Rightarrow> string" where
  "envelope_ref e = de_ref (ev_decision e)"

definition log_ok :: "string \<Rightarrow> string \<Rightarrow> envelope list \<Rightarrow> bool" where
  "log_ok scope sid es \<longleftrightarrow> sid \<noteq> [] \<and> list_all (envelope_ok scope sid) es \<and> distinct (map envelope_ref es) \<and>
     map ev_position es = map int [1..<Suc (length es)]"

lemma log_ok_Nil [simp]: "log_ok scope sid [] \<longleftrightarrow> sid \<noteq> []"
  by (simp add: log_ok_def)

lemma log_ok_snoc [simp]:
  "log_ok scope sid (es @ [e]) \<longleftrightarrow> log_ok scope sid es \<and> envelope_ok scope sid e \<and> envelope_ref e \<notin> envelope_ref ` set es \<and>
     ev_position e = int (length es) + 1"
  by (auto simp: log_ok_def)

lemma log_ok_take: "log_ok scope sid es \<Longrightarrow> log_ok scope sid (take k es)"
proof (induction es rule: rev_induct)
  case (snoc e es)
  then show ?case by (cases "k \<le> length es") auto
qed simp

lemma log_lines:
  assumes "log_ok scope sid es"
  shows "\<forall>l \<in> set (lines_of scope sid es). newline \<notin> set l \<and> l \<noteq> []"
proof -
  have "json_ok (JObj (envelope_document e))" if "e \<in> set es" for e
    using assms that envelope_json_ok by (auto simp: log_ok_def list_all_iff envelope_ok_def)
  then show ?thesis
    using header_json_ok canonical_no_newline canonical_nonempty by (auto simp: lines_of_def envelope_line_def)
qed

lemma log_complete:
  "log_ok scope sid es \<Longrightarrow> newline \<notin> set t \<Longrightarrow> complete_lines (file_of scope sid es @ t) = (lines_of scope sid es, t)"
  unfolding file_of_def by (intro complete_lines_joined log_lines)

text \<open>The index of the first envelopes.\<close>

definition offsets_of :: "string \<Rightarrow> string \<Rightarrow> envelope list \<Rightarrow> (string, int) dict" where
  "offsets_of scope sid es = map (\<lambda>i. (envelope_ref (es ! i), int (length (file_of scope sid (take i es))))) [0..<length es]"

definition positions_of :: "string \<Rightarrow> envelope list \<Rightarrow> (string, string \<times> int) dict" where
  "positions_of sid es = map (\<lambda>e. (envelope_ref e, (sid, ev_position e))) es"

definition index_of :: "string \<Rightarrow> string \<Rightarrow> envelope list \<Rightarrow> scope_state" where
  "index_of scope sid es = \<lparr>ss_store_id = sid, ss_next_position = int (length es) + 1, ss_offsets = offsets_of scope sid es,
     ss_positions = positions_of sid es, ss_unusable = False, ss_fenced = False\<rparr>"

lemma offsets_snoc:
  "offsets_of scope sid (es @ [e]) = offsets_of scope sid es @ [(envelope_ref e, int (length (file_of scope sid es)))]"
  by (auto simp: offsets_of_def nth_append)

lemma positions_snoc: "positions_of sid (es @ [e]) = positions_of sid es @ [(envelope_ref e, (sid, ev_position e))]"
  by (simp add: positions_of_def)

lemma index_keys:
  "fst ` set (offsets_of scope sid es) = envelope_ref ` set es" "fst ` set (positions_of sid es) = envelope_ref ` set es"
proof -
  show "fst ` set (offsets_of scope sid es) = envelope_ref ` set es"
    by (induction es rule: rev_induct) (auto simp: offsets_snoc, simp add: offsets_of_def)
qed (auto simp: positions_of_def image_iff)

lemma offsets_none: "map_of (offsets_of scope sid es) r = None \<longleftrightarrow> r \<notin> envelope_ref ` set es"
  by (simp add: map_of_eq_None_iff index_keys)

lemma update_new: "k \<notin> fst ` set d \<Longrightarrow> AList.update k v d = d @ [(k, v)]"
  by (induction d) auto

lemma index_snoc:
  assumes "envelope_ref e \<notin> envelope_ref ` set es" and "ev_position e = int (length es) + 1"
  shows "index_of scope sid (es @ [e]) = (index_of scope sid es)
    \<lparr>ss_offsets := AList.update (envelope_ref e) (int (length (file_of scope sid es))) (offsets_of scope sid es),
     ss_positions := AList.update (envelope_ref e) (sid, int (length es) + 1) (positions_of sid es),
     ss_next_position := int (length es) + 2\<rparr>"
  using assms by (simp add: index_of_def update_new index_keys offsets_snoc positions_snoc)

section \<open>Reading the file\<close>

lemma rebuild_lines_append:
  "rebuild_lines loads pl scope xs rb = Inr (rb', False) \<Longrightarrow>
   rebuild_lines loads pl scope (xs @ ys) rb = rebuild_lines loads pl scope ys rb'"
  by (induction xs arbitrary: rb) (auto split: sum.splits if_splits)

definition read_so_far :: "string \<Rightarrow> string \<Rightarrow> envelope list \<Rightarrow> rebuilding" where
  "read_so_far scope sid es = \<lparr>rb_store_id = Some sid, rb_next_position = int (length es) + 1,
     rb_offsets = offsets_of scope sid es, rb_positions = positions_of sid es, rb_offset = int (length (file_of scope sid es))\<rparr>"

lemma envelope_line_reads:
  assumes loads: "reads_canonical loads" and e: "envelope_ok scope sid e"
  shows "bind_r (loaded loads (envelope_line e)) (\<lambda>v. read_envelope pl v scope) = Inr (e\<lparr>ev_decision := normal_decision (ev_decision e)\<rparr>)"
  using envelope_reads [OF e, of pl] loads envelope_json_ok e
  by (simp add: loaded_def envelope_line_def reads_canonical_def envelope_ok_def)

lemma rebuild_of_log:
  assumes loads: "reads_canonical loads" and "log_ok scope sid es"
  shows "rebuild_lines loads pl scope (lines_of scope sid es) nothing_read = Inr (read_so_far scope sid es, False)"
  using assms(2)
proof (induction es rule: rev_induct)
  case Nil
  then have "loaded loads (canonical_json (JObj (header_document scope sid))) = Inr (sorted_json (JObj (header_document scope sid)))"
    using loads header_json_ok by (simp add: loaded_def reads_canonical_def del: sorted_json.simps)
  then show ?case
    using Nil header_reads [of sid scope]
    by (simp add: lines_of_def rebuild_line_def nothing_read_def read_so_far_def offsets_of_def positions_of_def file_of_Nil line_of_def
        del: sorted_json.simps)
next
  case (snoc e es)
  then have ih: "rebuild_lines loads pl scope (lines_of scope sid es) nothing_read = Inr (read_so_far scope sid es, False)"
    and e: "envelope_ok scope sid e" "envelope_ref e \<notin> envelope_ref ` set es" "ev_position e = int (length es) + 1" by auto
  obtain v where v: "loaded loads (envelope_line e) = Inr v"
    and read: "read_envelope pl v scope = Inr (e\<lparr>ev_decision := normal_decision (ev_decision e)\<rparr>)"
    using envelope_line_reads [OF loads e(1), of pl] by (cases "loaded loads (envelope_line e)") auto
  have "rebuild_line loads pl scope (envelope_line e) (read_so_far scope sid es) = Inr (read_so_far scope sid (es @ [e]))"
    using e v read index_keys
    by (simp add: rebuild_line_def read_so_far_def envelope_ok_def offsets_none offsets_snoc positions_snoc update_new index_keys
        envelope_ref_def [symmetric] file_of_snoc line_of_def envelope_line_def)
  moreover have "lines_of scope sid (es @ [e]) = lines_of scope sid es @ [envelope_line e]" by (simp add: lines_of_def)
  ultimately show ?case using rebuild_lines_append [OF ih] by simp
qed

lemma rebuild_log:
  assumes "reads_canonical loads" and "log_ok scope sid es" and "newline \<notin> set t"
  shows "rebuild loads pl scope fresh (file_of scope sid es @ t) = Inr ((index_of scope sid es)\<lparr>ss_fenced := (t \<noteq> [])\<rparr>)"
  by (simp add: rebuild_def log_complete [OF assms(2,3)] rebuild_of_log [OF assms(1,2)] read_so_far_def index_of_def)

lemma scan_log:
  assumes "reads_canonical loads" and "log_ok scope sid es" and "newline \<notin> set t"
  shows "collect (\<lambda>line. bind_r (loaded loads line) (\<lambda>v. read_envelope pl v scope))
    (tl (fst (complete_lines (file_of scope sid es @ t)))) =
    Inr (map (\<lambda>e. e\<lparr>ev_decision := normal_decision (ev_decision e)\<rparr>) es)"
proof -
  have "collect (\<lambda>line. bind_r (loaded loads line) (\<lambda>v. read_envelope pl v scope)) (map envelope_line fs) =
      Inr (map (\<lambda>e. e\<lparr>ev_decision := normal_decision (ev_decision e)\<rparr>) fs)" if "list_all (envelope_ok scope sid) fs" for fs
    using that by (induction fs) (simp_all add: envelope_line_reads [OF assms(1), where sid = sid] del: bind_r_Inr)
  then show ?thesis using assms by (simp add: log_complete [OF assms(2,3)] lines_of_def log_ok_def)
qed

lemma rebuild_torn:
  "newline \<notin> set t \<Longrightarrow> rebuild loads pl scope fresh t = Inr \<lparr>ss_store_id = fresh, ss_next_position = 1, ss_offsets = [],
     ss_positions = [], ss_unusable = False, ss_fenced = (t \<noteq> [])\<rparr>"
  by (simp add: rebuild_def complete_lines_torn nothing_read_def)

end
