(* ===== verification/DecisionFileRuns.thy ===== *)
theory DecisionFileRuns
  imports DecisionFileInvariant
begin

text \<open>
  The invariant of the decision authority on disk, kept by every operation, by every fault of a write that leaves the
  process alive with its scope fenced, and by the death of the process at any write.
\<close>

section \<open>The invariant of one scope\<close>

text \<open>The bytes of a scope's file: a torn first line only, or a log and a torn suffix.\<close>

definition on_disk :: "string \<Rightarrow> string \<Rightarrow> string option \<Rightarrow> envelope list \<Rightarrow> string \<Rightarrow> bool" where
  "on_disk scope raw header es t \<longleftrightarrow> newline \<notin> set t \<and> (case header of
      None \<Rightarrow> raw = t \<and> es = []
    | Some sid \<Rightarrow> log_ok scope sid es \<and> raw = file_of scope sid es @ t \<and> int (length t) \<le> LINE_BOUND)"

text \<open>An acknowledgement: the decision, and the store and position its caller was answered.\<close>

type_synonym ack = "decision \<times> string \<times> int"

definition ack_of :: "envelope \<Rightarrow> ack" where
  "ack_of e = (ev_decision e, ev_store_id e, ev_position e)"

definition indexes :: "string \<Rightarrow> string option \<Rightarrow> envelope list \<Rightarrow> string \<Rightarrow> ack set \<Rightarrow> scope_state \<Rightarrow> bool" where
  "indexes scope header es t acks st \<longleftrightarrow> (\<exists>sid k. sid \<noteq> [] \<and> (header = None \<or> header = Some sid) \<and>
     st = (index_of scope sid (take k es))\<lparr>ss_fenced := ss_fenced st\<rparr> \<and> (\<not> ss_fenced st \<longrightarrow> t = [] \<and> length es \<le> k) \<and>
     acks \<subseteq> ack_of ` set (take k es))"

definition scope_ok :: "string \<Rightarrow> string \<Rightarrow> scope_state option \<Rightarrow> ack set \<Rightarrow> bool" where
  "scope_ok scope raw cached acks \<longleftrightarrow> (\<exists>header es t. on_disk scope raw header es t \<and> acks \<subseteq> ack_of ` set es \<and>
     (\<forall>st. cached = Some st \<longrightarrow> indexes scope header es t acks st))"

text \<open>What an operation on one scope leaves alone.\<close>

definition touches :: "string \<Rightarrow> decision_store \<Rightarrow> decision_store \<Rightarrow> bool" where
  "touches scope s s' \<longleftrightarrow> ds_epoch s' = ds_epoch s \<and>
     (\<forall>other. other \<noteq> scope \<longrightarrow> map_of (ds_files s') other = map_of (ds_files s) other \<and>
        map_of (ds_states s') other = map_of (ds_states s) other)"

lemma touches_refl [simp]: "touches scope s s"
  by (simp add: touches_def)

lemma touches_trans: "touches scope s s' \<Longrightarrow> touches scope s' s'' \<Longrightarrow> touches scope s s''"
  by (simp add: touches_def)

lemma touches_set [simp]: "touches scope s (set_state scope st s)" "touches scope s (set_file scope raw s)"
  "touches scope s (write_bytes scope ft payload s)" "touches scope s (unfence scope s)"
  by (auto simp: touches_def set_state_def set_file_def write_bytes_def unfence_def split: option.splits)

lemma file_bytes_set [simp]: "file_bytes (set_state scope' st s) scope = file_bytes s scope"
  "file_bytes (set_file scope raw s) scope = raw" "file_bytes (unfence scope s) scope = file_bytes s scope"
  "file_bytes (s\<lparr>ds_recovered := r\<rparr>) scope = file_bytes s scope"
  "file_bytes (write_bytes scope ft payload s) scope =
     file_bytes s scope @ (case ft of None \<Rightarrow> payload | Some n \<Rightarrow> take n payload)"
  by (auto simp: file_bytes_def set_state_def set_file_def unfence_def write_bytes_def split: option.splits)

lemma states_set [simp]: "map_of (ds_states (set_state scope st s)) scope = Some st"
  "ds_states (set_file scope raw s) = ds_states s" "ds_states (write_bytes scope ft payload s) = ds_states s"
  by (simp_all add: set_state_def set_file_def write_bytes_def)

lemma files_set_state [simp]: "ds_files (set_state scope st s) = ds_files s"
  by (simp add: set_state_def)

lemma epoch_set [simp]: "ds_epoch (set_file scope raw s) = ds_epoch s" "ds_epoch (write_bytes scope ft payload s) = ds_epoch s"
  by (simp_all add: set_file_def write_bytes_def)

lemma take_all_log: "length es \<le> k \<Longrightarrow> take k es = es"
  by simp

section \<open>Reading the state of a scope\<close>

lemma rebuild_on_disk:
  assumes "reads_canonical loads" and "fresh \<noteq> []" and "on_disk scope raw header es t" and "acks \<subseteq> ack_of ` set es"
  obtains st where "rebuild loads pl scope fresh raw = Inr st" and "indexes scope header es t acks st"
    and "ss_fenced st = (t \<noteq> [])"
proof (cases header)
  case None
  then have "newline \<notin> set t" "raw = t" "es = []" using assms(3) by (simp_all add: on_disk_def)
  then have "rebuild loads pl scope fresh raw = Inr ((index_of scope fresh [])\<lparr>ss_fenced := (t \<noteq> [])\<rparr>)"
    by (simp add: rebuild_torn index_of_def offsets_of_def positions_of_def)
  moreover have "indexes scope header es t acks ((index_of scope fresh [])\<lparr>ss_fenced := (t \<noteq> [])\<rparr>)"
    unfolding indexes_def using assms(2,4) \<open>es = []\<close> None by (intro exI [of _ fresh] exI [of _ 0]) simp
  ultimately show thesis using that by simp
next
  case (Some sid)
  then have log: "log_ok scope sid es" "newline \<notin> set t" "raw = file_of scope sid es @ t" using assms(3) by (simp_all add: on_disk_def)
  have "indexes scope header es t acks ((index_of scope sid es)\<lparr>ss_fenced := (t \<noteq> [])\<rparr>)"
    unfolding indexes_def using assms(4) Some log by (intro exI [of _ sid] exI [of _ "length es"]) (auto simp: log_ok_def)
  with rebuild_log [OF assms(1) log(1,2), of pl fresh] log(3) show thesis using that by simp
qed

lemma locked_fresh:
  assumes "reads_canonical loads" and "fresh \<noteq> []" and "on_disk scope (file_bytes s scope) header es t"
    and "acks \<subseteq> ack_of ` set es" and "map_of (ds_states s) scope = None \<or> rescan"
  obtains st where "state_locked loads pl fresh scope rescan s = (set_state scope st s, Inr st)"
    and "indexes scope header es t acks st" and "ss_fenced st = (t \<noteq> [])"
proof -
  obtain st where st: "rebuild loads pl scope fresh (file_bytes s scope) = Inr st" "indexes scope header es t acks st"
    "ss_fenced st = (t \<noteq> [])"
    using rebuild_on_disk [OF assms(1-4)] by metis
  have "state_locked loads pl fresh scope rescan s = (set_state scope st s, Inr st)"
  proof (cases "map_of (ds_files s) scope")
    case None
    with st(1) rebuild_torn [of "[]" loads pl scope fresh] assms(5) show ?thesis
      by (auto simp: state_locked_def file_bytes_def Let_def split: option.splits)
  next
    case (Some raw)
    with st(1) assms(5) show ?thesis by (auto simp: state_locked_def file_bytes_def split: option.splits)
  qed
  then show thesis using that st by blast
qed

lemma locked_ok:
  assumes "reads_canonical loads" and "fresh \<noteq> []" and "on_disk scope (file_bytes s scope) header es t"
    and "acks \<subseteq> ack_of ` set es" and "\<forall>st. map_of (ds_states s) scope = Some st \<longrightarrow> indexes scope header es t acks st"
  obtains s' st where "state_locked loads pl fresh scope False s = (s', Inr st)" and "indexes scope header es t acks st"
    and "touches scope s s'" and "ds_files s' = ds_files s" and "map_of (ds_states s') scope = Some st"
proof (cases "map_of (ds_states s) scope")
  case None
  then show thesis
    using locked_fresh [OF assms(1-4), of False pl] that touches_set(1) states_set(1) files_set_state by metis
next
  case (Some st)
  then show thesis using that [of s st] assms(5) by (simp add: state_locked_def)
qed

section \<open>Dropping a torn suffix\<close>

lemma kept_of_log:
  assumes "int (length t) \<le> LINE_BOUND" and "newline \<notin> set t"
  shows "kept_bytes (file_of scope sid es @ t) = length (file_of scope sid es)"
proof -
  obtain front where front: "file_of scope sid es = front @ [newline]"
    using file_of_last [of scope sid es] by (metis append_butlast_last_id file_of_nonempty)
  define window where "window = min (length (front @ newline # t)) (nat LINE_BOUND + 1)"
  have window: "Suc (length t) \<le> window" using assms(1) by (auto simp: window_def)
  define tail where "tail = drop (length (front @ newline # t) - window) (front @ newline # t)"
  have "tail = drop (Suc (length front + length t) - window) front @ newline # t"
    using window by (simp add: tail_def)
  then have "newline \<in> set tail" "tail_of tail = t" using tail_of_append [OF assms(2)] by simp_all
  then show ?thesis by (simp add: kept_bytes_def front Let_def flip: window_def tail_def) (simp add: tail_def window_def)
qed

lemma kept_of_torn: "newline \<notin> set t \<Longrightarrow> kept_bytes t = 0"
  by (auto simp: kept_bytes_def Let_def dest: in_set_dropD)

lemma recover_tail_on_disk:
  assumes "on_disk scope (file_bytes s scope) header es t" and "recover_tail scope s = (s', dropped)"
  shows "on_disk scope (file_bytes s' scope) header es []" and "touches scope s s'"
proof -
  define raw where "raw = file_bytes s scope"
  show "touches scope s s'"
    using assms(2) touches_trans [OF touches_set(2) touches_set(4)]
    by (auto simp: recover_tail_def Let_def touches_def set_file_def unfence_def set_state_def split: if_splits option.splits)
  have whole: "on_disk scope raw header es []" if "raw = [] \<or> last raw = newline"
  proof -
    have "t = []"
      using assms(1) that by (cases header; cases "t = []") (auto simp: on_disk_def raw_def last_append dest: last_in_set)
    then show ?thesis using assms(1) by (simp add: raw_def)
  qed
  have cut: "on_disk scope (take (kept_bytes raw) raw) header es []"
    using assms(1) by (cases header) (auto simp: on_disk_def raw_def kept_of_torn kept_of_log LINE_BOUND_def)
  show "on_disk scope (file_bytes s' scope) header es []"
    using assms(2) whole cut by (auto simp: recover_tail_def Let_def raw_def split: if_splits)
qed

section \<open>Writing an envelope\<close>

text \<open>Bytes of a line of which a fault lets only some reach the file: the whole line, or a torn suffix.\<close>

lemma written_line:
  assumes "json_ok (JObj doc)"
  shows "(\<exists>t. take n (line_of doc) = t \<and> newline \<notin> set t \<and> length t < length (line_of doc)) \<or> take n (line_of doc) = line_of doc"
proof (cases "length (line_of doc) \<le> n")
  case False
  then have "take n (line_of doc) = take n (canonical_json (JObj doc))" by (simp add: line_of_def)
  then show ?thesis using canonical_no_newline [OF assms] False by (auto simp: line_of_def dest: in_set_takeD)
qed simp

lemma scope_okI:
  "on_disk scope raw header es t \<Longrightarrow> acks \<subseteq> ack_of ` set es \<Longrightarrow>
   (\<And>st. cached = Some st \<Longrightarrow> indexes scope header es t acks st) \<Longrightarrow> scope_ok scope raw cached acks"
  by (auto simp: scope_ok_def)

lemma indexesI:
  "sid \<noteq> [] \<Longrightarrow> acks \<subseteq> ack_of ` set es \<Longrightarrow> \<not> fenced \<longrightarrow> t = [] \<and> fs = [] \<Longrightarrow>
   indexes scope (Some sid) (es @ fs) t acks ((index_of scope sid es)\<lparr>ss_fenced := fenced\<rparr>)"
  unfolding indexes_def by (intro exI [of _ sid] exI [of _ "length es"]) auto

lemma torn_header:
  assumes "sid \<noteq> []"
  shows "scope_ok scope (take n (line_of (header_document scope sid))) None {}"
  using written_line [OF header_json_ok, of n scope sid]
proof (elim disjE exE conjE)
  fix t assume "take n (line_of (header_document scope sid)) = t" "newline \<notin> set t"
  then have "on_disk scope (take n (line_of (header_document scope sid))) None [] t" by (simp add: on_disk_def)
  then show ?thesis by (rule scope_okI) simp_all
next
  assume "take n (line_of (header_document scope sid)) = line_of (header_document scope sid)"
  then have "on_disk scope (take n (line_of (header_document scope sid))) (Some sid) [] []"
    using assms by (simp add: on_disk_def file_of_Nil LINE_BOUND_def)
  then show ?thesis by (rule scope_okI) simp_all
qed

text \<open>The envelope is added to a log of which the index is exact.\<close>

lemma appended_envelope:
  assumes log: "log_ok scope sid es" and e: "envelope_ok scope sid e" "envelope_ref e \<notin> envelope_ref ` set es"
      "ev_position e = int (length es) + 1"
    and size: "int (length (line_of (envelope_document e))) \<le> LINE_BOUND" and acks: "acks \<subseteq> ack_of ` set es"
  shows "scope_ok scope (file_of scope sid es @ line_of (envelope_document e)) (Some (index_of scope sid (es @ [e]))) (insert (ack_of e) acks)"
    and "scope_ok scope (file_of scope sid es @ take n (line_of (envelope_document e)))
      (Some ((index_of scope sid es)\<lparr>ss_fenced := True\<rparr>)) acks"
proof -
  have sid: "sid \<noteq> []" using log by (simp add: log_ok_def)
  have whole: "on_disk scope (file_of scope sid es @ line_of (envelope_document e)) (Some sid) (es @ [e]) []"
    using log e by (simp add: on_disk_def file_of_snoc LINE_BOUND_def)
  have exact: "index_of scope sid (es @ [e]) = (index_of scope sid (es @ [e]))\<lparr>ss_fenced := False\<rparr>"
    by (simp add: index_of_def)
  show "scope_ok scope (file_of scope sid es @ line_of (envelope_document e)) (Some (index_of scope sid (es @ [e]))) (insert (ack_of e) acks)"
    using whole
  proof (rule scope_okI)
    show "indexes scope (Some sid) (es @ [e]) [] (insert (ack_of e) acks) st" if "Some (index_of scope sid (es @ [e])) = Some st" for st
      using indexesI [OF sid, of "insert (ack_of e) acks" "es @ [e]" False "[]" "[]" scope] acks that exact by auto
  qed (use acks in auto)
  have json: "json_ok (JObj (envelope_document e))" using e(1) envelope_json_ok by (simp add: envelope_ok_def)
  show "scope_ok scope (file_of scope sid es @ take n (line_of (envelope_document e)))
      (Some ((index_of scope sid es)\<lparr>ss_fenced := True\<rparr>)) acks"
    using written_line [OF json, of n]
  proof (elim disjE exE conjE)
    fix t assume t: "take n (line_of (envelope_document e)) = t" "newline \<notin> set t" "length t < length (line_of (envelope_document e))"
    then have "on_disk scope (file_of scope sid es @ take n (line_of (envelope_document e))) (Some sid) es t"
      using log size by (simp add: on_disk_def)
    then show ?thesis using indexesI [OF sid acks, of True t "[]" scope] acks by (auto intro: scope_okI)
  next
    assume "take n (line_of (envelope_document e)) = line_of (envelope_document e)"
    then have "on_disk scope (file_of scope sid es @ take n (line_of (envelope_document e))) (Some sid) (es @ [e]) []"
      using whole by simp
    then show ?thesis using indexesI [OF sid acks, of True "[]" "[e]" scope] acks by (intro scope_okI) auto
  qed
qed

definition acknowledged :: "decision \<Rightarrow> (string \<times> int) result \<Rightarrow> ack set" where
  "acknowledged d r = (case r of Inr p \<Rightarrow> {(d, p)} | Inl e \<Rightarrow> {})"

lemma scope_ok_uncached: "scope_ok scope raw cached acks \<Longrightarrow> acks' \<subseteq> acks \<Longrightarrow> scope_ok scope raw None acks'"
  unfolding scope_ok_def by blast

lemma write_envelope_ok:
  assumes disk: "on_disk scope (file_bytes s scope) header es []" and header: "header = None \<or> header = Some sid"
    and sid: "sid \<noteq> []" and d: "storable d" "de_scope d = scope" "de_ref d \<notin> envelope_ref ` set es"
    and epoch: "ds_epoch s \<noteq> []" and acks: "acks \<subseteq> ack_of ` set es"
    and cached: "map_of (ds_states s) scope = Some (index_of scope sid es)"
    and run: "write_envelope ft created (index_of scope sid es) d s = (s', r)"
  shows "touches scope s s'"
    and "scope_ok scope (file_bytes s' scope) (if r = Inl OSError then None else map_of (ds_states s') scope)
      (acks \<union> acknowledged d r)"
proof -
  define st where "st = index_of scope sid es"
  define s1 where "s1 = (if file_bytes s scope = [] then write_bytes scope (ft_header ft) (line_of (header_document scope sid)) s else s)"
  define e where "e = \<lparr>ev_scope = scope, ev_store_id = sid, ev_position = int (length es) + 1, ev_recording_epoch = ds_epoch s,
    ev_decision = d\<rparr>"
  define payload where "payload = line_of (envelope_document e)"
  have st: "ss_store_id st = sid" "ss_next_position st = int (length es) + 1" "ss_offsets st = offsets_of scope sid es"
    "ss_positions st = positions_of sid es" by (simp_all add: st_def index_of_def)
  have s1: "ds_epoch s1 = ds_epoch s" "map_of (ds_states s1) scope = Some st" "touches scope s s1"
    using cached by (simp_all add: s1_def st_def)
  have e: "envelope_ok scope sid e" "envelope_ref e \<notin> envelope_ref ` set es" "ev_position e = int (length es) + 1"
    using sid d epoch by (simp_all add: e_def envelope_ok_def envelope_ref_def)
  have e_later: "e = \<lparr>ev_scope = scope, ev_store_id = sid, ev_position = int (length es) + 1, ev_recording_epoch = ds_epoch s1,
    ev_decision = d\<rparr>" by (simp add: e_def s1(1))
  have empty: "file_bytes s scope = [] \<Longrightarrow> es = [] \<and> acks = {}"
    using disk acks file_of_nonempty [of scope _ es] by (cases header) (auto simp: on_disk_def dest: sym)
  have run': "(s', r) =
     (if file_bytes s scope = [] \<and> ft_header ft \<noteq> None then (s1, Inl OSError)
      else if LINE_BOUND < int (length payload) then (s1, Inl DecisionStoreUnavailable)
      else if ft_payload ft \<noteq> None
      then (set_state scope (st\<lparr>ss_fenced := True\<rparr>) (write_bytes scope (ft_payload ft) payload s1), Inl DecisionAppendIndeterminate)
      else if created \<and> ft_directory ft then (write_bytes scope (ft_payload ft) payload s1, Inl OSError)
      else (set_state scope (st\<lparr>ss_offsets := AList.update (de_ref d) (int (length (file_bytes s1 scope))) (ss_offsets st),
              ss_positions := AList.update (de_ref d) (ss_store_id st, ss_next_position st) (ss_positions st),
              ss_next_position := ss_next_position st + 1\<rparr>) (write_bytes scope (ft_payload ft) payload s1),
            Inr (ss_store_id st, ss_next_position st)))"
    unfolding run [symmetric] st_def [symmetric]
    by (simp only: write_envelope_def Let_def d(2) st s1_def [symmetric] e_later [symmetric] payload_def [symmetric])
  show "touches scope s s'"
    using run' s1(3) by (auto intro: touches_trans [OF s1(3)] touches_trans [OF touches_set(3) touches_set(1)] split: if_splits)
  consider (headless) n where "file_bytes s scope = []" "ft_header ft = Some n" | (headed) "file_bytes s1 scope = file_of scope sid es" "log_ok scope sid es"
    "\<not> (file_bytes s scope = [] \<and> ft_header ft \<noteq> None)"
  proof (cases "file_bytes s scope = []")
    case True
    with that(1) that(2) empty [OF True] sid show ?thesis by (cases "ft_header ft") (auto simp: s1_def file_of_Nil)
  next
    case False
    then have "header = Some sid" using disk header by (auto simp: on_disk_def)
    with that(2) False disk show ?thesis by (simp add: s1_def on_disk_def)
  qed
  then show "scope_ok scope (file_bytes s' scope) (if r = Inl OSError then None else map_of (ds_states s') scope) (acks \<union> acknowledged d r)"
  proof cases
    case headless
    then have "r = Inl OSError" "file_bytes s' scope = take n (line_of (header_document scope sid))" using run' by (simp_all add: s1_def)
    with torn_header [OF sid, of scope n] empty headless(1) show ?thesis by (simp add: acknowledged_def)
  next
    case headed
    show ?thesis
    proof (cases "LINE_BOUND < int (length payload)")
      case True
      then have r: "r = Inl DecisionStoreUnavailable" "s' = s1" using run' headed(3) by auto
      have "on_disk scope (file_of scope sid es) (Some sid) es []" using headed(2) by (simp add: on_disk_def LINE_BOUND_def)
      moreover have "indexes scope (Some sid) es [] acks st"
        using indexesI [OF sid acks, of False "[]" "[]" scope] by (simp add: st_def index_of_def)
      ultimately show ?thesis using r acks headed(1) s1(2) by (auto simp: acknowledged_def intro: scope_okI)
    next
      case False
      then have size: "int (length (line_of (envelope_document e))) \<le> LINE_BOUND" by (simp add: payload_def)
      note written = appended_envelope [OF headed(2) e size acks]
      have placed: "ack_of e = (d, sid, int (length es) + 1)" by (simp add: ack_of_def e_def)
      have exact: "st\<lparr>ss_offsets := AList.update (de_ref d) (int (length (file_bytes s1 scope))) (ss_offsets st),
              ss_positions := AList.update (de_ref d) (ss_store_id st, ss_next_position st) (ss_positions st),
              ss_next_position := ss_next_position st + 1\<rparr> = index_of scope sid (es @ [e])"
        using index_snoc [OF e(2,3), of scope sid] e(3) by (simp add: headed(1) st_def st envelope_ref_def e_def index_of_def)
      note run = run' [unfolded exact] and bytes = headed(1) payload_def
      show ?thesis
      proof (cases "ft_payload ft")
        case (Some n)
        then have "r = Inl DecisionAppendIndeterminate"
          "s' = set_state scope (st\<lparr>ss_fenced := True\<rparr>) (write_bytes scope (Some n) payload s1)"
          using run headed(3) False by auto
        with written(2) [of n] show ?thesis by (simp add: acknowledged_def bytes st_def)
      next
        case None
        show ?thesis
        proof (cases "created \<and> ft_directory ft")
          case True
          then have "r = Inl OSError" "s' = write_bytes scope None payload s1" using run headed(3) False None by auto
          with scope_ok_uncached [OF written(1)] show ?thesis by (auto simp: acknowledged_def bytes)
        next
          case directory: False
          then have "r = Inr (sid, int (length es) + 1)"
            "s' = set_state scope (index_of scope sid (es @ [e])) (write_bytes scope None payload s1)"
            using run headed(3) False None st by auto
          with written(1) show ?thesis by (simp add: acknowledged_def bytes placed)
        qed
      qed
    qed
  qed
qed

section \<open>An append\<close>

lemma indexes_exact:
  assumes "indexes scope header es t acks st" and "\<not> ss_fenced st"
  obtains sid where "sid \<noteq> []" and "header = None \<or> header = Some sid" and "st = index_of scope sid es" and "t = []"
proof -
  obtain sid k where "sid \<noteq> []" "header = None \<or> header = Some sid" "st = (index_of scope sid (take k es))\<lparr>ss_fenced := ss_fenced st\<rparr>"
    "t = []" "length es \<le> k"
    using assms by (auto simp: indexes_def)
  then show thesis using that [of sid] assms(2) by (simp add: index_of_def)
qed

lemma indexes_usable: "indexes scope header es t acks st \<Longrightarrow> \<not> ss_unusable st"
  by (auto simp: indexes_def index_of_def dest: arg_cong [where f = ss_unusable])

lemma append_decision_unfold:
  assumes "is_scope scope" and "de_scope d = scope" and "state_locked loads pl fresh scope False s = (s1, Inr st)" and "\<not> ss_unusable st"
    and "created = (map_of (ds_files s1) scope = None)" and "s2 = (if created then set_file scope [] s1 else s1)"
  shows "append_decision loads pl fresh fresh' ft d s =
    (if map_of (ss_offsets st) (de_ref d) \<noteq> None then (s1, Inl DecisionAlreadyExists)
     else if \<not> ss_fenced st then write_envelope ft created st d s2
     else (case state_locked loads pl fresh' scope True (fst (recover_tail scope s2)) of
         (s, Inl e) \<Rightarrow> (s, Inl e)
       | (s, Inr st) \<Rightarrow> if map_of (ss_offsets st) (de_ref d) \<noteq> None then (s, Inl DecisionAlreadyExists)
           else write_envelope ft created st d s))"
  using assms(1,3,4)
  by (simp only: append_decision_def Let_def assms(2,5,6) split_conv sum.case simp_thms if_True if_False not_not)

lemma append_decision_ok:
  assumes loads: "reads_canonical loads" and fresh: "fresh \<noteq> []" "fresh' \<noteq> []" and d: "storable d" "de_scope d = scope"
    and epoch: "ds_epoch s \<noteq> []" and ok: "scope_ok scope (file_bytes s scope) (map_of (ds_states s) scope) acks"
    and run: "append_decision loads pl fresh fresh' ft d s = (s', r)"
  shows "touches scope s s' \<and>
    scope_ok scope (file_bytes s' scope) (if r = Inl OSError then None else map_of (ds_states s') scope) (acks \<union> acknowledged d r)"
proof (cases "is_scope scope")
  case False
  then show ?thesis using run ok d(2) by (auto simp: append_decision_def acknowledged_def)
next
  case True
  obtain header es t where disk: "on_disk scope (file_bytes s scope) header es t" and acks: "acks \<subseteq> ack_of ` set es"
    and cached: "\<forall>st. map_of (ds_states s) scope = Some st \<longrightarrow> indexes scope header es t acks st"
    using ok by (auto simp: scope_ok_def)
  obtain s1 st where s1: "state_locked loads pl fresh scope False s = (s1, Inr st)" "indexes scope header es t acks st"
    "touches scope s s1" "ds_files s1 = ds_files s" "map_of (ds_states s1) scope = Some st"
    using locked_ok [OF loads fresh(1) disk acks cached] by metis
  have bytes1: "file_bytes s1 scope = file_bytes s scope" by (simp add: file_bytes_def s1(4))
  define created where "created = (map_of (ds_files s1) scope = None)"
  define s2 where "s2 = (if created then set_file scope [] s1 else s1)"
  have s2: "file_bytes s2 scope = file_bytes s scope" "touches scope s s2" "map_of (ds_states s2) scope = Some st" "ds_epoch s2 \<noteq> []"
  proof -
    show "file_bytes s2 scope = file_bytes s scope"
      using bytes1 by (auto simp: s2_def created_def file_bytes_def [of s1])
    show "touches scope s s2" using s1(3) touches_trans [OF s1(3) touches_set(2)] by (simp add: s2_def)
    show "map_of (ds_states s2) scope = Some st" using s1(5) by (simp add: s2_def)
    show "ds_epoch s2 \<noteq> []" using s1(3) epoch by (simp add: s2_def touches_def)
  qed
  have refused: "touches scope s s1 \<and> scope_ok scope (file_bytes s1 scope) (map_of (ds_states s1) scope) acks"
    using s1 disk acks bytes1 by (auto intro: scope_okI)
  note run' = append_decision_unfold [OF True d(2) s1(1) indexes_usable [OF s1(2)] created_def s2_def, of fresh' ft, unfolded run]
  show ?thesis
  proof (cases "map_of (ss_offsets st) (de_ref d) \<noteq> None")
    case True
    then have "s' = s1" "r = Inl DecisionAlreadyExists" using run' by simp_all
    with refused show ?thesis by (simp add: acknowledged_def)
  next
    case new: False
    show ?thesis
    proof (cases "ss_fenced st")
      case False
      then obtain sid where sid: "sid \<noteq> []" "header = None \<or> header = Some sid" "st = index_of scope sid es" "t = []"
        using indexes_exact [OF s1(2)] by metis
      have ref: "de_ref d \<notin> envelope_ref ` set es" using new sid(3) by (simp add: index_of_def offsets_none)
      have wrote: "write_envelope ft created (index_of scope sid es) d s2 = (s', r)" using run' new False sid(3) by simp
      have "on_disk scope (file_bytes s2 scope) header es []" using disk s2(1) sid(4) by simp
      from write_envelope_ok [OF this sid(2,1) d ref s2(4) acks s2(3) [unfolded sid(3)] wrote] s2(2) touches_trans
      show ?thesis by blast
    next
      case True
      obtain s3 n where s3: "recover_tail scope s2 = (s3, n)" by (cases "recover_tail scope s2")
      have disk3: "on_disk scope (file_bytes s3 scope) header es []" and touch3: "touches scope s2 s3"
        using recover_tail_on_disk [OF _ s3] disk s2(1) by auto
      obtain st' where st': "state_locked loads pl fresh' scope True s3 = (set_state scope st' s3, Inr st')"
        "indexes scope header es [] acks st'" "ss_fenced st' = ([] \<noteq> ([] :: string))"
        using locked_fresh [OF loads fresh(2) disk3 acks, of True pl] by metis
      have touch4: "touches scope s (set_state scope st' s3)" using s2(2) touch3 touches_set(1) touches_trans by blast
      obtain sid where sid: "sid \<noteq> []" "header = None \<or> header = Some sid" "st' = index_of scope sid es"
        using indexes_exact [OF st'(2)] st'(3) by metis
      have after: "(s', r) = (if map_of (ss_offsets st') (de_ref d) \<noteq> None then (set_state scope st' s3, Inl DecisionAlreadyExists)
           else write_envelope ft created st' d (set_state scope st' s3))"
        using run' new True s3 st'(1) by simp
      show ?thesis
      proof (cases "map_of (ss_offsets st') (de_ref d) \<noteq> None")
        case True
        then have "s' = set_state scope st' s3" "r = Inl DecisionAlreadyExists" using after by simp_all
        with touch4 disk3 acks st'(2) show ?thesis by (auto simp: acknowledged_def intro: scope_okI)
      next
        case False
        then have ref: "de_ref d \<notin> envelope_ref ` set es" using sid(3) by (simp add: index_of_def offsets_none)
        have wrote: "write_envelope ft created (index_of scope sid es) d (set_state scope st' s3) = (s', r)"
          using after False sid(3) by simp
        have "on_disk scope (file_bytes (set_state scope st' s3) scope) header es []" using disk3 by simp
        moreover have "ds_epoch (set_state scope st' s3) \<noteq> []" using touch4 epoch by (simp add: touches_def)
        ultimately show ?thesis
          using write_envelope_ok [OF _ sid(2,1) d ref _ acks _ wrote] sid(3) touch4 touches_trans
          by (metis states_set(1))
      qed
    qed
  qed
qed

section \<open>The invariant of the store\<close>

definition store_ok :: "decision_store \<Rightarrow> ack set \<Rightarrow> bool" where
  "store_ok s acks \<longleftrightarrow> ds_epoch s \<noteq> [] \<and>
     (\<forall>scope. scope_ok scope (file_bytes s scope) (map_of (ds_states s) scope) {a \<in> acks. de_scope (fst a) = scope})"

definition files_ok :: "decision_store \<Rightarrow> ack set \<Rightarrow> bool" where
  "files_ok s acks \<longleftrightarrow> (\<forall>scope. scope_ok scope (file_bytes s scope) None {a \<in> acks. de_scope (fst a) = scope})"

lemma store_okI:
  assumes "store_ok s acks" and "touches scope s s'"
    and "scope_ok scope (file_bytes s' scope) (map_of (ds_states s') scope) {a \<in> acks'. de_scope (fst a) = scope}"
    and "\<And>a. de_scope (fst a) \<noteq> scope \<Longrightarrow> a \<in> acks' \<longleftrightarrow> a \<in> acks"
  shows "store_ok s' acks'"
proof -
  have others: "scope_ok other (file_bytes s' other) (map_of (ds_states s') other) {a \<in> acks'. de_scope (fst a) = other}"
    if "other \<noteq> scope" for other
  proof -
    have "{a \<in> acks'. de_scope (fst a) = other} = {a \<in> acks. de_scope (fst a) = other}" using assms(4) that by auto
    then show ?thesis using assms(1,2) that by (simp add: store_ok_def touches_def file_bytes_def)
  qed
  moreover have "ds_epoch s' \<noteq> []" using assms(1,2) by (simp add: store_ok_def touches_def)
  ultimately show ?thesis unfolding store_ok_def
  proof (intro conjI allI)
    fix other
    show "scope_ok other (file_bytes s' other) (map_of (ds_states s') other) {a \<in> acks'. de_scope (fst a) = other}"
      using others assms(3) by (cases "other = scope") simp_all
  qed
qed

lemma files_okI:
  assumes "store_ok s acks" and "touches scope s s'" and "scope_ok scope (file_bytes s' scope) cached {a \<in> acks. de_scope (fst a) = scope}"
  shows "files_ok s' acks"
  unfolding files_ok_def
proof
  fix other
  show "scope_ok other (file_bytes s' other) None {a \<in> acks. de_scope (fst a) = other}"
  proof (cases "other = scope")
    case True
    then show ?thesis using assms(3) scope_ok_uncached by blast
  next
    case False
    then show ?thesis
      using assms(1,2) scope_ok_uncached [OF _ order_refl] by (simp add: store_ok_def touches_def file_bytes_def) blast
  qed
qed

lemma restarted_ok: "files_ok s acks \<Longrightarrow> epoch \<noteq> [] \<Longrightarrow> store_ok (restarted epoch s) acks"
  by (simp add: files_ok_def store_ok_def restarted_def decision_store_def file_bytes_def)

end
