(* ===== verification/DecisionFileReads.thy ===== *)
theory DecisionFileReads
  imports DecisionFileRuns
begin

text \<open>
  The runs of the decision authority over lives of the process, the reads, and the invariant in every run.
\<close>

section \<open>Runs\<close>

text \<open>
  A run of the authority over lives of the process, with the decisions acknowledged. A write may fail at any byte; an
  append whose process dies is not acknowledged, whatever was written. The one thing left out is an append that raises a
  plain \<open>OSError\<close> and leaves its process alive.
\<close>

inductive authority_run :: "json_reader \<Rightarrow> platform \<Rightarrow> decision_store \<Rightarrow> (decision \<times> string \<times> int) list \<Rightarrow> bool"
  for loads :: json_reader and pl :: platform where
  starts: "epoch \<noteq> [] \<Longrightarrow> authority_run loads pl (decision_store epoch []) []"
| appends: "authority_run loads pl s acks \<Longrightarrow> storable d \<Longrightarrow> fresh \<noteq> [] \<Longrightarrow> fresh' \<noteq> [] \<Longrightarrow>
     append_decision loads pl fresh fresh' ft d s = (s', Inr p) \<Longrightarrow> authority_run loads pl s' (acks @ [(d, p)])"
| refuses: "authority_run loads pl s acks \<Longrightarrow> storable d \<Longrightarrow> fresh \<noteq> [] \<Longrightarrow> fresh' \<noteq> [] \<Longrightarrow>
     append_decision loads pl fresh fresh' ft d s = (s', Inl e) \<Longrightarrow> e \<noteq> OSError \<Longrightarrow> authority_run loads pl s' acks"
| dies: "authority_run loads pl s acks \<Longrightarrow> storable d \<Longrightarrow> fresh \<noteq> [] \<Longrightarrow> fresh' \<noteq> [] \<Longrightarrow>
     append_decision loads pl fresh fresh' ft d s = (s', r) \<Longrightarrow> epoch \<noteq> [] \<Longrightarrow> authority_run loads pl (restarted epoch s') acks"
| restarts: "authority_run loads pl s acks \<Longrightarrow> epoch \<noteq> [] \<Longrightarrow> authority_run loads pl (restarted epoch s) acks"
| recovers: "authority_run loads pl s acks \<Longrightarrow> fresh \<noteq> [] \<Longrightarrow>
     authority_run loads pl (fst (recover_decisions loads pl fresh scope s)) acks"
| gets: "authority_run loads pl s acks \<Longrightarrow> fresh \<noteq> [] \<Longrightarrow>
     authority_run loads pl (fst (get_decision loads pl fresh scope ref s)) acks"
| scans: "authority_run loads pl s acks \<Longrightarrow> fresh \<noteq> [] \<Longrightarrow> authority_run loads pl (fst (scan loads pl fresh scope s)) acks"
| places: "authority_run loads pl s acks \<Longrightarrow> fresh \<noteq> [] \<Longrightarrow>
     authority_run loads pl (fst (position_of loads pl fresh scope ref s)) acks"

section \<open>Reading\<close>

lemma file_split:
  assumes "i < length es"
  obtains rest where "file_of scope sid es = file_of scope sid (take i es) @ envelope_line (es ! i) @ newline # rest"
proof -
  have "es = take i es @ [es ! i] @ drop (Suc i) es" using assms by (simp add: id_take_nth_drop)
  then have "map envelope_line es = map envelope_line (take i es) @ [envelope_line (es ! i)] @ map envelope_line (drop (Suc i) es)"
    by (metis map_append list.simps(8,9))
  then show thesis using that by (simp add: file_of_def lines_of_def joined_lines_def)
qed

lemma line_at_log:
  assumes "log_ok scope sid es" and "i < length es"
  shows "line_at (file_of scope sid es @ t) (length (file_of scope sid (take i es))) = envelope_line (es ! i)"
proof -
  obtain rest where rest: "file_of scope sid es = file_of scope sid (take i es) @ envelope_line (es ! i) @ newline # rest"
    using file_split [OF assms(2)] by metis
  have "newline \<notin> set (envelope_line (es ! i))"
    using log_lines [OF assms(1)] assms(2) by (simp add: lines_of_def)
  then have "takeWhile (\<lambda>c. c \<noteq> newline) (envelope_line (es ! i) @ newline # rest @ t) =
      envelope_line (es ! i) @ takeWhile (\<lambda>c. c \<noteq> newline) (newline # rest @ t)"
    by (intro takeWhile_append2) auto
  then show ?thesis by (simp add: line_at_def rest)
qed

lemma offset_found:
  "map_of (offsets_of scope sid es) ref = Some offset \<Longrightarrow>
   \<exists>i < length es. envelope_ref (es ! i) = ref \<and> offset = int (length (file_of scope sid (take i es)))"
  by (drule map_of_SomeD) (auto simp: offsets_of_def)

lemma envelope_at:
  assumes "log_ok scope sid es" and "i < length es"
  shows "map_of (offsets_of scope sid es) (envelope_ref (es ! i)) = Some (int (length (file_of scope sid (take i es))))"
    and "map_of (positions_of sid es) (envelope_ref (es ! i)) = Some (sid, ev_position (es ! i))"
    and "envelope_ok scope sid (es ! i)"
proof -
  have distinct: "distinct (map envelope_ref es)" using assms(1) by (simp add: log_ok_def)
  have "map fst (offsets_of scope sid es) = map envelope_ref es"
    unfolding offsets_of_def by (intro nth_equalityI) simp_all
  with distinct have "well_keyed (offsets_of scope sid es)" by simp
  then show "map_of (offsets_of scope sid es) (envelope_ref (es ! i)) = Some (int (length (file_of scope sid (take i es))))"
    using assms(2) by (simp add: map_of_eq_Some_iff) (auto simp: offsets_of_def)
  have "map fst (positions_of sid es) = map envelope_ref es" by (simp add: positions_of_def)
  with distinct have "well_keyed (positions_of sid es)" by simp
  then show "map_of (positions_of sid es) (envelope_ref (es ! i)) = Some (sid, ev_position (es ! i))"
    using assms(2) by (simp add: map_of_eq_Some_iff) (auto simp: positions_of_def)
  show "envelope_ok scope sid (es ! i)" using assms by (simp add: log_ok_def list_all_length)
qed

text \<open>What the index of a prefix says of the whole file.\<close>

lemma index_reads:
  assumes "reads_canonical loads" and "log_ok scope sid es"
    and "map_of (offsets_of scope sid (take k es)) ref = Some offset"
  obtains e where "e \<in> set (take k es)" and "envelope_ref e = ref"
    and "bind_r (loaded loads (line_at (file_of scope sid es @ t) (nat offset))) (\<lambda>v. read_envelope pl v scope) =
      Inr (e\<lparr>ev_decision := normal_decision (ev_decision e)\<rparr>)"
proof -
  obtain i where i: "i < length (take k es)" "envelope_ref (take k es ! i) = ref"
    "offset = int (length (file_of scope sid (take i (take k es))))"
    using offset_found [OF assms(3)] by metis
  have cut: "take k es ! i = es ! i" "i < length es" "take i (take k es) = take i es"
    using i(1) by (simp_all add: min_absorb1)
  then have "line_at (file_of scope sid es @ t) (nat offset) = envelope_line (es ! i)"
    using line_at_log [OF assms(2)] i(3) by simp
  moreover have "es ! i \<in> set (take k es)" using i(1) cut(1) by (metis nth_mem)
  ultimately show thesis
    using that [of "es ! i"] i(2) cut(1) envelope_line_reads [OF assms(1) envelope_at(3) [OF assms(2) cut(2)], of pl] by simp
qed

lemma locked_keeps:
  assumes "reads_canonical loads" and "fresh \<noteq> []" and "store_ok s acks"
  obtains s' st header es t where "state_locked loads pl fresh scope False s = (s', Inr st)" and "store_ok s' acks"
    and "on_disk scope (file_bytes s' scope) header es t" and "indexes scope header es t {a \<in> acks. de_scope (fst a) = scope} st"
    and "\<not> ss_unusable st" and "{a \<in> acks. de_scope (fst a) = scope} \<subseteq> ack_of ` set es"
proof -
  define here where "here = {a \<in> acks. de_scope (fst a) = scope}"
  have "scope_ok scope (file_bytes s scope) (map_of (ds_states s) scope) here" using assms(3) by (simp add: store_ok_def here_def)
  then obtain header es t where disk: "on_disk scope (file_bytes s scope) header es t" and acks: "here \<subseteq> ack_of ` set es"
    and cached: "\<forall>st. map_of (ds_states s) scope = Some st \<longrightarrow> indexes scope header es t here st"
    unfolding scope_ok_def by blast
  obtain s' st where s': "state_locked loads pl fresh scope False s = (s', Inr st)"
    "indexes scope header es t here st" "touches scope s s'" "ds_files s' = ds_files s" "map_of (ds_states s') scope = Some st"
    by (rule locked_ok [OF assms(1,2) disk acks cached, of pl]) blast
  have disk': "on_disk scope (file_bytes s' scope) header es t" using disk s'(4) by (simp add: file_bytes_def)
  have "scope_ok scope (file_bytes s' scope) (map_of (ds_states s') scope) here"
    using disk' acks by (rule scope_okI) (use s'(2,5) in simp)
  then have "store_ok s' acks" by (intro store_okI [OF assms(3) s'(3)]) (simp_all add: here_def)
  then show thesis using that s'(1) disk' s'(2) indexes_usable [OF s'(2)] acks unfolding here_def by blast
qed

text \<open>The envelope of an acknowledgement is in the index.\<close>

lemma ack_indexed:
  assumes "indexes scope header es t acks st" and "on_disk scope raw header es t" and "(d, p) \<in> acks"
  obtains sid k i where "header = Some sid" and "st = (index_of scope sid (take k es))\<lparr>ss_fenced := ss_fenced st\<rparr>"
    and "log_ok scope sid es" and "raw = file_of scope sid es @ t" and "i < length (take k es)"
    and "ack_of (take k es ! i) = (d, p)"
proof -
  obtain sid k where k: "header = None \<or> header = Some sid" "st = (index_of scope sid (take k es))\<lparr>ss_fenced := ss_fenced st\<rparr>"
    "acks \<subseteq> ack_of ` set (take k es)" using assms(1) unfolding indexes_def by blast
  then obtain i where i: "i < length (take k es)" "ack_of (take k es ! i) = (d, p)"
    using assms(3) by (metis (no_types, lifting) image_iff in_set_conv_nth subsetD)
  with assms(2) k(1) have "header = Some sid" by (auto simp: on_disk_def)
  with that k(2) i assms(2) show thesis by (simp add: on_disk_def)
qed

lemma ack_in_index:
  assumes "indexes scope header es t acks st" and "on_disk scope raw header es t" and "(d, p) \<in> acks"
  shows "\<exists>offset. map_of (ss_offsets st) (de_ref d) = Some offset" and "map_of (ss_positions st) (de_ref d) = Some p"
proof -
  obtain sid k i where i: "st = (index_of scope sid (take k es))\<lparr>ss_fenced := ss_fenced st\<rparr>" "log_ok scope sid es"
    "i < length (take k es)" "ack_of (take k es ! i) = (d, p)"
    using ack_indexed [OF assms] by metis
  note at = envelope_at [OF log_ok_take [OF i(2)] i(3)]
  have st: "ss_offsets st = offsets_of scope sid (take k es)" "ss_positions st = positions_of sid (take k es)"
    using arg_cong [OF i(1), of ss_offsets] arg_cong [OF i(1), of ss_positions] by (simp_all add: index_of_def)
  have ref: "envelope_ref (take k es ! i) = de_ref d" "p = (sid, ev_position (take k es ! i))"
    using i(4) at(3) by (auto simp: ack_of_def envelope_ref_def envelope_ok_def)
  show "\<exists>offset. map_of (ss_offsets st) (de_ref d) = Some offset" "map_of (ss_positions st) (de_ref d) = Some p"
    using at(1,2) by (simp_all add: st ref)
qed

text \<open>Two envelopes of one reference are one.\<close>

lemma one_reference: "log_ok scope sid es \<Longrightarrow> e \<in> set es \<Longrightarrow> f \<in> set es \<Longrightarrow> envelope_ref e = envelope_ref f \<Longrightarrow> e = f"
  by (auto simp: log_ok_def distinct_map inj_on_def)

text \<open>A reference in the index is read: never a malformed record.\<close>

lemma get_reads:
  assumes loads: "reads_canonical loads" and index: "indexes scope header es t acks st" and disk: "on_disk scope raw header es t"
    and offset: "map_of (ss_offsets st) ref = Some offset"
  obtains e where "bind_r (loaded loads (line_at raw (nat offset))) (\<lambda>v. read_envelope pl v scope) = Inr e"
    and "\<And>d p. (d, p) \<in> acks \<Longrightarrow> de_ref d = ref \<Longrightarrow> ev_decision e = normal_decision d"
proof -
  obtain sid k where k: "header = None \<or> header = Some sid" "st = (index_of scope sid (take k es))\<lparr>ss_fenced := ss_fenced st\<rparr>"
    "acks \<subseteq> ack_of ` set (take k es)" using index unfolding indexes_def by blast
  have st: "ss_offsets st = offsets_of scope sid (take k es)" using arg_cong [OF k(2), of ss_offsets] by (simp add: index_of_def)
  have "offsets_of scope sid [] = []" by (simp add: offsets_of_def)
  then have "take k es \<noteq> []" using offset unfolding st by (metis map_of.simps(1) option.distinct(1))
  then have "header = Some sid" using k(1) disk by (auto simp: on_disk_def)
  then have log: "log_ok scope sid es" "raw = file_of scope sid es @ t" using disk by (simp_all add: on_disk_def)
  obtain e where e: "e \<in> set (take k es)" "envelope_ref e = ref"
    "bind_r (loaded loads (line_at raw (nat offset))) (\<lambda>v. read_envelope pl v scope) = Inr (e\<lparr>ev_decision := normal_decision (ev_decision e)\<rparr>)"
    by (rule index_reads [OF loads log(1) offset [unfolded st], of t pl]) (auto simp: log(2) simp del: bind_r_Inr)
  have "ev_decision e = d" if ack: "(d, p) \<in> acks" "de_ref d = ref" for d p
  proof -
    obtain f where f: "f \<in> set (take k es)" "ack_of f = (d, p)" using k(3) ack(1) by auto
    then have "envelope_ref f = ref" using ack(2) by (auto simp: ack_of_def envelope_ref_def)
    then have "f = e" using one_reference [OF log_ok_take [OF log(1)] f(1) e(1)] e(2) by simp
    then show ?thesis using f(2) by (simp add: ack_of_def)
  qed
  with e(3) that show thesis by fastforce
qed

lemma acked_file:
  assumes "store_ok s acks" and "(d, p) \<in> acks"
  shows "map_of (ds_files s) (de_scope d) \<noteq> None"
proof
  assume none: "map_of (ds_files s) (de_scope d) = None"
  obtain header es t where disk: "on_disk (de_scope d) (file_bytes s (de_scope d)) header es t"
    and acks: "{a \<in> acks. de_scope (fst a) = de_scope d} \<subseteq> ack_of ` set es"
    using assms(1) unfolding store_ok_def scope_ok_def by blast
  have "(d, p) \<in> ack_of ` set es" using acks assms(2) by auto
  then have "es \<noteq> []" by auto
  with disk none show False using file_of_nonempty [of "de_scope d" _ es] by (cases header) (auto simp: on_disk_def file_bytes_def)
qed

lemma get_keeps:
  assumes loads: "reads_canonical loads" and fresh: "fresh \<noteq> []" and ok: "store_ok s acks"
  shows "store_ok (fst (get_decision loads pl fresh scope ref s)) acks"
    and "(d, p) \<in> acks \<Longrightarrow> de_scope d = scope \<Longrightarrow> de_ref d = ref \<Longrightarrow> scope \<noteq> [] \<Longrightarrow> is_scope scope \<Longrightarrow>
      snd (get_decision loads pl fresh scope ref s) = Inr (Some (normal_decision d))"
proof -
  obtain s' st header es t where s': "state_locked loads pl fresh scope False s = (s', Inr st)" and ok': "store_ok s' acks"
    and disk: "on_disk scope (file_bytes s' scope) header es t"
    and index: "indexes scope header es t {a \<in> acks. de_scope (fst a) = scope} st" and usable: "\<not> ss_unusable st"
    by (rule locked_keeps [OF loads fresh ok, of pl scope]) blast
  show "store_ok (fst (get_decision loads pl fresh scope ref s)) acks"
  proof (cases "map_of (ss_offsets st) ref")
    case None
    then show ?thesis using ok ok' s' usable by (simp add: get_decision_def)
  next
    case (Some offset)
    obtain e where "bind_r (loaded loads (line_at (file_bytes s' scope) (nat offset))) (\<lambda>v. read_envelope pl v scope) = Inr e"
      by (rule get_reads [OF loads index disk Some, of pl]) blast
    then show ?thesis using ok ok' s' usable Some by (simp add: get_decision_def del: bind_r_Inr)
  qed
  assume ack: "(d, p) \<in> acks" "de_scope d = scope" "de_ref d = ref" "scope \<noteq> []" "is_scope scope"
  then have mem: "(d, p) \<in> {a \<in> acks. de_scope (fst a) = scope}" by simp
  obtain offset where offset: "map_of (ss_offsets st) ref = Some offset" using ack_in_index(1) [OF index disk mem] ack(3) by auto
  obtain e where e: "bind_r (loaded loads (line_at (file_bytes s' scope) (nat offset))) (\<lambda>v. read_envelope pl v scope) = Inr e"
    "\<And>d p. (d, p) \<in> {a \<in> acks. de_scope (fst a) = scope} \<Longrightarrow> de_ref d = ref \<Longrightarrow> ev_decision e = normal_decision d"
    by (rule get_reads [OF loads index disk offset, of pl]) blast
  obtain raw where "map_of (ds_files s) scope = Some raw" using acked_file [OF ok ack(1)] ack(2) by auto
  then show "snd (get_decision loads pl fresh scope ref s) = Inr (Some (normal_decision d))"
    using s' usable offset e(1) e(2) [OF mem ack(3)] ack(4,5) by (simp add: get_decision_def del: bind_r_Inr)
qed

lemma position_keeps:
  assumes loads: "reads_canonical loads" and fresh: "fresh \<noteq> []" and ok: "store_ok s acks"
  shows "store_ok (fst (position_of loads pl fresh scope ref s)) acks"
    and "(d, p) \<in> acks \<Longrightarrow> de_scope d = scope \<Longrightarrow> de_ref d = ref \<Longrightarrow> scope \<noteq> [] \<Longrightarrow> is_scope scope \<Longrightarrow>
      snd (position_of loads pl fresh scope ref s) = Inr (Some p)"
proof -
  obtain s' st header es t where s': "state_locked loads pl fresh scope False s = (s', Inr st)" and ok': "store_ok s' acks"
    and disk: "on_disk scope (file_bytes s' scope) header es t"
    and index: "indexes scope header es t {a \<in> acks. de_scope (fst a) = scope} st" and usable: "\<not> ss_unusable st"
    by (rule locked_keeps [OF loads fresh ok, of pl scope]) blast
  show "store_ok (fst (position_of loads pl fresh scope ref s)) acks" using ok ok' s' usable by (simp add: position_of_def)
  assume ack: "(d, p) \<in> acks" "de_scope d = scope" "de_ref d = ref" "scope \<noteq> []" "is_scope scope"
  then have mem: "(d, p) \<in> {a \<in> acks. de_scope (fst a) = scope}" by simp
  obtain raw where "map_of (ds_files s) scope = Some raw" using acked_file [OF ok ack(1)] ack(2) by auto
  then show "snd (position_of loads pl fresh scope ref s) = Inr (Some p)"
    using s' usable ack_in_index(2) [OF index disk mem] ack(3-5) by (simp add: position_of_def)
qed

text \<open>What \<open>scan\<close> answers.\<close>

definition dense_log :: "envelope list \<Rightarrow> bool" where
  "dense_log es \<longleftrightarrow> map ev_position es = map int [1..<Suc (length es)] \<and> distinct (map envelope_ref es) \<and>
     (\<forall>e \<in> set es. \<forall>f \<in> set es. ev_store_id e = ev_store_id f)"

lemma scan_keeps:
  assumes loads: "reads_canonical loads" and fresh: "fresh \<noteq> []" and ok: "store_ok s acks"
  shows "store_ok (fst (scan loads pl fresh scope s)) acks"
    and "is_scope scope \<Longrightarrow> \<exists>es. snd (scan loads pl fresh scope s) = Inr es \<and> dense_log es \<and>
      (\<forall>(d, p) \<in> acks. de_scope d = scope \<longrightarrow> (normal_decision d, p) \<in> ack_of ` set es)"
proof -
  obtain s' st header es t where s': "state_locked loads pl fresh scope False s = (s', Inr st)" and ok': "store_ok s' acks"
    and disk: "on_disk scope (file_bytes s' scope) header es t" and usable: "\<not> ss_unusable st"
    and acks: "{a \<in> acks. de_scope (fst a) = scope} \<subseteq> ack_of ` set es"
    by (rule locked_keeps [OF loads fresh ok, of pl scope]) blast
  show "store_ok (fst (scan loads pl fresh scope s)) acks" using ok ok' s' usable by (simp add: scan_def)
  define norm where "norm = (\<lambda>e :: envelope. e\<lparr>ev_decision := normal_decision (ev_decision e)\<rparr>)"
  have norm: "ack_of (norm e) = (normal_decision d, p)" if "ack_of e = (d, p)" for e d p
    using that by (auto simp: ack_of_def norm_def)
  have read: "collect (\<lambda>line. bind_r (loaded loads line) (\<lambda>v. read_envelope pl v scope)) (tl (fst (complete_lines (file_bytes s' scope)))) =
      Inr (map norm es) \<and> dense_log (map norm es)"
  proof (cases header)
    case None
    then show ?thesis using disk complete_lines_torn by (simp add: on_disk_def dense_log_def)
  next
    case (Some sid)
    then have log: "log_ok scope sid es" "newline \<notin> set t" "file_bytes s' scope = file_of scope sid es @ t"
      using disk by (simp_all add: on_disk_def)
    have "map envelope_ref (map norm es) = map envelope_ref es" "map ev_position (map norm es) = map ev_position es"
      by (simp_all add: norm_def envelope_ref_def)
    moreover have "ev_store_id e = sid" if "e \<in> set (map norm es)" for e
      using that log(1) by (auto simp: norm_def log_ok_def list_all_iff envelope_ok_def)
    ultimately have "dense_log (map norm es)" using log(1) unfolding dense_log_def log_ok_def by (metis length_map)
    then show ?thesis using scan_log [OF loads log(1,2), of pl] log(3) by (simp add: norm_def)
  qed
  assume scope: "is_scope scope"
  show "\<exists>es. snd (scan loads pl fresh scope s) = Inr es \<and> dense_log es \<and>
      (\<forall>(d, p) \<in> acks. de_scope d = scope \<longrightarrow> (normal_decision d, p) \<in> ack_of ` set es)"
  proof (cases "map_of (ds_files s) scope")
    case None
    then have "\<forall>(d, p) \<in> acks. de_scope d \<noteq> scope" using acked_file [OF ok] by fastforce
    with None scope show ?thesis by (auto simp: scan_def dense_log_def)
  next
    case (Some raw)
    then have "snd (scan loads pl fresh scope s) = Inr (map norm es)" using s' usable scope read by (simp add: scan_def)
    moreover have "(normal_decision d, p) \<in> ack_of ` set (map norm es)" if "(d, p) \<in> acks" "de_scope d = scope" for d p
    proof -
      obtain e where "e \<in> set es" "ack_of e = (d, p)" using acks \<open>(d, p) \<in> acks\<close> \<open>de_scope d = scope\<close> by fastforce
      then have "norm e \<in> set (map norm es)" "ack_of (norm e) = (normal_decision d, p)" using norm by simp_all
      then show ?thesis by (metis imageI)
    qed
    ultimately show ?thesis using read by auto
  qed
qed

section \<open>The invariant of every run\<close>

lemma store_ok_files: "store_ok s acks \<Longrightarrow> files_ok s acks"
  using scope_ok_uncached [OF _ order_refl] unfolding store_ok_def files_ok_def by blast

lemma append_steps:
  assumes "reads_canonical loads" and "store_ok s acks" and "storable d" and "fresh \<noteq> []" and "fresh' \<noteq> []"
    and run: "append_decision loads pl fresh fresh' ft d s = (s', r)"
  shows "files_ok s' acks" and "r \<noteq> Inl OSError \<Longrightarrow> store_ok s' (acks \<union> acknowledged d r)"
proof -
  define here where "here = {a \<in> acks. de_scope (fst a) = de_scope d}"
  have "ds_epoch s \<noteq> []" "scope_ok (de_scope d) (file_bytes s (de_scope d)) (map_of (ds_states s) (de_scope d)) here"
    using assms(2) by (simp_all add: store_ok_def here_def)
  then have step: "touches (de_scope d) s s'"
    "scope_ok (de_scope d) (file_bytes s' (de_scope d)) (if r = Inl OSError then None else map_of (ds_states s') (de_scope d))
       (here \<union> acknowledged d r)"
    using append_decision_ok [OF assms(1,4,5,3) refl _ _ run] by blast+
  from step(2) have "scope_ok (de_scope d) (file_bytes s' (de_scope d)) None here" by (rule scope_ok_uncached) simp
  then show "files_ok s' acks" by (intro files_okI [OF assms(2) step(1)]) (simp add: here_def)
  assume "r \<noteq> Inl OSError"
  moreover have "{a \<in> acks \<union> acknowledged d r. de_scope (fst a) = de_scope d} = here \<union> acknowledged d r"
    by (auto simp: here_def acknowledged_def split: sum.splits)
  ultimately show "store_ok s' (acks \<union> acknowledged d r)"
    using step(2) by (intro store_okI [OF assms(2) step(1)]) (auto simp: acknowledged_def split: sum.splits)
qed

lemma recover_keeps:
  assumes "reads_canonical loads" and "fresh \<noteq> []" and "store_ok s acks"
  shows "store_ok (fst (recover_decisions loads pl fresh scope s)) acks"
proof -
  define here where "here = {a \<in> acks. de_scope (fst a) = scope}"
  have "scope_ok scope (file_bytes s scope) (map_of (ds_states s) scope) here" using assms(3) by (simp add: store_ok_def here_def)
  then obtain header es t where disk: "on_disk scope (file_bytes s scope) header es t" and acks: "here \<subseteq> ack_of ` set es"
    unfolding scope_ok_def by blast
  obtain s1 n where s1: "recover_tail scope s = (s1, n)" by (cases "recover_tail scope s")
  note disk1 = recover_tail_on_disk [OF disk s1]
  obtain st where st: "state_locked loads pl fresh scope True s1 = (set_state scope st s1, Inr st)" "indexes scope header es [] here st"
    by (rule locked_fresh [OF assms(1,2) disk1(1) acks, of True pl]) auto
  have "scope_ok scope (file_bytes (set_state scope st s1) scope) (map_of (ds_states (set_state scope st s1)) scope) here"
    using disk1(1) acks st(2) by (auto intro: scope_okI)
  then have "store_ok (set_state scope st s1) acks"
    by (intro store_okI [OF assms(3) touches_trans [OF disk1(2) touches_set(1)]]) (simp_all add: here_def)
  then show ?thesis using assms(3) s1 st(1) by (simp add: recover_decisions_def)
qed

lemma run_ok:
  assumes "reads_canonical loads" and "authority_run loads pl s acks"
  shows "store_ok s (set acks)"
  using assms(2)
proof induction
  case (starts epoch)
  have "on_disk scope [] None [] []" for scope by (simp add: on_disk_def)
  then show ?case using starts by (auto simp: store_ok_def decision_store_def file_bytes_def intro: scope_okI)
next
  case (appends s acks d fresh fresh' ft s' p)
  then show ?case using append_steps(2) [OF assms(1), of s "set acks" d fresh fresh' pl ft s' "Inr p"] by (simp add: acknowledged_def)
next
  case (refuses s acks d fresh fresh' ft s' e)
  then show ?case using append_steps(2) [OF assms(1), of s "set acks" d fresh fresh' pl ft s' "Inl e"] by (simp add: acknowledged_def)
next
  case (dies s acks d fresh fresh' ft s' r epoch)
  then show ?case using append_steps(1) [OF assms(1), of s "set acks" d fresh fresh' pl ft s' r] restarted_ok by blast
next
  case (restarts s acks epoch)
  then show ?case by (intro restarted_ok store_ok_files)
next
  case (recovers s acks fresh scope)
  then show ?case by (intro recover_keeps [OF assms(1)])
next
  case (gets s acks fresh scope ref)
  then show ?case by (intro get_keeps(1) [OF assms(1)])
next
  case (scans s acks fresh scope)
  then show ?case by (intro scan_keeps(1) [OF assms(1)])
next
  case (places s acks fresh scope ref)
  then show ?case by (intro position_keeps(1) [OF assms(1)])
qed

lemma acked_scope:
  assumes "authority_run loads pl s acks" and "(d, p) \<in> set acks"
  shows "is_scope (de_scope d)"
  using assms by induction (auto simp: append_decision_def Let_def split: if_splits)

lemma is_scope_nonempty: "is_scope scope \<Longrightarrow> scope \<noteq> []"
  by (auto simp: is_scope_def)

end
