(* ===== verification/DecisionFileProperties.thy ===== *)
theory DecisionFileProperties
  imports DecisionFileReads
begin

text \<open>
  What the decision authority on disk promises: an acknowledged decision is never lost, whatever fault or death of the
  process follows, no position is answered twice and a fenced scope is written again; and the fault it is not written
  for, a header of which only some bytes reach the file.
\<close>

section \<open>Appends\<close>

definition no_faults :: faults where
  "no_faults = \<lparr>ft_header = None, ft_payload = None, ft_directory = False\<rparr>"

lemma known_reference:
  assumes "reads_canonical loads" and "store_ok s acks" and "fresh \<noteq> []" and "(d', p') \<in> acks"
    and "de_scope d' = de_scope d" and "de_ref d' = de_ref d" and "is_scope (de_scope d)"
  shows "snd (append_decision loads pl fresh fresh' ft d s) = Inl DecisionAlreadyExists"
proof -
  obtain s1 st header es t where s1: "state_locked loads pl fresh (de_scope d) False s = (s1, Inr st)"
    and disk: "on_disk (de_scope d) (file_bytes s1 (de_scope d)) header es t"
    and index: "indexes (de_scope d) header es t {a \<in> acks. de_scope (fst a) = de_scope d} st" and usable: "\<not> ss_unusable st"
    by (rule locked_keeps [OF assms(1,3,2), of pl "de_scope d"]) blast
  have "(d', p') \<in> {a \<in> acks. de_scope (fst a) = de_scope d}" using assms(4,5) by simp
  from ack_in_index(1) [OF index disk this] obtain offset where "map_of (ss_offsets st) (de_ref d) = Some offset" using assms(6) by auto
  then show ?thesis using s1 usable assms(7) by (simp add: append_decision_def)
qed

lemma refs_once:
  assumes "reads_canonical loads" and "authority_run loads pl s acks"
  shows "distinct (map (\<lambda>(d, p). (de_scope d, de_ref d)) acks)"
  using assms(2)
proof induction
  case (appends s acks d fresh fresh' ft s' p)
  have "is_scope (de_scope d)" using acked_scope [OF authority_run.appends [OF appends(1-5)], of d p] by simp
  then have "(de_scope d, de_ref d) \<noteq> (de_scope d', de_ref d')" if "(d', p') \<in> set acks" for d' p'
    using known_reference [OF assms(1) run_ok [OF assms(1) appends(1)] appends(3) that, of d pl fresh' ft] appends(5) by auto
  then show ?case using appends.IH by force
qed simp_all

lemma write_answers:
  assumes "write_envelope no_faults created st d s = (s', r)"
  shows "(\<exists>p. r = Inr p) \<or> r = Inl DecisionStoreUnavailable \<and> (\<exists>sid n. LINE_BOUND < int (length (line_of (envelope_document
    \<lparr>ev_scope = de_scope d, ev_store_id = sid, ev_position = n, ev_recording_epoch = ds_epoch s, ev_decision = d\<rparr>))))"
  using assms by (auto simp: write_envelope_def no_faults_def Let_def split: if_splits)

lemma append_answers:
  assumes "reads_canonical loads" and "store_ok s acks" and "fresh \<noteq> []" and "fresh' \<noteq> []" and "is_scope (de_scope d)"
    and run: "append_decision loads pl fresh fresh' no_faults d s = (s', r)"
  shows "(\<exists>p. r = Inr p) \<or> r = Inl DecisionAlreadyExists \<or> r = Inl DecisionStoreUnavailable \<and>
    (\<exists>sid n. LINE_BOUND < int (length (line_of (envelope_document
       \<lparr>ev_scope = de_scope d, ev_store_id = sid, ev_position = n, ev_recording_epoch = ds_epoch s, ev_decision = d\<rparr>))))"
proof -
  define scope where "scope = de_scope d"
  obtain s1 st header es t where s1: "state_locked loads pl fresh scope False s = (s1, Inr st)"
    and disk: "on_disk scope (file_bytes s1 scope) header es t" and acks: "{a \<in> acks. de_scope (fst a) = scope} \<subseteq> ack_of ` set es"
    and usable: "\<not> ss_unusable st"
    by (rule locked_keeps [OF assms(1,3,2), of pl scope]) blast
  define s2 where "s2 = (if map_of (ds_files s1) scope = None then set_file scope [] s1 else s1)"
  have disk2: "on_disk scope (file_bytes s2 scope) header es t" using disk by (auto simp: s2_def file_bytes_def [of s1])
  obtain s3 n where s3: "recover_tail scope s2 = (s3, n)" by (cases "recover_tail scope s2")
  note disk3 = recover_tail_on_disk [OF disk2 s3]
  obtain st' where st': "state_locked loads pl fresh' scope True s3 = (set_state scope st' s3, Inr st')"
    by (rule locked_fresh [OF assms(1,4) disk3(1) acks, of True pl]) auto
  have "ds_epoch s1 = ds_epoch s" using s1 by (auto simp: state_locked_def set_state_def Let_def split: option.splits sum.splits bool.splits)
  then have epoch: "ds_epoch s2 = ds_epoch s" "ds_epoch (set_state scope st' s3) = ds_epoch s"
    using disk3(2) by (auto simp: s2_def touches_def set_state_def)
  have run': "(s', r) = (if map_of (ss_offsets st) (de_ref d) \<noteq> None then (s1, Inl DecisionAlreadyExists)
     else if \<not> ss_fenced st then write_envelope no_faults (map_of (ds_files s1) scope = None) st d s2
     else if map_of (ss_offsets st') (de_ref d) \<noteq> None then (set_state scope st' s3, Inl DecisionAlreadyExists)
     else write_envelope no_faults (map_of (ds_files s1) scope = None) st' d (set_state scope st' s3))"
    using append_decision_unfold [OF assms(5) refl s1 [unfolded scope_def] usable refl s2_def [unfolded scope_def], of fresh' no_faults] s3 st'
    by (simp add: run scope_def)
  then consider "r = Inl DecisionAlreadyExists"
    | "write_envelope no_faults (map_of (ds_files s1) scope = None) st d s2 = (s', r)"
    | "write_envelope no_faults (map_of (ds_files s1) scope = None) st' d (set_state scope st' s3) = (s', r)"
    by (auto split: if_splits)
  then show ?thesis using write_answers epoch by cases metis+
qed

section \<open>Properties\<close>





text \<open>What a scope is before its first append, and the store after a header of which \<open>n\<close> bytes reached the file.\<close>

definition new_state :: "string \<Rightarrow> scope_state" where
  "new_state sid = \<lparr>ss_store_id = sid, ss_next_position = 1, ss_offsets = [], ss_positions = [], ss_unusable = False, ss_fenced = False\<rparr>"

definition first_envelope :: "string \<Rightarrow> string \<Rightarrow> decision \<Rightarrow> envelope" where
  "first_envelope epoch sid d = \<lparr>ev_scope = de_scope d, ev_store_id = sid, ev_position = 1, ev_recording_epoch = epoch, ev_decision = d\<rparr>"

definition torn_header_store :: "string \<Rightarrow> string \<Rightarrow> string \<Rightarrow> nat \<Rightarrow> decision_store" where
  "torn_header_store epoch scope sid n = write_bytes scope (Some n) (line_of (header_document scope sid))
     (set_file scope [] (set_state scope (new_state sid) (decision_store epoch [])))"

lemma new_scope_state:
  "state_locked loads pl fresh scope False (decision_store epoch []) = (set_state scope (new_state fresh) (decision_store epoch []), Inr (new_state fresh))"
  by (simp add: state_locked_def decision_store_def new_state_def Let_def)

lemma no_files [simp]: "ds_files (decision_store epoch []) = []"
  by (simp add: decision_store_def)

lemma header_torn:
  assumes "is_scope scope" and "de_scope d = scope"
  shows "append_decision loads pl fresh fresh' (no_faults\<lparr>ft_header := Some n\<rparr>) d (decision_store epoch []) =
    (torn_header_store epoch scope fresh n, Inl OSError)"
proof -
  have "append_decision loads pl fresh fresh' (no_faults\<lparr>ft_header := Some n\<rparr>) d (decision_store epoch []) =
      write_envelope (no_faults\<lparr>ft_header := Some n\<rparr>) True (new_state fresh) d
        (set_file scope [] (set_state scope (new_state fresh) (decision_store epoch [])))"
    using assms append_decision_unfold [OF assms new_scope_state _ refl refl]
    by (simp add: new_state_def)
  then show ?thesis by (simp add: write_envelope_def assms(2) torn_header_store_def Let_def no_faults_def new_state_def)
qed

lemma after_torn_header:
  assumes "is_scope scope" and "de_scope d = scope" and "0 < n"
    and "int (length (line_of (envelope_document (first_envelope epoch sid d)))) \<le> LINE_BOUND"
  obtains st where "append_decision loads pl fresh fresh' no_faults d (torn_header_store epoch scope sid n) =
    (set_state scope st (write_bytes scope None (line_of (envelope_document (first_envelope epoch sid d))) (torn_header_store epoch scope sid n)),
     Inr (sid, 1))"
proof -
  define s where "s = torn_header_store epoch scope sid n"
  have cached: "state_locked loads pl fresh scope False s = (s, Inr (new_state sid))"
    by (simp add: state_locked_def s_def torn_header_store_def)
  have bytes: "file_bytes s scope \<noteq> []" using assms(3) by (simp add: s_def torn_header_store_def line_of_def)
  then have there: "map_of (ds_files s) scope \<noteq> None" by (auto simp: file_bytes_def split: option.splits)
  have epoch: "ds_epoch s = epoch" by (simp add: s_def torn_header_store_def set_state_def decision_store_def)
  have "append_decision loads pl fresh fresh' no_faults d s = write_envelope no_faults False (new_state sid) d s"
    using append_decision_unfold [OF assms(1,2) cached _ refl refl, of fresh' no_faults] there by (simp add: new_state_def)
  then show thesis
    using that assms(4) bytes epoch by (simp add: write_envelope_def Let_def no_faults_def new_state_def assms(2) first_envelope_def flip: s_def)
qed

text \<open>C34: a header written halfway loses the next decision. When the write of a scope's first header fails after its
  first byte, the append raises and does not fence the scope; the next append of the same process then writes after the
  torn header and is answered position 1, and once the process is restarted the scope is unusable: the decision that was
  acknowledged cannot be read.\<close>

theorem a_torn_header_loses_the_next_decision:
  assumes "is_scope scope" and "de_scope d = scope" and "de_scope d' = scope" and "scope \<noteq> []" and "storable d'"
    and "0 < n" and "n < length (line_of (header_document scope fresh))"
    and "int (length (line_of (envelope_document (first_envelope epoch fresh d')))) \<le> LINE_BOUND"
    and "loads (take n (line_of (header_document scope fresh)) @ canonical_json (JObj (envelope_document (first_envelope epoch fresh d')))) = None"
    and "append_decision loads pl fresh fresh' (no_faults\<lparr>ft_header := Some n\<rparr>) d (decision_store epoch []) = (s, r)"
    and "append_decision loads pl other other' no_faults d' s = (s', r')"
  shows "r = Inl OSError \<and> r' = Inr (fresh, 1) \<and>
    snd (get_decision loads pl again scope (de_ref d') (restarted epoch' s')) = Inl DecisionStoreUnavailable"
proof -
  define torn where "torn = take n (line_of (header_document scope fresh))"
  define text' where "text' = canonical_json (JObj (envelope_document (first_envelope epoch fresh d')))"
  have s: "s = torn_header_store epoch scope fresh n" "r = Inl OSError"
    using header_torn [OF assms(1,2), of loads pl fresh fresh' n epoch] assms(10) by simp_all
  obtain st where "append_decision loads pl other other' no_faults d' s =
      (set_state scope st (write_bytes scope None (text' @ [newline]) s), Inr (fresh, 1))"
    by (rule after_torn_header [OF assms(1,3,6,8), of loads pl other other']) (simp add: text'_def line_of_def s(1))
  then have s': "s' = set_state scope st (write_bytes scope None (text' @ [newline]) s)" "r' = Inr (fresh, 1)"
    using assms(11) by simp_all
  have bytes: "file_bytes s' scope = joined_lines [torn @ text'] @ []"
    by (simp add: s' s(1) torn_header_store_def torn_def joined_lines_def)
  have "newline \<notin> set torn" using assms(7) canonical_no_newline [OF header_json_ok, of scope fresh]
    by (auto simp: torn_def line_of_def dest: in_set_takeD)
  moreover have "newline \<notin> set text'"
    unfolding text'_def by (intro canonical_no_newline envelope_json_ok) (simp add: first_envelope_def assms(5))
  moreover have "text' \<noteq> []"
    unfolding text'_def by (intro canonical_nonempty envelope_json_ok) (simp add: first_envelope_def assms(5))
  ultimately have lines: "complete_lines (file_bytes s' scope) = ([torn @ text'], [])"
    unfolding bytes by (intro complete_lines_joined) auto
  have "map_of (ds_files s') scope \<noteq> None" by (simp add: s'(1) write_bytes_def set_file_def)
  then obtain raw where raw: "map_of (ds_files s') scope = Some raw" "raw = file_bytes s' scope" by (auto simp: file_bytes_def)
  have "loads (torn @ text') = None" using assms(9) by (simp add: torn_def text'_def)
  then have "rebuild loads pl scope again raw = Inr ((new_state [])\<lparr>ss_unusable := True\<rparr>)"
    by (simp add: rebuild_def raw(2) lines rebuild_line_def loaded_def nothing_read_def new_state_def)
  then show ?thesis
    using s(2) s'(2) raw(1) assms(1,4)
    by (simp add: get_decision_def state_locked_def restarted_def decision_store_def new_state_def)
qed

section \<open>Witnesses\<close>

definition second_decision :: decision where
  "second_decision = later_decision\<lparr>de_ref := ''d2''\<rparr>"

lemma file_decisions: "storable later_decision" "storable second_decision" "is_scope ''default''"
  "de_scope later_decision = ''default''" "de_scope second_decision = ''default''"
  by code_simp+

lemma file_sizes:
  "int (length (line_of (envelope_document \<lparr>ev_scope = ''default'', ev_store_id = ''s'', ev_position = 1, ev_recording_epoch = ''e'',
     ev_decision = later_decision\<rparr>))) \<le> LINE_BOUND"
  "int (length (line_of (envelope_document \<lparr>ev_scope = ''default'', ev_store_id = ''s'', ev_position = 2, ev_recording_epoch = ''e'',
     ev_decision = second_decision\<rparr>))) \<le> LINE_BOUND"
  "int (length (line_of (envelope_document \<lparr>ev_scope = ''default'', ev_store_id = ''s'', ev_position = 1, ev_recording_epoch = ''e'',
     ev_decision = second_decision\<rparr>))) \<le> LINE_BOUND"
  by code_simp+

text \<open>Writing an envelope where nothing fails.\<close>

lemma write_succeeds:
  assumes "de_scope d = scope" and "ds_epoch s = epoch"
    and "int (length (line_of (envelope_document \<lparr>ev_scope = scope, ev_store_id = ss_store_id st, ev_position = ss_next_position st,
      ev_recording_epoch = epoch, ev_decision = d\<rparr>))) \<le> LINE_BOUND"
  obtains s1 offset where "write_envelope no_faults created st d s =
      (set_state scope (st\<lparr>ss_offsets := AList.update (de_ref d) offset (ss_offsets st),
         ss_positions := AList.update (de_ref d) (ss_store_id st, ss_next_position st) (ss_positions st),
         ss_next_position := ss_next_position st + 1\<rparr>) s1, Inr (ss_store_id st, ss_next_position st))"
    and "map_of (ds_files s1) scope \<noteq> None" and "ds_epoch s1 = epoch"
proof -
  define s0 where "s0 = (if file_bytes s scope = [] then write_bytes scope None (line_of (header_document scope (ss_store_id st))) s else s)"
  define payload where "payload = line_of (envelope_document \<lparr>ev_scope = scope, ev_store_id = ss_store_id st,
    ev_position = ss_next_position st, ev_recording_epoch = epoch, ev_decision = d\<rparr>)"
  have epoch: "ds_epoch s0 = epoch" by (simp add: s0_def assms(2))
  have "s0 = (if file_bytes s scope = [] then write_bytes scope (ft_header no_faults) (line_of (header_document scope (ss_store_id st))) s else s)"
    by (simp add: s0_def no_faults_def)
  moreover have "ft_header no_faults = None" "ft_payload no_faults = None" "\<not> ft_directory no_faults" by (simp_all add: no_faults_def)
  moreover have "\<not> LINE_BOUND < int (length payload)" using assms(3) by (simp add: payload_def)
  ultimately have "write_envelope no_faults created st d s =
      (set_state scope (st\<lparr>ss_offsets := AList.update (de_ref d) (int (length (file_bytes s0 scope))) (ss_offsets st),
         ss_positions := AList.update (de_ref d) (ss_store_id st, ss_next_position st) (ss_positions st),
         ss_next_position := ss_next_position st + 1\<rparr>) (write_bytes scope None payload s0), Inr (ss_store_id st, ss_next_position st))"
    unfolding payload_def by (simp add: write_envelope_def Let_def assms(1,2) epoch)
  then show thesis
    by (rule that) (simp_all add: write_bytes_def set_file_def epoch)
qed

lemma two_appends:
  obtains s1 s2 where "append_decision json_loads pl ''s'' ''s'' no_faults later_decision (decision_store ''e'' []) = (s1, Inr (''s'', 1))"
    and "append_decision json_loads pl ''s'' ''s'' no_faults second_decision s1 = (s2, Inr (''s'', 2))"
proof -
  define s0 where "s0 = set_file ''default'' [] (set_state ''default'' (new_state ''s'') (decision_store ''e'' []))"
  have s0: "ds_epoch s0 = ''e''" by (simp add: s0_def set_state_def decision_store_def)
  have new: "ss_store_id (new_state ''s'') = ''s''" "ss_next_position (new_state ''s'') = 1" by (simp_all add: new_state_def)
  have first: "append_decision json_loads pl ''s'' ''s'' no_faults later_decision (decision_store ''e'' []) =
      write_envelope no_faults True (new_state ''s'') later_decision s0"
    using append_decision_unfold [OF file_decisions(3,4) new_scope_state _ refl refl] by (simp add: new_state_def s0_def)
  obtain s1 offset where s1: "write_envelope no_faults True (new_state ''s'') later_decision s0 =
      (set_state ''default'' ((new_state ''s'')\<lparr>ss_offsets := AList.update (de_ref later_decision) offset (ss_offsets (new_state ''s'')),
         ss_positions := AList.update (de_ref later_decision) (''s'', 1) (ss_positions (new_state ''s'')),
         ss_next_position := 1 + 1\<rparr>) s1, Inr (''s'', 1))"
    and files: "map_of (ds_files s1) ''default'' \<noteq> None" and epoch: "ds_epoch s1 = ''e''"
    using write_succeeds [OF file_decisions(4) s0, of "new_state ''s''" True] file_sizes(1) unfolding new by metis
  define st where "st = (new_state ''s'')\<lparr>ss_offsets := AList.update (de_ref later_decision) offset (ss_offsets (new_state ''s'')),
         ss_positions := AList.update (de_ref later_decision) (''s'', 1) (ss_positions (new_state ''s'')),
         ss_next_position := 1 + 1\<rparr>"
  have st: "ss_store_id st = ''s''" "ss_next_position st = 2" "\<not> ss_unusable st" "\<not> ss_fenced st"
    "map_of (ss_offsets st) (de_ref second_decision) = None"
    by (simp_all add: st_def new_state_def second_decision_def later_decision_def)
  have locked: "state_locked json_loads pl ''s'' ''default'' False (set_state ''default'' st s1) = (set_state ''default'' st s1, Inr st)"
    by (simp add: state_locked_def)
  have second: "append_decision json_loads pl ''s'' ''s'' no_faults second_decision (set_state ''default'' st s1) =
      write_envelope no_faults False st second_decision (set_state ''default'' st s1)"
    using append_decision_unfold [OF file_decisions(3,5) locked st(3) refl refl, of "''s''" no_faults] st(4,5) files by simp
  have "ds_epoch (set_state ''default'' st s1) = ''e''" using epoch by (simp add: set_state_def)
  then obtain s2 where "write_envelope no_faults False st second_decision (set_state ''default'' st s1) = (s2, Inr (''s'', 2))"
    using write_succeeds [OF file_decisions(5), of "set_state ''default'' st s1" "''e''" st False] file_sizes(2) unfolding st(1,2) by metis
  then show thesis using that first s1 second unfolding st_def by metis
qed

text \<open>Two appends, the death of the process while it writes a third, and another life.\<close>

lemma file_run:
  "\<exists>s. authority_run json_loads pl s [(later_decision, (''s'', 1)), (second_decision, (''s'', 2))]"
proof -
  obtain s1 s2 where s1: "append_decision json_loads pl ''s'' ''s'' no_faults later_decision (decision_store ''e'' []) = (s1, Inr (''s'', 1))"
    and s2: "append_decision json_loads pl ''s'' ''s'' no_faults second_decision s1 = (s2, Inr (''s'', 2))"
    by (rule two_appends)
  have "authority_run json_loads pl (decision_store ''e'' []) []" by (rule authority_run.starts) simp
  from authority_run.appends [OF this file_decisions(1) _ _ s1] have "authority_run json_loads pl s1 [(later_decision, (''s'', 1))]" by simp
  from authority_run.appends [OF this file_decisions(2) _ _ s2]
  have run: "authority_run json_loads pl s2 [(later_decision, (''s'', 1)), (second_decision, (''s'', 2))]" by simp
  obtain s3 r where s3: "append_decision json_loads pl ''s'' ''s'' (no_faults\<lparr>ft_payload := Some 5\<rparr>) (later_decision\<lparr>de_ref := ''d3''\<rparr>) s2 = (s3, r)"
    by (cases "append_decision json_loads pl ''s'' ''s'' (no_faults\<lparr>ft_payload := Some 5\<rparr>) (later_decision\<lparr>de_ref := ''d3''\<rparr>) s2")
  have "storable (later_decision\<lparr>de_ref := ''d3''\<rparr>)" by code_simp
  from authority_run.dies [OF run this _ _ s3] have "authority_run json_loads pl (restarted ''e2'' s3) [(later_decision, (''s'', 1)), (second_decision, (''s'', 2))]"
    by simp
  then show ?thesis by blast
qed





lemma brace_unreadable:
  "json_loads (take 1 (line_of (header_document ''default'' ''s'')) @ canonical_json (JObj (envelope_document (first_envelope ''e'' ''s'' second_decision)))) = None"
  "1 < length (line_of (header_document ''default'' ''s''))"
  by code_simp+

theorem a_torn_header_loses_the_next_decision_witness:
  "\<forall>pl. \<exists>s s'. append_decision json_loads pl ''s'' ''s'' (no_faults\<lparr>ft_header := Some 1\<rparr>) later_decision (decision_store ''e'' []) = (s, Inl OSError) \<and>
     append_decision json_loads pl ''s'' ''s'' no_faults second_decision s = (s', Inr (''s'', 1)) \<and>
     snd (get_decision json_loads pl ''s'' ''default'' ''d2'' (restarted ''e2'' s')) = Inl DecisionStoreUnavailable"
proof
  fix pl
  obtain s r where s: "append_decision json_loads pl ''s'' ''s'' (no_faults\<lparr>ft_header := Some 1\<rparr>) later_decision (decision_store ''e'' []) = (s, r)"
    by (cases "append_decision json_loads pl ''s'' ''s'' (no_faults\<lparr>ft_header := Some 1\<rparr>) later_decision (decision_store ''e'' [])")
  obtain s' r' where s': "append_decision json_loads pl ''s'' ''s'' no_faults second_decision s = (s', r')"
    by (cases "append_decision json_loads pl ''s'' ''s'' no_faults second_decision s")
  have size: "int (length (line_of (envelope_document (first_envelope ''e'' ''s'' second_decision)))) \<le> LINE_BOUND"
    using file_sizes(3) by (simp add: first_envelope_def file_decisions(5))
  have "r = Inl OSError \<and> r' = Inr (''s'', 1) \<and>
    snd (get_decision json_loads pl ''s'' ''default'' (de_ref second_decision) (restarted ''e2'' s')) = Inl DecisionStoreUnavailable"
    by (rule a_torn_header_loses_the_next_decision [OF file_decisions(3-5) _ file_decisions(2) _ brace_unreadable(2) size brace_unreadable(1) s s'])
      simp_all
  then show "\<exists>s s'. append_decision json_loads pl ''s'' ''s'' (no_faults\<lparr>ft_header := Some 1\<rparr>) later_decision (decision_store ''e'' []) = (s, Inl OSError) \<and>
     append_decision json_loads pl ''s'' ''s'' no_faults second_decision s = (s', Inr (''s'', 1)) \<and>
     snd (get_decision json_loads pl ''s'' ''default'' ''d2'' (restarted ''e2'' s')) = Inl DecisionStoreUnavailable"
    using s s' by (intro exI [of _ s] exI [of _ s']) (simp add: second_decision_def)
qed

end
