(* ===== verification/EvidenceGrades.thy ===== *)
theory EvidenceGrades
  imports Protection
begin

text \<open>
  The grade a caller's access is recorded at, over every store it is a claim about (application/evidence_emitter.py,
  \<open>_evaluate\<close> to \<open>_weakest_claim\<close>). A path is absolute, the list of its parts; what the operating system answers is the
  record \<open>inspection\<close>.
\<close>

type_synonym path = "string list"

record store_location =
  sl_kind :: string
  sl_root :: "path option"
  sl_retention :: string

text \<open>\<open>root / f"{scope}.jsonl"\<close>; a scope names no directory.\<close>

definition scope_path :: "store_location \<Rightarrow> string \<Rightarrow> path option result" where
  "scope_path location scope =
     (if scope = [] then Inl ValueError else Inr (map_option (\<lambda>root. root @ [scope @ ''.jsonl'']) (sl_root location)))"

text \<open>What an evaluation reads: the store's location and those of the others, the facts of a path (\<open>None\<close> where the
  emitter has no \<open>path_access\<close>), and the files of a directory, sorted, none of what is not a directory.\<close>

record inspection =
  in_location :: "store_location result"
  in_others :: "store_location result list"
  in_inspect :: "(path \<Rightarrow> path_facts result) option"
  in_files :: "path \<Rightarrow> path list result"

definition root_of :: "store_location \<Rightarrow> path" where
  "root_of location = (case sl_root location of None \<Rightarrow> [] | Some root \<Rightarrow> root)"

text \<open>\<open>_paths\<close>: the parents of the root from the top, then the root.\<close>

definition paths_to :: "path \<Rightarrow> path list" where
  "paths_to root = map (\<lambda>i. take i root) [0 ..< Suc (length root)]"

definition chain_of :: "(path \<Rightarrow> path_facts result) \<Rightarrow> store_location \<Rightarrow> string \<Rightarrow> path_facts list result" where
  "chain_of inspect location scope =
     bind_r (collect inspect (paths_to (root_of location))) (\<lambda>facts.
     bind_r (scope_path location scope) (\<lambda>file. case file of
         None \<Rightarrow> Inr facts
       | Some p \<Rightarrow> bind_r (inspect p) (\<lambda>pf. Inr (if pf_exists pf then facts @ [pf] else facts))))"

definition chains_of ::
  "(path \<Rightarrow> path_facts result) \<Rightarrow> (path \<Rightarrow> path list result) \<Rightarrow> store_location \<Rightarrow> path_facts list list result" where
  "chains_of inspect files location =
     bind_r (collect inspect (paths_to (root_of location))) (\<lambda>parents.
     bind_r (files (root_of location)) (\<lambda>leaves.
     bind_r (collect inspect leaves) (\<lambda>facts.
       Inr (parents # map (\<lambda>pf. parents @ [pf]) (filter pf_exists facts)))))"

text \<open>The \<open>try\<close> of \<open>_evaluate\<close>: every chain of every store.\<close>

definition read_chains ::
  "inspection \<Rightarrow> (path \<Rightarrow> path_facts result) \<Rightarrow> store_location \<Rightarrow> string \<Rightarrow> path_facts list list result" where
  "read_chains ins inspect location scope =
     bind_r (chain_of inspect location scope) (\<lambda>own.
     bind_r (collect (\<lambda>read. bind_r read (\<lambda>other.
         if sl_root other = None then Inr [] else chains_of inspect (in_files ins) other)) (in_others ins)) (\<lambda>others.
       Inr (own # concat others)))"

definition not_established_at :: "datetime \<Rightarrow> nat \<Rightarrow> grade_evaluation" where
  "not_established_at at n =
     \<lparr>ge_grade = Grade_unverified, ge_basis = ''access_not_established'', ge_evaluated_at = at, ge_paths_inspected = n\<rparr>"

text \<open>\<open>_weakest_claim\<close>.\<close>

definition weakest_claim :: "grade_evaluation list \<Rightarrow> datetime \<Rightarrow> grade_evaluation" where
  "weakest_claim evaluations at =
     (let inspected = sum_list (map ge_paths_inspected evaluations);
          first = (\<lambda>basis. find (\<lambda>ev. ge_basis ev = basis) evaluations);
          claim = (\<lambda>ev basis. \<lparr>ge_grade = ge_grade ev, ge_basis = basis, ge_evaluated_at = at, ge_paths_inspected = inspected\<rparr>)
      in case first ''caller_can_write'' of Some ev \<Rightarrow> claim ev ''caller_can_write''
         | None \<Rightarrow> (case first ''access_not_established'' of Some ev \<Rightarrow> claim ev ''access_not_established''
         | None \<Rightarrow> (case first ''caller_cannot_write'' of Some ev \<Rightarrow> claim ev ''caller_cannot_write''
         | None \<Rightarrow> not_established_at at inspected)))"

definition evaluate_scope :: "inspection \<Rightarrow> string \<Rightarrow> caller_access \<Rightarrow> datetime \<Rightarrow> grade_evaluation result" where
  "evaluate_scope ins scope caller now =
     bind_r (in_location ins) (\<lambda>location.
       case in_inspect ins of
         None \<Rightarrow> evaluate_grade caller [] now
       | Some inspect \<Rightarrow>
           if sl_root location = None then evaluate_grade caller [] now
           else (case read_chains ins inspect location scope of
               Inl _ \<Rightarrow> Inr (not_established_at now 0)
             | Inr walks \<Rightarrow> bind_r (collect (\<lambda>facts. evaluate_grade caller facts now) walks) (\<lambda>evaluations.
                 Inr (weakest_claim evaluations now))))"

section \<open>What the grade claims\<close>

text \<open>A caller can replace a store it may write at some place of a chain that was inspected in full; root can always.\<close>

definition replaces :: "caller_access \<Rightarrow> path_facts list \<Rightarrow> bool" where
  "replaces caller facts \<longleftrightarrow> ca_uid caller = 0 \<or>
     facts \<noteq> [] \<and> \<not> list_ex not_established facts \<and> (\<exists>i < length facts. can_write_at caller facts i)"

definition unseen :: "path_facts list \<Rightarrow> bool" where
  "unseen facts \<longleftrightarrow> facts = [] \<or> list_ex not_established facts"

definition basis_of :: "caller_access \<Rightarrow> path_facts list \<Rightarrow> string" where
  "basis_of caller facts =
     (if replaces caller facts then ''caller_can_write''
      else if unseen facts then ''access_not_established'' else ''caller_cannot_write'')"

lemma evaluate_grade_basis:
  "\<exists>ev. evaluate_grade caller facts at = Inr ev \<and> ge_basis ev = basis_of caller facts \<and>
     ge_grade ev = (if replaces caller facts then Grade_observability else Grade_unverified)"
proof (cases "ca_uid caller = 0 \<or> unseen facts")
  case True
  then show ?thesis by (auto simp: evaluate_grade_def Let_def basis_of_def replaces_def unseen_def)
next
  case False
  then obtain r where r: "walk caller True 0 facts = Inr r" and
    found: "case r of None \<Rightarrow> \<not> True \<or> (\<forall>i < length facts. \<not> can_write_at caller facts i)
     | Some m \<Rightarrow> True \<and> (\<exists>i < length facts. m = 0 + Suc i \<and> can_write_at caller facts i)"
    using walk_finds [of facts caller True 0] by (auto simp: unseen_def)
  then show ?thesis
    using False by (cases r) (auto simp: evaluate_grade_def Let_def basis_of_def replaces_def unseen_def)
qed

lemma evaluations_of:
  "\<exists>evs. collect (\<lambda>facts. evaluate_grade caller facts at) walks = Inr evs \<and>
     map ge_basis evs = map (basis_of caller) walks \<and>
     map ge_grade evs = map (\<lambda>facts. if replaces caller facts then Grade_observability else Grade_unverified) walks"
proof (induction walks)
  case (Cons facts walks)
  then show ?case using evaluate_grade_basis [of caller facts at] by auto
qed simp

lemma find_basis: "find (\<lambda>ev. ge_basis ev = b) evs = None \<longleftrightarrow> b \<notin> set (map ge_basis evs)"
  by (induction evs) auto

lemma basis_grade:
  assumes "map ge_basis evs = map (basis_of caller) walks"
    and "map ge_grade evs = map (\<lambda>facts. if replaces caller facts then Grade_observability else Grade_unverified) walks"
    and "ev \<in> set evs"
  shows "ge_grade ev = (if ge_basis ev = ''caller_can_write'' then Grade_observability else Grade_unverified)"
proof -
  obtain i where i: "i < length evs" "ev = evs ! i" using assms(3) by (auto simp: in_set_conv_nth)
  have n: "length walks = length evs" using map_eq_imp_length_eq [OF assms(1)] by simp
  have "map ge_basis evs ! i = map (basis_of caller) walks ! i"
    "map ge_grade evs ! i = map (\<lambda>facts. if replaces caller facts then Grade_observability else Grade_unverified) walks ! i"
    using assms(1,2) by simp_all
  then show ?thesis using i n by (auto simp: basis_of_def)
qed

lemma found: "b \<in> ge_basis ` set evs \<Longrightarrow> \<exists>ev \<in> set evs. find (\<lambda>ev. ge_basis ev = b) evs = Some ev \<and> ge_basis ev = b"
  by (induction evs) auto

lemma not_found: "b \<notin> ge_basis ` set evs \<Longrightarrow> find (\<lambda>ev. ge_basis ev = b) evs = None"
  by (auto simp: find_None_iff)

lemma weakest_claim_says:
  fixes evs :: "grade_evaluation list"
  assumes "\<And>ev. ev \<in> set evs \<Longrightarrow>
      ge_grade ev = (if ge_basis ev = ''caller_can_write'' then Grade_observability else Grade_unverified)"
  defines "bs \<equiv> ge_basis ` set evs"
  shows "ge_basis (weakest_claim evs at) =
      (if ''caller_can_write'' \<in> bs then ''caller_can_write'' else if ''access_not_established'' \<in> bs
       then ''access_not_established'' else if ''caller_cannot_write'' \<in> bs then ''caller_cannot_write''
       else ''access_not_established'') \<and>
    ge_grade (weakest_claim evs at) = (if ''caller_can_write'' \<in> bs then Grade_observability else Grade_unverified)"
proof (cases "''caller_can_write'' \<in> bs")
  case True
  with found obtain ev where "ev \<in> set evs" "find (\<lambda>ev. ge_basis ev = ''caller_can_write'') evs = Some ev"
    "ge_basis ev = ''caller_can_write''" unfolding bs_def by blast
  with True assms(1) show ?thesis by (simp add: weakest_claim_def)
next
  case no_writer: False
  note none = not_found [OF no_writer [unfolded bs_def]]
  show ?thesis
  proof (cases "''access_not_established'' \<in> bs")
    case True
    with found obtain ev where "ev \<in> set evs" "find (\<lambda>ev. ge_basis ev = ''access_not_established'') evs = Some ev"
      "ge_basis ev = ''access_not_established''" unfolding bs_def by blast
    with True none no_writer assms(1) show ?thesis by (simp add: weakest_claim_def)
  next
    case established: False
    note none = none not_found [OF established [unfolded bs_def]]
    show ?thesis
    proof (cases "''caller_cannot_write'' \<in> bs")
      case True
      with found obtain ev where "ev \<in> set evs" "find (\<lambda>ev. ge_basis ev = ''caller_cannot_write'') evs = Some ev"
        "ge_basis ev = ''caller_cannot_write''" unfolding bs_def by blast
      with True none no_writer established assms(1) show ?thesis by (simp add: weakest_claim_def)
    next
      case False
      with none no_writer established not_found [OF False [unfolded bs_def]] show ?thesis
        by (simp add: weakest_claim_def not_established_at_def)
    qed
  qed
qed

lemma basis_of_iff:
  "basis_of caller c = ''caller_can_write'' \<longleftrightarrow> replaces caller c"
  "basis_of caller c = ''access_not_established'' \<longleftrightarrow> \<not> replaces caller c \<and> unseen c"
  "basis_of caller c = ''caller_cannot_write'' \<longleftrightarrow> \<not> replaces caller c \<and> \<not> unseen c"
  by (simp_all add: basis_of_def)

text \<open>One store that a caller can replace decides the grade of all. Where the stores' chains could all be read, the
  grade is observability exactly of a caller that is root or can replace one of them, whatever the others say; it is
  unverified because it was not established when no chain can be replaced and one was not inspected in full, and it says
  that the caller cannot write only when every chain of every store was inspected and none can be replaced. Where a chain
  could not be read the grade is unverified, and it never says evidence.\<close>

theorem the_weakest_store_decides:
  assumes "in_location ins = Inr location" and "sl_root location = Some root" and "in_inspect ins = Some inspect"
  shows "\<exists>ev. evaluate_scope ins scope caller now = Inr ev \<and> ge_grade ev \<noteq> Grade_evidence \<and>
    (case read_chains ins inspect location scope of
       Inl _ \<Rightarrow> ge_grade ev = Grade_unverified \<and> ge_basis ev = ''access_not_established''
     | Inr walks \<Rightarrow>
         (ge_grade ev = Grade_observability \<longleftrightarrow> (\<exists>c \<in> set walks. replaces caller c)) \<and>
         (ge_basis ev = ''access_not_established'' \<longleftrightarrow>
            (\<forall>c \<in> set walks. \<not> replaces caller c) \<and> (\<exists>c \<in> set walks. unseen c)) \<and>
         (ge_basis ev = ''caller_cannot_write'' \<longleftrightarrow> (\<forall>c \<in> set walks. \<not> replaces caller c \<and> \<not> unseen c)))"
proof (cases "read_chains ins inspect location scope")
  case (Inl x)
  then show ?thesis using assms by (simp add: evaluate_scope_def not_established_at_def)
next
  case (Inr walks)
  then obtain own others where own: "walks = own # others" by (auto simp: read_chains_def)
  obtain evs where evs: "collect (\<lambda>facts. evaluate_grade caller facts now) walks = Inr evs"
    "map ge_basis evs = map (basis_of caller) walks"
    "map ge_grade evs = map (\<lambda>facts. if replaces caller facts then Grade_observability else Grade_unverified) walks"
    using evaluations_of by blast
  have answer: "evaluate_scope ins scope caller now = Inr (weakest_claim evs now)"
    using assms Inr evs(1) by (simp add: evaluate_scope_def)
  have bases: "ge_basis ` set evs = basis_of caller ` set walks"
    using arg_cong [OF evs(2), of set] by simp
  define bs where "bs = ge_basis ` set evs"
  have graded: "\<And>ev. ev \<in> set evs \<Longrightarrow>
      ge_grade ev = (if ge_basis ev = ''caller_can_write'' then Grade_observability else Grade_unverified)"
    by (rule basis_grade [OF evs(2,3)])
  note claim = weakest_claim_says [OF graded, of evs now, simplified, folded bs_def]
  have mem: "b \<in> bs \<longleftrightarrow> (\<exists>c \<in> set walks. basis_of caller c = b)" for b
    by (auto simp: bs_def bases)
  note claim = claim [unfolded mem basis_of_iff]
  show ?thesis
  proof (cases "\<exists>c \<in> set walks. replaces caller c")
    case True
    with answer claim Inr show ?thesis by auto
  next
    case no_writer: False
    show ?thesis
    proof (cases "\<exists>c \<in> set walks. unseen c")
      case True
      with no_writer answer claim Inr show ?thesis by auto
    next
      case False
      with no_writer answer claim Inr own show ?thesis by auto
    qed
  qed
qed

definition some_facts :: "int \<Rightarrow> int \<Rightarrow> path_facts" where
  "some_facts owner mode =
     \<lparr>pf_exists = True, pf_owner_uid = Some owner, pf_owner_gid = Some 0, pf_mode = Some mode, pf_acl_present = Some False\<rparr>"

definition example_inspection :: inspection where
  "example_inspection = \<lparr>in_location = Inr \<lparr>sl_kind = ''file'', sl_root = Some [''a''], sl_retention = ''forever''\<rparr>,
     in_others = [Inr \<lparr>sl_kind = ''file'', sl_root = Some [''b''], sl_retention = ''forever''\<rparr>],
     in_inspect = Some (\<lambda>p. Inr (some_facts 0 (if p = [''b''] then 0x1FF else 0x1ED))), in_files = (\<lambda>_. Inr [])\<rparr>"

theorem the_weakest_store_decides_witness:
  "\<exists>ev. evaluate_scope example_inspection ''s'' \<lparr>ca_uid = 9, ca_gids = {}\<rparr> (Aware 0) = Inr ev \<and>
     ge_grade ev = Grade_observability"
proof -
  define inspect where "inspect = (\<lambda>p :: path. Inr (some_facts 0 (if p = [''b''] then 0x1FF else 0x1ED)) :: path_facts result)"
  define here where "here = \<lparr>sl_kind = ''file'', sl_root = Some [''a''], sl_retention = ''forever''\<rparr>"
  have facts: "in_location example_inspection = Inr here" "sl_root here = Some [''a'']"
    "in_inspect example_inspection = Some inspect"
    by (simp_all add: example_inspection_def inspect_def here_def)
  have "read_chains example_inspection inspect here ''s'' =
      Inr [[some_facts 0 0x1ED, some_facts 0 0x1ED, some_facts 0 0x1ED], [some_facts 0 0x1ED, some_facts 0 0x1FF]]"
    by (simp add: read_chains_def chain_of_def chains_of_def root_of_def paths_to_def scope_path_def inspect_def
        here_def example_inspection_def some_facts_def upt_rec)
  moreover have "replaces \<lparr>ca_uid = 9, ca_gids = {}\<rparr> [some_facts 0 0x1ED, some_facts 0 0x1FF]"
    unfolding replaces_def
    by (intro disjI2 conjI exI [of _ 1])
      (simp_all add: some_facts_def not_established_def can_write_at_def may_write_def may_search_def pf_owner_def
        pf_group_def pf_bits_def)
  ultimately show ?thesis
    using the_weakest_store_decides [OF facts, of "''s''" "\<lparr>ca_uid = 9, ca_gids = {}\<rparr>" "Aware 0"] by auto
qed

end
