(* ===== verification/Emitter.thy ===== *)
theory Emitter
  imports EvidenceGrades EvidenceChain
begin

text \<open>
  The asynchronous emission of evidence (application/evidence_emitter.py): a bounded queue in front of the store, one
  worker that drains it, and a gap for whatever the queue or the store refused. Every operation is what its critical
  section does. Instants of the monotonic clock are microseconds; the delay of a retry is exact here and a float there.
  The store is a parameter: its state and what it answers to an append.
\<close>

definition DAEMON_CONNECTION :: string where
  "DAEMON_CONNECTION = ''daemon''"

definition EVIDENCE_QUEUE_CAPACITY :: int where
  "EVIDENCE_QUEUE_CAPACITY = 4096"

definition CAPTURE_HARD_CEILING :: int where
  "CAPTURE_HARD_CEILING = 65536"

definition GRADE_REEVALUATION_INTERVAL_SECONDS :: int where
  "GRADE_REEVALUATION_INTERVAL_SECONDS = 30"

definition RETRY_INITIAL :: int where
  "RETRY_INITIAL = 50000"

definition RETRY_MAX :: int where
  "RETRY_MAX = 5000000"

type_synonym 's appending = "evidence_record \<Rightarrow> ('s, evidence_entry) op"

text \<open>\<open>core_owned_instant\<close>: a naive instant is refused with a \<open>ValueError\<close>.\<close>

definition core_instant :: "datetime \<Rightarrow> datetime result" where
  "core_instant d = (if is_aware d then Inr d else Inl ValueError)"

text \<open>The constructor \<open>EvidenceRecord(\<dots>)\<close>.\<close>

definition build_record ::
  "string \<Rightarrow> string \<Rightarrow> datetime \<Rightarrow> string \<Rightarrow> chain_principal \<Rightarrow> document \<Rightarrow> evidence_record result" where
  "build_record scope kind recorded_at connection_id p body =
     (let r = \<lparr>er_scope = scope, er_kind = kind, er_recorded_at = recorded_at, er_connection_id = connection_id,
                er_principal = p, er_body = body\<rparr>
      in bind_r (record_post_init r) (\<lambda>_. Inr r))"

section \<open>What is asked to be captured\<close>

record capture_rule =
  cr_capability :: string
  cr_max_bytes :: int

definition capture_rule_post_init :: "capture_rule \<Rightarrow> unit result" where
  "capture_rule_post_init r =
     guard (cr_capability r = [] \<or> cr_capability r = ''*'') ValueError
       (guard (\<not> (1 \<le> cr_max_bytes r \<and> cr_max_bytes r \<le> CAPTURE_HARD_CEILING)) ValueError (Inr ()))"

type_synonym capture_policy = "(string, capture_rule) dict"

definition capture_policy :: "capture_rule list \<Rightarrow> capture_policy result" where
  "capture_policy rules =
     guard (\<not> distinct (map cr_capability rules)) ValueError (Inr (map (\<lambda>r. (cr_capability r, r)) rules))"

definition for_capability :: "capture_policy \<Rightarrow> string \<Rightarrow> capture_rule option" where
  "for_capability rules capability = map_of rules capability"

record redaction =
  rn_content :: string
  rn_status :: string
  rn_provider :: string

text \<open>The redactor behind its port, the name it was composed under, and the two byte codecs of Python.\<close>

record redactor =
  rr_name :: string
  rr_redact :: "string \<Rightarrow> string \<Rightarrow> string \<Rightarrow> redaction result"
  rr_decode :: "string \<Rightarrow> string option"
  rr_base64 :: "string \<Rightarrow> string"

definition withheld :: "redactor \<Rightarrow> document" where
  "withheld redactor =
     [(''captured'', JBool False), (''provider'', JStr (rr_name redactor)), (''withheld'', JStr ''redaction_failed'')]"

definition capture_of :: "redactor \<Rightarrow> string \<Rightarrow> string \<Rightarrow> string \<Rightarrow> capture_rule \<Rightarrow> document" where
  "capture_of redactor scope capability payload rule =
     (let most = nat (cr_max_bytes rule)
      in case rr_redact redactor scope capability (take most payload) of
           Inl _ \<Rightarrow> withheld redactor
         | Inr answer \<Rightarrow>
             if rn_status answer \<notin> {''applied'', ''not_applicable''} then withheld redactor
             else let content = take most (rn_content answer);
                      truncated = (most < length payload \<or> most < length (rn_content answer));
                      capture = [(''captured'', JBool True), (''provider'', JStr (rr_name redactor)),
                        (''bytes'', JInt (int (length content))), (''truncated'', JBool truncated)]
                  in (case rr_decode redactor content of
                      Some s \<Rightarrow> capture @ [(''content'', JStr s)]
                    | None \<Rightarrow> capture @ [(''content'', JStr (rr_base64 redactor content)), (''encoding'', JStr ''base64'')]))"

section \<open>Connections, decisions, losses\<close>

record evidence_connection =
  ec_connection_id :: string
  ec_access :: caller_access

definition connection_post_init :: "evidence_connection \<Rightarrow> unit result" where
  "connection_post_init c =
     guard (ec_connection_id c = [] \<or> ec_connection_id c = DAEMON_CONNECTION) ValueError (Inr ())"

record effect_decision =
  ed_decision_id :: string
  ed_outcome :: string
  ed_decided_at :: datetime
  ed_policy_version :: string
  ed_reason :: "string option"
  ed_rule_id :: "string option"
  ed_arguments_digest :: "string option"
  ed_correlation :: "string option"
  ed_principal_references :: "string list option"
  ed_evaluation_recipe :: "string option"
  ed_position :: "(string \<times> int) option"

definition position_document :: "string \<times> int \<Rightarrow> json" where
  "position_document p = JObj [(''store_id'', JStr (fst p)), (''position'', JInt (snd p))]"

definition effect_body :: "string \<Rightarrow> string \<Rightarrow> effect_decision \<Rightarrow> document result" where
  "effect_body epoch capability d =
     bind_r (chain_instant (ed_decided_at d)) (\<lambda>decided_at. Inr
       ([(''capability'', JStr capability), (''decision_id'', JStr (ed_decision_id d)), (''outcome'', JStr (ed_outcome d)),
         (''decided_at'', JStr decided_at), (''policy_version'', JStr (ed_policy_version d)),
         (''recording_epoch'', JStr epoch)] @
        (case ed_evaluation_recipe d of
           None \<Rightarrow> []
         | Some recipe \<Rightarrow>
             [(''reason'', opt_str (ed_reason d)), (''rule_id'', opt_str (ed_rule_id d)),
              (''arguments_digest'', opt_str (ed_arguments_digest d)), (''correlation'', opt_str (ed_correlation d)),
              (''correlation_source'',
                 JStr (if ed_correlation d = None then ''absent'' else ''boundary_supplied'')),
              (''principal_references'',
                 JArr (case ed_principal_references d of None \<Rightarrow> [] | Some rs \<Rightarrow> map JStr rs)),
              (''evaluation_recipe'', JStr recipe),
              (''decision_position'', (case ed_position d of None \<Rightarrow> JNull | Some p \<Rightarrow> position_document p))])))"

text \<open>A counter: a missing key counts nothing.\<close>

type_synonym counter = "(string, int) dict"

definition counted :: "counter \<Rightarrow> string \<Rightarrow> int" where
  "counted c k = (case map_of c k of None \<Rightarrow> 0 | Some n \<Rightarrow> n)"

definition count_up :: "string \<Rightarrow> int \<Rightarrow> counter \<Rightarrow> counter" where
  "count_up k n c = AList.update k (counted c k + n) c"

record loss =
  ls_kind :: string
  ls_recorded_at :: datetime

definition losses_of :: "evidence_record list \<Rightarrow> loss list" where
  "losses_of rs = map (\<lambda>r. \<lparr>ls_kind = er_kind r, ls_recorded_at = er_recorded_at r\<rparr>) rs"

record pending_gap =
  pg_count :: int
  pg_first_at :: datetime
  pg_last_at :: datetime
  pg_kinds :: counter

text \<open>\<open>min\<close> and \<open>max\<close> of instants; all of them are aware.\<close>

definition earlier :: "datetime \<Rightarrow> datetime \<Rightarrow> datetime" where
  "earlier a b = (if micros b < micros a then b else a)"

definition later :: "datetime \<Rightarrow> datetime \<Rightarrow> datetime" where
  "later a b = (if micros a < micros b then b else a)"

definition include_losses :: "loss list \<Rightarrow> pending_gap \<Rightarrow> pending_gap" where
  "include_losses ls g =
     \<lparr>pg_count = pg_count g + int (length ls),
      pg_first_at = foldl earlier (pg_first_at g) (map ls_recorded_at ls),
      pg_last_at = foldl later (pg_last_at g) (map ls_recorded_at ls),
      pg_kinds = fold (\<lambda>l. count_up (ls_kind l) 1) ls (pg_kinds g)\<rparr>"

definition gap_of_losses :: "loss \<Rightarrow> loss list \<Rightarrow> pending_gap" where
  "gap_of_losses l ls =
     \<lparr>pg_count = int (length (l # ls)),
      pg_first_at = foldl earlier (ls_recorded_at l) (map ls_recorded_at ls),
      pg_last_at = foldl later (ls_recorded_at l) (map ls_recorded_at ls),
      pg_kinds = fold (\<lambda>l. count_up (ls_kind l) 1) (l # ls) []\<rparr>"

record emission_unit =
  un_scope :: string
  un_records :: "evidence_record list"
  un_gap_before :: "pending_gap option"

section \<open>The emitter\<close>

record emitter =
  em_capacity :: int
  em_grade_interval :: int
  em_daemon_access :: caller_access
  em_daemon_principal :: chain_principal
  em_recording_epoch :: string
  em_scopes_seen :: "string list"
  em_queue :: "emission_unit list"
  em_queued_records :: int
  em_pending :: "(string, pending_gap) dict"
  em_flush_requests :: counter
  em_flush_completed :: counter
  em_retry_at :: "(string, int) dict"
  em_retry_backoff :: "(string, int) dict"
  em_final_attempt :: "string list"
  em_delivering :: bool
  em_inflight :: "emission_unit option"
  em_closing :: bool
  em_grades :: "(string \<times> string, grade_evaluation) dict"

definition evidence_emitter :: "int \<Rightarrow> int \<Rightarrow> caller_access \<Rightarrow> chain_principal \<Rightarrow> string \<Rightarrow> emitter result" where
  "evidence_emitter capacity interval access p epoch =
     guard (capacity < 1) ValueError (guard (\<not> (1 \<le> interval \<and> interval \<le> 300)) ValueError (Inr
       \<lparr>em_capacity = capacity, em_grade_interval = interval, em_daemon_access = access, em_daemon_principal = p,
        em_recording_epoch = epoch, em_scopes_seen = [], em_queue = [], em_queued_records = 0, em_pending = [],
        em_flush_requests = [], em_flush_completed = [], em_retry_at = [], em_retry_backoff = [], em_final_attempt = [],
        em_delivering = True, em_inflight = None, em_closing = False, em_grades = []\<rparr>))"

text \<open>\<open>_count_loss\<close>; it is given at least one loss.\<close>

definition count_loss :: "string \<Rightarrow> loss list \<Rightarrow> emitter \<Rightarrow> emitter" where
  "count_loss scope losses em = (case losses of
      [] \<Rightarrow> em
    | l # ls \<Rightarrow> em\<lparr>em_pending := AList.update scope
        (case map_of (em_pending em) scope of
           None \<Rightarrow> gap_of_losses l ls
         | Some pending \<Rightarrow> include_losses losses pending) (em_pending em)\<rparr>)"

text \<open>\<open>_open_scope\<close>: \<open>before_first_event\<close> is \<open>None\<close>, or answers or raises for a scope.\<close>

definition open_scope :: "(string \<Rightarrow> unit result) option \<Rightarrow> string \<Rightarrow> (emitter, unit) op" where
  "open_scope before scope em = (case before of
      None \<Rightarrow> (em, Inr ())
    | Some call \<Rightarrow>
        if scope \<in> set (em_scopes_seen em) then (em, Inr ())
        else (case call scope of
            Inl e \<Rightarrow> (em, Inl e)
          | Inr _ \<Rightarrow> (em\<lparr>em_scopes_seen := scope # em_scopes_seen em\<rparr>, Inr ())))"

text \<open>The critical section of \<open>_submit\<close>.\<close>

definition enqueue :: "string \<Rightarrow> evidence_record list \<Rightarrow> emitter \<Rightarrow> emitter \<times> bool" where
  "enqueue scope records em =
     (let n = int (length records)
      in if em_closing em then (count_loss scope (losses_of records) em, False)
         else if em_capacity em < n \<or> em_capacity em < em_queued_records em + n
         then (count_loss scope (losses_of records) em, False)
         else (em\<lparr>em_pending := AList.delete scope (em_pending em),
                   em_queue := em_queue em @
                     [\<lparr>un_scope = scope, un_records = records, un_gap_before = map_of (em_pending em) scope\<rparr>],
                   em_queued_records := em_queued_records em + n\<rparr>, em_delivering em))"

definition submit :: "(string \<Rightarrow> unit result) option \<Rightarrow> evidence_record list \<Rightarrow> (emitter, bool) op" where
  "submit before records em = (case records of
      [] \<Rightarrow> (em, Inr True)
    | r # _ \<Rightarrow>
        if list_ex (\<lambda>x. er_scope x \<noteq> er_scope r) records then (em, Inl ValueError)
        else (case open_scope before (er_scope r) em of
            (em, Inl e) \<Rightarrow> (em, Inl e)
          | (em, Inr _) \<Rightarrow> (case enqueue (er_scope r) records em of (em, accepted) \<Rightarrow> (em, Inr accepted))))"

definition emit :: "(string \<Rightarrow> unit result) option \<Rightarrow> evidence_record \<Rightarrow> (emitter, bool) op" where
  "emit before record_given = submit before [record_given]"

section \<open>Grades\<close>

definition grade_text :: "grade \<Rightarrow> string" where
  "grade_text g = (case g of
      Grade_unverified \<Rightarrow> ''unverified'' | Grade_observability \<Rightarrow> ''observability'' | Grade_evidence \<Rightarrow> ''evidence'')"

definition grade_record ::
  "string \<Rightarrow> string \<Rightarrow> chain_principal \<Rightarrow> string \<Rightarrow> datetime \<Rightarrow> grade_evaluation \<Rightarrow> evidence_record result" where
  "grade_record scope connection_id p epoch now ev =
     bind_r (chain_instant (ge_evaluated_at ev)) (\<lambda>evaluated_at.
       build_record scope ''grade'' now connection_id p
         [(''grade'', JStr (grade_text (ge_grade ev))), (''basis'', JStr (ge_basis ev)),
          (''evaluated_at'', JStr evaluated_at), (''paths_inspected'', JInt (int (ge_paths_inspected ev))),
          (''recording_epoch'', JStr epoch)])"

definition grade_record_if_needed ::
  "inspection \<Rightarrow> datetime \<Rightarrow> string \<Rightarrow> string \<Rightarrow> caller_access \<Rightarrow> chain_principal \<Rightarrow> bool \<Rightarrow>
   (emitter, evidence_record option) op" where
  "grade_record_if_needed ins clock scope connection_id caller p force em =
     (let key = (connection_id, scope); previous = map_of (em_grades em) key
      in case core_instant clock of
           Inl e \<Rightarrow> (em, Inl e)
         | Inr now \<Rightarrow>
             if \<not> force \<and> (case previous of None \<Rightarrow> False
                 | Some ev \<Rightarrow> micros now - micros (ge_evaluated_at ev) < seconds (em_grade_interval em))
             then (em, Inr None)
             else (case evaluate_scope ins scope caller now of
                 Inl e \<Rightarrow> (em, Inl e)
               | Inr ev \<Rightarrow>
                   let em' = em\<lparr>em_grades := AList.update key ev (em_grades em)\<rparr>
                   in if (case previous of None \<Rightarrow> False | Some old \<Rightarrow> ge_grade old = ge_grade ev) then (em', Inr None)
                      else (em', bind_r (grade_record scope connection_id p (em_recording_epoch em) now ev)
                             (\<lambda>r. Inr (Some r)))))"

definition daemon_grade_record :: "inspection \<Rightarrow> datetime \<Rightarrow> string \<Rightarrow> (emitter, evidence_record option) op" where
  "daemon_grade_record ins clock scope em =
     grade_record_if_needed ins clock scope DAEMON_CONNECTION (em_daemon_access em) (em_daemon_principal em) False em"

text \<open>\<open>evaluation_for\<close>.\<close>

definition evaluation_for ::
  "inspection \<Rightarrow> datetime \<Rightarrow> (string \<Rightarrow> unit result) option \<Rightarrow> string \<Rightarrow> evidence_connection \<Rightarrow> chain_principal \<Rightarrow> bool \<Rightarrow>
   (emitter, grade_evaluation) op" where
  "evaluation_for ins clock before scope c p force em =
     (case grade_record_if_needed ins clock scope (ec_connection_id c) (ec_access c) p force em of
        (em, Inl e) \<Rightarrow> (em, Inl e)
      | (em, Inr r) \<Rightarrow>
          (case (case r of None \<Rightarrow> (em, Inr True) | Some r \<Rightarrow> submit before [r] em) of
             (em, Inl e) \<Rightarrow> (em, Inl e)
           | (em, Inr _) \<Rightarrow> (em, (case map_of (em_grades em) (ec_connection_id c, scope) of
                 None \<Rightarrow> Inl KeyError | Some ev \<Rightarrow> Inr ev))))"

definition capture_member ::
  "capture_policy \<Rightarrow> redactor \<Rightarrow> string \<Rightarrow> string \<Rightarrow> string option \<Rightarrow> document" where
  "capture_member rules redactor scope capability payload =
     (case (for_capability rules capability, payload) of
        (Some rule, Some bytes) \<Rightarrow> [(''capture'', JObj (capture_of redactor scope capability bytes rule))]
      | _ \<Rightarrow> [])"

text \<open>\<open>emit_effect\<close>; the clock is read for the grade and again for the effect.\<close>

definition emit_effect ::
  "inspection \<Rightarrow> datetime \<Rightarrow> datetime \<Rightarrow> (string \<Rightarrow> unit result) option \<Rightarrow> capture_policy \<Rightarrow> redactor \<Rightarrow>
   string option \<Rightarrow> evidence_connection \<Rightarrow> chain_principal \<Rightarrow> string \<Rightarrow> effect_decision \<Rightarrow> string option \<Rightarrow>
   (emitter, bool) op" where
  "emit_effect ins clock clock' before rules redactor scope c p capability d payload em =
     (let actual = (case scope of None \<Rightarrow> ''local'' | Some s \<Rightarrow> if s = [] then ''local'' else s)
      in case effect_body (em_recording_epoch em) capability d of
           Inl e \<Rightarrow> (em, Inl e)
         | Inr body \<Rightarrow>
             (case grade_record_if_needed ins clock actual (ec_connection_id c) (ec_access c) p False em of
                (em, Inl e) \<Rightarrow> (em, Inl e)
              | (em, Inr graded) \<Rightarrow>
                  (case bind_r (core_instant clock') (\<lambda>at. build_record actual ''effect'' at (ec_connection_id c) p
                      (body @ capture_member rules redactor actual capability payload)) of
                     Inl e \<Rightarrow> (em, Inl e)
                   | Inr effect \<Rightarrow> submit before (case graded of None \<Rightarrow> [effect] | Some g \<Rightarrow> [g, effect]) em)))"

section \<open>The worker\<close>

definition gap_record :: "string \<Rightarrow> chain_principal \<Rightarrow> string \<Rightarrow> pending_gap \<Rightarrow> evidence_record result" where
  "gap_record scope p epoch g =
     bind_r (chain_instant (pg_first_at g)) (\<lambda>first_at.
     bind_r (chain_instant (pg_last_at g)) (\<lambda>last_at.
       build_record scope ''gap'' (pg_last_at g) DAEMON_CONNECTION p
         [(''reason'', JStr ''dropped''), (''count'', JInt (pg_count g)), (''first_at'', JStr first_at),
          (''last_at'', JStr last_at),
          (''kinds'', JObj (map (\<lambda>k. (k, JInt (counted (pg_kinds g) k))) (sort (map fst (pg_kinds g))))),
          (''accounting'', JStr ''event''), (''recording_epoch'', JStr epoch)]))"

definition append_gap ::
  "'s appending \<Rightarrow> inspection \<Rightarrow> datetime \<Rightarrow> string \<Rightarrow> pending_gap \<Rightarrow> (emitter \<times> 's, unit) op" where
  "append_gap put ins clock scope g w = (case w of (em, s) \<Rightarrow>
     (case daemon_grade_record ins clock scope em of
        (em, Inl e) \<Rightarrow> ((em, s), Inl e)
      | (em, Inr graded) \<Rightarrow>
          (case (case graded of None \<Rightarrow> (s, Inr ()) | Some r \<Rightarrow>
              (case put r s of (s, answer) \<Rightarrow> (s, bind_r answer (\<lambda>_. Inr ())))) of
             (s, Inl e) \<Rightarrow> ((em, s), Inl e)
           | (s, Inr _) \<Rightarrow>
               (case gap_record scope (em_daemon_principal em) (em_recording_epoch em) g of
                  Inl e \<Rightarrow> ((em, s), Inl e)
                | Inr r \<Rightarrow> (case put r s of (s, answer) \<Rightarrow> ((em, s), bind_r answer (\<lambda>_. Inr ())))))))"

text \<open>The records of a unit in order, up to the first the store refuses: how many it took, and whether it refused one.\<close>

fun append_records :: "'s appending \<Rightarrow> evidence_record list \<Rightarrow> 's \<Rightarrow> 's \<times> nat \<times> bool" where
  "append_records put [] s = (s, 0, False)"
| "append_records put (r # rs) s = (case put r s of
      (s, Inl _) \<Rightarrow> (s, 0, True)
    | (s, Inr _) \<Rightarrow> (case append_records put rs s of (s, n, failed) \<Rightarrow> (s, Suc n, failed)))"

record delivery =
  dv_completed :: nat
  dv_gap_written :: bool
  dv_failed :: bool

text \<open>The middle of \<open>_drain\<close>, outside the queue's lock.\<close>

definition deliver ::
  "'s appending \<Rightarrow> inspection \<Rightarrow> datetime \<Rightarrow> emission_unit \<Rightarrow> emitter \<times> 's \<Rightarrow> (emitter \<times> 's) \<times> delivery" where
  "deliver put ins clock u w =
     (case (case un_gap_before u of None \<Rightarrow> (w, Inr ()) | Some g \<Rightarrow> append_gap put ins clock (un_scope u) g w) of
        (w, Inl _) \<Rightarrow> (w, \<lparr>dv_completed = 0, dv_gap_written = False, dv_failed = True\<rparr>)
      | ((em, s), Inr _) \<Rightarrow> (case append_records put (un_records u) s of
          (s, n, failed) \<Rightarrow> ((em, s), \<lparr>dv_completed = n, dv_gap_written = (un_gap_before u \<noteq> None), dv_failed = failed\<rparr>)))"

definition back_off :: "int \<Rightarrow> string \<Rightarrow> emitter \<Rightarrow> emitter" where
  "back_off now scope em =
     (let previous = (case map_of (em_retry_backoff em) scope of None \<Rightarrow> 0 | Some d \<Rightarrow> d);
          delay = (if previous \<le> 0 then RETRY_INITIAL else min (previous * 2) RETRY_MAX)
      in em\<lparr>em_retry_backoff := AList.update scope delay (em_retry_backoff em),
            em_retry_at := AList.update scope (now + delay) (em_retry_at em)\<rparr>)"

definition add_kinds :: "counter \<Rightarrow> counter \<Rightarrow> counter" where
  "add_kinds c d = fold (\<lambda>(k, n). count_up k n) d c"

definition restore_gap :: "string \<Rightarrow> pending_gap \<Rightarrow> emitter \<Rightarrow> emitter" where
  "restore_gap scope g em =
     em\<lparr>em_pending := AList.update scope (case map_of (em_pending em) scope of
         None \<Rightarrow> g
       | Some present \<Rightarrow> \<lparr>pg_count = pg_count g + pg_count present, pg_first_at = earlier (pg_first_at g) (pg_first_at present),
           pg_last_at = later (pg_last_at g) (pg_last_at present),
           pg_kinds = add_kinds (pg_kinds g) (pg_kinds present)\<rparr>) (em_pending em)\<rparr>"

text \<open>The end of \<open>_drain\<close>'s round, under the lock again.\<close>

definition settle_unit :: "int \<Rightarrow> emission_unit \<Rightarrow> delivery \<Rightarrow> emitter \<Rightarrow> emitter" where
  "settle_unit now u d em =
     (let scope = un_scope u;
          em = (if dv_failed d then
              let em = em\<lparr>em_delivering := False\<rparr>;
                  em = (case un_gap_before u of None \<Rightarrow> em
                    | Some g \<Rightarrow> if dv_gap_written d then em else restore_gap scope g em);
                  em = count_loss scope (drop (dv_completed d) (losses_of (un_records u))) em
              in back_off now scope em
            else em\<lparr>em_delivering := True, em_retry_at := AList.delete scope (em_retry_at em),
                    em_retry_backoff := AList.delete scope (em_retry_backoff em)\<rparr>)
      in em\<lparr>em_inflight := None\<rparr>)"

definition complete_flush :: "string \<Rightarrow> emitter \<Rightarrow> emitter" where
  "complete_flush scope em =
     em\<lparr>em_flush_completed := count_up scope 1 (em_flush_completed em),
        em_retry_at := AList.delete scope (em_retry_at em), em_retry_backoff := AList.delete scope (em_retry_backoff em)\<rparr>"

text \<open>The loop of \<open>_next_unit\<close> over the scopes asked for.\<close>

fun serve_requests :: "int \<Rightarrow> string list \<Rightarrow> emitter \<Rightarrow> emitter \<times> emission_unit option" where
  "serve_requests now [] em = (em, None)"
| "serve_requests now (scope # scopes) em = (case map_of (em_pending em) scope of
      None \<Rightarrow> serve_requests now scopes (complete_flush scope em)
    | Some g \<Rightarrow>
        if (if em_closing em then scope \<in> set (em_final_attempt em)
            else now < (case map_of (em_retry_at em) scope of None \<Rightarrow> 0 | Some at \<Rightarrow> at))
        then serve_requests now scopes em
        else (em\<lparr>em_final_attempt := (if em_closing em then scope # em_final_attempt em else em_final_attempt em),
                 em_pending := AList.delete scope (em_pending em)\<rparr>,
              Some \<lparr>un_scope = scope, un_records = [], un_gap_before = Some g\<rparr>))"

definition next_unit :: "int \<Rightarrow> emitter \<Rightarrow> emitter \<times> emission_unit option" where
  "next_unit now em = (case em_queue em of
      u # us \<Rightarrow> (em\<lparr>em_queue := us, em_queued_records := em_queued_records em - int (length (un_records u))\<rparr>, Some u)
    | [] \<Rightarrow> serve_requests now
        (sort (remdups (map fst (em_flush_requests em) @ (if em_closing em then map fst (em_pending em) else [])))) em)"

definition retryable_pending :: "emitter \<Rightarrow> bool" where
  "retryable_pending em \<longleftrightarrow> list_ex (\<lambda>(scope, _). scope \<notin> set (em_final_attempt em)) (em_pending em)"

definition idle_timeout :: "int \<Rightarrow> emitter \<Rightarrow> int option" where
  "idle_timeout now em =
     (let deadlines = concat (map (\<lambda>(scope, _). case (map_of (em_pending em) scope, map_of (em_retry_at em) scope) of
         (Some _, Some at) \<Rightarrow> [at] | _ \<Rightarrow> []) (em_flush_requests em))
      in case deadlines of [] \<Rightarrow> None | d # ds \<Rightarrow> Some (max 0 (foldl min d ds - now)))"

text \<open>The head of \<open>_drain\<close>'s round: a unit is taken, the worker waits, or it ends.\<close>

datatype taking = Took emission_unit | Waits "int option" | Ends

definition take_unit :: "int \<Rightarrow> emitter \<Rightarrow> emitter \<times> taking" where
  "take_unit now em = (case next_unit now em of
      (em, Some u) \<Rightarrow> (em\<lparr>em_inflight := Some u\<rparr>, Took u)
    | (em, None) \<Rightarrow> (em, if em_closing em \<and> \<not> retryable_pending em then Ends else Waits (idle_timeout now em)))"

text \<open>\<open>_drain\<close>, while no other thread touches the emitter: a round each for what the world answers meanwhile (the facts of
  the paths, the clock, and the monotonic clock before and after); \<open>None\<close> is a worker that waits or has not ended.\<close>

fun drain_rounds :: "'s appending \<Rightarrow> (nat \<Rightarrow> inspection \<times> datetime \<times> int \<times> int) \<Rightarrow> nat \<Rightarrow> emitter \<times> 's \<Rightarrow> (emitter \<times> 's) option" where
  "drain_rounds put world 0 w = None"
| "drain_rounds put world (Suc n) (em, st) = (case world n of (ins, clock, now, after) \<Rightarrow> (case take_unit now em of
      (em, Took u) \<Rightarrow> (case deliver put ins clock u (em, st) of
          ((em, st), d) \<Rightarrow> drain_rounds put world n (settle_unit after u d em, st))
    | (em, Waits _) \<Rightarrow> None
    | (em, Ends) \<Rightarrow> Some (em, st)))"

section \<open>Flushing, closing, status\<close>

text \<open>\<open>flush\<close> of one scope: the request and its target, the condition it waits for, and the request withdrawn.\<close>

definition request_flush :: "string \<Rightarrow> (emitter, int) op" where
  "request_flush scope em =
     (if scope = [] then (em, Inl ValueError)
      else (em\<lparr>em_flush_requests := count_up scope 1 (em_flush_requests em)\<rparr>,
            Inr (counted (em_flush_completed em) scope + 1)))"

definition flush_done :: "string \<Rightarrow> int \<Rightarrow> emitter \<Rightarrow> bool" where
  "flush_done scope target em \<longleftrightarrow> target \<le> counted (em_flush_completed em) scope"

definition withdraw_flush :: "string \<Rightarrow> emitter \<Rightarrow> emitter" where
  "withdraw_flush scope em =
     (let left = counted (em_flush_requests em) scope - 1
      in em\<lparr>em_flush_requests := (if left \<le> 0 then AList.delete scope (em_flush_requests em)
                                  else AList.update scope left (em_flush_requests em))\<rparr>)"

definition flush_scopes :: "emitter \<Rightarrow> string list" where
  "flush_scopes em =
     sort (remdups (map fst (em_pending em) @ map un_scope (em_queue em) @ map (\<lambda>(key, _). snd key) (em_grades em) @
       (case em_inflight em of None \<Rightarrow> [] | Some u \<Rightarrow> [un_scope u])))"

definition close_emitter :: "emitter \<Rightarrow> emitter" where
  "close_emitter em = em\<lparr>em_closing := True\<rparr>"

definition pending_flush_requests :: "emitter \<Rightarrow> string list" where
  "pending_flush_requests em = sort (map fst (em_flush_requests em))"

text \<open>\<open>emission_status\<close>: what each scope holds, then the three members of the answer.\<close>

definition unit_holds :: "emission_unit \<Rightarrow> (string \<times> int) list" where
  "unit_holds u = (un_scope u, int (length (un_records u))) #
     (case un_gap_before u of None \<Rightarrow> [] | Some g \<Rightarrow> [(un_scope u, pg_count g)])"

definition status_holding :: "emitter \<Rightarrow> counter" where
  "status_holding em = fold (\<lambda>(scope, n). count_up scope n)
     (map (\<lambda>(scope, g). (scope, pg_count g)) (em_pending em) @
      concat (map unit_holds (em_queue em @ (case em_inflight em of None \<Rightarrow> [] | Some u \<Rightarrow> [u])))) []"

record emission_status =
  es_delivering :: bool
  es_undelivered_records :: int
  es_scopes_undelivered :: "string list"

definition emission_status :: "emitter \<Rightarrow> emission_status" where
  "emission_status em =
     (let held = status_holding em
      in \<lparr>es_delivering = em_delivering em, es_undelivered_records = sum_list (map snd held),
          es_scopes_undelivered = sort (map fst (filter (\<lambda>(_, n). n \<noteq> 0) held))\<rparr>)"

end
