(* ===== verification/EmitterInvariant.thy ===== *)
theory EmitterInvariant
  imports Emitter
begin

text \<open>
  What the emitter's operations keep: the shape of its pending gaps and units, the count of its queue, and the account of
  every record by scope and kind.
\<close>

section \<open>Counters and dictionaries\<close>

lemma counted_Cons: "counted ((j, n) # d) k = (if k = j then n else counted d k)"
  by (simp add: counted_def)

lemma counted_Nil [simp]: "counted [] k = 0"
  by (simp add: counted_def)

lemma counted_absent: "j \<notin> fst ` set d \<Longrightarrow> counted d j = 0"
  by (simp add: counted_def map_of_eq_None_iff [THEN iffD2])

lemma counted_count_up [simp]: "counted (count_up k n c) j = counted c j + (if j = k then n else 0)"
  by (simp add: counted_def count_up_def)

lemma well_keyed_count_up [simp]: "well_keyed (count_up k n c) \<longleftrightarrow> well_keyed c"
  by (simp add: count_up_def)

lemma sum_update:
  fixes f :: "'k \<times> 'v \<Rightarrow> int"
  assumes "well_keyed d"
  shows "sum_list (map f (AList.update k v d)) =
    sum_list (map f d) - (case map_of d k of None \<Rightarrow> 0 | Some w \<Rightarrow> f (k, w)) + f (k, v)"
  using assms
proof (induction d)
  case (Cons p d)
  have "map_of d k = None" if "k = fst p" using that Cons.prems by (auto simp: map_of_eq_None_iff)
  with Cons show ?case by (cases p) auto
qed simp

lemma sum_delete:
  fixes f :: "'k \<times> 'v \<Rightarrow> int"
  assumes "well_keyed d"
  shows "sum_list (map f (AList.delete k d)) = sum_list (map f d) - (case map_of d k of None \<Rightarrow> 0 | Some w \<Rightarrow> f (k, w))"
  using assms
proof (induction d)
  case (Cons p d)
  have "map_of d k = None \<and> AList.delete k d = d" if "k = fst p"
    using that Cons.prems by (auto simp: map_of_eq_None_iff AList.delete_id)
  with Cons show ?case by (cases p) auto
qed simp

lemma set_update: "(j, w) \<in> set (AList.update k v d) \<Longrightarrow> well_keyed d \<Longrightarrow> (j, w) = (k, v) \<or> (j, w) \<in> set d"
  by (induction d) (auto split: if_splits)

lemma set_delete: "set (AList.delete k d) \<subseteq> set d"
  by (auto simp: filter_delete)

lemma sum_count_up: "well_keyed c \<Longrightarrow> sum_list (map snd (count_up k n c)) = sum_list (map snd c) + n"
  by (simp add: count_up_def sum_update counted_def split: option.splits)

lemma counted_fold_losses:
  "counted (fold (\<lambda>l. count_up (ls_kind l) 1) ls c) k = counted c k + int (length (filter (\<lambda>l. ls_kind l = k) ls))"
  by (induction ls arbitrary: c) auto

lemma fold_losses_kept:
  "well_keyed c \<Longrightarrow> well_keyed (fold (\<lambda>l. count_up (ls_kind l) 1) ls c) \<and>
   sum_list (map snd (fold (\<lambda>l. count_up (ls_kind l) 1) ls c)) = sum_list (map snd c) + int (length ls)"
  by (induction ls arbitrary: c) (auto simp: sum_count_up)

lemma counted_add_kinds:
  assumes "well_keyed d"
  shows "counted (add_kinds c d) k = counted c k + counted d k"
proof -
  have "counted (fold (\<lambda>(k, n). count_up k n) d c) k = counted c k + counted d k" if "well_keyed d" for c d
    using that
  proof (induction d arbitrary: c)
    case (Cons p d)
    obtain j n where p: "p = (j, n)" by (cases p)
    have "counted d j = 0" using Cons.prems p by (intro counted_absent) auto
    with Cons p show ?case by (auto simp: counted_Cons)
  qed simp
  with assms show ?thesis by (simp add: add_kinds_def)
qed

lemma add_kinds_kept:
  "well_keyed c \<Longrightarrow> well_keyed (add_kinds c d) \<and>
   sum_list (map snd (add_kinds c d)) = sum_list (map snd c) + sum_list (map snd d)"
  unfolding add_kinds_def by (induction d arbitrary: c) (auto simp: sum_count_up split_beta)

section \<open>Gaps and units\<close>

text \<open>Every kind counted is one of the chain's, at least once.\<close>

definition kinds_ok :: "counter \<Rightarrow> bool" where
  "kinds_ok c \<longleftrightarrow> well_keyed c \<and> (\<forall>(k, n) \<in> set c. k \<in> set ENTRY_KINDS \<and> 1 \<le> n)"

lemma kinds_ok_count_up:
  assumes "kinds_ok c" and "k \<in> set ENTRY_KINDS" and "1 \<le> n"
  shows "kinds_ok (count_up k n c)"
proof -
  have "0 \<le> counted c k" using assms(1) by (auto simp: kinds_ok_def counted_def dest!: map_of_SomeD split: option.splits)
  then show ?thesis using assms by (auto simp: kinds_ok_def count_up_def dest!: set_update)
qed

lemma kinds_ok_fold:
  "kinds_ok c \<Longrightarrow> \<forall>l \<in> set ls. ls_kind l \<in> set ENTRY_KINDS \<Longrightarrow> kinds_ok (fold (\<lambda>l. count_up (ls_kind l) 1) ls c)"
  by (induction ls arbitrary: c) (auto simp: kinds_ok_count_up)

lemma kinds_ok_fold_up:
  "kinds_ok c \<Longrightarrow> \<forall>(k, n) \<in> set d. k \<in> set ENTRY_KINDS \<and> 1 \<le> n \<Longrightarrow> kinds_ok (fold (\<lambda>(k, n). count_up k n) d c)"
proof (induction d arbitrary: c)
  case (Cons p d)
  obtain j n where p: "p = (j, n)" by (cases p)
  then have "kinds_ok (count_up j n c)" using Cons.prems by (intro kinds_ok_count_up) auto
  from Cons.IH [OF this] Cons.prems p show ?case by simp
qed simp

lemma kinds_ok_add: "kinds_ok c \<Longrightarrow> kinds_ok d \<Longrightarrow> kinds_ok (add_kinds c d)"
  unfolding add_kinds_def by (rule kinds_ok_fold_up) (simp_all add: kinds_ok_def)

text \<open>Instants between the first and the last a gap names.\<close>

definition gap_ok :: "pending_gap \<Rightarrow> bool" where
  "gap_ok g \<longleftrightarrow> kinds_ok (pg_kinds g) \<and> pg_count g = sum_list (map snd (pg_kinds g)) \<and> 1 \<le> pg_count g \<and>
     is_aware (pg_first_at g) \<and> is_aware (pg_last_at g) \<and> micros (pg_first_at g) \<le> micros (pg_last_at g)"

definition loss_ok :: "loss \<Rightarrow> bool" where
  "loss_ok l \<longleftrightarrow> ls_kind l \<in> set ENTRY_KINDS \<and> is_aware (ls_recorded_at l)"

lemma earliest:
  "is_aware a \<Longrightarrow> \<forall>b \<in> set bs. is_aware b \<Longrightarrow> is_aware (foldl earlier a bs) \<and> micros (foldl earlier a bs) \<le> micros a"
proof (induction bs arbitrary: a)
  case (Cons b bs)
  then have "is_aware (earlier a b)" "micros (earlier a b) \<le> micros a" by (auto simp: earlier_def)
  with Cons.IH [of "earlier a b"] Cons.prems show ?case by force
qed simp

lemma latest:
  "is_aware a \<Longrightarrow> \<forall>b \<in> set bs. is_aware b \<Longrightarrow> is_aware (foldl later a bs) \<and> micros a \<le> micros (foldl later a bs)"
proof (induction bs arbitrary: a)
  case (Cons b bs)
  then have "is_aware (later a b)" "micros a \<le> micros (later a b)" by (auto simp: later_def)
  with Cons.IH [of "later a b"] Cons.prems show ?case by force
qed simp

lemma gap_ok_of_losses: "loss_ok l \<Longrightarrow> \<forall>m \<in> set ls. loss_ok m \<Longrightarrow> gap_ok (gap_of_losses l ls)"
  using earliest [of "ls_recorded_at l" "map ls_recorded_at ls"] latest [of "ls_recorded_at l" "map ls_recorded_at ls"]
    kinds_ok_fold [of "[]" "l # ls"] fold_losses_kept [of "[]" "l # ls"]
  by (auto simp: gap_of_losses_def gap_ok_def loss_ok_def kinds_ok_def)

lemma gap_ok_include: "gap_ok g \<Longrightarrow> \<forall>m \<in> set ls. loss_ok m \<Longrightarrow> gap_ok (include_losses ls g)"
  using earliest [of "pg_first_at g" "map ls_recorded_at ls"] latest [of "pg_last_at g" "map ls_recorded_at ls"]
    kinds_ok_fold [of "pg_kinds g" ls] fold_losses_kept [of "pg_kinds g" ls]
  by (auto simp: include_losses_def gap_ok_def loss_ok_def kinds_ok_def)

definition unit_ok :: "emission_unit \<Rightarrow> bool" where
  "unit_ok u \<longleftrightarrow> (\<forall>r \<in> set (un_records u). er_scope r = un_scope u \<and> record_post_init r = Inr ()) \<and>
     (case un_gap_before u of None \<Rightarrow> True | Some g \<Rightarrow> gap_ok g)"

lemma record_kind: "record_post_init r = Inr () \<Longrightarrow> er_kind r \<in> set ENTRY_KINDS \<and> is_aware (er_recorded_at r)"
  by (simp add: record_post_init_def split: if_splits)

lemma losses_ok: "\<forall>r \<in> set rs. record_post_init r = Inr () \<Longrightarrow> \<forall>l \<in> set (losses_of rs). loss_ok l"
  using record_kind by (auto simp: losses_of_def loss_ok_def)

section \<open>The account\<close>

text \<open>How many records of a scope and a kind a list holds, a gap declares, a unit carries, the emitter holds.\<close>

definition weigh :: "string \<Rightarrow> string \<Rightarrow> evidence_record list \<Rightarrow> int" where
  "weigh s k rs = int (length (filter (\<lambda>r. er_scope r = s \<and> er_kind r = k) rs))"

definition gap_weight :: "string \<Rightarrow> string \<Rightarrow> string \<times> pending_gap \<Rightarrow> int" where
  "gap_weight s k p = (if fst p = s then counted (pg_kinds (snd p)) k else 0)"

definition before_weight :: "string \<Rightarrow> string \<Rightarrow> emission_unit \<Rightarrow> int" where
  "before_weight s k u = (case un_gap_before u of None \<Rightarrow> 0 | Some g \<Rightarrow> gap_weight s k (un_scope u, g))"

definition unit_weight :: "string \<Rightarrow> string \<Rightarrow> emission_unit \<Rightarrow> int" where
  "unit_weight s k u = weigh s k (un_records u) + before_weight s k u"

definition held :: "string \<Rightarrow> string \<Rightarrow> emitter \<Rightarrow> int" where
  "held s k em = sum_list (map (gap_weight s k) (em_pending em)) + sum_list (map (unit_weight s k) (em_queue em)) +
     (case em_inflight em of None \<Rightarrow> 0 | Some u \<Rightarrow> unit_weight s k u)"

lemma weigh_simps [simp]: "weigh s k [] = 0" "weigh s k (rs @ rs') = weigh s k rs + weigh s k rs'"
  by (simp_all add: weigh_def)

lemma weigh_losses:
  assumes "\<forall>r \<in> set rs. er_scope r = scope"
  shows "weigh s k rs = (if scope = s then int (length (filter (\<lambda>l. ls_kind l = k) (losses_of rs))) else 0)"
proof -
  have "filter (\<lambda>r. er_scope r = s \<and> er_kind r = k) rs = (if scope = s then filter (\<lambda>r. er_kind r = k) rs else [])"
    using assms by (auto simp: filter_empty_conv intro: filter_cong)
  then show ?thesis by (simp add: weigh_def losses_of_def filter_map comp_def)
qed

definition emitter_ok :: "emitter \<Rightarrow> bool" where
  "emitter_ok em \<longleftrightarrow> well_keyed (em_pending em) \<and> (\<forall>(s, g) \<in> set (em_pending em). gap_ok g) \<and>
     (\<forall>u \<in> set (em_queue em). unit_ok u) \<and> (case em_inflight em of None \<Rightarrow> True | Some u \<Rightarrow> unit_ok u) \<and>
     em_queued_records em = sum_list (map (\<lambda>u. int (length (un_records u))) (em_queue em)) \<and>
     em_queued_records em \<le> em_capacity em"

lemma pending_ok: "emitter_ok em \<Longrightarrow> map_of (em_pending em) s = Some g \<Longrightarrow> gap_ok g"
  by (auto simp: emitter_ok_def dest: map_of_SomeD)

lemma emitter_ok_pending:
  "emitter_ok em \<Longrightarrow> gap_ok g \<Longrightarrow> emitter_ok (em\<lparr>em_pending := AList.update s g (em_pending em)\<rparr>)"
  by (auto simp: emitter_ok_def dest!: set_update)

lemma count_loss_ok:
  assumes "emitter_ok em" and "\<forall>l \<in> set ls. loss_ok l"
  shows "emitter_ok (count_loss scope ls em)"
  using assms pending_ok [OF assms(1), of scope]
  by (auto simp: count_loss_def intro!: emitter_ok_pending gap_ok_of_losses gap_ok_include split: list.splits option.splits)

lemma count_loss_held:
  assumes "emitter_ok em"
  shows "held s k (count_loss scope ls em) = held s k em + (if scope = s then int (length (filter (\<lambda>l. ls_kind l = k) ls)) else 0)"
proof -
  have keyed: "well_keyed (em_pending em)" using assms by (simp add: emitter_ok_def)
  have "held s k (em\<lparr>em_pending := AList.update scope g (em_pending em)\<rparr>) =
      held s k em - (case map_of (em_pending em) scope of None \<Rightarrow> 0 | Some old \<Rightarrow> gap_weight s k (scope, old)) + gap_weight s k (scope, g)" for g
    by (simp add: held_def sum_update [OF keyed])
  then show ?thesis
    by (auto simp: count_loss_def gap_weight_def gap_of_losses_def include_losses_def counted_fold_losses
        split: list.splits option.splits)
qed

lemma restore_gap_ok: "emitter_ok em \<Longrightarrow> gap_ok g \<Longrightarrow> emitter_ok (restore_gap scope g em)"
  using pending_ok [of em scope]
  by (auto simp: restore_gap_def gap_ok_def earlier_def later_def kinds_ok_add add_kinds_kept kinds_ok_def [THEN iffD1, THEN conjunct1]
      intro!: emitter_ok_pending split: option.splits)

lemma restore_gap_held:
  assumes "emitter_ok em" and "gap_ok g"
  shows "held s k (restore_gap scope g em) = held s k em + gap_weight s k (scope, g)"
proof -
  have keyed: "well_keyed (em_pending em)" using assms by (simp add: emitter_ok_def)
  have "well_keyed (pg_kinds p)" if "map_of (em_pending em) scope = Some p" for p
    using pending_ok [OF assms(1) that] by (simp add: gap_ok_def kinds_ok_def)
  then show ?thesis
    by (auto simp: restore_gap_def held_def sum_update [OF keyed] gap_weight_def counted_add_kinds split: option.splits)
qed

end
