(* ===== verification/EmitterRuns.thy ===== *)
theory EmitterRuns
  imports EmitterInvariant
begin

text \<open>
  Every run of the emitter: threads that emit, grade, flush and close, the worker that takes, delivers and settles, and
  other writers of the store, in any order; the account of all of them.
\<close>

section \<open>What each operation does to the account\<close>

lemma held_fields [simp]:
  "held s k (em\<lparr>em_grades := a\<rparr>) = held s k em" "held s k (em\<lparr>em_scopes_seen := b\<rparr>) = held s k em"
  "held s k (em\<lparr>em_flush_requests := c\<rparr>) = held s k em" "held s k (em\<lparr>em_closing := d\<rparr>) = held s k em"
  "held s k (em\<lparr>em_delivering := e\<rparr>) = held s k em" "held s k (complete_flush scope em) = held s k em"
  "held s k (back_off now scope em) = held s k em" "held s k (em\<lparr>em_retry_at := f, em_retry_backoff := g\<rparr>) = held s k em"
  "held s k (em\<lparr>em_final_attempt := h\<rparr>) = held s k em"
  by (simp_all add: held_def complete_flush_def back_off_def Let_def)

lemma emitter_ok_fields [simp]:
  "emitter_ok (em\<lparr>em_grades := a\<rparr>) = emitter_ok em" "emitter_ok (em\<lparr>em_scopes_seen := b\<rparr>) = emitter_ok em"
  "emitter_ok (em\<lparr>em_flush_requests := c\<rparr>) = emitter_ok em" "emitter_ok (em\<lparr>em_closing := d\<rparr>) = emitter_ok em"
  "emitter_ok (em\<lparr>em_delivering := e\<rparr>) = emitter_ok em" "emitter_ok (complete_flush scope em) = emitter_ok em"
  "emitter_ok (back_off now scope em) = emitter_ok em"
  "emitter_ok (em\<lparr>em_retry_at := f, em_retry_backoff := g\<rparr>) = emitter_ok em"
  "emitter_ok (em\<lparr>em_final_attempt := h\<rparr>) = emitter_ok em"
  by (simp_all add: emitter_ok_def complete_flush_def back_off_def Let_def)

lemma inflight_fields [simp]:
  "em_inflight (complete_flush scope em) = em_inflight em" "em_inflight (back_off now scope em) = em_inflight em"
  "em_inflight (count_loss scope ls em) = em_inflight em" "em_inflight (restore_gap scope g em) = em_inflight em"
  "em_queue (complete_flush scope em) = em_queue em"
  by (simp_all add: complete_flush_def back_off_def count_loss_def restore_gap_def Let_def split: list.split)

lemma enqueue_account:
  assumes "emitter_ok em" and "\<forall>r \<in> set rs. er_scope r = scope \<and> record_post_init r = Inr ()"
    and "enqueue scope rs em = (em', b)"
  shows "emitter_ok em' \<and> em_inflight em' = em_inflight em \<and> (\<forall>s k. held s k em' = held s k em + weigh s k rs)"
proof -
  have losses: "\<forall>l \<in> set (losses_of rs). loss_ok l" using assms(2) by (intro losses_ok) auto
  have weigh: "weigh s k rs = (if scope = s then int (length (filter (\<lambda>l. ls_kind l = k) (losses_of rs))) else 0)" for s k
    using assms(2) by (intro weigh_losses) auto
  have keyed: "well_keyed (em_pending em)" using assms(1) by (simp add: emitter_ok_def)
  define u where "u = \<lparr>un_scope = scope, un_records = rs, un_gap_before = map_of (em_pending em) scope\<rparr>"
  define em2 where "em2 = em\<lparr>em_pending := AList.delete scope (em_pending em), em_queue := em_queue em @ [u],
      em_queued_records := em_queued_records em + int (length rs)\<rparr>"
  consider "em' = count_loss scope (losses_of rs) em" | "em' = em2" "em_queued_records em + int (length rs) \<le> em_capacity em"
    using assms(3) by (auto simp: enqueue_def Let_def em2_def u_def split: if_splits)
  then show ?thesis
  proof cases
    case 1
    then show ?thesis
      by (simp add: count_loss_ok [OF assms(1) losses] count_loss_held [OF assms(1)] weigh)
  next
    case 2
    have "unit_ok u"
      using assms(2) pending_ok [OF assms(1), of scope] by (auto simp: unit_ok_def u_def split: option.splits)
    then have "emitter_ok em2"
      using assms(1) 2(2) set_delete [of scope "em_pending em"] by (auto simp: emitter_ok_def em2_def u_def)
    moreover have "held s k em2 = held s k em + weigh s k rs" for s k
      by (simp add: em2_def u_def held_def sum_delete [OF keyed] unit_weight_def before_weight_def split: option.split)
    ultimately show ?thesis using 2 by (simp add: em2_def)
  qed
qed

lemma open_scope_account:
  "open_scope before scope em = (em', x) \<Longrightarrow> \<exists>seen. em' = em\<lparr>em_scopes_seen := seen\<rparr>"
  by (cases em) (auto simp: open_scope_def split: option.splits if_splits sum.splits)

lemma submit_account:
  assumes "emitter_ok em" and "\<forall>r \<in> set rs. record_post_init r = Inr ()" and "submit before rs em = (em', x)"
  shows "emitter_ok em' \<and> em_inflight em' = em_inflight em \<and>
    (\<forall>s k. held s k em' = held s k em + (case x of Inl _ \<Rightarrow> 0 | Inr _ \<Rightarrow> weigh s k rs))"
proof (cases rs)
  case Nil
  with assms show ?thesis by (auto simp: submit_def)
next
  case (Cons r tl)
  obtain em1 y where opened: "open_scope before (er_scope r) em = (em1, y)" by (cases "open_scope before (er_scope r) em")
  obtain seen where em1: "em1 = em\<lparr>em_scopes_seen := seen\<rparr>" using open_scope_account [OF opened] by blast
  obtain em2 b where queued: "enqueue (er_scope r) rs em1 = (em2, b)" by (cases "enqueue (er_scope r) rs em1")
  show ?thesis
  proof (cases "list_ex (\<lambda>x. er_scope x \<noteq> er_scope r) rs \<or> (\<exists>e. y = Inl e)")
    case True
    with assms Cons opened em1 show ?thesis by (auto simp: submit_def split: if_splits)
  next
    case False
    then have "\<forall>x \<in> set rs. er_scope x = er_scope r \<and> record_post_init x = Inr ()"
      using assms(2) by (auto simp: list_ex_iff)
    from enqueue_account [OF _ this queued] False assms(1,3) Cons opened queued em1 show ?thesis
      by (cases y) (auto simp: submit_def)
  qed
qed

lemma grade_account:
  "grade_record_if_needed ins clock scope c caller p force em = (em', x) \<Longrightarrow> \<exists>grades. em' = em\<lparr>em_grades := grades\<rparr>"
  by (cases em) (auto simp: grade_record_if_needed_def Let_def split: sum.splits if_splits option.splits)

lemma append_gap_account: "append_gap put ins clock scope g (em, st) = ((em', st'), x) \<Longrightarrow> \<exists>grades. em' = em\<lparr>em_grades := grades\<rparr>"
  by (auto simp: append_gap_def daemon_grade_record_def split: prod.splits sum.splits option.splits dest!: grade_account)

lemma append_records_count:
  "append_records put rs st = (st', n, failed) \<Longrightarrow> n \<le> length rs \<and> (\<not> failed \<longrightarrow> n = length rs)"
  by (induction rs arbitrary: st n) (auto split: prod.splits sum.splits)

definition delivery_ok :: "emission_unit \<Rightarrow> delivery \<Rightarrow> bool" where
  "delivery_ok u d \<longleftrightarrow> dv_completed d \<le> length (un_records u) \<and>
     (dv_gap_written d \<longrightarrow> un_gap_before u \<noteq> None) \<and>
     (\<not> dv_failed d \<longrightarrow> dv_completed d = length (un_records u) \<and> (un_gap_before u \<noteq> None \<longrightarrow> dv_gap_written d)) \<and>
     (un_gap_before u \<noteq> None \<and> \<not> dv_gap_written d \<longrightarrow> dv_completed d = 0)"

lemma deliver_account:
  assumes "deliver put ins clock u (em, st) = ((em', st'), d)"
  shows "delivery_ok u d \<and> (\<exists>grades. em' = em\<lparr>em_grades := grades\<rparr>)"
proof (cases "un_gap_before u")
  case None
  with assms append_records_count [of put "un_records u" st] show ?thesis
    by (cases em) (auto simp: deliver_def delivery_ok_def split: prod.splits)
next
  case (Some g)
  obtain em1 st1 x where gap: "append_gap put ins clock (un_scope u) g (em, st) = ((em1, st1), x)"
    by (metis prod.exhaust)
  obtain grades where em1: "em1 = em\<lparr>em_grades := grades\<rparr>" using append_gap_account [OF gap] by blast
  from assms Some gap em1 append_records_count [of put "un_records u" st1] show ?thesis
    by (cases x) (auto simp: deliver_def delivery_ok_def split: prod.splits)
qed

text \<open>How much of the unit in flight is recorded or declared already.\<close>

definition progress :: "string \<Rightarrow> string \<Rightarrow> emission_unit \<Rightarrow> delivery \<Rightarrow> int" where
  "progress s k u d = weigh s k (take (dv_completed d) (un_records u)) + (if dv_gap_written d then before_weight s k u else 0)"

lemma losses_of_drop: "drop n (losses_of rs) = losses_of (drop n rs)"
  by (simp add: losses_of_def drop_map)

lemma clear_inflight:
  assumes "emitter_ok em" and "em_inflight em = Some u"
  shows "emitter_ok (em\<lparr>em_inflight := None\<rparr>) \<and> (\<forall>s k. held s k (em\<lparr>em_inflight := None\<rparr>) = held s k em - unit_weight s k u)"
  using assms by (simp add: emitter_ok_def held_def)

lemma settle_account:
  assumes "emitter_ok em" and "em_inflight em = Some u" and "unit_ok u" and "delivery_ok u d"
  shows "emitter_ok (settle_unit now u d em) \<and> em_inflight (settle_unit now u d em) = None \<and>
    (\<forall>s k. held s k (settle_unit now u d em) = held s k em - progress s k u d)"
proof (cases "dv_failed d")
  case False
  define em1 where "em1 = em\<lparr>em_delivering := True, em_retry_at := AList.delete (un_scope u) (em_retry_at em),
      em_retry_backoff := AList.delete (un_scope u) (em_retry_backoff em)\<rparr>"
  have em1: "emitter_ok em1" "em_inflight em1 = Some u" "\<And>s k. held s k em1 = held s k em"
    using assms(1,2) by (simp_all add: em1_def emitter_ok_def held_def)
  have "settle_unit now u d em = em1\<lparr>em_inflight := None\<rparr>"
    using False by (simp add: settle_unit_def em1_def Let_def)
  moreover have "unit_weight s k u = progress s k u d" for s k
    using assms(4) False by (auto simp: delivery_ok_def progress_def unit_weight_def before_weight_def split: option.split)
  ultimately show ?thesis using clear_inflight [OF em1(1,2)] em1(3) by simp
next
  case True
  define em0 where "em0 = em\<lparr>em_delivering := False\<rparr>"
  define em1 where "em1 = (case un_gap_before u of None \<Rightarrow> em0 | Some g \<Rightarrow> if dv_gap_written d then em0 else restore_gap (un_scope u) g em0)"
  define rest where "rest = drop (dv_completed d) (un_records u)"
  define em2 where "em2 = count_loss (un_scope u) (losses_of rest) em1"
  have eq: "settle_unit now u d em = (back_off now (un_scope u) em2)\<lparr>em_inflight := None\<rparr>"
    using True by (simp add: settle_unit_def em0_def em1_def em2_def rest_def losses_of_drop Let_def split: option.split)
  have rest: "\<forall>r \<in> set rest. er_scope r = un_scope u \<and> record_post_init r = Inr ()"
    using assms(3) set_drop_subset by (fastforce simp: unit_ok_def rest_def)
  have gap: "gap_ok g" if "un_gap_before u = Some g" for g using assms(3) that by (simp add: unit_ok_def)
  have em0: "emitter_ok em0" "em_inflight em0 = Some u" "\<And>s k. held s k em0 = held s k em"
    using assms(1,2) by (simp_all add: em0_def)
  have em1: "emitter_ok em1" "em_inflight em1 = Some u"
    "\<And>s k. held s k em1 = held s k em + before_weight s k u - (if dv_gap_written d then before_weight s k u else 0)"
    using em0 gap assms(4)
    by (auto simp: em1_def restore_gap_ok restore_gap_held before_weight_def delivery_ok_def split: option.split)
  have weigh: "weigh s k rest = (if un_scope u = s then int (length (filter (\<lambda>l. ls_kind l = k) (losses_of rest))) else 0)" for s k
    using rest by (intro weigh_losses) auto
  have em2: "emitter_ok em2" "em_inflight em2 = Some u" "\<And>s k. held s k em2 = held s k em1 + weigh s k rest"
    using em1 count_loss_ok [OF em1(1) losses_ok, of rest "un_scope u"] rest
    by (simp_all add: em2_def count_loss_held weigh)
  have "weigh s k (un_records u) = weigh s k (take (dv_completed d) (un_records u)) + weigh s k rest" for s k
    using weigh_simps(2) [of s k "take (dv_completed d) (un_records u)" rest] by (simp add: rest_def)
  then show ?thesis
    unfolding eq using clear_inflight [of "back_off now (un_scope u) em2" u] em2 em1(3)
    by (simp add: unit_weight_def progress_def)
qed

text \<open>Taking a unit moves it from where it was held to the worker.\<close>

lemma serve_requests_account:
  assumes "serve_requests now scopes em = (em', r)" and "emitter_ok em"
  shows "emitter_ok em' \<and> em_inflight em' = em_inflight em \<and> em_queue em' = em_queue em \<and>
    (case r of None \<Rightarrow> \<forall>s k. held s k em' = held s k em
     | Some u \<Rightarrow> unit_ok u \<and> (\<forall>s k. held s k em' + unit_weight s k u = held s k em))"
  using assms
proof (induction now scopes em rule: serve_requests.induct)
  case (2 now scope scopes em)
  show ?case
  proof (cases "map_of (em_pending em) scope")
    case None
    with "2.IH"(1) [OF None] "2.prems" show ?thesis by (cases r) simp_all
  next
    case (Some g)
    show ?thesis
    proof (cases "if em_closing em then scope \<in> set (em_final_attempt em)
            else now < (case map_of (em_retry_at em) scope of None \<Rightarrow> 0 | Some at \<Rightarrow> at)")
      case True
      have "serve_requests now scopes em = (em', r)"
        using "2.prems"(1) unfolding serve_requests.simps Some option.case if_P [OF True] .
      from "2.IH"(2) [OF Some True this "2.prems"(2)] show ?thesis .
    next
      case False
      have keyed: "well_keyed (em_pending em)" using "2.prems"(2) by (simp add: emitter_ok_def)
      define final where "final = (if em_closing em then scope # em_final_attempt em else em_final_attempt em)"
      have r: "em' = em\<lparr>em_final_attempt := final, em_pending := AList.delete scope (em_pending em)\<rparr>"
        "r = Some \<lparr>un_scope = scope, un_records = [], un_gap_before = Some g\<rparr>"
        using "2.prems"(1) Some False by (simp_all add: final_def split: if_splits)
      have "emitter_ok em'"
        using "2.prems"(2) set_delete [of scope "em_pending em"] by (auto simp: r(1) emitter_ok_def)
      moreover have "gap_ok g" using pending_ok [OF "2.prems"(2) Some] .
      ultimately show ?thesis
        by (simp add: r unit_ok_def held_def sum_delete [OF keyed] Some unit_weight_def before_weight_def)
    qed
  qed
qed simp

lemma take_account:
  assumes "emitter_ok em" and "em_inflight em = None" and "take_unit now em = (em', t)"
  shows "emitter_ok em' \<and> em_inflight em' = (case t of Took u \<Rightarrow> Some u | _ \<Rightarrow> None) \<and> (\<forall>s k. held s k em' = held s k em)"
proof (cases "em_queue em")
  case Nil
  obtain em1 r where r: "next_unit now em = (em1, r)" by (cases "next_unit now em")
  from serve_requests_account [OF r [unfolded next_unit_def Nil, simplified] assms(1)] assms(2,3) r show ?thesis
    by (auto simp: take_unit_def emitter_ok_def held_def split: option.splits if_splits)
next
  case (Cons u us)
  then have "em' = em\<lparr>em_queue := us, em_queued_records := em_queued_records em - int (length (un_records u)),
      em_inflight := Some u\<rparr>" "t = Took u"
    using assms(3) by (simp_all add: take_unit_def next_unit_def)
  then show ?thesis using assms(1,2) Cons by (simp add: emitter_ok_def held_def)
qed

section \<open>Runs\<close>

datatype worker = Resting | Appending emission_unit | Settling emission_unit delivery | Ended

text \<open>The emitter, the store, the place of the worker, and the books: what was handed to the emitter without an
  exception, what the store took of it, and the gaps the store took.\<close>

record 's emission =
  ms_em :: emitter
  ms_store :: 's
  ms_worker :: worker
  ms_emitted :: "evidence_record list"
  ms_recorded :: "evidence_record list"
  ms_declared :: "(string \<times> pending_gap) list"

definition taken_by :: "taking \<Rightarrow> worker" where
  "taken_by t = (case t of Took u \<Rightarrow> Appending u | Waits _ \<Rightarrow> Resting | Ends \<Rightarrow> Ended)"

definition declares :: "emission_unit \<Rightarrow> delivery \<Rightarrow> (string \<times> pending_gap) list" where
  "declares u d = (case un_gap_before u of Some g \<Rightarrow> if dv_gap_written d then [(un_scope u, g)] else [] | None \<Rightarrow> [])"

inductive emission_step :: "'s appending \<Rightarrow> 's emission \<Rightarrow> 's emission \<Rightarrow> bool" for put :: "'s appending" where
  emits: "submit before rs (ms_em m) = (em, x) \<Longrightarrow> \<forall>r \<in> set rs. record_post_init r = Inr () \<Longrightarrow>
    emission_step put m (m\<lparr>ms_em := em, ms_emitted := ms_emitted m @ (case x of Inl _ \<Rightarrow> [] | Inr _ \<Rightarrow> rs)\<rparr>)"
| grades: "grade_record_if_needed ins clock scope c caller p force (ms_em m) = (em, x) \<Longrightarrow>
    emission_step put m (m\<lparr>ms_em := em\<rparr>)"
| asks_flush: "request_flush scope (ms_em m) = (em, x) \<Longrightarrow> emission_step put m (m\<lparr>ms_em := em\<rparr>)"
| withdraws_flush: "emission_step put m (m\<lparr>ms_em := withdraw_flush scope (ms_em m)\<rparr>)"
| closes: "emission_step put m (m\<lparr>ms_em := close_emitter (ms_em m)\<rparr>)"
| takes: "ms_worker m = Resting \<Longrightarrow> take_unit now (ms_em m) = (em, t) \<Longrightarrow>
    emission_step put m (m\<lparr>ms_em := em, ms_worker := taken_by t\<rparr>)"
| delivers: "ms_worker m = Appending u \<Longrightarrow> deliver put ins clock u (ms_em m, ms_store m) = ((em, st), d) \<Longrightarrow>
    emission_step put m (m\<lparr>ms_em := em, ms_store := st, ms_worker := Settling u d,
      ms_recorded := ms_recorded m @ take (dv_completed d) (un_records u),
      ms_declared := ms_declared m @ declares u d\<rparr>)"
| settles: "ms_worker m = Settling u d \<Longrightarrow>
    emission_step put m (m\<lparr>ms_em := settle_unit now u d (ms_em m), ms_worker := Resting\<rparr>)"
| others_write: "emission_step put m (m\<lparr>ms_store := st\<rparr>)"

definition begun :: "emitter \<Rightarrow> 's \<Rightarrow> 's emission" where
  "begun em st = \<lparr>ms_em = em, ms_store = st, ms_worker = Resting, ms_emitted = [], ms_recorded = [], ms_declared = []\<rparr>"

inductive emission_run :: "'s appending \<Rightarrow> emitter \<Rightarrow> 's \<Rightarrow> 's emission \<Rightarrow> bool" for put :: "'s appending" and em st where
  starts: "emission_run put em st (begun em st)"
| goes_on: "emission_run put em st m \<Longrightarrow> emission_step put m m' \<Longrightarrow> emission_run put em st m'"

definition underway :: "string \<Rightarrow> string \<Rightarrow> worker \<Rightarrow> int" where
  "underway s k w = (case w of Settling u d \<Rightarrow> progress s k u d | _ \<Rightarrow> 0)"

definition worker_unit :: "worker \<Rightarrow> emission_unit option" where
  "worker_unit w = (case w of Appending u \<Rightarrow> Some u | Settling u _ \<Rightarrow> Some u | _ \<Rightarrow> None)"

definition emission_ok :: "'s emission \<Rightarrow> bool" where
  "emission_ok m \<longleftrightarrow> emitter_ok (ms_em m) \<and> em_inflight (ms_em m) = worker_unit (ms_worker m) \<and>
     (case ms_worker m of Settling u d \<Rightarrow> delivery_ok u d | _ \<Rightarrow> True) \<and>
     (\<forall>s k. weigh s k (ms_emitted m) =
        weigh s k (ms_recorded m) + sum_list (map (gap_weight s k) (ms_declared m)) + held s k (ms_em m) - underway s k (ms_worker m))"

lemma declares_weight: "delivery_ok u d \<Longrightarrow> sum_list (map (gap_weight s k) (declares u d)) = (if dv_gap_written d then before_weight s k u else 0)"
  by (auto simp: declares_def before_weight_def split: option.splits)

lemma emission_step_ok: "emission_step put m m' \<Longrightarrow> emission_ok m \<Longrightarrow> emission_ok m'"
proof (induction rule: emission_step.induct)
  case (emits before rs m em x)
  from submit_account [OF _ emits(2,1)] emits(3) show ?case
    by (auto simp: emission_ok_def underway_def split: sum.split worker.splits)
next
  case (grades ins clock scope c caller p force m em x)
  from grade_account [OF this(1)] this(2) show ?case by (auto simp: emission_ok_def)
next
  case (asks_flush scope m em x)
  then show ?case by (auto simp: emission_ok_def request_flush_def split: if_splits)
next
  case (withdraws_flush m scope)
  then show ?case by (auto simp: emission_ok_def withdraw_flush_def Let_def)
next
  case (closes m)
  then show ?case by (auto simp: emission_ok_def close_emitter_def)
next
  case (takes m now em t)
  then have none: "em_inflight (ms_em m) = None" and ok: "emitter_ok (ms_em m)"
    by (auto simp: emission_ok_def worker_unit_def)
  from take_account [OF ok none takes(2)] takes(1,3) show ?case
    by (cases t) (auto simp: emission_ok_def taken_by_def worker_unit_def underway_def)
next
  case (delivers m u ins clock em st d)
  from deliver_account [OF delivers(2)] delivers(1,3) show ?case
    by (auto simp: emission_ok_def worker_unit_def underway_def progress_def declares_weight)
next
  case (settles m u d now)
  then have "em_inflight (ms_em m) = Some u" "emitter_ok (ms_em m)" "delivery_ok u d"
    by (auto simp: emission_ok_def worker_unit_def)
  moreover from this have "unit_ok u" by (simp add: emitter_ok_def)
  ultimately show ?case using settle_account [of "ms_em m" u d now] settles
    by (auto simp: emission_ok_def worker_unit_def underway_def)
next
  case (others_write m st)
  then show ?case by (simp add: emission_ok_def)
qed

lemma begun_ok: "evidence_emitter capacity interval access p epoch = Inr em \<Longrightarrow> emission_ok (begun em st)"
  by (auto simp: evidence_emitter_def begun_def emission_ok_def emitter_ok_def held_def underway_def worker_unit_def split: if_splits)

lemma emission_run_ok:
  assumes "emission_run put em st m" and "evidence_emitter capacity interval access p epoch = Inr em"
  shows "emission_ok m"
  using assms(1)
proof (induction rule: emission_run.induct)
  case starts
  then show ?case by (rule begun_ok [OF assms(2)])
next
  case (goes_on m m')
  then show ?case using emission_step_ok by blast
qed

end
