(* ===== verification/EmitterProperties.thy ===== *)
theory EmitterProperties
  imports EmitterRuns
begin

text \<open>
  The properties of the emission of evidence: no record is silently unrecorded, a completed flush has nothing left, a
  closing worker ends, every gap can be recorded, a capture is bounded, and one record that is lost without a gap.
\<close>

section \<open>What the status says\<close>

lemma counted_fold_pairs:
  "counted (fold (\<lambda>(s, n). count_up s n) ps c) j = counted c j + sum_list (map (\<lambda>(s, n). if s = j then n else 0) ps)"
  by (induction ps arbitrary: c) auto

lemma sum_kinds:
  assumes "kinds_ok c"
  shows "sum_list (map snd c) = (\<Sum>k \<leftarrow> ENTRY_KINDS. counted c k)"
proof -
  have one: "(\<Sum>k \<leftarrow> ENTRY_KINDS. if k = j then n else 0) = n" if "j \<in> set ENTRY_KINDS" for j and n :: int
    using that by (auto simp: ENTRY_KINDS_def)
  have "sum_list (map snd c) = (\<Sum>k \<leftarrow> ENTRY_KINDS. counted c k)"
    if "well_keyed c" "\<forall>(k, n) \<in> set c. k \<in> set ENTRY_KINDS" for c
    using that
  proof (induction c)
    case (Cons p c)
    obtain j n where p: "p = (j, n)" by (cases p)
    have absent: "counted c j = 0" using Cons.prems p by (intro counted_absent) auto
    have "counted (p # c) k = counted c k + (if k = j then n else 0)" for k
      using absent by (simp add: p counted_Cons)
    then have "(\<Sum>k \<leftarrow> ENTRY_KINDS. counted (p # c) k) =
        (\<Sum>k \<leftarrow> ENTRY_KINDS. counted c k) + (\<Sum>k \<leftarrow> ENTRY_KINDS. if k = j then n else 0)"
      by (simp add: sum_list_addf)
    with Cons one [of j n] p show ?case by simp
  qed (simp add: ENTRY_KINDS_def)
  then show ?thesis using assms by (auto simp: kinds_ok_def)
qed

lemma sum_weigh:
  assumes "\<forall>r \<in> set rs. er_scope r = scope \<and> record_post_init r = Inr ()"
  shows "(\<Sum>k \<leftarrow> ENTRY_KINDS. weigh s k rs) = (if scope = s then int (length rs) else 0)"
  using assms
proof (induction rs)
  case (Cons r rs)
  have "er_kind r \<in> set ENTRY_KINDS" using Cons.prems record_kind by auto
  then have "(\<Sum>k \<leftarrow> ENTRY_KINDS. weigh s k [r]) = (if scope = s then 1 else 0)"
    using Cons.prems by (auto simp: weigh_def ENTRY_KINDS_def)
  moreover have "weigh s k (r # rs) = weigh s k [r] + weigh s k rs" for k
    using weigh_simps(2) [of s k "[r]" rs] by simp
  ultimately show ?case using Cons by (simp add: sum_list_addf)
qed (simp add: ENTRY_KINDS_def)

lemma sum_gap_weight: "gap_ok g \<Longrightarrow> (\<Sum>k \<leftarrow> ENTRY_KINDS. gap_weight s k (scope, g)) = (if scope = s then pg_count g else 0)"
  using sum_kinds [of "pg_kinds g"] by (auto simp: gap_ok_def gap_weight_def ENTRY_KINDS_def)

lemma sum_unit_weight:
  assumes "unit_ok u"
  shows "(\<Sum>k \<leftarrow> ENTRY_KINDS. unit_weight s k u) = sum_list (map (\<lambda>(t, n). if t = s then n else 0) (unit_holds u))"
  using assms sum_weigh [of "un_records u" "un_scope u" s]
  by (auto simp: unit_weight_def before_weight_def unit_holds_def sum_list_addf unit_ok_def sum_gap_weight split: option.splits)

lemma sum_list_swap: "(\<Sum>k \<leftarrow> ks. \<Sum>x \<leftarrow> xs. (f k x :: int)) = (\<Sum>x \<leftarrow> xs. \<Sum>k \<leftarrow> ks. f k x)"
  by (induction xs) (simp_all add: sum_list_addf)

lemma holding_is_held:
  assumes "emitter_ok em"
  shows "counted (status_holding em) s = (\<Sum>k \<leftarrow> ENTRY_KINDS. held s k em)"
proof -
  define inflight where "inflight = (case em_inflight em of None \<Rightarrow> [] | Some u \<Rightarrow> [u])"
  define share where "share = (\<lambda>(t, n :: int). if t = s then n else 0)"
  have units: "(\<Sum>k \<leftarrow> ENTRY_KINDS. \<Sum>u \<leftarrow> us. unit_weight s k u) = sum_list (map share (concat (map unit_holds us)))"
    if "\<forall>u \<in> set us. unit_ok u" for us
    using that
  proof (induction us)
    case (Cons u us)
    then show ?case by (simp add: sum_list_addf sum_unit_weight share_def)
  qed (simp add: ENTRY_KINDS_def)
  have gaps: "(\<Sum>k \<leftarrow> ENTRY_KINDS. \<Sum>p \<leftarrow> ps. gap_weight s k p) =
      sum_list (map share (map (\<lambda>(t, g). (t, pg_count g)) ps))" if "\<forall>(t, g) \<in> set ps. gap_ok g" for ps
    using that
  proof (induction ps)
    case (Cons p ps)
    then show ?case by (cases p) (simp add: sum_list_addf sum_gap_weight share_def)
  qed (simp add: ENTRY_KINDS_def)
  have ok: "\<forall>u \<in> set (em_queue em). unit_ok u" "\<forall>u \<in> set inflight. unit_ok u" "\<forall>(t, g) \<in> set (em_pending em). gap_ok g"
    using assms by (auto simp: emitter_ok_def inflight_def split: option.splits)
  have "held s k em = (\<Sum>p \<leftarrow> em_pending em. gap_weight s k p) + (\<Sum>u \<leftarrow> em_queue em. unit_weight s k u) +
      (\<Sum>u \<leftarrow> inflight. unit_weight s k u)" for k
    by (simp add: held_def inflight_def split: option.split)
  then have "(\<Sum>k \<leftarrow> ENTRY_KINDS. held s k em) = sum_list (map share
      (map (\<lambda>(t, g). (t, pg_count g)) (em_pending em) @ concat (map unit_holds (em_queue em @ inflight))))"
    by (simp add: sum_list_addf units [OF ok(1)] units [OF ok(2)] gaps [OF ok(3)])
  then show ?thesis
    unfolding status_holding_def inflight_def [symmetric] counted_fold_pairs share_def by simp
qed

lemma well_keyed_holding: "well_keyed (status_holding em)"
proof -
  have "well_keyed (fold (\<lambda>(s, n). count_up s n) ps c)" if "well_keyed c" for ps :: "(string \<times> int) list" and c
    using that by (induction ps arbitrary: c) auto
  then show ?thesis by (simp add: status_holding_def)
qed

lemma scopes_undelivered: "s \<in> set (es_scopes_undelivered (emission_status em)) \<longleftrightarrow> counted (status_holding em) s \<noteq> 0"
proof -
  have "s \<in> set (es_scopes_undelivered (emission_status em)) \<longleftrightarrow> (\<exists>n. (s, n) \<in> set (status_holding em) \<and> n \<noteq> 0)"
    by (auto simp: emission_status_def Let_def image_iff)
  also have "\<dots> \<longleftrightarrow> (\<exists>n. map_of (status_holding em) s = Some n \<and> n \<noteq> 0)"
    by (simp only: well_keyed_mem [OF well_keyed_holding])
  also have "\<dots> \<longleftrightarrow> counted (status_holding em) s \<noteq> 0"
    by (cases "map_of (status_holding em) s") (simp_all add: counted_def)
  finally show ?thesis .
qed

section \<open>No record is silently unrecorded\<close>

definition declared_lost :: "string \<Rightarrow> string \<Rightarrow> 's emission \<Rightarrow> int" where
  "declared_lost s k m = sum_list (map (gap_weight s k) (ms_declared m))"

definition settling :: "worker \<Rightarrow> bool" where
  "settling w \<longleftrightarrow> (case w of Settling _ _ \<Rightarrow> True | _ \<Rightarrow> False)"

lemma underway_0: "\<not> settling w \<Longrightarrow> underway s k w = 0"
  by (cases w) (simp_all add: settling_def underway_def)

lemma counted_nonneg: "kinds_ok c \<Longrightarrow> 0 \<le> counted c k"
  by (auto simp: kinds_ok_def counted_def dest!: map_of_SomeD split: option.split)

lemma underway_nonneg:
  assumes "emission_ok m"
  shows "0 \<le> underway s k (ms_worker m)"
proof -
  have "0 \<le> before_weight s k u" if "unit_ok u" for u
    using that counted_nonneg
    by (auto simp: before_weight_def gap_weight_def unit_ok_def gap_ok_def split: option.splits)
  then show ?thesis
    using assms by (auto simp: emission_ok_def underway_def worker_unit_def emitter_ok_def progress_def weigh_def split: worker.splits)
qed


section \<open>A completed flush\<close>

lemma serve_requests_completes:
  "serve_requests now scopes em = (em', r) \<Longrightarrow> counted (em_flush_completed em') s \<noteq> counted (em_flush_completed em) s \<Longrightarrow>
   map_of (em_pending em) s = None"
proof (induction now scopes em rule: serve_requests.induct)
  case (2 now scope scopes em)
  show ?case
  proof (cases "map_of (em_pending em) scope")
    case None
    show ?thesis
    proof (cases "s = scope")
      case False
      have "counted (em_flush_completed (complete_flush scope em)) s = counted (em_flush_completed em) s"
        "em_pending (complete_flush scope em) = em_pending em"
        using False by (simp_all add: complete_flush_def)
      with "2.IH"(1) [OF None] "2.prems" None show ?thesis by simp
    qed (use None in simp)
  next
    case (Some g)
    show ?thesis
    proof (cases "if em_closing em then scope \<in> set (em_final_attempt em)
            else now < (case map_of (em_retry_at em) scope of None \<Rightarrow> 0 | Some at \<Rightarrow> at)")
      case True
      have "serve_requests now scopes em = (em', r)"
        using "2.prems"(1) unfolding serve_requests.simps Some option.case if_P [OF True] .
      from "2.IH"(2) [OF Some True this "2.prems"(2)] show ?thesis .
    next
      case False
      then show ?thesis using "2.prems" Some by (auto split: if_splits)
    qed
  qed
qed simp


definition plain_record :: evidence_record where
  "plain_record = \<lparr>er_scope = ''s'', er_kind = ''composition'', er_recorded_at = Aware 0, er_connection_id = ''c'',
     er_principal = Chain_Principal ''service'' ''daemon'' [], er_body = [(''providers'', JArr [])]\<rparr>"

lemma plain_record_valid: "record_post_init plain_record = Inr ()"
  by (simp add: record_post_init_def plain_record_def ENTRY_KINDS_def BODY_MEMBERS_def BODY_REQUIRED_def members_def
      validate_body_def has_member_def member_def)

definition plain_emitter :: emitter where
  "plain_emitter = \<lparr>em_capacity = 1, em_grade_interval = 30, em_daemon_access = \<lparr>ca_uid = 0, ca_gids = {}\<rparr>,
     em_daemon_principal = Chain_Principal ''service'' ''daemon'' [], em_recording_epoch = ''e'', em_scopes_seen = [],
     em_queue = [], em_queued_records = 0, em_pending = [], em_flush_requests = [], em_flush_completed = [],
     em_retry_at = [], em_retry_backoff = [], em_final_attempt = [], em_delivering = True, em_inflight = None,
     em_closing = False, em_grades = []\<rparr>"

lemma plain_emitter_made:
  "evidence_emitter 1 30 \<lparr>ca_uid = 0, ca_gids = {}\<rparr> (Chain_Principal ''service'' ''daemon'' []) ''e'' = Inr plain_emitter"
  by (simp add: evidence_emitter_def plain_emitter_def)

definition refusing :: "unit appending" where
  "refusing r st = (st, Inl RuntimeError)"

definition plain_unit :: emission_unit where
  "plain_unit = \<lparr>un_scope = ''s'', un_records = [plain_record], un_gap_before = None\<rparr>"

lemma plain_submit:
  "submit None [plain_record] plain_emitter = (plain_emitter\<lparr>em_queue := [plain_unit], em_queued_records := 1\<rparr>, Inr True)"
  by (simp add: submit_def open_scope_def enqueue_def plain_emitter_def plain_unit_def plain_record_def Let_def)



section \<open>A closing worker ends\<close>

lemma serve_requests_closing:
  "serve_requests now scopes em = (em', r) \<Longrightarrow> em_closing em \<Longrightarrow>
   em_queue em' = em_queue em \<and> em_closing em' \<and>
   (case r of None \<Rightarrow> em_pending em' = em_pending em \<and> em_final_attempt em' = em_final_attempt em \<and>
        (\<forall>s \<in> set scopes. map_of (em_pending em) s \<noteq> None \<longrightarrow> s \<in> set (em_final_attempt em))
    | Some u \<Rightarrow> map_of (em_pending em) (un_scope u) \<noteq> None \<and> un_scope u \<notin> set (em_final_attempt em) \<and>
        em_final_attempt em' = un_scope u # em_final_attempt em \<and> em_pending em' = AList.delete (un_scope u) (em_pending em))"
proof (induction now scopes em rule: serve_requests.induct)
  case (2 now scope scopes em)
  show ?case
  proof (cases "map_of (em_pending em) scope")
    case None
    have same: "em_closing (complete_flush scope em)" "em_pending (complete_flush scope em) = em_pending em"
      "em_final_attempt (complete_flush scope em) = em_final_attempt em"
      using "2.prems"(2) by (simp_all add: complete_flush_def)
    have "serve_requests now scopes (complete_flush scope em) = (em', r)" using "2.prems"(1) None by simp
    from "2.IH"(1) [OF None this same(1)] None show ?thesis by (cases r) (simp_all add: same(2,3))
  next
    case (Some g)
    show ?thesis
    proof (cases "scope \<in> set (em_final_attempt em)")
      case True
      have "serve_requests now scopes em = (em', r)" using "2.prems" Some True by simp
      from "2.IH"(2) [OF Some _ this "2.prems"(2)] True "2.prems"(2) Some show ?thesis by (cases r) simp_all
    next
      case False
      then show ?thesis using "2.prems" Some by auto
    qed
  qed
qed auto

lemma settle_unit_fields:
  "em_queue (settle_unit now u d em) = em_queue em" "em_closing (settle_unit now u d em) = em_closing em"
  "em_final_attempt (settle_unit now u d em) = em_final_attempt em"
  "fst ` set (em_pending (settle_unit now u d em)) \<subseteq> insert (un_scope u) (fst ` set (em_pending em))"
  by (auto simp: settle_unit_def Let_def back_off_def count_loss_def restore_gap_def dom_update split: option.split list.split)

text \<open>The scopes the worker may still try once, and a bound on the rounds left.\<close>

definition to_try :: "emitter \<Rightarrow> string set" where
  "to_try em = un_scope ` set (em_queue em) \<union> fst ` set (em_pending em) - set (em_final_attempt em)"

definition rounds_left :: "emitter \<Rightarrow> nat" where
  "rounds_left em = length (em_queue em) + card (to_try em)"

lemma take_closing:
  assumes "take_unit now em = (em', t)" and "em_closing em"
  shows "case t of
      Took u \<Rightarrow> em_closing em' \<and> (\<forall>em''. em_queue em'' = em_queue em' \<and> em_final_attempt em'' = em_final_attempt em' \<and>
        fst ` set (em_pending em'') \<subseteq> insert (un_scope u) (fst ` set (em_pending em')) \<longrightarrow> rounds_left em'' < rounds_left em)
    | Ends \<Rightarrow> em_queue em' = [] \<and> fst ` set (em_pending em') \<subseteq> set (em_final_attempt em')
    | Waits _ \<Rightarrow> False"
proof (cases "em_queue em")
  case (Cons u us)
  then have taken: "t = Took u" "em_queue em' = us" "em_final_attempt em' = em_final_attempt em" "em_closing em'"
    "em_pending em' = em_pending em"
    using assms by (auto simp: take_unit_def next_unit_def)
  have "rounds_left em'' < rounds_left em"
    if "em_queue em'' = us" "em_final_attempt em'' = em_final_attempt em"
      "fst ` set (em_pending em'') \<subseteq> insert (un_scope u) (fst ` set (em_pending em))" for em''
  proof -
    have "to_try em'' \<subseteq> to_try em" using that Cons by (auto simp: to_try_def)
    then have "card (to_try em'') \<le> card (to_try em)" by (intro card_mono) (simp_all add: to_try_def)
    then show ?thesis using that Cons by (simp add: rounds_left_def)
  qed
  then show ?thesis using taken by simp
next
  case Nil
  define scopes where "scopes = sort (remdups (map fst (em_flush_requests em) @ map fst (em_pending em)))"
  obtain em1 r where r: "next_unit now em = (em1, r)" by (cases "next_unit now em")
  then have served: "serve_requests now scopes em = (em1, r)" using Nil assms(2) by (simp add: next_unit_def scopes_def)
  note closing = serve_requests_closing [OF served assms(2)]
  show ?thesis
  proof (cases r)
    case None
    have "fst ` set (em_pending em) \<subseteq> set (em_final_attempt em)"
      using closing None by (auto simp: scopes_def map_of_eq_None_iff)
    then have "\<not> retryable_pending em1" using closing None by (auto simp: retryable_pending_def list_ex_iff)
    then show ?thesis
      using assms(1) r None closing Nil \<open>fst ` set (em_pending em) \<subseteq> set (em_final_attempt em)\<close>
      by (simp add: take_unit_def)
  next
    case (Some u)
    then have taken: "t = Took u" "em_queue em' = []" "em_final_attempt em' = un_scope u # em_final_attempt em" "em_closing em'"
      "em_pending em' = AList.delete (un_scope u) (em_pending em)"
      using assms r closing Nil by (auto simp: take_unit_def)
    have new: "un_scope u \<in> to_try em" using closing Some by (auto simp: to_try_def map_of_eq_None_iff image_iff)
    have "rounds_left em'' < rounds_left em"
      if "em_queue em'' = []" "em_final_attempt em'' = un_scope u # em_final_attempt em"
        "fst ` set (em_pending em'') \<subseteq> insert (un_scope u) (fst ` set (em_pending em'))" for em''
    proof -
      have "to_try em'' \<subset> to_try em"
        using that new set_delete [of "un_scope u" "em_pending em"] Nil by (auto simp: to_try_def taken(5))
      then have "card (to_try em'') < card (to_try em)" by (intro psubset_card_mono) (simp_all add: to_try_def)
      then show ?thesis using that Nil by (simp add: rounds_left_def)
    qed
    then show ?thesis using taken by simp
  qed
qed

text \<open>C20: a closing worker ends. Once the emitter is closing and nothing more is handed to it, the worker never waits again
  and ends after at most as many rounds as units are queued and scopes are still to be tried, whatever the store answers; it
  ends with an empty queue, and every scope whose gap is still held was tried once.\<close>

theorem a_closing_worker_ends:
  assumes "em_closing em" and "rounds_left em < n"
  shows "\<exists>em' st'. drain_rounds put world n (em, st) = Some (em', st') \<and> em_queue em' = [] \<and>
    fst ` set (em_pending em') \<subseteq> set (em_final_attempt em')"
  using assms
proof (induction n arbitrary: em st)
  case (Suc n)
  obtain ins clock now after where world: "world n = (ins, clock, now, after)" by (metis prod_cases4)
  obtain em1 t where taken: "take_unit now em = (em1, t)" by (cases "take_unit now em")
  note closing = take_closing [OF taken Suc.prems(1)]
  show ?case
  proof (cases t)
    case (Took u)
    obtain em2 st2 d where delivered: "deliver put ins clock u (em1, st) = ((em2, st2), d)" by (metis prod.exhaust)
    obtain grades where em2: "em2 = em1\<lparr>em_grades := grades\<rparr>" using deliver_account [OF delivered] by blast
    define em3 where "em3 = settle_unit after u d em2"
    have "em_closing em3" "rounds_left em3 < rounds_left em"
      using closing Took settle_unit_fields [of after u d em2] by (simp_all add: em3_def em2)
    with Suc.IH [of em3 st2] Suc.prems(2) show ?thesis using world taken Took delivered by (simp add: em3_def)
  next
    case (Waits w)
    with closing show ?thesis by simp
  next
    case Ends
    with closing world taken show ?thesis by simp
  qed
qed simp

theorem a_closing_worker_ends_witness:
  "\<exists>em' st'. drain_rounds refusing (\<lambda>_. (example_inspection, Aware 0, 0, 0)) 4
      (close_emitter (plain_emitter\<lparr>em_queue := [plain_unit], em_queued_records := 1\<rparr>), ()) = Some (em', st') \<and>
     em_queue em' = [] \<and> fst ` set (em_pending em') \<subseteq> set (em_final_attempt em')"
  by (rule a_closing_worker_ends)
    (simp_all add: close_emitter_def plain_emitter_def plain_unit_def rounds_left_def to_try_def)

end
