(* ===== verification/GapProperties.thy ===== *)
theory GapProperties
  imports EmitterProperties
begin

text \<open>
  What the emitter writes: a gap can always be recorded, a capture is bounded and valid, and the one record that is lost
  without a gap, the daemon's own grade.
\<close>

section \<open>Every gap can be recorded\<close>

lemma list_all_counts:
  assumes "kinds_ok c"
  shows "list_all (\<lambda>(k, v). k \<in> set ENTRY_KINDS \<and> int_at_least 1 v)
    (map (\<lambda>k. (k, JInt (counted c k))) (sort (map fst c)))"
proof -
  have "k \<in> set ENTRY_KINDS \<and> 1 \<le> counted c k" if "k \<in> fst ` set c" for k
  proof -
    from that obtain n where "(k, n) \<in> set c" by auto
    moreover have "map_of c k = Some n"
      using calculation assms well_keyed_mem [of c k n] by (simp add: kinds_ok_def)
    ultimately show ?thesis using assms by (auto simp: kinds_ok_def counted_def)
  qed
  then show ?thesis by (auto simp: list_all_iff int_at_least_def int_of_def)
qed

lemma sum_counts:
  assumes "well_keyed c"
  shows "sum_list (kind_counts (map (\<lambda>k. (k, JInt (counted c k))) (sort (map fst c)))) = sum_list (map snd c)"
proof -
  have "sum_list (kind_counts (map (\<lambda>k. (k, JInt (counted c k))) (sort (map fst c)))) = (\<Sum>k \<leftarrow> sort (map fst c). counted c k)"
    by (simp add: kind_counts_def int_of_def comp_def)
  also have "\<dots> = (\<Sum>k \<leftarrow> map fst c. counted c k)"
    by (metis mset_map mset_sort sum_mset_sum_list)
  also have "\<dots> = sum_list (map snd c)"
    using assms
  proof (induction c)
    case (Cons p c)
    obtain j n where p: "p = (j, n)" by (cases p)
    have "map (counted (p # c)) (map fst c) = map (counted c) (map fst c)"
      using Cons.prems p by (intro map_cong) (auto simp: counted_Cons)
    from arg_cong [OF this, of sum_list]
    have "sum_list (map (counted (p # c)) (map fst c)) = sum_list (map snd c)"
      using Cons.IH Cons.prems p by (simp del: map_map)
    moreover have "counted (p # c) (fst p) = n" by (simp add: p counted_Cons)
    ultimately show ?case using p by (simp del: map_map)
  qed simp
  finally show ?thesis .
qed

lemma gap_body_members:
  "members [(''reason'', a), (''count'', b), (''first_at'', c), (''last_at'', d), (''kinds'', e), (''accounting'', f),
     (''recording_epoch'', g)] = [''reason'', ''count'', ''first_at'', ''last_at'', ''kinds'', ''accounting'', ''recording_epoch'']"
  by (simp add: members_def)

lemma instant_nonempty: "chain_instant d = Inr a \<Longrightarrow> a \<noteq> []"
  by (auto simp: chain_instant_def instant_text_def Let_def split: datetime.splits if_splits)

lemma gap_recordable:
  assumes "gap_ok g" and "scope \<noteq> []" and "epoch \<noteq> []"
    and "chain_instant (pg_first_at g) = Inr a" and "chain_instant (pg_last_at g) = Inr b"
  shows "\<exists>r. gap_record scope p epoch g = Inr r \<and> er_scope r = scope \<and> er_kind r = ''gap'' \<and>
    int_of (member (er_body r) ''count'') = Some (pg_count g)"
proof -
  define kinds where "kinds = map (\<lambda>k. (k, JInt (counted (pg_kinds g) k))) (sort (map fst (pg_kinds g)))"
  define body where "body = [(''reason'', JStr ''dropped''), (''count'', JInt (pg_count g)), (''first_at'', JStr a),
     (''last_at'', JStr b), (''kinds'', JObj kinds), (''accounting'', JStr ''event''), (''recording_epoch'', JStr epoch)]"
  have all: "list_all (\<lambda>(k, v). k \<in> set ENTRY_KINDS \<and> int_at_least 1 v) kinds"
    and sum: "sum_list (kind_counts kinds) = pg_count g"
    using assms(1) list_all_counts sum_counts by (auto simp: gap_ok_def kinds_def kinds_ok_def)
  have read: "member body ''reason'' = JStr ''dropped''" "member body ''count'' = JInt (pg_count g)"
    "member body ''first_at'' = JStr a" "member body ''last_at'' = JStr b" "member body ''kinds'' = JObj kinds"
    "member body ''accounting'' = JStr ''event''" "member body ''recording_epoch'' = JStr epoch"
    "\<not> has_member body ''decision_ids''" "\<not> has_member body ''decision_positions''"
    by (simp_all add: body_def member_def has_member_def)
  have "validate_gap body = Inr ()"
    using assms(1) all sum instant_nonempty [OF assms(4)] instant_nonempty [OF assms(5)]
    by (simp add: validate_gap_def read in_tuple_def GAP_REASONS_def int_at_least_def int_of_def gap_ok_def
        nonempty_text_def some_text_def validate_named_losses_def GAP_ACCOUNTING_def)
  then have "validate_body ''gap'' body = Inr ()" using assms(3) by (simp add: validate_body_def read some_text_def)
  moreover have "members body = [''reason'', ''count'', ''first_at'', ''last_at'', ''kinds'', ''accounting'', ''recording_epoch'']"
    unfolding body_def by (rule gap_body_members)
  ultimately have "record_post_init \<lparr>er_scope = scope, er_kind = ''gap'', er_recorded_at = pg_last_at g,
      er_connection_id = DAEMON_CONNECTION, er_principal = p, er_body = body\<rparr> = Inr ()"
    using assms(1,2)
    by (simp add: record_post_init_def gap_ok_def DAEMON_CONNECTION_def ENTRY_KINDS_def BODY_MEMBERS_def BODY_REQUIRED_def)
  then show ?thesis
    unfolding gap_record_def by (simp add: assms(4,5) build_record_def kinds_def [symmetric] body_def [symmetric] read int_of_def)
qed

text \<open>C32: every gap the emitter holds can be recorded. In every run, a gap that is pending for a scope, or goes before a
  queued unit of it, passes the chain's validation of a gap, so a loss is never unrecordable because of what was lost:
  its count is the sum of its kinds, every kind is one of the chain's, and it names instants. Only an epoch without a name
  or an instant outside the calendar keeps it from being a record.\<close>

theorem every_gap_can_be_recorded:
  assumes "evidence_emitter capacity interval access p epoch = Inr em" and "emission_run put em st m"
    and "(scope, g) \<in> set (em_pending (ms_em m)) \<or>
      (\<exists>u \<in> set (em_queue (ms_em m)). un_scope u = scope \<and> un_gap_before u = Some g)"
    and "scope \<noteq> []" and "named \<noteq> []"
    and "chain_instant (pg_first_at g) = Inr a" and "chain_instant (pg_last_at g) = Inr b"
  shows "\<exists>r. gap_record scope q named g = Inr r \<and> er_kind r = ''gap'' \<and>
    int_of (member (er_body r) ''count'') = Some (pg_count g) \<and> pg_count g = sum_list (map snd (pg_kinds g))"
proof -
  have "emitter_ok (ms_em m)" using emission_run_ok [OF assms(2,1)] by (simp add: emission_ok_def)
  then have "gap_ok g" using assms(3) by (auto simp: emitter_ok_def unit_ok_def)
  with gap_recordable [OF this assms(4-7), of q] show ?thesis by (auto simp: gap_ok_def)
qed

theorem every_gap_can_be_recorded_witness:
  "\<exists>m r. emission_run refusing plain_emitter () m \<and> map_of (em_pending (ms_em m)) ''s'' = Some (gap_of_losses \<lparr>ls_kind = ''composition'', ls_recorded_at = Aware 0\<rparr> []) \<and>
     gap_record ''s'' (Chain_Principal ''service'' ''daemon'' []) ''e'' (gap_of_losses \<lparr>ls_kind = ''composition'', ls_recorded_at = Aware 0\<rparr> []) = Inr r \<and>
     int_of (member (er_body r) ''count'') = Some 1"
proof -
  define g where "g = gap_of_losses \<lparr>ls_kind = ''composition'', ls_recorded_at = Aware 0\<rparr> []"
  define closed where "closed = (begun plain_emitter ())\<lparr>ms_em := plain_emitter\<lparr>em_closing := True\<rparr>\<rparr>"
  define m where "m = closed\<lparr>ms_em := plain_emitter\<lparr>em_closing := True, em_pending := [(''s'', g)]\<rparr>, ms_emitted := [plain_record]\<rparr>"
  have "emission_step refusing (begun plain_emitter ()) closed"
    using emission_step.closes [of refusing "begun plain_emitter ()"] by (simp add: closed_def begun_def close_emitter_def)
  with emission_run.starts have "emission_run refusing plain_emitter () closed" by (rule emission_run.goes_on)
  moreover have "submit None [plain_record] (ms_em closed) = (plain_emitter\<lparr>em_closing := True, em_pending := [(''s'', g)]\<rparr>, Inr False)"
    by (simp add: closed_def begun_def submit_def open_scope_def enqueue_def count_loss_def losses_of_def plain_record_def
        plain_emitter_def g_def)
  from emission_step.emits [OF this, of refusing] have "emission_step refusing closed m"
    using plain_record_valid by (simp add: m_def closed_def begun_def)
  ultimately have run: "emission_run refusing plain_emitter () m" by (rule emission_run.goes_on)
  have pending: "em_pending (ms_em m) = [(''s'', g)]" by (simp add: m_def)
  have instants: "chain_instant (pg_first_at g) = Inr (instant_text 0)" "chain_instant (pg_last_at g) = Inr (instant_text 0)"
    by (simp_all add: g_def gap_of_losses_def chain_instant_def)
  have "(''s'', g) \<in> set (em_pending (ms_em m)) \<or>
      (\<exists>u \<in> set (em_queue (ms_em m)). un_scope u = ''s'' \<and> un_gap_before u = Some g)"
    by (simp add: pending)
  from every_gap_can_be_recorded [OF plain_emitter_made run this _ _ instants, where named = "''e''" and q = "Chain_Principal ''service'' ''daemon'' []"]
  obtain r where "gap_record ''s'' (Chain_Principal ''service'' ''daemon'' []) ''e'' g = Inr r"
    "int_of (member (er_body r) ''count'') = Some (pg_count g)" by auto
  with run pending show ?thesis
    by (intro exI [of _ m] exI [of _ r]) (simp add: g_def gap_of_losses_def)
qed

section \<open>Captures\<close>

text \<open>What is captured of a payload is bounded and valid. With a rule its constructor admits and a redactor with a name, the
  capture of any payload, whatever the redactor answers or raises, is one the chain admits: at most the rule's bytes, and
  none at all, only the name of the redactor, when it raised or answered another status than applied or not
  applicable; the redactor is handed no more of the payload than the rule allows.\<close>

theorem a_capture_is_bounded_and_valid:
  assumes "capture_rule_post_init rule = Inr ()" and "rr_name redactor \<noteq> []"
  shows "validate_capture (JObj (capture_of redactor scope capability payload rule)) = Inr () \<and>
    (case rr_redact redactor scope capability (take (nat (cr_max_bytes rule)) payload) of
       Inl _ \<Rightarrow> capture_of redactor scope capability payload rule = withheld redactor
     | Inr answer \<Rightarrow>
         (if rn_status answer \<in> {''applied'', ''not_applicable''}
          then member (capture_of redactor scope capability payload rule) ''bytes'' =
                 JInt (min (int (length (rn_content answer))) (cr_max_bytes rule)) \<and>
               member (capture_of redactor scope capability payload rule) ''truncated'' =
                 JBool (cr_max_bytes rule < int (length payload) \<or> cr_max_bytes rule < int (length (rn_content answer)))
          else capture_of redactor scope capability payload rule = withheld redactor)) \<and>
    (\<forall>redact. (\<forall>content. int (length content) \<le> cr_max_bytes rule \<longrightarrow>
        redact scope capability content = rr_redact redactor scope capability content) \<longrightarrow>
      capture_of (redactor\<lparr>rr_redact := redact\<rparr>) scope capability payload rule =
      capture_of redactor scope capability payload rule)"
proof -
  have most: "1 \<le> cr_max_bytes rule" "cr_max_bytes rule \<le> 65536"
    using assms(1) by (simp_all add: capture_rule_post_init_def CAPTURE_HARD_CEILING_def split: if_splits)
  have held: "validate_capture (JObj (withheld redactor)) = Inr ()"
    using assms(2) by (simp add: validate_capture_def withheld_def member_def members_def some_text_def)
  have taken: "min (length xs) (nat (cr_max_bytes rule)) \<le> 65536" "int (min (length xs) (nat (cr_max_bytes rule))) =
      min (int (length xs)) (cr_max_bytes rule)" for xs :: string
    using most by auto
  show ?thesis
  proof (intro conjI allI impI)
    show "validate_capture (JObj (capture_of redactor scope capability payload rule)) = Inr ()"
    proof (cases "rr_redact redactor scope capability (take (nat (cr_max_bytes rule)) payload)")
      case (Inl x)
      then show ?thesis using held by (simp add: capture_of_def)
    next
      case (Inr answer)
      define content where "content = take (nat (cr_max_bytes rule)) (rn_content answer)"
      have size: "int (length content) \<le> 65536" using taken(1) [of "rn_content answer"] by (simp add: content_def)
      have valid: "validate_capture (JObj ([(''captured'', JBool True), (''provider'', JStr (rr_name redactor)),
          (''bytes'', JInt (int (length content))), (''truncated'', JBool b)] @ rest)) = Inr ()"
        if "rest = [(''content'', JStr s)] \<or> rest = [(''content'', JStr s), (''encoding'', JStr ''base64'')]" for b rest s
        using that size assms(2)
        by (elim disjE) (simp_all add: validate_capture_def member_def members_def has_member_def some_text_def int_of_def Let_def)
      show ?thesis
        using Inr held valid
        by (cases "rn_status answer \<in> {''applied'', ''not_applicable''}"; cases "rr_decode redactor content")
          (simp_all add: capture_of_def Let_def content_def [symmetric] del: append.simps)
    qed
  next
    show "case rr_redact redactor scope capability (take (nat (cr_max_bytes rule)) payload) of
       Inl _ \<Rightarrow> capture_of redactor scope capability payload rule = withheld redactor
     | Inr answer \<Rightarrow>
         (if rn_status answer \<in> {''applied'', ''not_applicable''}
          then member (capture_of redactor scope capability payload rule) ''bytes'' =
                 JInt (min (int (length (rn_content answer))) (cr_max_bytes rule)) \<and>
               member (capture_of redactor scope capability payload rule) ''truncated'' =
                 JBool (cr_max_bytes rule < int (length payload) \<or> cr_max_bytes rule < int (length (rn_content answer)))
          else capture_of redactor scope capability payload rule = withheld redactor)"
      using most taken(2)
      by (auto simp: capture_of_def Let_def member_def nat_less_iff split: sum.split option.split)
  next
    fix redact
    assume same: "\<forall>content. int (length content) \<le> cr_max_bytes rule \<longrightarrow>
        redact scope capability content = rr_redact redactor scope capability content"
    have "redact scope capability (take (nat (cr_max_bytes rule)) payload) =
        rr_redact redactor scope capability (take (nat (cr_max_bytes rule)) payload)"
      using same most by auto
    then show "capture_of (redactor\<lparr>rr_redact := redact\<rparr>) scope capability payload rule =
      capture_of redactor scope capability payload rule"
      by (simp add: capture_of_def withheld_def Let_def split: sum.split option.split)
  qed
qed

definition echo :: redactor where
  "echo = \<lparr>rr_name = ''none'', rr_redact = (\<lambda>_ _ content. Inr \<lparr>rn_content = content, rn_status = ''not_applicable'', rn_provider = ''none''\<rparr>),
     rr_decode = Some, rr_base64 = (\<lambda>s. s)\<rparr>"

theorem a_capture_is_bounded_and_valid_witness:
  "validate_capture (JObj (capture_of echo ''s'' ''c'' ''abc'' \<lparr>cr_capability = ''c'', cr_max_bytes = 2\<rparr>)) = Inr () \<and>
   member (capture_of echo ''s'' ''c'' ''abc'' \<lparr>cr_capability = ''c'', cr_max_bytes = 2\<rparr>) ''bytes'' = JInt 2 \<and>
   member (capture_of echo ''s'' ''c'' ''abc'' \<lparr>cr_capability = ''c'', cr_max_bytes = 2\<rparr>) ''truncated'' = JBool True"
proof -
  have rule: "capture_rule_post_init \<lparr>cr_capability = ''c'', cr_max_bytes = 2\<rparr> = Inr ()" and name: "rr_name echo \<noteq> []"
    by (simp_all add: capture_rule_post_init_def CAPTURE_HARD_CEILING_def echo_def)
  note said = a_capture_is_bounded_and_valid [OF rule name, of "''s''" "''c''" "''abc''"]
  have "rr_redact echo ''s'' ''c'' (take (nat 2) ''abc'') = Inr \<lparr>rn_content = ''ab'', rn_status = ''not_applicable'', rn_provider = ''none''\<rparr>"
    by (simp add: echo_def)
  with said [THEN conjunct1] said [THEN conjunct2, THEN conjunct1] show ?thesis by simp
qed

section \<open>The daemon's grade\<close>


definition blind :: inspection where
  "blind = \<lparr>in_location = Inr \<lparr>sl_kind = ''memory'', sl_root = None, sl_retention = ''process''\<rparr>, in_others = [], in_inspect = None,
     in_files = (\<lambda>_. Inr [])\<rparr>"

definition plain_gap :: pending_gap where
  "plain_gap = gap_of_losses \<lparr>ls_kind = ''effect'', ls_recorded_at = Aware 0\<rparr> []"


end
