(* ===== verification/EvidenceStores.thy ===== *)
theory EvidenceStores
  imports EvidenceLemmas Policy
begin

text \<open>
  The authority that owns the chains (cp/ports/evidence_store.py) as an interface, and the store in memory
  (adapters/memory/evidence_store.py) that provides it. A store may declare bytes it dropped with a gap of its own before
  the entry it was asked for; that is all it adds.
\<close>

definition bind_op :: "('w, 'a) op \<Rightarrow> ('a \<Rightarrow> ('w, 'b) op) \<Rightarrow> ('w, 'b) op" where
  "bind_op m f w = (case m w of (w, Inl e) \<Rightarrow> (w, Inl e) | (w, Inr x) \<Rightarrow> f x w)"

definition answer :: "'a result \<Rightarrow> ('w, 'a) op" where
  "answer r w = (w, r)"

lemma bind_op_cases:
  assumes "bind_op m f w = (w', a)"
  obtains (raised) e where "m w = (w', Inl e)" and "a = Inl e" | (went) w1 x where "m w = (w1, Inr x)" and "f x w1 = (w', a)"
  using assms by (auto simp: bind_op_def split: prod.splits sum.splits)

lemma bind_op_Inr: "m w = (w1, Inr x) \<Longrightarrow> bind_op m f w = f x w1"
  by (simp add: bind_op_def)

lemma bind_op_Inl: "m w = (w1, Inl e) \<Longrightarrow> bind_op m f w = (w1, Inl e)"
  by (simp add: bind_op_def)

text \<open>A JSON value that Python holds: floats are what \<open>repr\<close> writes, and the keys of every object are distinct.\<close>

primrec keyed :: "json \<Rightarrow> bool" where
  "keyed JNull = True"
| "keyed (JBool b) = True"
| "keyed (JInt n) = True"
| "keyed (JFloat f) = True"
| "keyed (JStr s) = True"
| "keyed (JArr xs) = list_all id (map keyed xs)"
| "keyed (JObj d) = (well_keyed d \<and> list_all snd (map (map_prod id keyed) d))"

definition plain_json :: "json \<Rightarrow> bool" where
  "plain_json v \<longleftrightarrow> json_ok v \<and> keyed v"

section \<open>The port\<close>

lemma texts_sorted [simp]: "texts (map sorted_json xs) = texts xs"
proof -
  have "(case sorted_json v of JStr s \<Rightarrow> [s] | _ \<Rightarrow> []) = (case v of JStr s \<Rightarrow> [s] | _ \<Rightarrow> [])" for v by (cases v) simp_all
  then show ?thesis by (simp add: texts_def comp_def)
qed

record 's evidence_port =
  ep_append :: "evidence_record \<Rightarrow> ('s, evidence_entry) op"
  ep_read :: "string \<Rightarrow> int \<Rightarrow> int option \<Rightarrow> 's \<Rightarrow> evidence_entry list result"
  ep_latest :: "string \<Rightarrow> 's \<Rightarrow> int option result"

definition torn_gap :: "evidence_entry \<Rightarrow> bool" where
  "torn_gap e \<longleftrightarrow> er_kind e = ''gap'' \<and> member (er_body e) ''reason'' = JStr ''torn'' \<and> \<not> has_member (er_body e) ''decision_ids''"

text \<open>An entry of a chain that holds what a record says; an object read back has its members in another order.\<close>

definition recorded :: "evidence_record \<Rightarrow> evidence_entry \<Rightarrow> bool" where
  "recorded r e \<longleftrightarrow> er_kind e = er_kind r \<and> (\<forall>k. sorted_json (member (er_body e) k) = sorted_json (member (er_body r) k))"

text \<open>
  The laws: an append of a record the store admits adds at most one entry for it, and one when it answers; an append that
  raises may have added it all the same, when the system failed after the last byte.
\<close>

locale evidence_store =
  fixes port :: "'s evidence_port"
    and chain :: "'s \<Rightarrow> string \<Rightarrow> evidence_entry list"
    and well :: "'s \<Rightarrow> bool"
    and admits :: "evidence_record \<Rightarrow> bool"
  assumes append_well: "well s \<Longrightarrow> admits r \<Longrightarrow> ep_append port r s = (s', a) \<Longrightarrow> well s'"
    and append_chain: "well s \<Longrightarrow> admits r \<Longrightarrow> ep_append port r s = (s', a) \<Longrightarrow>
      \<exists>gaps es. list_all torn_gap gaps \<and> chain s' (er_scope r) = chain s (er_scope r) @ gaps @ es \<and> list_all (recorded r) es \<and>
        length es \<le> 1 \<and> ((\<exists>e. a = Inr e) \<longrightarrow> es \<noteq> [])"
    and append_other: "well s \<Longrightarrow> ep_append port r s = (s', a) \<Longrightarrow> scope \<noteq> er_scope r \<Longrightarrow> chain s' scope = chain s scope"
    and append_entry: "well s \<Longrightarrow> ep_append port r s = (s', Inr e) \<Longrightarrow> er_kind e = er_kind r \<and> er_body e = er_body r \<and> 1 \<le> en_sequence e"
    and read_all: "well s \<Longrightarrow> ep_read port scope 1 None s = Inr es \<Longrightarrow> es = chain s scope"
    and positive: "well s \<Longrightarrow> e \<in> set (chain s scope) \<Longrightarrow> 1 \<le> en_sequence e"
begin

text \<open>Nothing that was read is gone after an append.\<close>

lemma append_keeps: "well s \<Longrightarrow> admits r \<Longrightarrow> ep_append port r s = (s', a) \<Longrightarrow> set (chain s scope) \<subseteq> set (chain s' scope)"
  using append_chain append_other by (cases "scope = er_scope r") (fastforce, simp)

text \<open>What an append that answers was asked to record is in the chain.\<close>

lemma append_recorded:
  "well s \<Longrightarrow> admits r \<Longrightarrow> ep_append port r s = (s', Inr e) \<Longrightarrow> \<exists>e' \<in> set (chain s' (er_scope r)). recorded r e'"
  using append_chain [of s r s' "Inr e"] by (auto simp: neq_Nil_conv)

text \<open>What an append adds besides its entry names no decision and is no effect.\<close>

lemma append_adds:
  assumes "well s" and "admits r" and "ep_append port r s = (s', a)" and "e \<in> set (chain s' scope)"
  shows "e \<in> set (chain s scope) \<or> torn_gap e \<or> recorded r e \<and> scope = er_scope r"
proof (cases "scope = er_scope r")
  case True
  then show ?thesis using append_chain [OF assms(1,2,3)] assms(4) by (auto simp: list_all_iff)
next
  case False
  then show ?thesis using append_other [OF assms(1,3)] assms(4) by simp
qed

end

section \<open>The store in memory\<close>

type_synonym memory_store = "(string, evidence_entry list) dict"

definition memory_chain :: "memory_store \<Rightarrow> string \<Rightarrow> evidence_entry list" where
  "memory_chain m scope = (case map_of m scope of None \<Rightarrow> [] | Some es \<Rightarrow> es)"

text \<open>\<open>append\<close>; \<open>setdefault\<close> leaves an empty chain behind a record that is refused.\<close>

definition memory_append :: "evidence_record \<Rightarrow> (memory_store, evidence_entry) op" where
  "memory_append r m =
     (let scope = er_scope r; es = memory_chain m scope; opened = AList.update scope es m
      in if \<not> is_scope scope then (m, Inl ValueError)
         else (case chained r (if es = [] then None else Some (last es)) of
             Inl x \<Rightarrow> (opened, Inl x)
           | Inr e \<Rightarrow> (AList.update scope (es @ [e]) opened, Inr e)))"

definition validate_range :: "string \<Rightarrow> int \<Rightarrow> int option \<Rightarrow> unit result" where
  "validate_range scope start end_at =
     guard (\<not> is_scope scope) ValueError
       (guard (start < 1 \<or> (case end_at of None \<Rightarrow> False | Some n \<Rightarrow> n < start)) ValueError (Inr ()))"

definition within :: "int \<Rightarrow> int option \<Rightarrow> evidence_entry \<Rightarrow> bool" where
  "within start end_at e \<longleftrightarrow> start \<le> en_sequence e \<and> (case end_at of None \<Rightarrow> True | Some n \<Rightarrow> en_sequence e \<le> n)"

definition memory_read :: "string \<Rightarrow> int \<Rightarrow> int option \<Rightarrow> memory_store \<Rightarrow> evidence_entry list result" where
  "memory_read scope start end_at m =
     bind_r (validate_range scope start end_at) (\<lambda>_. Inr (filter (within start end_at) (memory_chain m scope)))"

definition memory_latest :: "string \<Rightarrow> memory_store \<Rightarrow> int option result" where
  "memory_latest scope m =
     guard (\<not> is_scope scope) ValueError
       (Inr (let es = memory_chain m scope in if es = [] then None else Some (en_sequence (last es))))"

definition memory_port :: "memory_store evidence_port" where
  "memory_port = \<lparr>ep_append = memory_append, ep_read = memory_read, ep_latest = memory_latest\<rparr>"

definition memory_well :: "memory_store \<Rightarrow> bool" where
  "memory_well m \<longleftrightarrow> (\<forall>scope. list_all (\<lambda>e. 1 \<le> en_sequence e) (memory_chain m scope))"

lemma memory_chain_update [simp]: "memory_chain (AList.update k es m) scope = (if scope = k then es else memory_chain m scope)"
  by (simp add: memory_chain_def)

lemma memory_append_cases:
  assumes "memory_append r m = (m', a)"
  obtains (refused) x where "a = Inl x" and "\<And>scope. memory_chain m' scope = memory_chain m scope"
    | (added) e where "a = Inr e" and "is_scope (er_scope r)"
      and "chained r (if memory_chain m (er_scope r) = [] then None else Some (last (memory_chain m (er_scope r)))) = Inr e"
      and "\<And>scope. memory_chain m' scope = (if scope = er_scope r then memory_chain m scope @ [e] else memory_chain m scope)"
proof (cases "is_scope (er_scope r)")
  case False
  then have "m' = m" "a = Inl ValueError" using assms by (simp_all add: memory_append_def)
  then show thesis using refused by simp
next
  case True
  show thesis
  proof (cases "chained r (if memory_chain m (er_scope r) = [] then None else Some (last (memory_chain m (er_scope r))))")
    case (Inl x)
    then have "m' = AList.update (er_scope r) (memory_chain m (er_scope r)) m" "a = Inl x"
      using assms True by (simp_all add: memory_append_def Let_def)
    then show thesis using refused by simp
  next
    case (Inr e)
    then have "m' = AList.update (er_scope r) (memory_chain m (er_scope r) @ [e]) (AList.update (er_scope r) (memory_chain m (er_scope r)) m)"
      "a = Inr e" using assms True by (simp_all add: memory_append_def Let_def)
    then show thesis using added True Inr by simp
  qed
qed

lemma place_positive: "place r n h = Inr e \<Longrightarrow> 1 \<le> en_sequence e"
  by (auto simp: place_def entry_post_init_def FIRST_SEQUENCE_def Let_def split: if_splits)

lemma chained_place: "chained r p = Inr e \<Longrightarrow> \<exists>n h. place r n h = Inr e"
  by (auto simp: chained_def split: option.splits if_splits)

lemma place_record: "place r n h = Inr e \<Longrightarrow> er_kind e = er_kind r \<and> er_body e = er_body r"
  by (auto simp: place_def placed_def Let_def)

interpretation memory: evidence_store memory_port memory_chain memory_well "\<lambda>_. True"
proof
  fix m m' r and a :: "evidence_entry result"
  assume well: "memory_well m" and run: "ep_append memory_port r m = (m', a)"
  from run have run: "memory_append r m = (m', a)" by (simp add: memory_port_def)
  show "memory_well m'"
    using run
  proof (cases rule: memory_append_cases)
    case (refused x)
    then show ?thesis using well by (simp add: memory_well_def)
  next
    case (added e)
    then show ?thesis using well chained_place place_positive by (fastforce simp: memory_well_def)
  qed
  show "\<exists>gaps es. list_all torn_gap gaps \<and> memory_chain m' (er_scope r) = memory_chain m (er_scope r) @ gaps @ es \<and> list_all (recorded r) es \<and>
      length es \<le> 1 \<and> ((\<exists>e. a = Inr e) \<longrightarrow> es \<noteq> [])"
    using run
  proof (cases rule: memory_append_cases)
    case (refused x)
    then show ?thesis by (intro exI [of _ "[]"]) simp
  next
    case (added e)
    then have "recorded r e" using chained_place place_record by (fastforce simp: recorded_def)
    then show ?thesis using added by (intro exI [of _ "[]"] exI [of _ "[e]"]) simp
  qed
  show "memory_chain m' scope = memory_chain m scope" if "scope \<noteq> er_scope r" for scope
    using run that by (cases rule: memory_append_cases) auto
next
  fix m m' r e
  assume "ep_append memory_port r m = (m', Inr e)"
  then have "memory_append r m = (m', Inr e)" by (simp add: memory_port_def)
  then show "er_kind e = er_kind r \<and> er_body e = er_body r \<and> 1 \<le> en_sequence e"
    using place_positive by (cases rule: memory_append_cases) (auto dest!: chained_place dest: place_record)
next
  fix m scope es
  assume "memory_well m" and "ep_read memory_port scope 1 None m = Inr es"
  then show "es = memory_chain m scope"
    by (auto simp: memory_port_def memory_read_def memory_well_def within_def list_all_iff split: if_splits)
next
  fix m scope e
  assume "memory_well m" and "e \<in> set (memory_chain m scope)"
  then show "1 \<le> en_sequence e" by (auto simp: memory_well_def list_all_iff)
qed

end
