(* ===== verification/JournalFile.thy ===== *)
theory JournalFile
  imports DecisionFileLines
begin

text \<open>
  The coordination journal (adapters/file/recovery_journal.py): one file of JSON lines for each scope, which says when an
  epoch of this process opened and when it was closed. The journal keeps nothing in memory, so its state is its files;
  a write takes a fault, as in \<open>DecisionFile\<close>.
\<close>

definition JOURNAL_VERSION :: int where
  "JOURNAL_VERSION = 1"

definition JOURNAL_LINE_BOUND :: int where
  "JOURNAL_LINE_BOUND = 65536"

definition RECORDS :: "string list" where
  "RECORDS = [''epoch_open'', ''epoch_clean'', ''epoch_reconciled'']"

record journal_record =
  jr_scope :: string
  jr_position :: int
  jr_record :: string
  jr_epoch_id :: string
  jr_store_id :: "string option"
  jr_from_sequence :: "int option"
  jr_marker_sequence :: "int option"
  jr_marker_hash :: "string option"

type_synonym journal = "(string, string) dict"

definition journal_bytes :: "journal \<Rightarrow> string \<Rightarrow> string" where
  "journal_bytes j scope = (case map_of j scope of None \<Rightarrow> [] | Some raw \<Rightarrow> raw)"

section \<open>Lines\<close>

definition journal_header :: "string \<Rightarrow> document" where
  "journal_header scope = [(''journal_version'', JInt JOURNAL_VERSION), (''header'', JObj [(''scope'', JStr scope)])]"

definition journal_document :: "journal_record \<Rightarrow> document" where
  "journal_document r =
     [(''journal_version'', JInt JOURNAL_VERSION), (''scope'', JStr (jr_scope r)), (''position'', JInt (jr_position r)),
      (''record'', JStr (jr_record r)), (''epoch_id'', JStr (jr_epoch_id r)), (''store_id'', opt_str (jr_store_id r)),
      (''from_sequence'', opt_int (jr_from_sequence r)), (''marker_sequence'', opt_int (jr_marker_sequence r)),
      (''marker_hash'', opt_str (jr_marker_hash r))]"

text \<open>\<open>position != expected\<close>, of a number that may be a bool or a float; the text of a float below \<open>1e16\<close>.\<close>

definition position_is :: "int \<Rightarrow> json \<Rightarrow> bool" where
  "position_is n v \<longleftrightarrow> v = JInt n \<or> v = JBool True \<and> n = 1 \<or> v = JFloat (int_text n @ ''.0'')"

definition positive_or_null :: "json \<Rightarrow> bool" where
  "positive_or_null v \<longleftrightarrow> v = JNull \<or> plain_int_at_least 1 v"

definition read_record :: "document \<Rightarrow> string \<Rightarrow> int \<Rightarrow> journal_record result" where
  "read_record d scope expected =
     (if member d ''scope'' \<noteq> JStr scope then Inl ValueError
      else if \<not> in_tuple (member d ''record'') RECORDS then Inl ValueError
      else if \<not> position_is expected (member d ''position'') then Inl ValueError
      else if \<not> some_text (member d ''epoch_id'') then Inl ValueError
      else if \<not> positive_or_null (member d ''from_sequence'') \<or> \<not> positive_or_null (member d ''marker_sequence'') then Inl ValueError
      else if member d ''record'' = JStr ''epoch_open'' \<and> member d ''from_sequence'' = JNull then Inl ValueError
      else Inr \<lparr>jr_scope = scope, jr_position = expected, jr_record = text_of (member d ''record''),
        jr_epoch_id = text_of (member d ''epoch_id''), jr_store_id = DecisionDocument.text_or_none (member d ''store_id''),
        jr_from_sequence = int_of (member d ''from_sequence''), jr_marker_sequence = int_of (member d ''marker_sequence''),
        jr_marker_hash = DecisionDocument.text_or_none (member d ''marker_hash'')\<rparr>)"

definition journal_header_ok :: "string \<Rightarrow> document \<Rightarrow> bool" where
  "journal_header_ok scope d \<longleftrightarrow> (case member d ''header'' of JObj h \<Rightarrow> member h ''scope'' = JStr scope | _ \<Rightarrow> False)"

text \<open>A line of \<open>_read_locked\<close> with the number of records before it, \<open>None\<close> for the header.\<close>

definition journal_line :: "json_reader \<Rightarrow> string \<Rightarrow> int option \<Rightarrow> string \<Rightarrow> journal_record list result" where
  "journal_line loads scope before line = (case loads line of
      Some (JObj d) \<Rightarrow>
        if \<not> equals_one (member d ''journal_version'') then Inl ValueError
        else (case before of
            None \<Rightarrow> if journal_header_ok scope d then Inr [] else Inl ValueError
          | Some n \<Rightarrow> bind_r (read_record d scope (n + 1)) (\<lambda>r. Inr [r]))
    | _ \<Rightarrow> Inl ValueError)"

fun journal_lines :: "json_reader \<Rightarrow> string \<Rightarrow> int \<Rightarrow> string list \<Rightarrow> journal_record list result" where
  "journal_lines loads scope n [] = Inr []"
| "journal_lines loads scope n (line # lines) = (case journal_line loads scope (Some n) line of
      Inl _ \<Rightarrow> Inl RecoveryJournalUnavailable
    | Inr rs \<Rightarrow> bind_r (journal_lines loads scope (n + int (length rs)) lines) (\<lambda>rest. Inr (rs @ rest)))"

definition read_locked :: "json_reader \<Rightarrow> string \<Rightarrow> string \<Rightarrow> journal_record list result" where
  "read_locked loads scope raw = (case fst (complete_lines raw) of
      [] \<Rightarrow> Inr []
    | header # lines \<Rightarrow> (case journal_line loads scope None header of
          Inl _ \<Rightarrow> Inl RecoveryJournalUnavailable
        | Inr _ \<Rightarrow> journal_lines loads scope 0 lines))"

section \<open>Operations\<close>

text \<open>\<open>_append\<close>; the record is given without its position.\<close>

definition append_journal :: "json_reader \<Rightarrow> fault \<Rightarrow> journal_record \<Rightarrow> (journal, unit) op" where
  "append_journal loads ft r j =
     (let scope = jr_scope r
      in if \<not> is_scope scope then (j, Inl ValueError)
         else let raw = journal_bytes j scope; j = AList.update scope raw j
              in (case read_locked loads scope raw of
                  Inl e \<Rightarrow> (j, Inl e)
                | Inr records \<Rightarrow>
                    let position = (if records = [] then 0 else jr_position (last records)) + 1;
                        payload = (if raw = [] then line_of (journal_header scope) else []) @
                          line_of (journal_document (r\<lparr>jr_position := position\<rparr>))
                    in (case ft of
                        None \<Rightarrow> (AList.update scope (raw @ payload) j, Inr ())
                      | Some n \<Rightarrow> (AList.update scope (raw @ take n payload) j, Inl RecoveryJournalUnavailable))))"

definition epoch_open :: "string \<Rightarrow> string \<Rightarrow> string option \<Rightarrow> int \<Rightarrow> journal_record" where
  "epoch_open scope epoch store from_sequence =
     \<lparr>jr_scope = scope, jr_position = 0, jr_record = ''epoch_open'', jr_epoch_id = epoch, jr_store_id = store,
      jr_from_sequence = Some from_sequence, jr_marker_sequence = None, jr_marker_hash = None\<rparr>"

definition epoch_closure :: "string \<Rightarrow> string \<Rightarrow> string \<Rightarrow> int option \<Rightarrow> string option \<Rightarrow> journal_record" where
  "epoch_closure kind scope epoch marker hash =
     \<lparr>jr_scope = scope, jr_position = 0, jr_record = kind, jr_epoch_id = epoch, jr_store_id = None,
      jr_from_sequence = None, jr_marker_sequence = marker, jr_marker_hash = hash\<rparr>"

definition journal_open_epoch ::
  "json_reader \<Rightarrow> fault \<Rightarrow> string \<Rightarrow> string \<Rightarrow> string option \<Rightarrow> int \<Rightarrow> (journal, unit) op" where
  "journal_open_epoch loads ft scope epoch store from_sequence = append_journal loads ft (epoch_open scope epoch store from_sequence)"

definition journal_epoch_clean ::
  "json_reader \<Rightarrow> fault \<Rightarrow> string \<Rightarrow> string \<Rightarrow> int option \<Rightarrow> string option \<Rightarrow> (journal, unit) op" where
  "journal_epoch_clean loads ft scope epoch marker hash = append_journal loads ft (epoch_closure ''epoch_clean'' scope epoch marker hash)"

definition journal_epoch_reconciled ::
  "json_reader \<Rightarrow> fault \<Rightarrow> string \<Rightarrow> string \<Rightarrow> int option \<Rightarrow> string option \<Rightarrow> (journal, unit) op" where
  "journal_epoch_reconciled loads ft scope epoch marker hash = append_journal loads ft (epoch_closure ''epoch_reconciled'' scope epoch marker hash)"

definition journal_records :: "json_reader \<Rightarrow> string \<Rightarrow> journal \<Rightarrow> journal_record list result" where
  "journal_records loads scope j =
     (if \<not> is_scope scope then Inl ValueError
      else case map_of j scope of None \<Rightarrow> Inr [] | Some raw \<Rightarrow> read_locked loads scope raw)"

definition still_open :: "journal_record list \<Rightarrow> journal_record list" where
  "still_open records =
     (let closed = jr_epoch_id ` set (filter (\<lambda>r. jr_record r \<noteq> ''epoch_open'') records)
      in filter (\<lambda>r. jr_record r = ''epoch_open'' \<and> jr_epoch_id r \<notin> closed) records)"

definition open_epochs :: "json_reader \<Rightarrow> string \<Rightarrow> journal \<Rightarrow> journal_record list result" where
  "open_epochs loads scope j = bind_r (journal_records loads scope j) (\<lambda>records. Inr (still_open records))"

text \<open>\<open>recover\<close>: the torn suffix is dropped, looked for in a window of the bound.\<close>

definition journal_kept :: "string \<Rightarrow> nat" where
  "journal_kept raw =
     (let window = min (length raw) (nat JOURNAL_LINE_BOUND + 1); tail = drop (length raw - window) raw
      in if newline \<in> set tail then length raw - length (tail_of tail) else 0)"

definition recover_journal :: "string \<Rightarrow> (journal, int) op" where
  "recover_journal scope j =
     (if \<not> is_scope scope then (j, Inl ValueError)
      else case map_of j scope of
          None \<Rightarrow> (j, Inr 0)
        | Some raw \<Rightarrow>
            if raw = [] \<or> last raw = newline then (j, Inr 0)
            else (AList.update scope (take (journal_kept raw) raw) j, Inr (int (length raw) - int (journal_kept raw))))"

definition journal_scopes :: "journal \<Rightarrow> string set" where
  "journal_scopes j = set (filter is_scope (map fst j))"

section \<open>Reading back\<close>

definition journal_ok :: "string \<Rightarrow> journal_record \<Rightarrow> bool" where
  "journal_ok scope r \<longleftrightarrow> jr_scope r = scope \<and> jr_record r \<in> set RECORDS \<and> jr_epoch_id r \<noteq> [] \<and>
     (case jr_from_sequence r of None \<Rightarrow> jr_record r \<noteq> ''epoch_open'' | Some n \<Rightarrow> 1 \<le> n) \<and>
     (case jr_marker_sequence r of None \<Rightarrow> True | Some n \<Rightarrow> 1 \<le> n)"

lemma journal_json_ok: "json_ok (JObj (journal_document r))" "json_ok (JObj (journal_header scope))"
  by (auto simp: journal_document_def journal_header_def opt_str_def opt_int_def split: option.splits)

lemma journal_line_reads:
  assumes "reads_canonical loads" and "journal_ok scope r" and "jr_position r = n + 1"
  shows "journal_line loads scope (Some n) (canonical_json (JObj (journal_document r))) = Inr [r]"
proof -
  define doc where "doc = sort_key fst (map (map_prod id sorted_json) (journal_document r))"
  have sorted: "sorted_json (opt_str x) = opt_str x" "sorted_json (opt_int y) = opt_int y" for x y
    by (simp_all add: opt_str_def opt_int_def split: option.split)
  have "well_keyed (journal_document r)" by (simp add: journal_document_def)
  then have m: "member doc ''journal_version'' = JInt 1" "member doc ''scope'' = JStr scope" "member doc ''position'' = JInt (n + 1)"
    "member doc ''record'' = JStr (jr_record r)" "member doc ''epoch_id'' = JStr (jr_epoch_id r)"
    "member doc ''store_id'' = opt_str (jr_store_id r)" "member doc ''from_sequence'' = opt_int (jr_from_sequence r)"
    "member doc ''marker_sequence'' = opt_int (jr_marker_sequence r)" "member doc ''marker_hash'' = opt_str (jr_marker_hash r)"
    using assms(2,3) by (simp_all add: doc_def member_def member_sorted journal_document_def JOURNAL_VERSION_def journal_ok_def sorted)
  have opt: "DecisionDocument.text_or_none (opt_str x) = x" "int_of (opt_int y) = y" for x y
    by (simp_all add: DecisionDocument.text_or_none_def opt_str_def opt_int_def int_of_def split: option.split)
  have ok: "positive_or_null (opt_int (jr_from_sequence r))" "positive_or_null (opt_int (jr_marker_sequence r))"
    "\<not> (jr_record r = ''epoch_open'' \<and> opt_int (jr_from_sequence r) = JNull)" "jr_record r \<in> set RECORDS" "jr_epoch_id r \<noteq> []"
    using assms(2) by (auto simp: journal_ok_def positive_or_null_def plain_int_at_least_def opt_int_def split: option.splits)
  have "read_record doc scope (n + 1) = Inr r"
    using ok assms(2,3) by (simp add: read_record_def m opt in_tuple_def position_is_def some_text_def text_of_def journal_ok_def)
  moreover have "loads (canonical_json (JObj (journal_document r))) = Some (JObj doc)"
    using assms(1) journal_json_ok(1) [of r] by (simp add: reads_canonical_def doc_def)
  ultimately show ?thesis by (simp add: journal_line_def m equals_one_def)
qed

lemma journal_header_reads:
  assumes "reads_canonical loads"
  shows "journal_line loads scope None (canonical_json (JObj (journal_header scope))) = Inr []"
proof -
  define doc where "doc = sort_key fst (map (map_prod id sorted_json) (journal_header scope))"
  have "well_keyed (journal_header scope)" by (simp add: journal_header_def)
  then have m: "member doc ''journal_version'' = JInt 1" "member doc ''header'' = JObj [(''scope'', JStr scope)]"
    by (simp_all add: doc_def member_def member_sorted journal_header_def JOURNAL_VERSION_def)
  have "loads (canonical_json (JObj (journal_header scope))) = Some (JObj doc)"
    using assms journal_json_ok(2) [of scope] by (simp add: reads_canonical_def doc_def)
  then show ?thesis by (simp add: journal_line_def m equals_one_def journal_header_ok_def) (simp add: member_def)
qed

end
