(* ===== verification/Recovery.thy ===== *)
theory Recovery
  imports EvidenceStores JournalFile Emitter Decisions
begin

text \<open>
  The synchronous recovery writer (cp/application/recovery.py): opening and closing the epochs of this process, and at the
  next start declaring what an epoch left open may have lost, naming the decisions without an effect, and comparing what
  the authority and the chain say. The chain is any evidence store behind its port, the decisions and the journal are the
  stores on disk; the daemon's grade, the clock, the archive and the local time zone are arguments. Copying foreign values
  (\<open>core_owned_*\<close>) is the identity.
\<close>

definition GAP_ID_BOUND :: nat where
  "GAP_ID_BOUND = 8192"

definition POSSIBLY_LOST_KINDS :: "string list" where
  "POSSIBLY_LOST_KINDS = [''effect'', ''grade'', ''composition'', ''gap'']"

definition RECOVERY_PRINCIPAL :: chain_principal where
  "RECOVERY_PRINCIPAL = Chain_Principal ''service'' ''daemon'' []"

definition SHARED_FACTS :: "string list" where
  "SHARED_FACTS = [''capability'', ''outcome'', ''policy_version'', ''reason'', ''rule_id'', ''arguments_digest'',
     ''correlation'', ''correlation_source'', ''principal_references'', ''evaluation_recipe'']"

datatype report_state = Agrees | Disagrees | Contradicts | Not_Run

record report =
  rp_scope :: string
  rp_checked_at :: "datetime option"
  rp_through_sequence :: "int option"
  rp_through_decision_position :: "int option"
  rp_state :: report_state
  rp_effects_without_decision :: "nat option"
  rp_contradictory_decisions :: "nat option"
  rp_unflushed_declared :: "nat option"
  rp_unknown_event_coverage :: "bool option"
  rp_policy_versions_absent :: "nat option"
  rp_policy_versions_damaged :: "nat option"

definition not_run :: "string \<Rightarrow> report" where
  "not_run scope = \<lparr>rp_scope = scope, rp_checked_at = None, rp_through_sequence = None, rp_through_decision_position = None,
     rp_state = Not_Run, rp_effects_without_decision = None, rp_contradictory_decisions = None, rp_unflushed_declared = None,
     rp_unknown_event_coverage = None, rp_policy_versions_absent = None, rp_policy_versions_damaged = None\<rparr>"

text \<open>What the writer is given; \<open>rv_faults\<close> is the fault of the journal write that names an epoch.\<close>

record ('s, 'g) recovery_env =
  rv_chain :: "'s evidence_port"
  rv_loads :: json_reader
  rv_platform :: platform
  rv_fresh :: string
  rv_recording_epoch :: string
  rv_clock :: "nat \<Rightarrow> datetime"
  rv_daemon_grade :: "(string \<Rightarrow> ('g, evidence_record option) op) option"
  rv_archive :: "(string \<Rightarrow> Decisions.archive_state result) option"
  rv_local_time :: "int \<Rightarrow> int"
  rv_faults :: "string \<Rightarrow> fault"

record ('s, 'g) recovery =
  rw_chain :: 's
  rw_decisions :: decision_store
  rw_journal :: journal
  rw_grading :: 'g
  rw_clock_reads :: nat
  rw_opened :: "string list"
  rw_reports :: "(string, report) dict"

section \<open>Using the stores\<close>

definition chain_append :: "('s, 'g) recovery_env \<Rightarrow> evidence_record \<Rightarrow> (('s, 'g) recovery, evidence_entry) op" where
  "chain_append env r w = (case ep_append (rv_chain env) r (rw_chain w) of (s, a) \<Rightarrow> (w\<lparr>rw_chain := s\<rparr>, a))"

definition chain_latest :: "('s, 'g) recovery_env \<Rightarrow> string \<Rightarrow> (('s, 'g) recovery, int option) op" where
  "chain_latest env scope w = (w, ep_latest (rv_chain env) scope (rw_chain w))"

definition read_chain :: "('s, 'g) recovery_env \<Rightarrow> string \<Rightarrow> (('s, 'g) recovery, evidence_entry list) op" where
  "read_chain env scope w = (w, ep_read (rv_chain env) scope 1 None (rw_chain w))"

definition scan_decisions :: "('s, 'g) recovery_env \<Rightarrow> string \<Rightarrow> (('s, 'g) recovery, envelope list) op" where
  "scan_decisions env scope w =
     (case scan (rv_loads env) (rv_platform env) (rv_fresh env) scope (rw_decisions w) of (s, a) \<Rightarrow> (w\<lparr>rw_decisions := s\<rparr>, a))"

definition store_of_scope :: "('s, 'g) recovery_env \<Rightarrow> string \<Rightarrow> (('s, 'g) recovery, string option) op" where
  "store_of_scope env scope w =
     (case store_id_of (rv_loads env) (rv_platform env) (rv_fresh env) scope (rw_decisions w) of (s, a) \<Rightarrow> (w\<lparr>rw_decisions := s\<rparr>, a))"

definition journal_op :: "(journal, unit) op \<Rightarrow> (('s, 'g) recovery, unit) op" where
  "journal_op act w = (case act (rw_journal w) of (j, a) \<Rightarrow> (w\<lparr>rw_journal := j\<rparr>, a))"

definition open_records :: "('s, 'g) recovery_env \<Rightarrow> string \<Rightarrow> (('s, 'g) recovery, journal_record list) op" where
  "open_records env scope w = (w, open_epochs (rv_loads env) scope (rw_journal w))"

definition read_clock :: "('s, 'g) recovery_env \<Rightarrow> (('s, 'g) recovery, datetime) op" where
  "read_clock env w = (w\<lparr>rw_clock_reads := Suc (rw_clock_reads w)\<rparr>, core_instant (rv_clock env (rw_clock_reads w)))"

definition grade_first :: "('s, 'g) recovery_env \<Rightarrow> string \<Rightarrow> (('s, 'g) recovery, unit) op" where
  "grade_first env scope w = (case rv_daemon_grade env of
      None \<Rightarrow> (w, Inr ())
    | Some grade \<Rightarrow> (case grade scope (rw_grading w) of
          (g, Inl e) \<Rightarrow> (w\<lparr>rw_grading := g\<rparr>, Inl e)
        | (g, Inr None) \<Rightarrow> (w\<lparr>rw_grading := g\<rparr>, Inr ())
        | (g, Inr (Some r)) \<Rightarrow> bind_op (chain_append env r) (\<lambda>_. answer (Inr ())) (w\<lparr>rw_grading := g\<rparr>)))"

text \<open>\<open>_append\<close>: a record on the daemon's own connection.\<close>

definition append_marker ::
  "('s, 'g) recovery_env \<Rightarrow> string \<Rightarrow> string \<Rightarrow> document \<Rightarrow> (('s, 'g) recovery, evidence_entry) op" where
  "append_marker env scope kind body =
     bind_op (read_clock env) (\<lambda>now.
     bind_op (answer (build_record scope kind now DAEMON_CONNECTION RECOVERY_PRINCIPAL body)) (chain_append env))"

section \<open>Epochs\<close>

definition open_epoch :: "('s, 'g) recovery_env \<Rightarrow> string \<Rightarrow> (('s, 'g) recovery, unit) op" where
  "open_epoch env scope w =
     (if scope \<in> set (rw_opened w) then (w, Inr ())
      else bind_op (chain_latest env scope) (\<lambda>head.
        bind_op (store_of_scope env scope) (\<lambda>store.
        bind_op (journal_op (journal_open_epoch (rv_loads env) (rv_faults env (rv_recording_epoch env)) scope
            (rv_recording_epoch env) store ((case head of None \<Rightarrow> 0 | Some n \<Rightarrow> n) + 1))) (\<lambda>_ w.
          (w\<lparr>rw_opened := rw_opened w @ [scope]\<rparr>, Inr ())))) w)"

definition clean_stop_body :: "string \<Rightarrow> int \<Rightarrow> int \<Rightarrow> document" where
  "clean_stop_body epoch first through =
     [(''event'', JStr ''clean_stop''), (''epoch_id'', JStr epoch), (''from_sequence'', JInt first),
      (''through_sequence'', JInt through), (''recording_epoch'', JStr (''recovery:'' @ epoch))]"

definition closed_clean ::
  "('s, 'g) recovery_env \<Rightarrow> string \<Rightarrow> int option \<Rightarrow> string option \<Rightarrow> (('s, 'g) recovery, bool) op" where
  "closed_clean env scope marker hash =
     bind_op (journal_op (journal_epoch_clean (rv_loads env) (rv_faults env (rv_recording_epoch env)) scope
         (rv_recording_epoch env) marker hash)) (\<lambda>_ w.
       (w\<lparr>rw_opened := filter (\<lambda>s. s \<noteq> scope) (rw_opened w)\<rparr>, Inr True))"

definition close_clean :: "('s, 'g) recovery_env \<Rightarrow> string \<Rightarrow> (('s, 'g) recovery, bool) op" where
  "close_clean env scope w =
     (if scope \<notin> set (rw_opened w) then (w, Inr False)
      else bind_op (open_records env scope) (\<lambda>records.
        let opened = filter (\<lambda>r. jr_epoch_id r = rv_recording_epoch env) records
        in if opened = [] then answer (Inr False)
           else (case jr_from_sequence (last opened) of
               None \<Rightarrow> answer (Inl AssertionError)
             | Some first \<Rightarrow>
                 bind_op (grade_first env scope) (\<lambda>_.
                 bind_op (chain_latest env scope) (\<lambda>head. case head of
                     None \<Rightarrow> closed_clean env scope None None
                   | Some through \<Rightarrow>
                       if through < first then closed_clean env scope None None
                       else bind_op (append_marker env scope ''recovery'' (clean_stop_body (rv_recording_epoch env) first through))
                         (\<lambda>marker. closed_clean env scope (Some (en_sequence marker)) (Some (en_entry_hash marker))))))) w)"

section \<open>The losses of an epoch left open\<close>

definition written_by_recovery :: "evidence_entry \<Rightarrow> bool" where
  "written_by_recovery e \<longleftrightarrow> er_kind e = ''recovery'' \<or> er_kind e = ''gap'' \<and> member (er_body e) ''reason'' = JStr ''unflushed''"

text \<open>The position an effect was decided at, in an entry that is valid.\<close>

definition decided_position :: "evidence_entry \<Rightarrow> (string \<times> int) option" where
  "decided_position e = (case member (er_body e) ''decision_position'' of
      JObj d \<Rightarrow> if er_kind e = ''effect'' then Some (position_key (JObj d)) else None
    | _ \<Rightarrow> None)"

definition surviving :: "evidence_entry list \<Rightarrow> (string \<times> int) set" where
  "surviving entries = set (List.map_filter decided_position entries)"

definition gap_ids :: "'x evidence_record_scheme \<Rightarrow> string list" where
  "gap_ids e = (case member (er_body e) ''decision_ids'' of JArr ids \<Rightarrow> if er_kind e = ''gap'' then texts ids else [] | _ \<Rightarrow> [])"

definition named :: "evidence_entry list \<Rightarrow> string list" where
  "named entries = concat (map gap_ids entries)"

definition missing_of :: "string \<Rightarrow> evidence_entry list \<Rightarrow> envelope list \<Rightarrow> envelope list" where
  "missing_of epoch entries envelopes = sort_key ev_position
     (filter (\<lambda>v. ev_recording_epoch v = epoch \<and> (ev_store_id v, ev_position v) \<notin> surviving entries \<and>
        de_ref (ev_decision v) \<notin> set (named entries)) envelopes)"

text \<open>\<open>range(0, len(missing), GAP_ID_BOUND)\<close>.\<close>

function chunks :: "nat \<Rightarrow> 'a list \<Rightarrow> 'a list list" where
  "chunks n xs = (if xs = [] \<or> n = 0 then [] else take n xs # chunks n (drop n xs))"
  by pat_completeness auto
termination by (relation "measure (\<lambda>(n, xs). length xs)") auto

declare chunks.simps [simp del]

text \<open>\<open>_render\<close>: \<open>astimezone\<close> reads an instant without an offset in the local time zone.\<close>

definition render_recorded :: "('s, 'g) recovery_env \<Rightarrow> string \<Rightarrow> string result" where
  "render_recorded env instant = bind_r (pl_reads (rv_platform env) (zulu_offset instant)) (\<lambda>d.
     chain_instant (case d of Aware t \<Rightarrow> Aware t | Naive t \<Rightarrow> Aware (rv_local_time env t)))"

definition unflushed_body :: "string \<Rightarrow> string \<Rightarrow> string \<Rightarrow> envelope list \<Rightarrow> document" where
  "unflushed_body epoch first_at last_at chunk =
     [(''reason'', JStr ''unflushed''), (''count'', JInt (int (length chunk))), (''first_at'', JStr first_at),
      (''last_at'', JStr last_at), (''kinds'', JObj [(''effect'', JInt (int (length chunk)))]),
      (''decision_ids'', JArr (map (\<lambda>v. JStr (de_ref (ev_decision v))) chunk)),
      (''decision_positions'', JArr (map (\<lambda>v. position_document (ev_store_id v, ev_position v)) chunk)),
      (''accounting'', JStr ''decision''), (''recording_epoch'', JStr epoch)]"

fun declare_chunks ::
  "('s, 'g) recovery_env \<Rightarrow> string \<Rightarrow> string \<Rightarrow> envelope list list \<Rightarrow> (('s, 'g) recovery, evidence_entry list) op" where
  "declare_chunks env scope epoch [] w = (w, Inr [])"
| "declare_chunks env scope epoch (chunk # rest) w =
     (let instants = sort (map (\<lambda>v. de_decided_at (ev_decision v)) chunk)
      in bind_op (grade_first env scope) (\<lambda>_.
        bind_op (answer (render_recorded env (hd instants))) (\<lambda>first_at.
        bind_op (answer (render_recorded env (last instants))) (\<lambda>last_at.
        bind_op (append_marker env scope ''gap'' (unflushed_body epoch first_at last_at chunk)) (\<lambda>gap w.
          (case declare_chunks env scope epoch rest w of
             (w, Inl e) \<Rightarrow> (w, Inl e)
           | (w, Inr gaps) \<Rightarrow> (w, Inr (gap # gaps))))))) w)"

definition declare_unflushed ::
  "('s, 'g) recovery_env \<Rightarrow> string \<Rightarrow> string \<Rightarrow> evidence_entry list \<Rightarrow> (('s, 'g) recovery, evidence_entry list) op" where
  "declare_unflushed env scope epoch entries =
     bind_op (scan_decisions env scope) (\<lambda>envelopes.
     bind_op (declare_chunks env scope epoch (chunks GAP_ID_BOUND (missing_of epoch entries envelopes))) (\<lambda>gaps.
       answer (Inr (entries @ gaps))))"

definition unclean_stop_body :: "string \<Rightarrow> int \<Rightarrow> int \<Rightarrow> document" where
  "unclean_stop_body epoch first through =
     [(''event'', JStr ''unclean_stop''), (''epoch_id'', JStr epoch), (''from_sequence'', JInt first),
      (''through_sequence'', JInt through), (''lost_event_count'', JNull),
      (''possibly_lost_kinds'', JArr (map JStr POSSIBLY_LOST_KINDS)), (''coverage'', JStr ''unknown''),
      (''recording_epoch'', JStr (''recovery:'' @ epoch))]"

definition unclean_marker :: "string \<Rightarrow> evidence_entry \<Rightarrow> bool" where
  "unclean_marker epoch e \<longleftrightarrow> er_kind e = ''recovery'' \<and> member (er_body e) ''event'' = JStr ''unclean_stop'' \<and>
     member (er_body e) ''epoch_id'' = JStr epoch"

definition produced :: "string \<Rightarrow> int \<Rightarrow> evidence_entry list \<Rightarrow> int list" where
  "produced epoch first entries = map en_sequence (filter (\<lambda>e. first \<le> en_sequence e \<and> \<not> written_by_recovery e \<and>
     (case map_of (er_body e) ''recording_epoch'' of None \<Rightarrow> True | Some v \<Rightarrow> v = JStr epoch)) entries)"

definition mark_unclean ::
  "('s, 'g) recovery_env \<Rightarrow> string \<Rightarrow> string \<Rightarrow> int \<Rightarrow> evidence_entry list \<Rightarrow>
   (('s, 'g) recovery, evidence_entry option \<times> evidence_entry list) op" where
  "mark_unclean env scope epoch first entries =
     (let sequences = produced epoch first entries; head = (if sequences = [] then 0 else Max (set sequences))
      in case find (unclean_marker epoch) entries of
          Some marker \<Rightarrow> answer (Inr (Some marker, entries))
        | None \<Rightarrow>
            if head < first then answer (Inr (None, entries))
            else bind_op (grade_first env scope) (\<lambda>_.
              bind_op (append_marker env scope ''recovery'' (unclean_stop_body epoch first head)) (\<lambda>marker.
                answer (Inr (Some marker, entries @ [marker])))))"

definition reconcile_epoch ::
  "('s, 'g) recovery_env \<Rightarrow> string \<Rightarrow> journal_record \<Rightarrow> evidence_entry list \<Rightarrow> (('s, 'g) recovery, evidence_entry list) op" where
  "reconcile_epoch env scope r entries = (case jr_from_sequence r of
      None \<Rightarrow> answer (Inl AssertionError)
    | Some first \<Rightarrow>
        bind_op (mark_unclean env scope (jr_epoch_id r) first entries) (\<lambda>(marker, entries).
        bind_op (declare_unflushed env scope (jr_epoch_id r) entries) (\<lambda>entries.
        bind_op (journal_op (journal_epoch_reconciled (rv_loads env) (rv_faults env (jr_epoch_id r)) scope (jr_epoch_id r)
            (map_option en_sequence marker) (map_option en_entry_hash marker))) (\<lambda>_.
          answer (Inr entries)))))"

section \<open>Comparing contents\<close>

definition contradicts :: "document \<Rightarrow> decision \<Rightarrow> bool" where
  "contradicts body authority = list_ex (\<lambda>k. has_member body k \<and> member body k \<noteq> member (decision_to_document authority) k) SHARED_FACTS"

definition held_by_reference :: "envelope list \<Rightarrow> string \<Rightarrow> decision option" where
  "held_by_reference envelopes ref = map_of (map (\<lambda>v. (de_ref (ev_decision v), ev_decision v)) (rev envelopes)) ref"

definition effects :: "evidence_entry list \<Rightarrow> evidence_entry list" where
  "effects entries = filter (\<lambda>e. er_kind e = ''effect'') entries"

definition held_for :: "envelope list \<Rightarrow> evidence_entry \<Rightarrow> decision option" where
  "held_for envelopes e = held_by_reference envelopes (text_of (member (er_body e) ''decision_id''))"

fun archive_states :: "(string \<Rightarrow> Decisions.archive_state result) \<Rightarrow> string list \<Rightarrow> Decisions.archive_state list result" where
  "archive_states archive [] = Inr []"
| "archive_states archive (v # vs) =
     bind_r (archive v) (\<lambda>s. bind_r (archive_states archive vs) (\<lambda>ss. Inr (s # ss)))"

definition compare_contents ::
  "('s, 'g) recovery_env \<Rightarrow> string \<Rightarrow> evidence_entry list \<Rightarrow> (('s, 'g) recovery, report) op" where
  "compare_contents env scope entries =
     bind_op (scan_decisions env scope) (\<lambda>envelopes.
       let es = effects entries;
           without = length (filter (\<lambda>e. held_for envelopes e = None) es);
           contradictory = length (filter (\<lambda>e. case held_for envelopes e of None \<Rightarrow> False | Some d \<Rightarrow> contradicts (er_body e) d) es);
           versions = sort (remdups (map (\<lambda>e. text_of (member (er_body e) ''policy_version'')) es));
           positions = map snd (List.map_filter decided_position es);
           declared = sum_list (map (\<lambda>e. case member (er_body e) ''decision_ids'' of
               JArr ids \<Rightarrow> if er_kind e = ''gap'' \<and> member (er_body e) ''reason'' = JStr ''unflushed'' then length ids else 0
             | _ \<Rightarrow> 0) entries)
       in bind_op (answer (case rv_archive env of None \<Rightarrow> Inr [] | Some archive \<Rightarrow> archive_states archive versions)) (\<lambda>states.
          bind_op (read_clock env) (\<lambda>now.
            answer (Inr \<lparr>rp_scope = scope, rp_checked_at = Some now, rp_through_sequence = last_sequence entries,
              rp_through_decision_position = (if positions = [] then None else Some (Max (set positions))),
              rp_state = (if 0 < contradictory then Contradicts else if 0 < without then Disagrees else Agrees),
              rp_effects_without_decision = Some without, rp_contradictory_decisions = Some contradictory,
              rp_unflushed_declared = Some declared,
              rp_unknown_event_coverage = Some (list_ex (\<lambda>e. er_kind e = ''recovery'' \<and>
                 member (er_body e) ''event'' = JStr ''unclean_stop'') entries),
              rp_policy_versions_absent = Some (length (filter (\<lambda>s. s = Decisions.Absent) states)),
              rp_policy_versions_damaged = Some (length (filter (\<lambda>s. s = Decisions.Damaged) states))\<rparr>))))"

section \<open>The next start\<close>

fun reconcile_epochs ::
  "('s, 'g) recovery_env \<Rightarrow> string \<Rightarrow> journal_record list \<Rightarrow> evidence_entry list \<Rightarrow> (('s, 'g) recovery, evidence_entry list) op" where
  "reconcile_epochs env scope [] entries w = (w, Inr entries)"
| "reconcile_epochs env scope (r # rs) entries w =
     (if jr_epoch_id r = rv_recording_epoch env then reconcile_epochs env scope rs entries w
      else (case reconcile_epoch env scope r entries w of
          (w, Inl e) \<Rightarrow> (w, Inl e)
        | (w, Inr entries) \<Rightarrow> reconcile_epochs env scope rs entries w))"

definition reconcile_at_start :: "('s, 'g) recovery_env \<Rightarrow> string \<Rightarrow> (('s, 'g) recovery, report) op" where
  "reconcile_at_start env scope =
     bind_op (read_chain env scope) (\<lambda>entries w.
       (case bind_op (open_records env scope) (\<lambda>records.
          bind_op (reconcile_epochs env scope records entries) (\<lambda>entries. compare_contents env scope entries)) w of
          (w, Inl e) \<Rightarrow>
            if e = exn.DecisionStoreUnavailable
            then (w\<lparr>rw_reports := AList.update scope (not_run scope) (rw_reports w)\<rparr>, Inr (not_run scope))
            else (w, Inl e)
        | (w, Inr report) \<Rightarrow> (w\<lparr>rw_reports := AList.update scope report (rw_reports w)\<rparr>, Inr report)))"

end
