(* ===== verification/JournalProperties.thy ===== *)
theory JournalProperties
  imports JournalFile
begin

text \<open>
  What the coordination journal promises over lives of the process: an epoch whose opening was acknowledged is open until a
  closure of it is written; and the fault that spoils it, a write torn in a process that lives on.
\<close>

section \<open>A journal file\<close>

definition journal_text :: "journal_record \<Rightarrow> string" where
  "journal_text r = canonical_json (JObj (journal_document r))"

definition journal_file :: "string \<Rightarrow> journal_record list \<Rightarrow> string" where
  "journal_file scope log = joined_lines (canonical_json (JObj (journal_header scope)) # map journal_text log)"

definition journal_log :: "string \<Rightarrow> journal_record list \<Rightarrow> bool" where
  "journal_log scope log \<longleftrightarrow> list_all (journal_ok scope) log \<and> map jr_position log = map int [1..<Suc (length log)]"

lemma journal_log_snoc [simp]:
  "journal_log scope (log @ [r]) \<longleftrightarrow> journal_log scope log \<and> journal_ok scope r \<and> jr_position r = int (length log) + 1"
  by (auto simp: journal_log_def)

lemma journal_file_snoc: "journal_file scope (log @ [r]) = journal_file scope log @ line_of (journal_document r)"
  by (simp add: journal_file_def joined_lines_def journal_text_def line_of_def)

lemma journal_file_Nil: "journal_file scope [] = line_of (journal_header scope)"
  by (simp add: journal_file_def joined_lines_def line_of_def)

lemma journal_file_last: "last (journal_file scope log) = newline" "journal_file scope log \<noteq> []"
  by (cases log rule: rev_cases; simp add: journal_file_Nil journal_file_snoc line_of_def)+

lemma journal_complete:
  "newline \<notin> set t \<Longrightarrow> complete_lines (journal_file scope log @ t) = (canonical_json (JObj (journal_header scope)) # map journal_text log, t)"
  unfolding journal_file_def journal_text_def
  using journal_json_ok canonical_no_newline canonical_nonempty by (intro complete_lines_joined) auto

lemma journal_lines_read:
  assumes "reads_canonical loads"
  shows "list_all (journal_ok scope) log \<Longrightarrow> map jr_position log = map int [Suc k..<Suc (k + length log)] \<Longrightarrow>
    journal_lines loads scope (int k) (map journal_text log) = Inr log"
proof (induction log arbitrary: k)
  case (Cons r log)
  have "[Suc k..<Suc (k + length (r # log))] = Suc k # [Suc (Suc k)..<Suc (Suc k + length log)]"
    by (subst upt_conv_Cons) auto
  then have r: "jr_position r = int k + 1" "map jr_position log = map int [Suc (Suc k)..<Suc (Suc k + length log)]"
    using Cons.prems(2) by auto
  from Cons.IH [OF _ r(2)] Cons.prems(1) have "journal_lines loads scope (int k + 1) (map journal_text log) = Inr log"
    by (simp add: add.commute)
  then show ?case using journal_line_reads [OF assms _ r(1), of scope] Cons.prems(1) by (simp add: journal_text_def [of r])
qed simp

lemma journal_read:
  assumes "reads_canonical loads" and "journal_log scope log" and "newline \<notin> set t"
  shows "read_locked loads scope (journal_file scope log @ t) = Inr log"
  using journal_lines_read [OF assms(1), of scope log 0] journal_header_reads [OF assms(1), of scope] assms(2)
  by (simp add: read_locked_def journal_complete [OF assms(3)] journal_log_def del: upt_Suc)

lemma journal_kept_log:
  assumes "int (length t) \<le> JOURNAL_LINE_BOUND" and "newline \<notin> set t"
  shows "journal_kept (journal_file scope log @ t) = length (journal_file scope log)"
proof -
  obtain front where front: "journal_file scope log = front @ [newline]"
    using journal_file_last by (metis append_butlast_last_id)
  define window where "window = min (length (front @ newline # t)) (nat JOURNAL_LINE_BOUND + 1)"
  have window: "Suc (length t) \<le> window" using assms(1) by (auto simp: window_def)
  define tail where "tail = drop (length (front @ newline # t) - window) (front @ newline # t)"
  have "tail = drop (Suc (length front + length t) - window) front @ newline # t"
    using window by (simp add: tail_def)
  then have "newline \<in> set tail" "tail_of tail = t" using tail_of_append [OF assms(2)] by simp_all
  then show ?thesis by (simp add: journal_kept_def front Let_def flip: window_def tail_def) (simp add: tail_def window_def)
qed

section \<open>The invariant\<close>

definition journal_good :: "string \<Rightarrow> string \<Rightarrow> journal_record list \<Rightarrow> bool" where
  "journal_good scope raw log \<longleftrightarrow> raw = [] \<and> log = [] \<or> raw = journal_file scope log \<and> journal_log scope log"

lemma journal_good_read: "reads_canonical loads \<Longrightarrow> journal_good scope raw log \<Longrightarrow> read_locked loads scope raw = Inr log"
  using journal_read [of loads scope log "[]"] complete_lines_torn [of "[]"] by (auto simp: journal_good_def read_locked_def)

definition next_record :: "journal_record list \<Rightarrow> journal_record \<Rightarrow> journal_record" where
  "next_record log r = r\<lparr>jr_position := int (length log) + 1\<rparr>"

lemma good_position: "journal_good scope raw log \<Longrightarrow> (if log = [] then 0 else jr_position (last log)) = int (length log)"
  by (cases log rule: rev_cases) (auto simp: journal_good_def)

definition journal_payload :: "string \<Rightarrow> journal_record list \<Rightarrow> journal_record \<Rightarrow> string" where
  "journal_payload raw log r = (if raw = [] then line_of (journal_header (jr_scope r)) else []) @ line_of (journal_document (next_record log r))"

lemma append_journal_good:
  assumes "reads_canonical loads" and "journal_good (jr_scope r) (journal_bytes j (jr_scope r)) log" and "is_scope (jr_scope r)"
  shows "append_journal loads ft r j = (let scope = jr_scope r; raw = journal_bytes j scope; j = AList.update scope raw j in
    case ft of None \<Rightarrow> (AList.update scope (raw @ journal_payload raw log r) j, Inr ())
    | Some n \<Rightarrow> (AList.update scope (raw @ take n (journal_payload raw log r)) j, Inl RecoveryJournalUnavailable))"
  using assms(3) good_position [OF assms(2)] journal_good_read [OF assms(1,2)]
  by (cases ft) (simp_all add: append_journal_def Let_def journal_payload_def next_record_def)

lemma good_written:
  assumes "journal_good scope raw log" and "journal_ok scope r"
  shows "journal_good scope (raw @ journal_payload raw log r) (log @ [next_record log r])"
proof -
  have ok: "journal_ok scope (next_record log r)" "jr_position (next_record log r) = int (length log) + 1" "jr_scope r = scope"
    using assms(2) by (auto simp: journal_ok_def next_record_def split: option.splits)
  have snoc: "journal_good scope (journal_file scope (log @ [next_record log r])) (log @ [next_record log r])" if "journal_log scope log"
    using that ok by (simp add: journal_good_def)
  have "raw = [] \<and> log = [] \<or> raw = journal_file scope log \<and> journal_log scope log" using assms(1) by (simp add: journal_good_def)
  then show ?thesis
  proof (elim disjE conjE)
    assume "raw = []" "log = []"
    then have "raw @ journal_payload raw log r = journal_file scope (log @ [next_record log r])"
      using ok(3) by (simp add: journal_payload_def journal_file_snoc journal_file_Nil flip: append_Nil)
    with snoc \<open>log = []\<close> show ?thesis by (simp add: journal_log_def)
  next
    assume "raw = journal_file scope log" "journal_log scope log"
    then have "raw @ journal_payload raw log r = journal_file scope (log @ [next_record log r])"
      using journal_file_last(2) by (simp add: journal_payload_def journal_file_snoc)
    with snoc \<open>journal_log scope log\<close> show ?thesis by simp
  qed
qed

text \<open>What is left of a torn write once the suffix is dropped: nothing of it, the header, or all of it.\<close>

lemma good_torn:
  assumes good: "journal_good scope raw log" and r: "journal_ok scope r" and n: "int n \<le> JOURNAL_LINE_BOUND"
    and torn: "torn = raw @ take n (journal_payload raw log r)"
    and kept: "kept = (if torn = [] \<or> last torn = newline then torn else take (journal_kept torn) torn)"
  shows "journal_good scope kept log \<or> journal_good scope kept (log @ [next_record log r])"
proof -
  have line: "(\<exists>t. take m (line_of doc) = t \<and> newline \<notin> set t) \<or> take m (line_of doc) = line_of doc" if "json_ok (JObj doc)" for m doc
  proof (cases "length (line_of doc) \<le> m")
    case False
    then have "take m (line_of doc) = take m (canonical_json (JObj doc))" by (simp add: line_of_def)
    then show ?thesis using canonical_no_newline [OF that] by (auto dest: in_set_takeD)
  qed simp
  have scope: "jr_scope r = scope" using r by (simp add: journal_ok_def)
  have cut: "kept = journal_file scope l" if "torn = journal_file scope l @ t" "newline \<notin> set t" "length t \<le> n" for l t
  proof (cases "t = []")
    case True
    then show ?thesis using that(1) kept journal_file_last by simp
  next
    case False
    then have "last torn \<noteq> newline" using that(1,2) by (auto simp: last_append dest: last_in_set)
    moreover have "torn \<noteq> []" using that(1) False by simp
    moreover have "journal_kept torn = length (journal_file scope l)" using journal_kept_log [OF _ that(2), of scope l] that n by simp
    ultimately show ?thesis using kept that(1) by simp
  qed
  show ?thesis
  proof (cases "raw = []")
    case True
    then have log: "log = []" using good journal_file_last(2) by (auto simp: journal_good_def dest: sym)
    define h where "h = line_of (journal_header scope)"
    define d where "d = line_of (journal_document (next_record log r))"
    have torn': "torn = take n h @ take (n - length h) d" using torn True scope by (simp add: journal_payload_def h_def d_def)
    show ?thesis
    proof (cases "length h \<le> n")
      case False
      then have torn: "torn = take n h" using torn' by simp
      have "take n h \<noteq> h" using False by (metis length_take min_def nat_le_linear)
      then have "newline \<notin> set (take n h)" using line [OF journal_json_ok(2), of n scope] by (auto simp: h_def)
      then have none: "newline \<notin> set torn" by (simp add: torn)
      then have "journal_kept torn = 0" by (auto simp: journal_kept_def Let_def dest: in_set_dropD)
      moreover have "last torn \<noteq> newline" if "torn \<noteq> []" using none last_in_set [OF that] by metis
      ultimately have "kept = []" using kept by (cases "torn = []") simp_all
      then show ?thesis using log by (simp add: journal_good_def)
    next
      case True
      then have torn: "torn = journal_file scope [] @ take (n - length h) d" using torn' by (simp add: journal_file_Nil h_def)
      from line [OF journal_json_ok(1), of "n - length h" "next_record log r"]
      show ?thesis
      proof (elim disjE exE conjE)
        fix t assume "take (n - length h) (line_of (journal_document (next_record log r))) = t" "newline \<notin> set t"
        then have "kept = journal_file scope []" using cut [OF torn] by (simp add: d_def) (metis diff_le_self length_take min.coboundedI2 order_trans)
        then show ?thesis using log by (simp add: journal_good_def journal_log_def)
      next
        assume "take (n - length h) (line_of (journal_document (next_record log r))) = line_of (journal_document (next_record log r))"
        then have "torn = raw @ journal_payload raw log r" using torn \<open>raw = []\<close> scope
          by (simp add: d_def journal_payload_def journal_file_Nil)
        moreover from this have "kept = torn" using kept by (simp add: journal_payload_def line_of_def)
        ultimately show ?thesis using good_written [OF good r] by simp
      qed
    qed
  next
    case False
    then have raw: "raw = journal_file scope log" "journal_log scope log" using good by (auto simp: journal_good_def)
    from line [OF journal_json_ok(1), of n "next_record log r"]
    show ?thesis
    proof (elim disjE exE conjE)
      fix t assume t: "take n (line_of (journal_document (next_record log r))) = t" "newline \<notin> set t"
      then have "torn = journal_file scope log @ t" using torn raw False by (simp add: journal_payload_def)
      moreover have "length t \<le> n" using t(1) by auto
      ultimately have "kept = raw" using cut t(2) raw(1) by blast
      then show ?thesis using good by simp
    next
      assume "take n (line_of (journal_document (next_record log r))) = line_of (journal_document (next_record log r))"
      then have "torn = raw @ journal_payload raw log r" using torn False by (simp add: journal_payload_def)
      moreover from this have "kept = torn" using kept by (simp add: journal_payload_def line_of_def)
      ultimately show ?thesis using good_written [OF good r] by simp
    qed
  qed
qed

section \<open>Runs\<close>

definition opens_of :: "journal_record \<Rightarrow> (string \<times> string) set" where
  "opens_of r = (if jr_record r = ''epoch_open'' then {(jr_scope r, jr_epoch_id r)} else {})"

definition closes_of :: "journal_record \<Rightarrow> (string \<times> string) set" where
  "closes_of r = (if jr_record r = ''epoch_open'' then {} else {(jr_scope r, jr_epoch_id r)})"

text \<open>
  A run over lives of the process, with the epochs whose opening was acknowledged, those a closure was tried of and those
  a closure was acknowledged of. A process that dies in a write, of which at most a line's bound of bytes reached the
  file, is followed by the start of the next, which recovers the journal.
\<close>

inductive journal_run ::
  "json_reader \<Rightarrow> journal \<Rightarrow> (string \<times> string) set \<Rightarrow> (string \<times> string) set \<Rightarrow> (string \<times> string) set \<Rightarrow> bool"
  for loads :: json_reader where
  starts: "journal_run loads [] {} {} {}"
| written: "journal_run loads j opened tried closed \<Longrightarrow> journal_ok (jr_scope r) r \<Longrightarrow>
     append_journal loads None r j = (j', Inr ()) \<Longrightarrow>
     journal_run loads j' (opened \<union> opens_of r) (tried \<union> closes_of r) (closed \<union> closes_of r)"
| died: "journal_run loads j opened tried closed \<Longrightarrow> journal_ok (jr_scope r) r \<Longrightarrow> int n \<le> JOURNAL_LINE_BOUND \<Longrightarrow>
     append_journal loads (Some n) r j = (j', x) \<Longrightarrow> recover_journal (jr_scope r) j' = (j'', y) \<Longrightarrow>
     journal_run loads j'' opened (tried \<union> closes_of r) closed"

definition log_holds ::
  "string \<Rightarrow> journal_record list \<Rightarrow> (string \<times> string) set \<Rightarrow> (string \<times> string) set \<Rightarrow> (string \<times> string) set \<Rightarrow> bool" where
  "log_holds scope log opened tried closed \<longleftrightarrow>
     (\<forall>e. (scope, e) \<in> opened \<longrightarrow> (\<exists>r \<in> set log. jr_record r = ''epoch_open'' \<and> jr_epoch_id r = e)) \<and>
     (\<forall>e. (scope, e) \<in> closed \<longrightarrow> (\<exists>r \<in> set log. jr_record r \<noteq> ''epoch_open'' \<and> jr_epoch_id r = e)) \<and>
     (\<forall>r \<in> set log. jr_record r \<noteq> ''epoch_open'' \<longrightarrow> (scope, jr_epoch_id r) \<in> tried)"

lemma log_holds_written:
  "log_holds scope log opened tried closed \<Longrightarrow> jr_scope r = scope \<Longrightarrow>
   log_holds scope (log @ [next_record log r]) (opened \<union> opens_of r) (tried \<union> closes_of r) (closed \<union> closes_of r)"
  by (auto simp: log_holds_def opens_of_def closes_of_def next_record_def)

lemma log_holds_tried:
  "log_holds scope log opened tried closed \<Longrightarrow> jr_scope r = scope \<Longrightarrow>
   log_holds scope (log @ [next_record log r]) opened (tried \<union> closes_of r) closed"
  by (auto simp: log_holds_def closes_of_def next_record_def)

lemma log_holds_more: "log_holds scope log opened tried closed \<Longrightarrow> log_holds scope log opened (tried \<union> closes_of r) closed"
  by (auto simp: log_holds_def)

lemma log_holds_other:
  "log_holds scope log opened tried closed \<Longrightarrow> jr_scope r \<noteq> scope \<Longrightarrow>
   log_holds scope log (opened \<union> opens_of r) (tried \<union> closes_of r) (closed \<union> closes_of r)"
  by (auto simp: log_holds_def opens_of_def closes_of_def)

lemma journal_run_good:
  assumes "reads_canonical loads" and "journal_run loads j opened tried closed"
  shows "\<exists>log. journal_good scope (journal_bytes j scope) log \<and> log_holds scope log opened tried closed"
  using assms(2)
proof (induction arbitrary: scope)
  case starts
  then show ?case by (auto simp: journal_good_def journal_bytes_def log_holds_def)
next
  case (written j opened tried closed r j')
  have scope: "is_scope (jr_scope r)" using written.hyps(3) by (auto simp: append_journal_def Let_def split: if_splits)
  show ?case
  proof (cases "jr_scope r = scope")
    case True
    obtain log where log: "journal_good scope (journal_bytes j scope) log" "log_holds scope log opened tried closed"
      using written.IH by blast
    have "journal_bytes j' scope = journal_bytes j scope @ journal_payload (journal_bytes j scope) log r"
      using append_journal_good [OF assms(1), of r j log None] log(1) scope written.hyps(3) True
      by (simp add: Let_def journal_bytes_def)
    with good_written [OF log(1), of r] log_holds_written [OF log(2) True] written.hyps(2) True show ?thesis by auto
  next
    case False
    obtain log where log: "journal_good scope (journal_bytes j scope) log" "log_holds scope log opened tried closed"
      using written.IH by blast
    obtain log' where "journal_good (jr_scope r) (journal_bytes j (jr_scope r)) log'" using written.IH by blast
    from append_journal_good [OF assms(1) this scope, of None] have "journal_bytes j' scope = journal_bytes j scope"
      using written.hyps(3) False by (auto simp: Let_def journal_bytes_def)
    with log log_holds_other [OF log(2) False] show ?thesis by auto
  qed
next
  case (died j opened tried closed r n j' x j'' y)
  show ?case
  proof (cases "is_scope (jr_scope r)")
    case refused: False
    then have "j'' = j" using died.hyps(4,5) by (auto simp: append_journal_def recover_journal_def)
    with died.IH log_holds_more show ?thesis by blast
  next
    case scope: True
    obtain own where own: "journal_good (jr_scope r) (journal_bytes j (jr_scope r)) own" "log_holds (jr_scope r) own opened tried closed"
      using died.IH by blast
    define torn where "torn = journal_bytes j (jr_scope r) @ take n (journal_payload (journal_bytes j (jr_scope r)) own r)"
    have j': "map_of j' (jr_scope r) = Some torn" "\<And>other. other \<noteq> jr_scope r \<Longrightarrow> map_of j' other = map_of j other"
      using append_journal_good [OF assms(1) own(1) scope, of "Some n"] died.hyps(4) by (auto simp: Let_def torn_def)
    define kept where "kept = (if torn = [] \<or> last torn = newline then torn else take (journal_kept torn) torn)"
    have j'': "map_of j'' (jr_scope r) = Some kept" "\<And>other. other \<noteq> jr_scope r \<Longrightarrow> map_of j'' other = map_of j other"
      using died.hyps(5) j' scope by (auto simp: recover_journal_def kept_def split: if_splits)
    show ?thesis
    proof (cases "jr_scope r = scope")
      case True
      from good_torn [OF own(1) died.hyps(2,3) torn_def kept_def]
      show ?thesis using log_holds_tried [OF own(2) refl] log_holds_more [OF own(2)] j''(1) True
        by (auto simp: journal_bytes_def)
    next
      case False
      then have "journal_bytes j'' scope = journal_bytes j scope" using j''(2) by (simp add: journal_bytes_def)
      with died.IH [of scope] log_holds_more show ?thesis by metis
    qed
  qed
qed

section \<open>Properties\<close>



lemma journal_example:
  "is_scope ''default''" "1 < length (line_of (journal_header ''default''))"
  "json_loads (take 1 (line_of (journal_header ''default'')) @
     canonical_json (JObj (journal_document ((epoch_open ''default'' ''e1'' None 1)\<lparr>jr_position := 1\<rparr>)))) = None"
  by code_simp+



end
