(* ===== verification/RecoveryLemmas.thy ===== *)
theory RecoveryLemmas
  imports Recovery JournalProperties
begin

text \<open>
  What the recovery writer adds to a chain, over any evidence store: which decisions it names, and that it adds no effect.
\<close>

definition adds :: "('s \<Rightarrow> string \<Rightarrow> evidence_entry list) \<Rightarrow> string \<Rightarrow> string list \<Rightarrow> 's \<Rightarrow> 's \<Rightarrow> bool" where
  "adds chain scope ids s s' \<longleftrightarrow> named (chain s' scope) = named (chain s scope) @ ids \<and>
     surviving (chain s' scope) = surviving (chain s scope)"

lemma adds_refl [simp]: "adds chain scope [] s s"
  by (simp add: adds_def)

lemma adds_trans: "adds chain scope ids s s' \<Longrightarrow> adds chain scope ids' s' s'' \<Longrightarrow> adds chain scope (ids @ ids') s s''"
  by (simp add: adds_def)

lemma named_append [simp]: "named (xs @ ys) = named xs @ named ys" "named [] = []" "named [e] = gap_ids e"
  by (simp_all add: named_def)

lemma surviving_append [simp]: "surviving (xs @ ys) = surviving xs \<union> surviving ys" "surviving [] = {}"
  by (auto simp: surviving_def List.map_filter_def)

lemma no_effect: "er_kind e \<noteq> ''effect'' \<Longrightarrow> decided_position e = None"
  by (simp add: decided_position_def split: json.split)

lemma surviving_none: "\<forall>e \<in> set es. er_kind e \<noteq> ''effect'' \<Longrightarrow> surviving es = {}"
  using no_effect by (auto simp: surviving_def List.map_filter_def)

lemma torn_silent: "torn_gap e \<Longrightarrow> gap_ids e = [] \<and> er_kind e \<noteq> ''effect''"
proof -
  assume torn: "torn_gap e"
  then have "map_of (er_body e) ''decision_ids'' = None" by (simp add: torn_gap_def has_member_def map_of_eq_None_iff)
  with torn show ?thesis by (simp add: torn_gap_def gap_ids_def member_def)
qed

lemma torn_all: "list_all torn_gap es \<Longrightarrow> named es = [] \<and> surviving es = {}"
  using torn_silent by (auto simp: named_def list_all_iff intro!: surviving_none)

definition same_stores :: "('s, 'g) recovery \<Rightarrow> ('s, 'g) recovery \<Rightarrow> bool" where
  "same_stores w w' \<longleftrightarrow> rw_journal w' = rw_journal w \<and> rw_decisions w' = rw_decisions w"

lemma same_refl [simp]: "same_stores w w"
  by (simp add: same_stores_def)

lemma same_trans: "same_stores w w' \<Longrightarrow> same_stores w' w'' \<Longrightarrow> same_stores w w''"
  by (simp add: same_stores_def)

text \<open>What the writer appends is a record the store admits: the daemon's grade is one of kind grade (what the emitter's
  \<open>daemon_grade_record\<close> gives), and so is what it builds itself at an instant of its clock.\<close>

definition admitted :: "(evidence_record \<Rightarrow> bool) \<Rightarrow> ('s, 'g) recovery_env \<Rightarrow> bool" where
  "admitted admits env \<longleftrightarrow>
     (\<forall>grade scope g g' r. rv_daemon_grade env = Some grade \<longrightarrow> grade scope g = (g', Inr (Some r)) \<longrightarrow> er_kind r = ''grade'' \<and> admits r) \<and>
     (\<forall>n scope kind body r. plain_json (JObj body) \<longrightarrow>
        build_record scope kind (rv_clock env n) DAEMON_CONNECTION RECOVERY_PRINCIPAL body = Inr r \<longrightarrow> admits r)"

lemma daemon_grades: "daemon_grade_record ins clock scope em = (em', Inr (Some r)) \<Longrightarrow> er_kind r = ''grade''"
  by (auto simp: daemon_grade_record_def grade_record_if_needed_def grade_record_def build_record_def Let_def
      split: sum.splits if_splits option.splits)

definition ids_of :: "string \<Rightarrow> document \<Rightarrow> string list" where
  "ids_of kind body = (case member body ''decision_ids'' of JArr ids \<Rightarrow> if kind = ''gap'' then texts ids else [] | _ \<Rightarrow> [])"

lemma gap_ids_of: "gap_ids e = ids_of (er_kind e) (er_body e)"
  by (simp add: gap_ids_def ids_of_def)

lemma ids_of_other: "kind \<noteq> ''gap'' \<Longrightarrow> ids_of kind body = []"
  by (simp add: ids_of_def split: json.split)

lemma recorded_ids: "recorded r e \<Longrightarrow> gap_ids e = gap_ids r"
proof -
  assume "recorded r e"
  then have kind: "er_kind e = er_kind r" and read: "sorted_json (member (er_body e) ''decision_ids'') = sorted_json (member (er_body r) ''decision_ids'')"
    by (simp_all add: recorded_def)
  define v w where "v = member (er_body e) ''decision_ids''" and "w = member (er_body r) ''decision_ids''"
  have "(case v of JArr ids \<Rightarrow> texts ids | _ \<Rightarrow> []) = (case w of JArr ids \<Rightarrow> texts ids | _ \<Rightarrow> [])"
    using read unfolding v_def [symmetric] w_def [symmetric] by (cases v; cases w; simp) (metis texts_sorted)
  then show ?thesis by (simp add: gap_ids_def kind v_def w_def split: json.splits)
qed

context evidence_store
begin

text \<open>What an append adds: nothing, or what its record names; the latter when it answers.\<close>

lemma append_adds_ids:
  assumes "well s" and "admits r" and "ep_append port r s = (s', a)" and "er_kind r \<noteq> ''effect''"
  shows "\<exists>ids. adds chain scope ids s s' \<and> (ids = [] \<or> er_scope r = scope \<and> ids = gap_ids r) \<and>
    (er_scope r = scope \<and> (\<exists>e. a = Inr e) \<longrightarrow> ids = gap_ids r)"
proof (cases "er_scope r = scope")
  case True
  obtain gaps es where chain: "list_all torn_gap gaps" "chain s' scope = chain s scope @ gaps @ es" "list_all (recorded r) es" "length es \<le> 1"
    "(\<exists>e. a = Inr e) \<longrightarrow> es \<noteq> []"
    using append_chain [OF assms(1,2,3)] True by auto
  have "\<forall>e \<in> set es. er_kind e \<noteq> ''effect''" using chain(3) assms(4) by (auto simp: list_all_iff recorded_def)
  then have "surviving es = {}" by (rule surviving_none)
  moreover have "named es = (if es = [] then [] else gap_ids r)" using chain(3,4) recorded_ids by (cases es) (auto simp: named_def)
  ultimately have "adds chain scope (if es = [] then [] else gap_ids r) s s'"
    using chain(2) torn_all [OF chain(1)] by (simp add: adds_def)
  then show ?thesis using True chain(5) by (intro exI [of _ "if es = [] then [] else gap_ids r"]) auto
next
  case False
  then show ?thesis using append_other [OF assms(1,3), of scope] by (intro exI [of _ "[]"]) (simp add: adds_def)
qed

lemma chain_append_adds:
  assumes "rv_chain env = port" and "well (rw_chain w)" and "admits r" and "chain_append env r w = (w', a)" and "er_kind r \<noteq> ''effect''"
  shows "well (rw_chain w')" and "same_stores w w'"
    and "\<exists>ids. adds chain scope ids (rw_chain w) (rw_chain w') \<and> (ids = [] \<or> er_scope r = scope \<and> ids = gap_ids r) \<and>
      (er_scope r = scope \<and> (\<exists>e. a = Inr e) \<longrightarrow> ids = gap_ids r)"
    and "a = Inr e \<Longrightarrow> er_kind e = er_kind r \<and> er_body e = er_body r \<and> 1 \<le> en_sequence e"
proof -
  obtain s' where s': "ep_append port r (rw_chain w) = (s', a)" "w' = w\<lparr>rw_chain := s'\<rparr>"
    using assms(1,4) by (auto simp: chain_append_def split: prod.splits)
  show "well (rw_chain w')" using append_well [OF assms(2,3) s'(1)] s'(2) by simp
  show "same_stores w w'" by (simp add: s'(2) same_stores_def)
  show "\<exists>ids. adds chain scope ids (rw_chain w) (rw_chain w') \<and> (ids = [] \<or> er_scope r = scope \<and> ids = gap_ids r) \<and>
      (er_scope r = scope \<and> (\<exists>e. a = Inr e) \<longrightarrow> ids = gap_ids r)"
    using append_adds_ids [OF assms(2,3) s'(1) assms(5), of scope] s'(2) by simp
  show "er_kind e = er_kind r \<and> er_body e = er_body r \<and> 1 \<le> en_sequence e" if "a = Inr e"
    using append_entry [OF assms(2)] s'(1) that by simp
qed

lemma grade_first_adds:
  assumes "rv_chain env = port" and "admitted admits env" and "well (rw_chain w)" and "grade_first env scope w = (w', a)"
  shows "well (rw_chain w') \<and> same_stores w w' \<and> adds chain scope' [] (rw_chain w) (rw_chain w')"
proof (cases "rv_daemon_grade env")
  case None
  then show ?thesis using assms(3,4) by (simp add: grade_first_def)
next
  case (Some grade)
  obtain g b where g: "grade scope (rw_grading w) = (g, b)" by fastforce
  define w1 where "w1 = w\<lparr>rw_grading := g\<rparr>"
  have w1: "rw_chain w1 = rw_chain w" "same_stores w w1" by (simp_all add: w1_def same_stores_def)
  consider (quiet) "w' = w1" | (graded) r where "b = Inr (Some r)" "bind_op (chain_append env r) (\<lambda>_. answer (Inr ())) w1 = (w', a)"
    using assms(4) Some g by (auto simp: grade_first_def w1_def split: sum.splits option.splits)
  then show ?thesis
  proof cases
    case quiet
    then show ?thesis using w1 assms(3) by simp
  next
    case (graded r)
    have kind: "er_kind r = ''grade''" "admits r" using assms(2) Some g graded(1) unfolding admitted_def by blast+
    obtain c where c: "chain_append env r w1 = (w', c)"
      using graded(2) by (cases rule: bind_op_cases) (auto simp: answer_def)
    have well1: "well (rw_chain w1)" using assms(3) w1(1) by simp
    have effect: "er_kind r \<noteq> ''effect''" using kind by simp
    note step = chain_append_adds [OF assms(1) well1 kind(2) c effect]
    have "gap_ids r = []" using kind(1) by (simp add: gap_ids_of ids_of_other)
    then have "adds chain scope' [] (rw_chain w1) (rw_chain w')" using step(3) [of scope'] by auto
    then show ?thesis using step(1,2) w1 same_trans by fastforce
  qed
qed

lemma append_marker_adds:
  assumes "rv_chain env = port" and "admitted admits env" and "well (rw_chain w)" and "append_marker env scope kind body w = (w', a)"
    and "kind \<noteq> ''effect''" and "plain_json (JObj body)"
  shows "well (rw_chain w') \<and> same_stores w w' \<and>
    (\<exists>ids. adds chain scope ids (rw_chain w) (rw_chain w') \<and> (ids = [] \<or> ids = ids_of kind body) \<and> ((\<exists>e. a = Inr e) \<longrightarrow> ids = ids_of kind body)) \<and>
    (\<forall>e. a = Inr e \<longrightarrow> er_kind e = kind \<and> er_body e = body \<and> 1 \<le> en_sequence e)"
  using assms(4) unfolding append_marker_def
proof (cases rule: bind_op_cases)
  case (raised e)
  then have "rw_chain w' = rw_chain w" "same_stores w w'" by (auto simp: read_clock_def same_stores_def)
  then show ?thesis using assms(3) raised(2) by (auto intro: exI [of _ "[]"])
next
  case (went w1 now)
  have w1: "rw_chain w1 = rw_chain w" "same_stores w w1" "now = rv_clock env (rw_clock_reads w)"
    using went(1) by (auto simp: read_clock_def same_stores_def core_instant_def split: if_splits)
  from went(2) show ?thesis
  proof (cases rule: bind_op_cases)
    case (raised e)
    then have "w' = w1" by (simp add: answer_def)
    then show ?thesis using assms(3) w1 raised(2) by (auto intro: exI [of _ "[]"])
  next
    case (went w2 r)
    then have r: "w2 = w1" "build_record scope kind now DAEMON_CONNECTION RECOVERY_PRINCIPAL body = Inr r"
      by (auto simp: answer_def)
    then have fields: "er_scope r = scope" "er_kind r = kind" "er_body r = body" by (auto simp: build_record_def Let_def)
    have admits: "admits r" using assms(2,6) r(2) w1(3) unfolding admitted_def by blast
    have well1: "well (rw_chain w1)" using assms(3) w1(1) by simp
    have "chain_append env r w1 = (w', a)" using went(2) r(1) by simp
    note step = chain_append_adds [OF assms(1) well1 admits this]
    have effect: "er_kind r \<noteq> ''effect''" using fields(2) assms(5) by simp
    have ids: "gap_ids r = ids_of kind body" using fields by (simp add: gap_ids_of)
    have "\<exists>ids. adds chain scope ids (rw_chain w) (rw_chain w') \<and> (ids = [] \<or> ids = ids_of kind body) \<and> ((\<exists>e. a = Inr e) \<longrightarrow> ids = ids_of kind body)"
      using step(3) [OF effect, of scope] fields(1) w1(1) unfolding ids by auto
    moreover have "\<forall>e. a = Inr e \<longrightarrow> er_kind e = kind \<and> er_body e = body \<and> 1 \<le> en_sequence e" using step(4) [OF effect] fields by blast
    ultimately show ?thesis using step(1) [OF effect] same_trans [OF w1(2) step(2) [OF effect]] by blast
  qed
qed

end

section \<open>Chunks\<close>

lemma concat_chunks: "0 < n \<Longrightarrow> concat (chunks n xs) = xs"
  by (induction n xs rule: chunks.induct) (subst chunks.simps, auto)

lemma chunk_bounds: "c \<in> set (chunks n xs) \<Longrightarrow> c \<noteq> [] \<and> length c \<le> n"
  by (induction n xs rule: chunks.induct) (subst (asm) (2) chunks.simps, auto split: if_splits)

definition decided_refs :: "envelope list \<Rightarrow> string list" where
  "decided_refs vs = map (\<lambda>v. de_ref (ev_decision v)) vs"

lemma unflushed_ids: "ids_of ''gap'' (unflushed_body epoch a b chunk) = decided_refs chunk"
  by (simp add: ids_of_def unflushed_body_def member_def decided_refs_def texts_def comp_def)

lemma marker_json_ok: "plain_json (JObj (unflushed_body epoch a b chunk))" "plain_json (JObj (unclean_stop_body epoch m n))"
  by (simp_all add: plain_json_def unflushed_body_def unclean_stop_body_def position_document_def list_all_iff)

section \<open>The gap of a chunk is valid\<close>

lemma each_all: "\<forall>x \<in> set xs. f x = Inr () \<Longrightarrow> each f xs = Inr ()"
  by (induction xs) simp_all

text \<open>What the gap's validator asks of a chunk, beside its length.\<close>

definition chunk_ok :: "envelope list \<Rightarrow> bool" where
  "chunk_ok vs \<longleftrightarrow> (\<exists>sid. sid \<noteq> [] \<and> (\<forall>v \<in> set vs. ev_store_id v = sid \<and> 1 \<le> ev_position v \<and> de_ref (ev_decision v) \<noteq> [])) \<and>
     distinct (decided_refs vs) \<and> sorted (map ev_position vs)"

lemma chunk_ok_part: "chunk_ok (xs @ ys @ zs) \<Longrightarrow> chunk_ok ys"
  by (auto simp: chunk_ok_def decided_refs_def sorted_append)

lemma chunk_ok_chunks: "chunk_ok vs \<Longrightarrow> c \<in> set (chunks n vs) \<Longrightarrow> chunk_ok c"
proof (induction n vs rule: chunks.induct)
  case (1 n xs)
  show ?case
  proof (cases "xs = [] \<or> n = 0")
    case False
    then have "c = take n xs \<or> c \<in> set (chunks n (drop n xs))" using 1(3) by (subst (asm) chunks.simps) auto
    moreover have "chunk_ok (take n xs)" "chunk_ok (drop n xs)"
      using 1(2) chunk_ok_part [of "[]" "take n xs" "drop n xs"] chunk_ok_part [of "take n xs" "drop n xs" "[]"] by simp_all
    ultimately show ?thesis using 1(1) [OF False] by blast
  qed (use 1(3) in \<open>simp add: chunks.simps\<close>)
qed

lemma position_key_document [simp]: "position_key (position_document (s, n)) = (s, n)"
  by (simp add: position_key_def position_document_def member_def)

lemma validate_position_document: "s \<noteq> [] \<Longrightarrow> 1 \<le> n \<Longrightarrow> validate_position (position_document (s, n)) = Inr ()"
  by (simp add: validate_position_def position_document_def member_def members_def some_text_def plain_int_at_least_def)

lemma unflushed_valid:
  assumes "chunk_ok vs" and "vs \<noteq> []" and "length vs \<le> 8192" and "epoch \<noteq> []" and "a \<noteq> []" and "b \<noteq> []"
  shows "validate_body ''gap'' (unflushed_body epoch a b vs) = Inr ()"
proof -
  define body where "body = unflushed_body epoch a b vs"
  have m: "member body ''reason'' = JStr ''unflushed''" "member body ''count'' = JInt (int (length vs))"
    "member body ''first_at'' = JStr a" "member body ''last_at'' = JStr b" "member body ''kinds'' = JObj [(''effect'', JInt (int (length vs)))]"
    "member body ''decision_ids'' = JArr (map (\<lambda>v. JStr (de_ref (ev_decision v))) vs)"
    "member body ''decision_positions'' = JArr (map (\<lambda>v. position_document (ev_store_id v, ev_position v)) vs)"
    "member body ''accounting'' = JStr ''decision''" "member body ''recording_epoch'' = JStr epoch"
    "has_member body ''decision_ids''" "has_member body ''decision_positions''"
    by (simp_all add: body_def unflushed_body_def member_def has_member_def)
  obtain sid where sid: "sid \<noteq> []" "\<forall>v \<in> set vs. ev_store_id v = sid \<and> 1 \<le> ev_position v \<and> de_ref (ev_decision v) \<noteq> []"
    "distinct (decided_refs vs)" "sorted (map ev_position vs)"
    using assms(1) by (auto simp: chunk_ok_def)
  have positions: "each validate_position (map (\<lambda>v. position_document (ev_store_id v, ev_position v)) vs) = Inr ()"
    using sid(1,2) by (intro each_all) (auto intro: validate_position_document)
  have keys: "map position_key (map (\<lambda>v. position_document (ev_store_id v, ev_position v)) vs) = map (\<lambda>n. (sid, n)) (map ev_position vs)"
    using sid(2) by simp
  have "sorted (map (\<lambda>n. (sid, n)) ns)" if "sorted ns" for ns :: "int list"
    using that by (induction ns) auto
  then have sorted: "sorted (map position_key (map (\<lambda>v. position_document (ev_store_id v, ev_position v)) vs))"
    unfolding keys using sid(4) .
  have texts: "texts (map (\<lambda>v. JStr (de_ref (ev_decision v))) vs) = decided_refs vs" by (simp add: texts_def decided_refs_def comp_def)
  have named: "list_all some_text (map (\<lambda>v. JStr (de_ref (ev_decision v))) vs)" using sid(2) by (auto simp: list_all_iff some_text_def)
  have "1 \<le> length vs" using assms(2) by (cases vs) auto
  then have losses: "validate_named_losses body = Inr ()"
    using assms(3) positions sorted named sid(3)
    by (simp add: validate_named_losses_def m in_tuple_def GAP_ACCOUNTING_def texts int_of_def del: map_map)
  have "validate_gap body = Inr ()"
    using losses assms(5,6) \<open>1 \<le> length vs\<close>
    by (simp add: validate_gap_def m in_tuple_def GAP_REASONS_def int_at_least_def int_of_def ENTRY_KINDS_def kind_counts_def nonempty_text_def
        some_text_def)
  then show ?thesis using assms(4) by (simp add: validate_body_def body_def [symmetric] m some_text_def)
qed

lemma unflushed_recordable:
  assumes "chunk_ok vs" and "vs \<noteq> []" and "length vs \<le> 8192" and "epoch \<noteq> []" and "a \<noteq> []" and "b \<noteq> []" and "scope \<noteq> []"
    and "is_aware now"
  shows "build_record scope ''gap'' now DAEMON_CONNECTION RECOVERY_PRINCIPAL (unflushed_body epoch a b vs) =
    Inr \<lparr>er_scope = scope, er_kind = ''gap'', er_recorded_at = now, er_connection_id = DAEMON_CONNECTION,
      er_principal = RECOVERY_PRINCIPAL, er_body = unflushed_body epoch a b vs\<rparr>"
proof -
  have "members (unflushed_body epoch a b vs) = [''reason'', ''count'', ''first_at'', ''last_at'', ''kinds'', ''decision_ids'',
      ''decision_positions'', ''accounting'', ''recording_epoch'']" by (simp add: members_def unflushed_body_def)
  then show ?thesis
    using unflushed_valid [OF assms(1-6)] assms(7,8)
    by (simp add: build_record_def record_post_init_def DAEMON_CONNECTION_def ENTRY_KINDS_def BODY_MEMBERS_def BODY_REQUIRED_def
       )
qed

end
