(* ===== verification/RecoveryRuns.thy ===== *)
theory RecoveryRuns
  imports RecoveryLemmas
begin

text \<open>
  What the reconciliation of a scope names, epoch by epoch, over any evidence store and for every way it may end.
\<close>

definition scanned :: "('s, 'g) recovery_env \<Rightarrow> string \<Rightarrow> ('s, 'g) recovery \<Rightarrow> envelope list result" where
  "scanned env scope w = snd (scan (rv_loads env) (rv_platform env) (rv_fresh env) scope (rw_decisions w))"

lemma scanned_same: "same_stores w w' \<Longrightarrow> scanned env scope w' = scanned env scope w"
  by (simp add: scanned_def same_stores_def)

lemma state_locked_again:
  "state_locked loads pl fresh scope False s = (s', Inr st) \<Longrightarrow> state_locked loads pl fresh scope False s' = (s', Inr st) \<and> ds_files s' = ds_files s"
  by (auto simp: state_locked_def Let_def set_state_def split: option.splits sum.splits)

lemma state_locked_failed: "state_locked loads pl fresh scope False s = (s', Inl e) \<Longrightarrow> s' = s"
  by (auto simp: state_locked_def Let_def split: option.splits sum.splits)

text \<open>A scan is repeated with the same answer: it reads the file, and fixes the index it read it by.\<close>

lemma scan_again:
  assumes "scan loads pl fresh scope s = (s', a)"
  shows "snd (scan loads pl fresh scope s') = a"
proof (cases "is_scope scope \<and> map_of (ds_files s) scope \<noteq> None")
  case False
  then show ?thesis using assms by (auto simp: scan_def split: if_splits)
next
  case True
  obtain s1 b where s1: "state_locked loads pl fresh scope False s = (s1, b)" by fastforce
  show ?thesis
  proof (cases b)
    case (Inl e)
    then have "s1 = s" using s1 state_locked_failed by blast
    with assms s1 True Inl show ?thesis by (auto simp: scan_def)
  next
    case (Inr st)
    note again = state_locked_again [OF s1 [unfolded Inr]]
    have "s' = s1" using assms s1 Inr True by (auto simp: scan_def split: if_splits)
    with assms s1 Inr True again show ?thesis by (auto simp: scan_def file_bytes_def split: if_splits)
  qed
qed

lemma scan_decisions_result:
  assumes "scan_decisions env scope w = (w', a)"
  shows "a = scanned env scope w" and "scanned env scope w' = scanned env scope w" and "rw_chain w' = rw_chain w"
    and "rw_journal w' = rw_journal w"
  using assms scan_again by (auto simp: scan_decisions_def scanned_def split: prod.splits)

definition placed_all :: "evidence_entry list \<Rightarrow> bool" where
  "placed_all es \<longleftrightarrow> list_all (\<lambda>e. 1 \<le> en_sequence e) es"

lemma placed_all_simps [simp]: "placed_all []" "placed_all (e # es) \<longleftrightarrow> 1 \<le> en_sequence e \<and> placed_all es"
  by (simp_all add: placed_all_def)

text \<open>What the writer keeps of the chain it read, beside the entries it wrote.\<close>

definition agrees :: "('s \<Rightarrow> string \<Rightarrow> evidence_entry list) \<Rightarrow> string \<Rightarrow> 's \<Rightarrow> evidence_entry list \<Rightarrow> bool" where
  "agrees chain scope s entries \<longleftrightarrow> named (chain s scope) = named entries \<and> surviving (chain s scope) = surviving entries \<and> placed_all entries"

lemma agrees_adds: "agrees chain scope s es \<Longrightarrow> adds chain scope (named fs) s s' \<Longrightarrow> surviving fs = {} \<Longrightarrow> placed_all fs \<Longrightarrow>
   agrees chain scope s' (es @ fs)"
  by (simp add: agrees_def adds_def placed_all_def)

lemma missing_iff:
  assumes "agrees chain scope s entries"
  shows "v \<in> set (missing_of epoch entries envelopes) \<longleftrightarrow> v \<in> set envelopes \<and> ev_recording_epoch v = epoch \<and>
    (ev_store_id v, ev_position v) \<notin> surviving (chain s scope) \<and> de_ref (ev_decision v) \<notin> set (named (chain s scope))"
  using assms by (auto simp: missing_of_def agrees_def)

lemma missing_distinct: "distinct (decided_refs envelopes) \<Longrightarrow> distinct (decided_refs (missing_of epoch entries envelopes))"
proof -
  assume "distinct (decided_refs envelopes)"
  then have "distinct (decided_refs (filter P envelopes))" for P by (induction envelopes) (auto simp: decided_refs_def)
  then have filtered: "distinct (map (\<lambda>v. de_ref (ev_decision v)) (filter P envelopes))" for P by (simp add: decided_refs_def)
  have sorted: "distinct (map (\<lambda>v. de_ref (ev_decision v)) (sort_key ev_position xs)) = distinct (map (\<lambda>v. de_ref (ev_decision v)) xs)" for xs
    by (rule mset_eq_imp_distinct_iff) simp
  show ?thesis unfolding missing_of_def decided_refs_def sorted by (rule filtered)
qed

definition dead_epochs :: "('s, 'g) recovery_env \<Rightarrow> journal_record list \<Rightarrow> string set" where
  "dead_epochs env rs = jr_epoch_id ` set rs - {rv_recording_epoch env}"

context evidence_store
begin

lemma declare_chunks_adds:
  assumes env: "rv_chain env = port" "admitted admits env"
  shows "well (rw_chain w) \<Longrightarrow> declare_chunks env scope epoch cs w = (w', a) \<Longrightarrow> well (rw_chain w') \<and> same_stores w w' \<and>
    (\<exists>made rest. cs = made @ rest \<and> adds chain scope (decided_refs (concat made)) (rw_chain w) (rw_chain w') \<and>
      (\<forall>gaps. a = Inr gaps \<longrightarrow> rest = [] \<and> named gaps = decided_refs (concat cs) \<and> surviving gaps = {} \<and> placed_all gaps))"
proof (induction cs arbitrary: w w' a)
  case Nil
  then show ?case by (auto simp: decided_refs_def)
next
  case (Cons c cs)
  define instants where "instants = sort (map (\<lambda>v. de_decided_at (ev_decision v)) c)"
  have none: ?case if "well (rw_chain w') \<and> same_stores w w' \<and> adds chain scope [] (rw_chain w) (rw_chain w')" "\<exists>e. a = Inl e"
    using that by (intro conjI exI [of _ "[]"] exI [of _ "c # cs"]) (auto simp: decided_refs_def)
  obtain w1 b where w1: "grade_first env scope w = (w1, b)" by fastforce
  note graded = grade_first_adds [OF env Cons.prems(1) w1, of scope]
  show ?case
  proof (cases b)
    case (Inl e)
    then have "w' = w1" "a = Inl e" using Cons.prems(2) w1 by (simp_all add: bind_op_def Let_def)
    then show ?thesis using graded none by blast
  next
    case (Inr u)
    show ?thesis
    proof (cases "render_recorded env (hd instants)")
      case (Inl e)
      then have "w' = w1" "a = Inl e" using Cons.prems(2) w1 Inr by (simp_all add: bind_op_def answer_def Let_def instants_def)
      then show ?thesis using graded none by blast
    next
      case first: (Inr first_at)
      show ?thesis
      proof (cases "render_recorded env (last instants)")
        case (Inl e)
        then have "w' = w1" "a = Inl e" using Cons.prems(2) w1 Inr first by (simp_all add: bind_op_def answer_def Let_def instants_def)
      then show ?thesis using graded none by blast
      next
        case last: (Inr last_at)
        obtain w2 d where w2: "append_marker env scope ''gap'' (unflushed_body epoch first_at last_at c) w1 = (w2, d)" by fastforce
        have well1: "well (rw_chain w1)" using graded by blast
        note marked = append_marker_adds [OF env well1 w2 _ marker_json_ok(1), simplified unflushed_ids]
        have run: "(case d of Inl e \<Rightarrow> (w2, Inl e) | Inr gap \<Rightarrow> (case declare_chunks env scope epoch cs w2 of
            (w, Inl e) \<Rightarrow> (w, Inl e) | (w, Inr gaps) \<Rightarrow> (w, Inr (gap # gaps)))) = (w', a)"
          using Cons.prems(2) w1 Inr first last w2
          by (simp add: bind_op_def answer_def Let_def instants_def split: sum.splits)
        show ?thesis
        proof (cases d)
          case (Inl e)
          then have w': "w' = w2" "a = Inl e" using run by simp_all
          obtain ids where ids: "adds chain scope ids (rw_chain w1) (rw_chain w2)" "ids = [] \<or> ids = decided_refs c" using marked by auto
          have adds: "adds chain scope ids (rw_chain w) (rw_chain w')" using adds_trans [OF _ ids(1), of "[]" "rw_chain w"] graded w'(1) by simp
          have kept: "well (rw_chain w') \<and> same_stores w w'" using marked graded same_trans w'(1) by blast
          from ids(2) show ?thesis
          proof
            assume "ids = []"
            then show ?thesis using none adds kept w'(2) by blast
          next
            assume "ids = decided_refs c"
            then show ?thesis using adds kept w'(2) by (intro conjI exI [of _ "[c]"] exI [of _ cs]) simp_all
          qed
        next
          case gap: (Inr gap)
          have kind: "er_kind gap = ''gap''" "er_body gap = unflushed_body epoch first_at last_at c" "1 \<le> en_sequence gap" using marked gap by auto
          have ids: "gap_ids gap = decided_refs c" using kind(1,2) by (simp add: gap_ids_of unflushed_ids)
          have step: "adds chain scope (decided_refs c) (rw_chain w) (rw_chain w2)" "same_stores w w2" "well (rw_chain w2)"
            using graded marked gap adds_trans [of chain scope "[]" "rw_chain w" "rw_chain w1" "decided_refs c"] same_trans [of w w1 w2] by auto
          obtain w3 f where w3: "declare_chunks env scope epoch cs w2 = (w3, f)" by fastforce
          from Cons.IH [OF step(3) w3] obtain made rest where ih: "well (rw_chain w3)" "same_stores w2 w3" "cs = made @ rest"
            "adds chain scope (decided_refs (concat made)) (rw_chain w2) (rw_chain w3)"
            "\<forall>gaps. f = Inr gaps \<longrightarrow> rest = [] \<and> named gaps = decided_refs (concat cs) \<and> surviving gaps = {} \<and> placed_all gaps" by blast
          have w': "w' = w3" "a = (case f of Inl e \<Rightarrow> Inl e | Inr gaps \<Rightarrow> Inr (gap # gaps))"
            using run gap w3 by (auto split: sum.splits)
          have "surviving [gap] = {}" using kind(1) by (intro surviving_none) simp
          then have gaps: "surviving (gap # gaps) = surviving gaps" "named (gap # gaps) = decided_refs c @ named gaps" for gaps
            using surviving_append(1) [of "[gap]" gaps] named_append(1) [of "[gap]" gaps] ids by simp_all
          have "well (rw_chain w')" "same_stores w w'" using ih(1,2) step(2) w'(1) same_trans by simp_all blast
          moreover have "adds chain scope (decided_refs (concat (c # made))) (rw_chain w) (rw_chain w')"
            using adds_trans [OF step(1) ih(4)] w'(1) by (simp add: decided_refs_def)
          moreover have "rest = [] \<and> named all = decided_refs (concat (c # cs)) \<and> surviving all = {} \<and> placed_all all" if all: "a = Inr all" for all
          proof -
            obtain gs where gs: "f = Inr gs" "all = gap # gs" using w'(2) all by (auto split: sum.splits)
            show ?thesis using ih(5) gs gaps kind(3) by (simp add: decided_refs_def)
          qed
          moreover have "c # cs = (c # made) @ rest" using ih(3) by simp
          ultimately show ?thesis by blast
        qed
      qed
    qed
  qed
qed

lemma declare_unflushed_adds:
  assumes env: "rv_chain env = port" "admitted admits env" and well: "well (rw_chain w)"
    and run: "declare_unflushed env scope epoch entries w = (w', a)" and agrees: "agrees chain scope (rw_chain w) entries"
  shows "well (rw_chain w') \<and> rw_journal w' = rw_journal w \<and> scanned env scope w' = scanned env scope w \<and>
    (\<forall>e. scanned env scope w = Inl e \<longrightarrow> a = Inl e \<and> adds chain scope [] (rw_chain w) (rw_chain w')) \<and>
    (\<forall>envelopes. scanned env scope w = Inr envelopes \<longrightarrow> (\<exists>made rest. missing_of epoch entries envelopes = made @ rest \<and>
      adds chain scope (decided_refs made) (rw_chain w) (rw_chain w') \<and>
      (\<forall>es. a = Inr es \<longrightarrow> rest = [] \<and> agrees chain scope (rw_chain w') es)))"
proof -
  obtain w1 b where w1: "scan_decisions env scope w = (w1, b)" by fastforce
  note scan = scan_decisions_result [OF w1]
  show ?thesis
  proof (cases b)
    case (Inl e)
    then have "w' = w1" "a = Inl e" using run w1 by (simp_all add: declare_unflushed_def bind_op_def)
    then show ?thesis using scan Inl well by auto
  next
    case (Inr envelopes)
    define cs where "cs = chunks GAP_ID_BOUND (missing_of epoch entries envelopes)"
    obtain w2 f where w2: "declare_chunks env scope epoch cs w1 = (w2, f)" by fastforce
    have well1: "well (rw_chain w1)" using well scan(3) by simp
    from declare_chunks_adds [OF env well1 w2] obtain made rest where d: "well (rw_chain w2)" "same_stores w1 w2" "cs = made @ rest"
      "adds chain scope (decided_refs (concat made)) (rw_chain w1) (rw_chain w2)"
      "\<forall>gaps. f = Inr gaps \<longrightarrow> rest = [] \<and> named gaps = decided_refs (concat cs) \<and> surviving gaps = {} \<and> placed_all gaps" by blast
    have missing: "missing_of epoch entries envelopes = concat made @ concat rest"
      using concat_chunks [of GAP_ID_BOUND "missing_of epoch entries envelopes"] d(3) by (simp add: cs_def GAP_ID_BOUND_def)
    have w': "w' = w2" "a = (case f of Inl e \<Rightarrow> Inl e | Inr gaps \<Rightarrow> Inr (entries @ gaps))"
      using run w1 Inr w2 by (auto simp: declare_unflushed_def bind_op_def answer_def cs_def split: sum.splits)
    have final: "rest = [] \<and> agrees chain scope (rw_chain w') es" if es: "a = Inr es" for es
    proof -
      obtain gaps where gaps: "f = Inr gaps" "es = entries @ gaps" using w'(2) es by (auto split: sum.splits)
      then have "rest = []" "named gaps = decided_refs (concat made)" "surviving gaps = {}" "placed_all gaps" using d(5) d(3) by simp_all
      then show ?thesis using agrees_adds [of chain scope "rw_chain w" entries gaps "rw_chain w'"] agrees d(4) scan(3) gaps(2) w'(1) by simp
    qed
    have adds: "adds chain scope (decided_refs (concat made)) (rw_chain w) (rw_chain w')" using d(4) scan(3) w'(1) by simp
    have "rw_journal w' = rw_journal w" using d(2) scan(4) w'(1) by (simp add: same_stores_def)
    moreover have "scanned env scope w' = scanned env scope w" using scanned_same [OF d(2)] scan(2) w'(1) by simp
    moreover have "scanned env scope w = Inr envelopes" using scan(1) Inr by simp
    ultimately show ?thesis using missing adds final d(1) w'(1) by (intro conjI) (auto 4 3)
  qed
qed

lemma mark_unclean_adds:
  assumes env: "rv_chain env = port" "admitted admits env" and well: "well (rw_chain w)"
    and run: "mark_unclean env scope epoch first entries w = (w', a)" and agrees: "agrees chain scope (rw_chain w) entries"
  shows "well (rw_chain w') \<and> same_stores w w' \<and> adds chain scope [] (rw_chain w) (rw_chain w') \<and>
    (\<forall>m es. a = Inr (m, es) \<longrightarrow> agrees chain scope (rw_chain w') es \<and> (\<forall>e. m = Some e \<longrightarrow> 1 \<le> en_sequence e))"
proof -
  define head where "head = (if produced epoch first entries = [] then 0 else Max (set (produced epoch first entries)))"
  have placed: "m = Some e \<Longrightarrow> 1 \<le> en_sequence e" if "m = find (unclean_marker epoch) entries" for m e
    using agrees that by (auto simp: agrees_def placed_all_def list_all_iff find_Some_iff)
  consider (known) m where "w' = w" "a = Inr (m, entries)" "\<forall>e. m = Some e \<longrightarrow> 1 \<le> en_sequence e"
    | (marks) "bind_op (grade_first env scope) (\<lambda>_. bind_op (append_marker env scope ''recovery'' (unclean_stop_body epoch first head))
        (\<lambda>marker. answer (Inr (Some marker, entries @ [marker])))) w = (w', a)"
    using run placed by (cases "find (unclean_marker epoch) entries")
      (auto simp: mark_unclean_def Let_def answer_def head_def split: if_splits)
  then show ?thesis
  proof cases
    case known
    then show ?thesis using well agrees by simp
  next
    case marks
    then show ?thesis
    proof (cases rule: bind_op_cases)
      case (raised e)
      then show ?thesis using grade_first_adds [OF env well raised(1), of scope] by simp
    next
      case (went w1 u)
      have g: "well (rw_chain w1)" "same_stores w w1" "adds chain scope [] (rw_chain w) (rw_chain w1)"
        using grade_first_adds [OF env well went(1), of scope] by simp_all
      from went(2) show ?thesis
      proof (cases rule: bind_op_cases)
        case (raised e)
        note m = append_marker_adds [OF env g(1) raised(1) _ marker_json_ok(2), simplified ids_of_other]
        have "adds chain scope [] (rw_chain w) (rw_chain w')" using m adds_trans [OF g(3), of "[]" "rw_chain w'"] by (auto simp: ids_of_other)
        then show ?thesis using m same_trans [OF g(2)] raised(2) by auto
      next
        case (went w2 marker)
        note m = append_marker_adds [OF env g(1) went(1) _ marker_json_ok(2), simplified ids_of_other]
        have kind: "er_kind marker = ''recovery''" "1 \<le> en_sequence marker" using m by simp_all
        then have silent: "gap_ids marker = []" "surviving [marker] = {}" by (simp_all add: gap_ids_of ids_of_other surviving_none)
        have w': "w' = w2" "a = Inr (Some marker, entries @ [marker])" using went(2) by (simp_all add: answer_def)
        have adds: "adds chain scope [] (rw_chain w) (rw_chain w')" using m adds_trans [OF g(3), of "[]" "rw_chain w2"] w'(1) by (auto simp: ids_of_other)
        have "agrees chain scope (rw_chain w') (entries @ [marker])"
          using agrees_adds [OF agrees, of "[marker]"] adds silent kind(2) by simp
        moreover have "same_stores w w'" using m same_trans [OF g(2)] w'(1) by simp
        ultimately show ?thesis using adds m w' kind(2) by simp
      qed
    qed
  qed
qed

text \<open>
  One epoch: what is named is a beginning of what is missing, and all of it when the epoch ends reconciled, and then
  its closure is in the journal. An authority that cannot be read leaves the journal as it was.
\<close>

lemma reconcile_epoch_adds:
  assumes env: "rv_chain env = port" "admitted admits env" and well: "well (rw_chain w)"
    and run: "reconcile_epoch env scope r entries w = (w', a)" and agrees: "agrees chain scope (rw_chain w) entries"
  shows "well (rw_chain w') \<and> scanned env scope w' = scanned env scope w \<and>
    (\<forall>e. scanned env scope w = Inl e \<longrightarrow> (\<forall>es. a \<noteq> Inr es) \<and> rw_journal w' = rw_journal w \<and> adds chain scope [] (rw_chain w) (rw_chain w')) \<and>
    (\<forall>envelopes. scanned env scope w = Inr envelopes \<longrightarrow> (\<exists>vs. adds chain scope (decided_refs vs) (rw_chain w) (rw_chain w') \<and>
      set vs \<subseteq> {v \<in> set envelopes. ev_recording_epoch v = jr_epoch_id r \<and> (ev_store_id v, ev_position v) \<notin> surviving (chain (rw_chain w) scope) \<and>
         de_ref (ev_decision v) \<notin> set (named (chain (rw_chain w) scope))} \<and>
      (distinct (decided_refs envelopes) \<longrightarrow> distinct (decided_refs vs)) \<and>
      (\<forall>es. a = Inr es \<longrightarrow> agrees chain scope (rw_chain w') es \<and>
        (\<forall>v \<in> set envelopes. ev_recording_epoch v = jr_epoch_id r \<longrightarrow> (ev_store_id v, ev_position v) \<in> surviving (chain (rw_chain w') scope) \<or>
           de_ref (ev_decision v) \<in> set (named (chain (rw_chain w') scope))) \<and>
        (\<exists>marker hash. (\<forall>n. marker = Some n \<longrightarrow> 1 \<le> n) \<and> journal_epoch_reconciled (rv_loads env) (rv_faults env (jr_epoch_id r)) scope (jr_epoch_id r) marker hash
           (rw_journal w) = (rw_journal w', Inr ())))))"
    (is "?well \<and> ?scan \<and> (\<forall>e. _ \<longrightarrow> ?unread) \<and> (\<forall>envelopes. _ \<longrightarrow> (\<exists>vs. ?named envelopes vs))")
proof (cases "jr_from_sequence r")
  case None
  then have "w' = w" "a = Inl AssertionError" using run by (simp_all add: reconcile_epoch_def answer_def)
  then show ?thesis using well by (auto simp: decided_refs_def intro: exI [of _ "[]"])
next
  case (Some first)
  obtain w1 b where w1: "mark_unclean env scope (jr_epoch_id r) first entries w = (w1, b)" by fastforce
  note m = mark_unclean_adds [OF env well w1 agrees]
  have scan1: "scanned env scope w1 = scanned env scope w" using m scanned_same by blast
  show ?thesis
  proof (cases b)
    case (Inl e)
    then have "w' = w1" "a = Inl e" using run w1 Some by (simp_all add: reconcile_epoch_def bind_op_def)
    with m scan1 have "rw_journal w' = rw_journal w \<and> scanned env scope w' = scanned env scope w \<and> well (rw_chain w') \<and> adds chain scope [] (rw_chain w) (rw_chain w') \<and> (\<forall>es. a \<noteq> Inr es)"
      by (simp add: same_stores_def)
    then have "rw_journal w' = rw_journal w" "scanned env scope w' = scanned env scope w" "well (rw_chain w')"
      "adds chain scope [] (rw_chain w) (rw_chain w')" "\<forall>es. a \<noteq> Inr es" by blast+
    then show ?thesis by (auto simp: decided_refs_def intro: exI [of _ "[]"])
  next
    case (Inr pair)
    obtain marker entries1 where pair: "pair = (marker, entries1)" by (cases pair)
    have agrees1: "agrees chain scope (rw_chain w1) entries1" and well1: "well (rw_chain w1)" using m Inr pair by auto
    obtain w2 d where w2: "declare_unflushed env scope (jr_epoch_id r) entries1 w1 = (w2, d)" by fastforce
    note u = declare_unflushed_adds [OF env well1 w2 agrees1]
    have step: "rw_journal w2 = rw_journal w" "scanned env scope w2 = scanned env scope w" using u m scan1 by (simp_all add: same_stores_def)
    show ?thesis
    proof (cases "scanned env scope w")
      case (Inl x)
      then have "d = Inl x" "adds chain scope [] (rw_chain w1) (rw_chain w2)" using u scan1 by auto
      then have "w' = w2" "a = Inl x" using run w1 Some Inr pair w2 by (simp_all add: reconcile_epoch_def bind_op_def)
      moreover have "adds chain scope [] (rw_chain w) (rw_chain w2)"
        using m adds_trans [of chain scope "[]" "rw_chain w" "rw_chain w1" "[]" "rw_chain w2"] \<open>adds chain scope [] (rw_chain w1) (rw_chain w2)\<close> by simp
      ultimately have "rw_journal w' = rw_journal w \<and> scanned env scope w' = scanned env scope w \<and> well (rw_chain w') \<and> adds chain scope [] (rw_chain w) (rw_chain w') \<and> (\<forall>es. a \<noteq> Inr es)"
        using step u by simp
      then have "rw_journal w' = rw_journal w" "scanned env scope w' = scanned env scope w" "well (rw_chain w')"
        "adds chain scope [] (rw_chain w) (rw_chain w')" "\<forall>es. a \<noteq> Inr es" by blast+
      then show ?thesis by (auto simp: decided_refs_def intro: exI [of _ "[]"])
    next
      case envs: (Inr envelopes)
      obtain made rest where made: "missing_of (jr_epoch_id r) entries1 envelopes = made @ rest"
        "adds chain scope (decided_refs made) (rw_chain w1) (rw_chain w2)"
        "\<forall>es. d = Inr es \<longrightarrow> rest = [] \<and> agrees chain scope (rw_chain w2) es"
        using u envs scan1 by auto
      have adds: "adds chain scope (decided_refs made) (rw_chain w) (rw_chain w2)"
        using m adds_trans [OF _ made(2), of "[]" "rw_chain w"] by simp
      have same: "named (chain (rw_chain w1) scope) = named (chain (rw_chain w) scope)"
        "surviving (chain (rw_chain w1) scope) = surviving (chain (rw_chain w) scope)" using m by (simp_all add: adds_def)
      have missing: "v \<in> set (made @ rest) \<longleftrightarrow> v \<in> set envelopes \<and> ev_recording_epoch v = jr_epoch_id r \<and>
          (ev_store_id v, ev_position v) \<notin> surviving (chain (rw_chain w) scope) \<and> de_ref (ev_decision v) \<notin> set (named (chain (rw_chain w) scope))" for v
        using missing_iff [OF agrees1, of v "jr_epoch_id r" envelopes] made(1) same by simp
      have distinct: "distinct (decided_refs made)" if "distinct (decided_refs envelopes)"
        using missing_distinct [OF that, of "jr_epoch_id r" entries1] made(1) by (simp add: decided_refs_def)
      have covered: "(ev_store_id v, ev_position v) \<in> surviving (chain (rw_chain w2) scope) \<or> de_ref (ev_decision v) \<in> set (named (chain (rw_chain w2) scope))"
        if "rest = []" "v \<in> set envelopes" "ev_recording_epoch v = jr_epoch_id r" for v
        using missing [of v] that adds by (auto simp: adds_def decided_refs_def)
      have common: "well (rw_chain w2)" "scanned env scope w2 = scanned env scope w" using u step by simp_all
      have subset: "set made \<subseteq> {v \<in> set envelopes. ev_recording_epoch v = jr_epoch_id r \<and> (ev_store_id v, ev_position v) \<notin> surviving (chain (rw_chain w) scope) \<and>
         de_ref (ev_decision v) \<notin> set (named (chain (rw_chain w) scope))}"
        using missing by auto
      show ?thesis
      proof (cases d)
        case (Inl e)
        then have "w' = w2" "a = Inl e" using run w1 Some Inr pair w2 by (simp_all add: reconcile_epoch_def bind_op_def)
        then have "?named envelopes made" using adds subset distinct by simp
        then show ?thesis using common envs \<open>w' = w2\<close> by auto
      next
        case done_es: (Inr es)
        define put where "put = journal_epoch_reconciled (rv_loads env) (rv_faults env (jr_epoch_id r)) scope (jr_epoch_id r)
            (map_option en_sequence marker) (map_option en_entry_hash marker) (rw_journal w)"
        obtain j x where j: "put = (j, x)" by (cases put)
        have w': "w' = w2\<lparr>rw_journal := j\<rparr>" "a = (case x of Inl e \<Rightarrow> Inl e | Inr _ \<Rightarrow> Inr es)"
          using run w1 Some Inr pair w2 done_es j step(1)
          by (auto simp: reconcile_epoch_def bind_op_def journal_op_def answer_def put_def split: sum.splits)
        have chains: "rw_chain w' = rw_chain w2" "scanned env scope w' = scanned env scope w2" by (simp_all add: w'(1) scanned_def)
        have rest: "rest = []" "agrees chain scope (rw_chain w2) es" using made(3) done_es by simp_all
        have written: "\<exists>marker hash. (\<forall>n. marker = Some n \<longrightarrow> 1 \<le> n) \<and> journal_epoch_reconciled (rv_loads env) (rv_faults env (jr_epoch_id r)) scope (jr_epoch_id r) marker hash
           (rw_journal w) = (rw_journal w', Inr ())" if "a = Inr es'" for es'
          using j w' that m Inr pair by (intro exI [of _ "map_option en_sequence marker"] exI [of _ "map_option en_entry_hash marker"])
            (auto simp: put_def split: sum.splits)
        have "a = Inr es' \<Longrightarrow> es' = es" for es' using w'(2) by (auto split: sum.splits)
        then have "?named envelopes made" using adds subset distinct chains(1) rest covered [OF rest(1)] written by auto
        then show ?thesis using common chains envs by auto
      qed
    qed
  qed
qed

lemma reconcile_epochs_adds:
  assumes env: "rv_chain env = port" "admitted admits env"
  shows "well (rw_chain w) \<Longrightarrow> agrees chain scope (rw_chain w) entries \<Longrightarrow> reconcile_epochs env scope rs entries w = (w', a) \<Longrightarrow>
    well (rw_chain w') \<and> scanned env scope w' = scanned env scope w \<and>
    (\<forall>e. scanned env scope w = Inl e \<longrightarrow> rw_journal w' = rw_journal w \<and> adds chain scope [] (rw_chain w) (rw_chain w') \<and>
       (dead_epochs env rs \<noteq> {} \<longrightarrow> (\<forall>es. a \<noteq> Inr es))) \<and>
    (\<forall>envelopes. scanned env scope w = Inr envelopes \<longrightarrow> (\<exists>vs. adds chain scope (decided_refs vs) (rw_chain w) (rw_chain w') \<and>
      set vs \<subseteq> {v \<in> set envelopes. ev_recording_epoch v \<in> dead_epochs env rs \<and> (ev_store_id v, ev_position v) \<notin> surviving (chain (rw_chain w) scope) \<and>
         de_ref (ev_decision v) \<notin> set (named (chain (rw_chain w) scope))} \<and>
      (distinct (decided_refs envelopes) \<longrightarrow> distinct (decided_refs vs)) \<and>
      (\<forall>es. a = Inr es \<longrightarrow> agrees chain scope (rw_chain w') es \<and>
        (\<forall>v \<in> set envelopes. ev_recording_epoch v \<in> dead_epochs env rs \<longrightarrow> (ev_store_id v, ev_position v) \<in> surviving (chain (rw_chain w') scope) \<or>
           de_ref (ev_decision v) \<in> set (named (chain (rw_chain w') scope))))))"
proof (induction rs arbitrary: w entries)
  case Nil
  then show ?case by (auto simp: dead_epochs_def decided_refs_def intro: exI [of _ "[]"])
next
  case (Cons r rs)
  show ?case
  proof (cases "jr_epoch_id r = rv_recording_epoch env")
    case True
    then have "dead_epochs env (r # rs) = dead_epochs env rs" by (auto simp: dead_epochs_def)
    moreover have "reconcile_epochs env scope rs entries w = (w', a)" using Cons.prems(3) True by simp
    ultimately show ?thesis using Cons.IH [OF Cons.prems(1,2)] by simp
  next
    case False
    then have dead: "dead_epochs env (r # rs) = insert (jr_epoch_id r) (dead_epochs env rs)" by (auto simp: dead_epochs_def)
    obtain w1 b where w1: "reconcile_epoch env scope r entries w = (w1, b)" by fastforce
    note e = reconcile_epoch_adds [OF env Cons.prems(1) w1 Cons.prems(2)]
    show ?thesis
    proof (cases b)
      case (Inl x)
      then have w': "w' = w1" "a = Inl x" using Cons.prems(3) False w1 by simp_all
      show ?thesis
      proof (cases "scanned env scope w")
        case err: (Inl y)
        then show ?thesis using e w' by auto
      next
        case envs: (Inr envelopes)
        obtain vs where "adds chain scope (decided_refs vs) (rw_chain w) (rw_chain w1)"
          "set vs \<subseteq> {v \<in> set envelopes. ev_recording_epoch v = jr_epoch_id r \<and> (ev_store_id v, ev_position v) \<notin> surviving (chain (rw_chain w) scope) \<and>
             de_ref (ev_decision v) \<notin> set (named (chain (rw_chain w) scope))}"
          "distinct (decided_refs envelopes) \<longrightarrow> distinct (decided_refs vs)" using e envs by blast
        moreover from this(2) have "set vs \<subseteq> {v \<in> set envelopes. ev_recording_epoch v \<in> dead_epochs env (r # rs) \<and>
             (ev_store_id v, ev_position v) \<notin> surviving (chain (rw_chain w) scope) \<and> de_ref (ev_decision v) \<notin> set (named (chain (rw_chain w) scope))}"
          by (auto simp: dead)
        ultimately have "\<exists>vs. adds chain scope (decided_refs vs) (rw_chain w) (rw_chain w1) \<and>
          set vs \<subseteq> {v \<in> set envelopes. ev_recording_epoch v \<in> dead_epochs env (r # rs) \<and> (ev_store_id v, ev_position v) \<notin> surviving (chain (rw_chain w) scope) \<and>
             de_ref (ev_decision v) \<notin> set (named (chain (rw_chain w) scope))} \<and>
          (distinct (decided_refs envelopes) \<longrightarrow> distinct (decided_refs vs))" by blast
        moreover have "well (rw_chain w1)" "scanned env scope w1 = scanned env scope w" using e by auto
        ultimately show ?thesis using w' envs by simp
      qed
    next
      case (Inr es)
      have run: "reconcile_epochs env scope rs es w1 = (w', a)" using Cons.prems(3) False w1 Inr by simp
      show ?thesis
      proof (cases "scanned env scope w")
        case (Inl y)
        then show ?thesis using e Inr by auto
      next
        case envs: (Inr envelopes)
        obtain vs where vs: "adds chain scope (decided_refs vs) (rw_chain w) (rw_chain w1)"
          "set vs \<subseteq> {v \<in> set envelopes. ev_recording_epoch v = jr_epoch_id r \<and> (ev_store_id v, ev_position v) \<notin> surviving (chain (rw_chain w) scope) \<and>
             de_ref (ev_decision v) \<notin> set (named (chain (rw_chain w) scope))}"
          "distinct (decided_refs envelopes) \<longrightarrow> distinct (decided_refs vs)"
          "agrees chain scope (rw_chain w1) es"
          "\<forall>v \<in> set envelopes. ev_recording_epoch v = jr_epoch_id r \<longrightarrow> (ev_store_id v, ev_position v) \<in> surviving (chain (rw_chain w1) scope) \<or>
             de_ref (ev_decision v) \<in> set (named (chain (rw_chain w1) scope))"
          using e [THEN conjunct2, THEN conjunct2, THEN conjunct2, THEN spec, THEN mp, OF envs]
          by (elim exE conjE) (rule that, assumption, assumption, assumption, use Inr in simp_all)
        have w1ok: "well (rw_chain w1)" "scanned env scope w1 = scanned env scope w" using e by auto
        have rest: "well (rw_chain w')" "scanned env scope w' = scanned env scope w" using Cons.IH [OF w1ok(1) vs(4) run] w1ok(2) by simp_all
        obtain us where us: "adds chain scope (decided_refs us) (rw_chain w1) (rw_chain w')"
          "set us \<subseteq> {v \<in> set envelopes. ev_recording_epoch v \<in> dead_epochs env rs \<and> (ev_store_id v, ev_position v) \<notin> surviving (chain (rw_chain w1) scope) \<and>
             de_ref (ev_decision v) \<notin> set (named (chain (rw_chain w1) scope))}"
          "distinct (decided_refs envelopes) \<longrightarrow> distinct (decided_refs us)"
          "\<forall>es. a = Inr es \<longrightarrow> agrees chain scope (rw_chain w') es \<and>
            (\<forall>v \<in> set envelopes. ev_recording_epoch v \<in> dead_epochs env rs \<longrightarrow> (ev_store_id v, ev_position v) \<in> surviving (chain (rw_chain w') scope) \<or>
               de_ref (ev_decision v) \<in> set (named (chain (rw_chain w') scope)))"
          using Cons.IH [OF w1ok(1) vs(4) run] envs w1ok(2) by auto
        have chain1: "named (chain (rw_chain w1) scope) = named (chain (rw_chain w) scope) @ decided_refs vs"
          "surviving (chain (rw_chain w1) scope) = surviving (chain (rw_chain w) scope)"
          "set (named (chain (rw_chain w1) scope)) \<subseteq> set (named (chain (rw_chain w') scope))"
          "surviving (chain (rw_chain w') scope) = surviving (chain (rw_chain w1) scope)"
          using vs(1) us(1) by (auto simp: adds_def)
        have "adds chain scope (decided_refs (vs @ us)) (rw_chain w) (rw_chain w')"
          using adds_trans [OF vs(1) us(1)] by (simp add: decided_refs_def)
        moreover have "set (vs @ us) \<subseteq> {v \<in> set envelopes. ev_recording_epoch v \<in> dead_epochs env (r # rs) \<and>
             (ev_store_id v, ev_position v) \<notin> surviving (chain (rw_chain w) scope) \<and> de_ref (ev_decision v) \<notin> set (named (chain (rw_chain w) scope))}"
          using vs(2) us(2) chain1(1,2) by (auto simp: dead)
        moreover have "distinct (decided_refs (vs @ us))" if "distinct (decided_refs envelopes)"
        proof -
          have "set (decided_refs us) \<inter> set (decided_refs vs) = {}" using us(2) chain1(1) by (auto simp: decided_refs_def)
          then show ?thesis using vs(3) us(3) that by (auto simp: decided_refs_def)
        qed
        moreover have "agrees chain scope (rw_chain w') fs \<and>
            (\<forall>v \<in> set envelopes. ev_recording_epoch v \<in> dead_epochs env (r # rs) \<longrightarrow> (ev_store_id v, ev_position v) \<in> surviving (chain (rw_chain w') scope) \<or>
               de_ref (ev_decision v) \<in> set (named (chain (rw_chain w') scope)))" if "a = Inr fs" for fs
          using us(4) that vs(5) chain1(3,4) by (auto simp: dead)
        ultimately have "\<exists>vs. adds chain scope (decided_refs vs) (rw_chain w) (rw_chain w') \<and>
          set vs \<subseteq> {v \<in> set envelopes. ev_recording_epoch v \<in> dead_epochs env (r # rs) \<and> (ev_store_id v, ev_position v) \<notin> surviving (chain (rw_chain w) scope) \<and>
             de_ref (ev_decision v) \<notin> set (named (chain (rw_chain w) scope))} \<and>
          (distinct (decided_refs envelopes) \<longrightarrow> distinct (decided_refs vs)) \<and>
          (\<forall>es. a = Inr es \<longrightarrow> agrees chain scope (rw_chain w') es \<and>
            (\<forall>v \<in> set envelopes. ev_recording_epoch v \<in> dead_epochs env (r # rs) \<longrightarrow> (ev_store_id v, ev_position v) \<in> surviving (chain (rw_chain w') scope) \<or>
               de_ref (ev_decision v) \<in> set (named (chain (rw_chain w') scope))))" by blast
        then show ?thesis using rest envs by simp
      qed
    qed
  qed
qed

end

end
