(* ===== verification/RecoveryStart.thy ===== *)
theory RecoveryStart
  imports RecoveryRuns
begin

text \<open>
  The start of a process over a scope: the whole of \<open>reconcile_at_start\<close>, over any evidence store, and the journal that
  it leaves.
\<close>

definition dead_at :: "('s, 'g) recovery_env \<Rightarrow> string \<Rightarrow> ('s, 'g) recovery \<Rightarrow> string set" where
  "dead_at env scope w = (case open_epochs (rv_loads env) scope (rw_journal w) of Inl _ \<Rightarrow> {} | Inr rs \<Rightarrow> dead_epochs env rs)"

text \<open>Comparing reads the authority and writes to no store; without the authority it raises.\<close>

lemma compare_contents_result:
  assumes "compare_contents env scope entries w = (w', a)"
  shows "rw_chain w' = rw_chain w" and "rw_journal w' = rw_journal w" and "scanned env scope w' = scanned env scope w"
    and "scanned env scope w = Inl e \<Longrightarrow> a = Inl e" and "a = Inr rep \<Longrightarrow> rp_state rep \<noteq> Not_Run"
proof -
  have "rw_chain w' = rw_chain w \<and> rw_journal w' = rw_journal w \<and> scanned env scope w' = scanned env scope w \<and>
    (\<forall>e. scanned env scope w = Inl e \<longrightarrow> a = Inl e) \<and> (\<forall>rep. a = Inr rep \<longrightarrow> rp_state rep \<noteq> Not_Run)"
    using assms unfolding compare_contents_def
  proof (cases rule: bind_op_cases)
    case (raised e)
    then show ?thesis using scan_decisions_result [OF raised(1)] by auto
  next
    case (went w1 envelopes)
    note scan = scan_decisions_result [OF went(1)]
    have read: "scanned env scope w = Inr envelopes" using scan(1) by simp
    from went(2) show ?thesis unfolding Let_def
    proof (cases rule: bind_op_cases)
      case (raised e)
      then have "w' = w1" by (simp add: answer_def)
      then show ?thesis using scan(2-4) read raised(2) by simp
    next
      case (went w2 states)
      have w2: "w2 = w1" using went(1) by (simp add: answer_def)
      from went(2) show ?thesis
      proof (cases rule: bind_op_cases)
        case (raised e)
        then have "rw_chain w' = rw_chain w1" "rw_journal w' = rw_journal w1" "scanned env scope w' = scanned env scope w1"
          using w2 by (auto simp: read_clock_def scanned_def)
        then show ?thesis using scan(2-4) read raised(2) by simp
      next
        case (went w3 now)
        then have "rw_chain w' = rw_chain w1" "rw_journal w' = rw_journal w1" "scanned env scope w' = scanned env scope w1"
          using w2 by (auto simp: read_clock_def answer_def scanned_def)
        moreover have "a = Inr rep \<Longrightarrow> rp_state rep \<noteq> Not_Run" for rep using went(2) by (auto simp: answer_def split: if_splits)
        ultimately show ?thesis using scan(2-4) read by simp
      qed
    qed
  qed
  then show "rw_chain w' = rw_chain w" and "rw_journal w' = rw_journal w" and "scanned env scope w' = scanned env scope w"
    and "scanned env scope w = Inl e \<Longrightarrow> a = Inl e" and "a = Inr rep \<Longrightarrow> rp_state rep \<noteq> Not_Run" by auto
qed

text \<open>The cases of a start: what is read, what is reconciled, and the report of what was compared.\<close>

definition start_body :: "('s, 'g) recovery_env \<Rightarrow> string \<Rightarrow> evidence_entry list \<Rightarrow> (('s, 'g) recovery, report) op" where
  "start_body env scope entries = bind_op (open_records env scope) (\<lambda>records.
     bind_op (reconcile_epochs env scope records entries) (\<lambda>entries. compare_contents env scope entries))"

lemma start_cases:
  assumes "reconcile_at_start env scope w = (w', a)"
  obtains (unread) e where "ep_read (rv_chain env) scope 1 None (rw_chain w) = Inl e" and "w' = w" and "a = Inl e"
    | (ran) entries w1 b where "ep_read (rv_chain env) scope 1 None (rw_chain w) = Inr entries"
      and "start_body env scope entries w = (w1, b)" and "rw_chain w' = rw_chain w1" and "rw_journal w' = rw_journal w1"
      and "rw_decisions w' = rw_decisions w1"
      and "a = (case b of Inl e \<Rightarrow> if e = exn.DecisionStoreUnavailable then Inr (not_run scope) else Inl e | Inr rep \<Rightarrow> Inr rep)"
proof (cases "ep_read (rv_chain env) scope 1 None (rw_chain w)")
  case (Inl e)
  have read: "read_chain env scope w = (w, Inl e)" by (simp add: read_chain_def Inl)
  have "(w, Inl e) = (w', a)" using assms by (simp only: reconcile_at_start_def bind_op_Inl [of "read_chain env scope", OF read])
  then have "w' = w" "a = Inl e" by auto
  then show thesis by (rule unread [OF Inl])
next
  case (Inr entries)
  obtain w1 b where body: "start_body env scope entries w = (w1, b)" by fastforce
  have read: "read_chain env scope w = (w, Inr entries)" by (simp add: read_chain_def Inr)
  have "reconcile_at_start env scope w = (case start_body env scope entries w of
      (w, Inl e) \<Rightarrow> if e = exn.DecisionStoreUnavailable
        then (w\<lparr>rw_reports := AList.update scope (not_run scope) (rw_reports w)\<rparr>, Inr (not_run scope)) else (w, Inl e)
    | (w, Inr report) \<Rightarrow> (w\<lparr>rw_reports := AList.update scope report (rw_reports w)\<rparr>, Inr report))"
    by (simp only: reconcile_at_start_def start_body_def bind_op_Inr [of "read_chain env scope", OF read])
  then have run: "(case b of Inl e \<Rightarrow> if e = exn.DecisionStoreUnavailable
        then (w1\<lparr>rw_reports := AList.update scope (not_run scope) (rw_reports w1)\<rparr>, Inr (not_run scope)) else (w1, Inl e)
    | Inr report \<Rightarrow> (w1\<lparr>rw_reports := AList.update scope report (rw_reports w1)\<rparr>, Inr report)) = (w', a)"
    using assms body by simp
  show thesis
  proof (rule ran [OF Inr body])
    show "rw_chain w' = rw_chain w1" "rw_journal w' = rw_journal w1" "rw_decisions w' = rw_decisions w1"
      "a = (case b of Inl e \<Rightarrow> if e = exn.DecisionStoreUnavailable then Inr (not_run scope) else Inl e | Inr rep \<Rightarrow> Inr rep)"
      using run by (auto split: sum.splits if_splits)
  qed
qed

lemma start_body_cases:
  assumes "start_body env scope entries w = (w', a)"
  obtains (unlisted) e where "open_epochs (rv_loads env) scope (rw_journal w) = Inl e" and "w' = w" and "a = Inl e"
    | (broken) rs e where "open_epochs (rv_loads env) scope (rw_journal w) = Inr rs"
      and "reconcile_epochs env scope rs entries w = (w', Inl e)" and "a = Inl e"
    | (compared) rs es w1 where "open_epochs (rv_loads env) scope (rw_journal w) = Inr rs"
      and "reconcile_epochs env scope rs entries w = (w1, Inr es)" and "compare_contents env scope es w1 = (w', a)"
  using assms unfolding start_body_def
proof (cases rule: bind_op_cases)
  case (raised e)
  show thesis
  proof (rule unlisted)
    show "open_epochs (rv_loads env) scope (rw_journal w) = Inl e" "w' = w" "a = Inl e" using raised by (auto simp: open_records_def)
  qed
next
  case (went w1 rs)
  then have rs: "open_epochs (rv_loads env) scope (rw_journal w) = Inr rs" "w1 = w" by (auto simp: open_records_def)
  from went(2) show thesis
  proof (cases rule: bind_op_cases)
    case (raised e)
    show thesis using raised rs(2) by (simp add: broken [OF rs(1)])
  next
    case (went w2 es)
    show thesis using went compared [OF rs(1), of w2 es] rs(2) by simp
  qed
qed

context evidence_store
begin

lemma start_body_adds:
  assumes env: "rv_chain env = port" "admitted admits env" and well: "well (rw_chain w)"
    and run: "start_body env scope entries w = (w', a)" and agrees: "agrees chain scope (rw_chain w) entries"
  shows "well (rw_chain w') \<and> scanned env scope w' = scanned env scope w \<and>
    (\<forall>e. scanned env scope w = Inl e \<longrightarrow> rw_journal w' = rw_journal w \<and> adds chain scope [] (rw_chain w) (rw_chain w') \<and> (\<forall>rep. a \<noteq> Inr rep)) \<and>
    (\<forall>envelopes. scanned env scope w = Inr envelopes \<longrightarrow> (\<exists>vs. adds chain scope (decided_refs vs) (rw_chain w) (rw_chain w') \<and>
      set vs \<subseteq> {v \<in> set envelopes. ev_recording_epoch v \<in> dead_at env scope w \<and> (ev_store_id v, ev_position v) \<notin> surviving (chain (rw_chain w) scope) \<and>
         de_ref (ev_decision v) \<notin> set (named (chain (rw_chain w) scope))} \<and>
      (distinct (decided_refs envelopes) \<longrightarrow> distinct (decided_refs vs)) \<and>
      (\<forall>rep. a = Inr rep \<longrightarrow>
        (\<forall>v \<in> set envelopes. ev_recording_epoch v \<in> dead_at env scope w \<longrightarrow> (ev_store_id v, ev_position v) \<in> surviving (chain (rw_chain w') scope) \<or>
           de_ref (ev_decision v) \<in> set (named (chain (rw_chain w') scope))))))"
  using run
proof (cases rule: start_body_cases)
  case (unlisted e)
  then show ?thesis using well by (auto simp: decided_refs_def intro: exI [of _ "[]"])
next
  case (broken rs e)
  have dead: "dead_at env scope w = dead_epochs env rs" using broken(1) by (simp add: dead_at_def)
  note r = reconcile_epochs_adds [OF env well agrees broken(2), folded dead]
  then show ?thesis using broken(3) by auto
next
  case (compared rs es w1)
  have dead: "dead_at env scope w = dead_epochs env rs" using compared(1) by (simp add: dead_at_def)
  note r = reconcile_epochs_adds [OF env well agrees compared(2), folded dead]
  note c = compare_contents_result [OF compared(3)]
  have kept: "well (rw_chain w')" "scanned env scope w' = scanned env scope w" using r c by simp_all
  show ?thesis
  proof (cases "scanned env scope w")
    case (Inl e)
    then show ?thesis using r c kept by auto
  next
    case (Inr envelopes)
    from r Inr obtain vs where "adds chain scope (decided_refs vs) (rw_chain w) (rw_chain w1)"
      "set vs \<subseteq> {v \<in> set envelopes. ev_recording_epoch v \<in> dead_at env scope w \<and> (ev_store_id v, ev_position v) \<notin> surviving (chain (rw_chain w) scope) \<and>
         de_ref (ev_decision v) \<notin> set (named (chain (rw_chain w) scope))}"
      "distinct (decided_refs envelopes) \<longrightarrow> distinct (decided_refs vs)"
      "\<forall>v \<in> set envelopes. ev_recording_epoch v \<in> dead_at env scope w \<longrightarrow> (ev_store_id v, ev_position v) \<in> surviving (chain (rw_chain w1) scope) \<or>
           de_ref (ev_decision v) \<in> set (named (chain (rw_chain w1) scope))" by blast
    then show ?thesis using c kept Inr by auto
  qed
qed

end

section \<open>The journal a start leaves\<close>

lemma journal_good_records:
  assumes "reads_canonical loads" and "journal_good scope (journal_bytes j scope) log" and "is_scope scope"
  shows "open_epochs loads scope j = Inr (still_open log)"
proof -
  have "journal_records loads scope j = Inr log"
    using journal_good_read [OF assms(1,2)] assms(2,3) journal_file_last(2) [of scope log]
    by (auto simp: journal_records_def journal_bytes_def journal_good_def split: option.splits)
  then show ?thesis by (simp add: open_epochs_def)
qed

lemma still_open_closed: "jr_record r \<noteq> ''epoch_open'' \<Longrightarrow> still_open (log @ [r]) = filter (\<lambda>x. jr_epoch_id x \<noteq> jr_epoch_id r) (still_open log)"
  by (auto simp: still_open_def Let_def intro: filter_cong)

lemma still_open_ok: "journal_good scope raw log \<Longrightarrow> x \<in> set (still_open log) \<Longrightarrow> jr_epoch_id x \<noteq> []"
  by (auto simp: journal_good_def still_open_def journal_log_def list_all_iff journal_ok_def Let_def)

lemma journal_closes:
  assumes "reads_canonical loads" and "journal_good scope (journal_bytes j scope) log" and "is_scope scope" and "epoch \<noteq> []"
    and "\<forall>n. marker = Some n \<longrightarrow> 1 \<le> n" and "journal_epoch_reconciled loads ft scope epoch marker hash j = (j', Inr ())"
  shows "\<exists>log'. journal_good scope (journal_bytes j' scope) log' \<and> still_open log' = filter (\<lambda>x. jr_epoch_id x \<noteq> epoch) (still_open log)"
proof -
  define r where "r = epoch_closure ''epoch_reconciled'' scope epoch marker hash"
  have r: "jr_scope r = scope" "jr_record r \<noteq> ''epoch_open''" "jr_epoch_id r = epoch" by (simp_all add: r_def epoch_closure_def)
  have ok: "journal_ok scope r" using assms(4,5) by (auto simp: r_def epoch_closure_def journal_ok_def RECORDS_def split: option.split)
  have "ft = None" "j' = AList.update scope (journal_bytes j scope @ journal_payload (journal_bytes j scope) log r)
      (AList.update scope (journal_bytes j scope) j)"
    using assms(6) append_journal_good [OF assms(1), of r j log ft] assms(2,3) r(1)
    by (auto simp: journal_epoch_reconciled_def Let_def simp flip: r_def split: option.splits)
  then have "journal_good scope (journal_bytes j' scope) (log @ [next_record log r])"
    using good_written [OF assms(2) ok] by (simp add: journal_bytes_def)
  then show ?thesis using still_open_closed [of "next_record log r" log] r by (auto simp: next_record_def)
qed

context evidence_store
begin

lemma reconcile_epochs_closes:
  assumes env: "rv_chain env = port" "admitted admits env" "reads_canonical (rv_loads env)" and scope: "is_scope scope"
  shows "well (rw_chain w) \<Longrightarrow> agrees chain scope (rw_chain w) entries \<Longrightarrow> journal_good scope (journal_bytes (rw_journal w) scope) log \<Longrightarrow>
    \<forall>r \<in> set rs. jr_epoch_id r \<noteq> [] \<Longrightarrow> reconcile_epochs env scope rs entries w = (w', Inr es) \<Longrightarrow>
    \<exists>log'. journal_good scope (journal_bytes (rw_journal w') scope) log' \<and>
      still_open log' = filter (\<lambda>x. jr_epoch_id x \<notin> dead_epochs env rs) (still_open log)"
proof (induction rs arbitrary: w entries log)
  case Nil
  then show ?case by (auto simp: dead_epochs_def)
next
  case (Cons r rs)
  show ?case
  proof (cases "jr_epoch_id r = rv_recording_epoch env")
    case True
    then have "dead_epochs env (r # rs) = dead_epochs env rs" by (auto simp: dead_epochs_def)
    then show ?thesis using Cons.IH [OF Cons.prems(1,2,3)] Cons.prems(4,5) True by simp
  next
    case False
    obtain w1 b where w1: "reconcile_epoch env scope r entries w = (w1, b)" by fastforce
    note e = reconcile_epoch_adds [OF env(1,2) Cons.prems(1) w1 Cons.prems(2)]
    from w1 Cons.prems(5) False obtain fs where b: "b = Inr fs" and run: "reconcile_epochs env scope rs fs w1 = (w', Inr es)"
      by (auto split: sum.splits)
    obtain envelopes where envs: "scanned env scope w = Inr envelopes" using e b by (cases "scanned env scope w") auto
    have ends: "agrees chain scope (rw_chain w1) fs \<and> (\<exists>marker hash. (\<forall>n. marker = Some n \<longrightarrow> 1 \<le> n) \<and>
        journal_epoch_reconciled (rv_loads env) (rv_faults env (jr_epoch_id r)) scope (jr_epoch_id r) marker hash (rw_journal w) = (rw_journal w1, Inr ()))"
      using e [THEN conjunct2, THEN conjunct2, THEN conjunct2, THEN spec, THEN mp, OF envs] by (elim exE conjE) (use b in simp)
    then obtain marker hash where closed: "\<forall>n. marker = Some n \<longrightarrow> 1 \<le> n"
        "journal_epoch_reconciled (rv_loads env) (rv_faults env (jr_epoch_id r)) scope (jr_epoch_id r) marker hash (rw_journal w) = (rw_journal w1, Inr ())"
      by blast
    have id: "jr_epoch_id r \<noteq> []" using Cons.prems(4) by simp
    from journal_closes [OF env(3) Cons.prems(3) scope id closed] obtain log1 where
      log1: "journal_good scope (journal_bytes (rw_journal w1) scope) log1"
        "still_open log1 = filter (\<lambda>x. jr_epoch_id x \<noteq> jr_epoch_id r) (still_open log)" by blast
    have w1well: "well (rw_chain w1)" and w1agrees: "agrees chain scope (rw_chain w1) fs" using e ends by blast+
    from Cons.IH [OF w1well w1agrees log1(1) _ run] Cons.prems(4) obtain log' where
      log': "journal_good scope (journal_bytes (rw_journal w') scope) log'"
        "still_open log' = filter (\<lambda>x. jr_epoch_id x \<notin> dead_epochs env rs) (still_open log1)" by auto
    have "dead_epochs env (r # rs) = insert (jr_epoch_id r) (dead_epochs env rs)" using False by (auto simp: dead_epochs_def)
    then have "still_open log' = filter (\<lambda>x. jr_epoch_id x \<notin> dead_epochs env (r # rs)) (still_open log)"
      using log'(2) log1(2) by (auto intro: filter_cong)
    then show ?thesis using log'(1) by blast
  qed
qed

end

text \<open>When only this process's own epoch is open there is nothing to reconcile.\<close>

lemma reconcile_own: "\<forall>r \<in> set rs. jr_epoch_id r = rv_recording_epoch env \<Longrightarrow> reconcile_epochs env scope rs entries w = (w, Inr entries)"
  by (induction rs) auto

lemma start_own:
  assumes "open_epochs (rv_loads env) scope (rw_journal w) = Inr rs" and "\<forall>r \<in> set rs. jr_epoch_id r = rv_recording_epoch env"
    and "reconcile_at_start env scope w = (w', a)"
  shows "rw_chain w' = rw_chain w \<and> rw_journal w' = rw_journal w"
  using assms(3)
proof (cases rule: start_cases)
  case (ran entries w1 b)
  from ran(2) show ?thesis
  proof (cases rule: start_body_cases)
    case (compared rs' es w2)
    then have "w2 = w" using reconcile_own [OF assms(2)] assms(1) by simp
    then show ?thesis using compare_contents_result(1,2) [OF compared(3)] ran(3,4) by simp
  qed (use reconcile_own [OF assms(2)] assms(1) ran in auto)
qed simp

context evidence_store
begin

text \<open>What a start names, for each way it may end.\<close>

lemma start_adds:
  assumes env: "rv_chain env = port" "admitted admits env" and well: "well (rw_chain w)" and run: "reconcile_at_start env scope w = (w', a)"
  shows "(\<forall>e. scanned env scope w = Inl e \<longrightarrow> rw_journal w' = rw_journal w \<and> named (chain (rw_chain w') scope) = named (chain (rw_chain w) scope) \<and>
      (\<forall>rep. a = Inr rep \<longrightarrow> rep = not_run scope)) \<and>
    (\<forall>envelopes. scanned env scope w = Inr envelopes \<longrightarrow> (\<exists>vs. named (chain (rw_chain w') scope) = named (chain (rw_chain w) scope) @ decided_refs vs \<and>
      set vs \<subseteq> {v \<in> set envelopes. ev_recording_epoch v \<in> dead_at env scope w \<and> (ev_store_id v, ev_position v) \<notin> surviving (chain (rw_chain w) scope) \<and>
         de_ref (ev_decision v) \<notin> set (named (chain (rw_chain w) scope))} \<and>
      (distinct (decided_refs envelopes) \<longrightarrow> distinct (decided_refs vs)) \<and>
      (\<forall>rep. a = Inr rep \<and> rp_state rep \<noteq> Not_Run \<longrightarrow>
        (\<forall>v \<in> set envelopes. ev_recording_epoch v \<in> dead_at env scope w \<longrightarrow> (ev_store_id v, ev_position v) \<in> surviving (chain (rw_chain w') scope) \<or>
           de_ref (ev_decision v) \<in> set (named (chain (rw_chain w') scope))))))"
  using run
proof (cases rule: start_cases)
  case (unread e)
  then show ?thesis by (auto simp: decided_refs_def intro: exI [of _ "[]"])
next
  case (ran entries w1 b)
  have "entries = chain (rw_chain w) scope" using read_all [OF well] ran(1) env(1) by simp
  then have "agrees chain scope (rw_chain w) entries"
    using positive [OF well] by (auto simp: agrees_def placed_all_def list_all_iff)
  note body = start_body_adds [OF env well ran(2) this]
  have reports: "a = Inr rep \<and> rp_state rep \<noteq> Not_Run \<Longrightarrow> b = Inr rep" for rep
    using ran(6) by (auto simp: not_run_def split: sum.splits if_splits)
  show ?thesis
  proof (cases "scanned env scope w")
    case (Inl e)
    then obtain x where b: "b = Inl x" using body by (cases b) auto
    have "a = Inr rep \<Longrightarrow> rep = not_run scope" for rep using ran(6) b by (auto split: if_splits)
    then show ?thesis using body Inl ran(3,4) by (auto simp: adds_def)
  next
    case (Inr envelopes)
    from body Inr obtain vs where vs: "adds chain scope (decided_refs vs) (rw_chain w) (rw_chain w1)"
      "set vs \<subseteq> {v \<in> set envelopes. ev_recording_epoch v \<in> dead_at env scope w \<and> (ev_store_id v, ev_position v) \<notin> surviving (chain (rw_chain w) scope) \<and>
         de_ref (ev_decision v) \<notin> set (named (chain (rw_chain w) scope))}"
      "distinct (decided_refs envelopes) \<longrightarrow> distinct (decided_refs vs)"
      "\<forall>rep. b = Inr rep \<longrightarrow> (\<forall>v \<in> set envelopes. ev_recording_epoch v \<in> dead_at env scope w \<longrightarrow>
         (ev_store_id v, ev_position v) \<in> surviving (chain (rw_chain w1) scope) \<or>
         de_ref (ev_decision v) \<in> set (named (chain (rw_chain w1) scope)))" by blast
    have chains: "named (chain (rw_chain w') scope) = named (chain (rw_chain w) scope) @ decided_refs vs" "surviving (chain (rw_chain w') scope) = surviving (chain (rw_chain w) scope)"
      using vs(1) ran(3) by (simp_all add: adds_def)
    have "\<forall>rep. a = Inr rep \<and> rp_state rep \<noteq> Not_Run \<longrightarrow> (\<forall>v \<in> set envelopes. ev_recording_epoch v \<in> dead_at env scope w \<longrightarrow>
        (ev_store_id v, ev_position v) \<in> surviving (chain (rw_chain w') scope) \<or> de_ref (ev_decision v) \<in> set (named (chain (rw_chain w') scope)))"
      using vs(4) reports ran(3) by auto
    moreover have "set vs \<subseteq> {v \<in> set envelopes. ev_recording_epoch v \<in> dead_at env scope w \<and> (ev_store_id v, ev_position v) \<notin> surviving (chain (rw_chain w) scope) \<and>
         de_ref (ev_decision v) \<notin> set (named (chain (rw_chain w) scope))}" using vs(2) .
    ultimately show ?thesis using chains(1) vs(3) Inr by auto
  qed
qed

text \<open>What a start that reports leaves open, and what another one does.\<close>

lemma start_closes:
  assumes env: "rv_chain env = port" "admitted admits env" and well: "well (rw_chain w)" and loads: "reads_canonical (rv_loads env)"
    and scope: "is_scope scope" and log: "journal_good scope (journal_bytes (rw_journal w) scope) log"
    and run: "reconcile_at_start env scope w = (w', Inr rep)" and reports: "rp_state rep \<noteq> Not_Run"
    and again: "reconcile_at_start env scope w' = (w'', a)"
  shows "dead_at env scope w' = {} \<and> rw_chain w'' = rw_chain w' \<and> rw_journal w'' = rw_journal w'"
proof -
  have "\<exists>rs. open_epochs (rv_loads env) scope (rw_journal w') = Inr rs \<and> (\<forall>r \<in> set rs. jr_epoch_id r = rv_recording_epoch env)"
    using run
  proof (cases rule: start_cases)
    case (ran entries w1 b)
    have b: "b = Inr rep" using ran(6) reports by (auto simp: not_run_def split: sum.splits if_splits)
    have "entries = chain (rw_chain w) scope" using read_all [OF well] ran(1) env(1) by simp
    then have agrees: "agrees chain scope (rw_chain w) entries"
      using positive [OF well] by (auto simp: agrees_def placed_all_def list_all_iff)
    from ran(2) show ?thesis
    proof (cases rule: start_body_cases)
      case (compared rs es w2)
      have rs: "rs = still_open log" using journal_good_records [OF loads log scope] compared(1) by simp
      have ids: "\<forall>r \<in> set rs. jr_epoch_id r \<noteq> []" using still_open_ok [OF log] rs by simp
      from reconcile_epochs_closes [OF env loads scope well agrees log ids compared(2)] obtain log' where
        log': "journal_good scope (journal_bytes (rw_journal w2) scope) log'"
          "still_open log' = filter (\<lambda>x. jr_epoch_id x \<notin> dead_epochs env rs) (still_open log)" by blast
      have "rw_journal w' = rw_journal w2" using compare_contents_result(2) [OF compared(3)] ran(4) by simp
      then have "open_epochs (rv_loads env) scope (rw_journal w') = Inr (still_open log')"
        using journal_good_records [OF loads log'(1) scope] by simp
      moreover have "\<forall>r \<in> set (still_open log'). jr_epoch_id r = rv_recording_epoch env" using log'(2) rs by (auto simp: dead_epochs_def)
      ultimately show ?thesis by blast
    qed (use b in simp_all)
  qed simp
  then obtain rs where rs: "open_epochs (rv_loads env) scope (rw_journal w') = Inr rs" "\<forall>r \<in> set rs. jr_epoch_id r = rv_recording_epoch env" by blast
  then have "dead_at env scope w' = {}" by (auto simp: dead_at_def dead_epochs_def)
  then show ?thesis using start_own [OF rs again] by simp
qed

end

end
