(* ===== verification/RecoveryProperties.thy ===== *)
theory RecoveryProperties
  imports RecoveryStart DecisionFileProperties ExportProperties GapProperties
begin

text \<open>
  Properties of the recovery writer, over the evidence store in memory: its chain is what is named and what survives in it.
\<close>

definition named_in :: "(memory_store, 'g) recovery \<Rightarrow> string \<Rightarrow> string list" where
  "named_in w scope = named (memory_chain (rw_chain w) scope)"

definition surviving_in :: "(memory_store, 'g) recovery \<Rightarrow> string \<Rightarrow> (string \<times> int) set" where
  "surviving_in w scope = surviving (memory_chain (rw_chain w) scope)"

definition memory_started :: "(memory_store, 'g) recovery_env \<Rightarrow> (memory_store, 'g) recovery \<Rightarrow> bool" where
  "memory_started env w \<longleftrightarrow> rv_chain env = memory_port \<and> admitted (\<lambda>_. True) env \<and> memory_well (rw_chain w)"

lemma memory_start:
  assumes "memory_started env w"
  shows "rv_chain env = memory_port" "admitted (\<lambda>_. True) env" "memory_well (rw_chain w)"
  using assms by (simp_all add: memory_started_def)





lemma render_nonempty: "render_recorded env x = Inr a \<Longrightarrow> a \<noteq> []"
  using instant_nonempty by (cases "pl_reads (rv_platform env) (zulu_offset x)") (auto simp: render_recorded_def split: datetime.splits)

lemma missing_ok:
  assumes "log_ok scope sid envelopes" and "\<forall>v \<in> set envelopes. de_ref (ev_decision v) \<noteq> []"
  shows "chunk_ok (missing_of epoch entries envelopes)"
proof -
  have log: "sid \<noteq> []" "\<forall>v \<in> set envelopes. ev_store_id v = sid \<and> 1 \<le> ev_position v" "distinct (decided_refs envelopes)"
    using assms(1) by (auto simp: log_ok_def list_all_iff envelope_ok_def decided_refs_def envelope_ref_def [abs_def])
  have "\<forall>v \<in> set (missing_of epoch entries envelopes). ev_store_id v = sid \<and> 1 \<le> ev_position v \<and> de_ref (ev_decision v) \<noteq> []"
    using log(2) assms(2) by (auto simp: missing_of_def)
  moreover have "sorted (map ev_position (missing_of epoch entries envelopes))" unfolding missing_of_def by (rule sorted_sort_key)
  ultimately show ?thesis using log(1) missing_distinct [OF log(3)] unfolding chunk_ok_def by blast
qed

text \<open>C35: whatever the authority holds of an epoch, each gap that the writer declares for its missing decisions is a record the
  chain's own validator admits: it names at least one and at most 8192 of them, each once, in the order of their positions.
  So a start is not stopped by the record it writes.\<close>

theorem every_unflushed_gap_is_valid:
  assumes "log_ok scope sid envelopes" and "\<forall>v \<in> set envelopes. de_ref (ev_decision v) \<noteq> []" and "scope \<noteq> []" and "is_aware now"
    and "render_recorded env x = Inr a" and "render_recorded env y = Inr b"
    and "chunk \<in> set (chunks GAP_ID_BOUND (missing_of epoch entries envelopes))"
  shows "\<exists>r. build_record scope ''gap'' now DAEMON_CONNECTION RECOVERY_PRINCIPAL (unflushed_body epoch a b chunk) = Inr r \<and>
    1 \<le> length chunk \<and> length chunk \<le> GAP_ID_BOUND"
proof -
  have chunk: "chunk \<noteq> []" "length chunk \<le> GAP_ID_BOUND" using chunk_bounds [OF assms(7)] by simp_all
  have missing: "chunk_ok (missing_of epoch entries envelopes)"
    using missing_ok [OF assms(1,2)] .
  have "set chunk \<subseteq> set (missing_of epoch entries envelopes)"
    using concat_chunks [of GAP_ID_BOUND "missing_of epoch entries envelopes"] assms(7)
    by (metis GAP_ID_BOUND_def Union_upper image_eqI set_concat zero_less_numeral)
  then have "epoch \<noteq> []" using chunk(1) assms(1) by (cases chunk) (auto simp: missing_of_def log_ok_def list_all_iff envelope_ok_def)
  moreover have "a \<noteq> []" "b \<noteq> []" using assms(5,6) render_nonempty by blast+
  moreover have "1 \<le> length chunk" using chunk(1) by (cases chunk) auto
  ultimately show ?thesis
    using unflushed_recordable [OF chunk_ok_chunks [OF missing assms(7)] chunk(1) _ _ _ _ assms(3,4)] chunk(2) by (simp add: GAP_ID_BOUND_def)
qed

section \<open>Witnesses\<close>

text \<open>A process died after its first decision was appended and before its effect was; the next one starts.\<close>

definition lost_envelope :: envelope where
  "lost_envelope = first_envelope ''e'' ''s'' later_decision"

definition lost_opening :: journal_record where
  "lost_opening = (epoch_open ''default'' ''e'' (Some ''s'') 1)\<lparr>jr_position := 1\<rparr>"

definition recovery_example_env :: "(memory_store, unit) recovery_env" where
  "recovery_example_env = \<lparr>rv_chain = memory_port, rv_loads = json_loads, rv_platform = example_platform, rv_fresh = ''s'',
     rv_recording_epoch = ''e1'', rv_clock = (\<lambda>_. Aware 1700000000000000), rv_daemon_grade = None, rv_archive = None,
     rv_local_time = (\<lambda>t. t), rv_faults = (\<lambda>_. None)\<rparr>"

definition recovery_example :: "(memory_store, unit) recovery" where
  "recovery_example = \<lparr>rw_chain = [], rw_decisions = decision_store ''e1'' [(''default'', file_of ''default'' ''s'' [lost_envelope])],
     rw_journal = [(''default'', journal_file ''default'' [lost_opening])],
     rw_grading = (), rw_clock_reads = 0, rw_opened = [], rw_reports = []\<rparr>"

lemma scan_of_file:
  assumes "reads_canonical loads" and "log_ok scope sid es" and "is_scope scope"
  shows "snd (scan loads pl fresh scope (decision_store epoch [(scope, file_of scope sid es)])) =
    Inr (map (\<lambda>e. e\<lparr>ev_decision := normal_decision (ev_decision e)\<rparr>) es)"
  using rebuild_log [OF assms(1,2), of "[]" pl fresh] scan_log [OF assms(1,2), of "[]" pl] assms(3)
  by (simp add: scan_def state_locked_def decision_store_def set_state_def file_bytes_def index_of_def)

lemma example_log: "log_ok ''default'' ''s'' [lost_envelope]"
  by code_simp

lemma example_journal: "journal_good ''default'' (journal_bytes (rw_journal recovery_example) ''default'') [lost_opening]"
  by (simp add: journal_good_def recovery_example_def journal_bytes_def journal_log_def lost_opening_def epoch_open_def journal_ok_def RECORDS_def)

lemma example_started: "memory_started recovery_example_env recovery_example"
  by (simp add: memory_started_def recovery_example_env_def recovery_example_def admitted_def memory_well_def memory_chain_def)

lemma example_decision: "normal_decision later_decision = later_decision" "de_ref later_decision = ''d1''" "de_scope later_decision = ''default''"
  by code_simp+

lemma example_scanned: "scanned recovery_example_env ''default'' recovery_example = Inr [lost_envelope]"
  using scan_of_file [OF json_loads_reads example_log file_decisions(3)] example_decision(1)
  by (simp add: scanned_def recovery_example_env_def recovery_example_def lost_envelope_def first_envelope_def)

lemma example_open: "open_epochs json_loads ''default'' (rw_journal recovery_example) = Inr [lost_opening]"
  using journal_good_records [OF json_loads_reads example_journal file_decisions(3)]
  by (simp add: still_open_def lost_opening_def epoch_open_def)

lemma example_dead: "dead_at recovery_example_env ''default'' recovery_example = {''e''}"
proof -
  have "rv_loads recovery_example_env = json_loads" "rv_recording_epoch recovery_example_env = ''e1''" by (simp_all add: recovery_example_env_def)
  then show ?thesis using example_open by (simp add: dead_at_def dead_epochs_def lost_opening_def epoch_open_def)
qed

lemma example_rendered: "\<exists>t. render_recorded recovery_example_env x = Inr t"
  by (simp add: render_recorded_def recovery_example_env_def example_platform_def chain_instant_def)

text \<open>The gap of the lost decision, as the start writes it.\<close>

lemma example_append:
  assumes "rw_chain w = []" and "a \<noteq> []" and "b \<noteq> []"
  shows "\<exists>e c. append_marker recovery_example_env ''default'' ''gap'' (unflushed_body ''e'' a b [lost_envelope]) w =
    (w\<lparr>rw_clock_reads := c, rw_chain := [(''default'', [e])]\<rparr>, Inr e) \<and> er_kind e = ''gap''"
proof -
  define r where "r = \<lparr>er_scope = ''default'', er_kind = ''gap'', er_recorded_at = Aware 1700000000000000, er_connection_id = DAEMON_CONNECTION,
      er_principal = RECOVERY_PRINCIPAL, er_body = unflushed_body ''e'' a b [lost_envelope]\<rparr>"
  have ok: "chunk_ok [lost_envelope]" using example_decision(2)
    by (simp add: chunk_ok_def lost_envelope_def first_envelope_def decided_refs_def)
  have r: "build_record ''default'' ''gap'' (Aware 1700000000000000) DAEMON_CONNECTION RECOVERY_PRINCIPAL (unflushed_body ''e'' a b [lost_envelope]) = Inr r"
    unfolding r_def using assms(2,3) by (intro unflushed_recordable [OF ok]) simp_all
  then have "record_post_init r = Inr ()" by (auto simp: build_record_def Let_def bind_r_def split: sum.splits)
  then have "record_post_init (placed r n h d) = Inr ()" for n h d by (simp add: record_post_init_def placed_def)
  then obtain e where e: "place r 1 None = Inr e" using placed_somewhere [of r 1 None] by (auto simp: r_def)
  have "memory_append r [] = ([(''default'', [e])], Inr e)"
    using e file_decisions(3) by (simp add: memory_append_def memory_chain_def r_def chained_def FIRST_SEQUENCE_def)
  then show ?thesis
    using r place_record [OF e] assms(1)
    by (intro exI [of _ e] exI [of _ "Suc (rw_clock_reads w)"])
      (simp add: append_marker_def bind_op_def read_clock_def answer_def chain_append_def recovery_example_env_def memory_port_def
        core_instant_def r_def)
qed

lemma example_declared:
  assumes "rw_chain w = []"
  shows "\<exists>e c. declare_chunks recovery_example_env ''default'' ''e'' [[lost_envelope]] w =
    (w\<lparr>rw_clock_reads := c, rw_chain := [(''default'', [e])]\<rparr>, Inr [e]) \<and> er_kind e = ''gap''"
proof -
  obtain a where a: "render_recorded recovery_example_env (de_decided_at (ev_decision lost_envelope)) = Inr a" using example_rendered by blast
  have "a \<noteq> []" using render_nonempty [OF a] .
  then obtain e c where e: "append_marker recovery_example_env ''default'' ''gap'' (unflushed_body ''e'' a a [lost_envelope]) w =
    (w\<lparr>rw_clock_reads := c, rw_chain := [(''default'', [e])]\<rparr>, Inr e)" "er_kind e = ''gap''"
    using example_append [OF assms] by blast
  have "grade_first recovery_example_env ''default'' w = (w, Inr ())" by (simp add: grade_first_def recovery_example_env_def)
  then have "declare_chunks recovery_example_env ''default'' ''e'' [[lost_envelope]] w =
    (w\<lparr>rw_clock_reads := c, rw_chain := [(''default'', [e])]\<rparr>, Inr [e])"
    using a e(1) by (simp add: bind_op_def answer_def Let_def)
  then show ?thesis using e(2) by blast
qed

lemma example_reconciled:
  "\<exists>w' e. reconcile_epoch recovery_example_env ''default'' lost_opening [] recovery_example = (w', Inr [e]) \<and>
     scanned recovery_example_env ''default'' w' = Inr [lost_envelope] \<and> er_kind e = ''gap''"
proof -
  have env: "rv_loads recovery_example_env = json_loads" "rv_faults recovery_example_env ''e'' = None" by (simp_all add: recovery_example_env_def)
  have lost: "jr_epoch_id lost_opening = ''e''" "jr_from_sequence lost_opening = Some 1" by (simp_all add: lost_opening_def epoch_open_def)
  have marked: "mark_unclean recovery_example_env ''default'' ''e'' 1 [] w = (w, Inr (None, []))" for w
    by (simp add: mark_unclean_def produced_def answer_def)
  obtain w1 r where scan: "scan_decisions recovery_example_env ''default'' recovery_example = (w1, r)" by fastforce
  note read = scan_decisions_result [OF scan]
  have r: "r = Inr [lost_envelope]" using read(1) example_scanned by simp
  have "missing_of ''e'' [] [lost_envelope] = [lost_envelope]" by (simp add: missing_of_def lost_envelope_def first_envelope_def named_def)
  then have chunks: "chunks GAP_ID_BOUND (missing_of ''e'' [] [lost_envelope]) = [[lost_envelope]]"
    by (simp add: GAP_ID_BOUND_def chunks.simps)
  have "rw_chain w1 = []" using read(3) by (simp add: recovery_example_def)
  then obtain e c where e: "declare_chunks recovery_example_env ''default'' ''e'' [[lost_envelope]] w1 =
    (w1\<lparr>rw_clock_reads := c, rw_chain := [(''default'', [e])]\<rparr>, Inr [e])" "er_kind e = ''gap''"
    using example_declared by blast
  define w2 where "w2 = w1\<lparr>rw_clock_reads := c, rw_chain := [(''default'', [e])]\<rparr>"
  have declared: "declare_unflushed recovery_example_env ''default'' ''e'' [] recovery_example = (w2, Inr [e])"
    using scan r chunks e(1) by (simp add: declare_unflushed_def bind_op_def answer_def w2_def)
  have journal: "rw_journal w2 = rw_journal recovery_example" using read(4) by (simp add: w2_def)
  define put where "put = epoch_closure ''epoch_reconciled'' ''default'' ''e'' None None"
  have put: "jr_scope put = ''default''" by (simp add: put_def epoch_closure_def)
  obtain j where j: "journal_epoch_reconciled json_loads None ''default'' ''e'' None None (rw_journal w2) = (j, Inr ())"
    using append_journal_good [OF json_loads_reads, of put "rw_journal w2" "[lost_opening]" None] example_journal file_decisions(3)
    by (auto simp: put journal journal_epoch_reconciled_def Let_def simp flip: put_def)
  have "reconcile_epoch recovery_example_env ''default'' lost_opening [] recovery_example = (w2\<lparr>rw_journal := j\<rparr>, Inr [e])"
    using marked declared j env by (simp add: reconcile_epoch_def lost bind_op_def journal_op_def answer_def)
  moreover have "scanned recovery_example_env ''default'' (w2\<lparr>rw_journal := j\<rparr>) = scanned recovery_example_env ''default'' w1"
    by (simp add: scanned_def w2_def)
  ultimately show ?thesis using read(2) example_scanned e(2) by auto
qed

lemma example_start: "\<exists>w' rep. reconcile_at_start recovery_example_env ''default'' recovery_example = (w', Inr rep) \<and> rp_state rep = Agrees"
proof -
  have env: "rv_loads recovery_example_env = json_loads" "rv_recording_epoch recovery_example_env = ''e1''" "rv_archive recovery_example_env = None"
    "rv_chain recovery_example_env = memory_port" "rv_clock recovery_example_env = (\<lambda>_. Aware 1700000000000000)"
    by (simp_all add: recovery_example_env_def)
  have read: "read_chain recovery_example_env ''default'' recovery_example = (recovery_example, Inr [])"
    using file_decisions(3) by (simp add: read_chain_def env memory_port_def memory_read_def validate_range_def recovery_example_def memory_chain_def)
  obtain w1 e where w1: "reconcile_epoch recovery_example_env ''default'' lost_opening [] recovery_example = (w1, Inr [e])"
    "scanned recovery_example_env ''default'' w1 = Inr [lost_envelope]" "er_kind e = ''gap''" using example_reconciled by blast
  have "jr_epoch_id lost_opening \<noteq> ''e1''" by (simp add: lost_opening_def epoch_open_def)
  then have epochs: "reconcile_epochs recovery_example_env ''default'' [lost_opening] [] recovery_example = (w1, Inr [e])" using w1(1) env by simp
  obtain w2 r where scan: "scan_decisions recovery_example_env ''default'' w1 = (w2, r)" by fastforce
  have "r = Inr [lost_envelope]" using scan_decisions_result(1) [OF scan] w1(2) by simp
  moreover have "effects [e] = []" "decided_position e = None" using w1(3) by (simp_all add: effects_def no_effect)
  ultimately obtain w3 rep where compared: "compare_contents recovery_example_env ''default'' [e] w1 = (w3, Inr rep)" "rp_state rep = Agrees"
    using scan by (simp add: compare_contents_def bind_op_def answer_def read_clock_def env core_instant_def)
  then show ?thesis
    using read epochs example_open
    by (simp add: reconcile_at_start_def bind_op_def open_records_def env)
qed




text \<open>The same world with a header that cannot be read in the file of the authority.\<close>

definition unreadable_example :: "(memory_store, unit) recovery" where
  "unreadable_example = recovery_example\<lparr>rw_decisions := decision_store ''e1'' [(''default'', ''x'' @ [newline])]\<rparr>"

lemma unreadable_scanned: "scanned recovery_example_env ''default'' unreadable_example = Inl exn.DecisionStoreUnavailable"
  by code_simp


theorem every_unflushed_gap_is_valid_witness:
  "\<exists>a r. build_record ''default'' ''gap'' (Aware 0) DAEMON_CONNECTION RECOVERY_PRINCIPAL (unflushed_body ''e'' a a [lost_envelope]) = Inr r"
proof -
  obtain a where a: "render_recorded recovery_example_env ''t'' = Inr a" using example_rendered by blast
  have "missing_of ''e'' [] [lost_envelope] = [lost_envelope]" by (simp add: missing_of_def lost_envelope_def first_envelope_def named_def)
  then have "[lost_envelope] \<in> set (chunks GAP_ID_BOUND (missing_of ''e'' [] [lost_envelope]))" by (simp add: GAP_ID_BOUND_def chunks.simps)
  from every_unflushed_gap_is_valid [OF example_log _ _ _ a a this, of "Aware 0"] show ?thesis
    using example_decision(2) by (auto simp: lost_envelope_def first_envelope_def)
qed

end
