(* ===== verification/Spec2Isabelle.thy ===== *)
theory Spec2Isabelle
  imports StoreProperties PolicyProperties BoundaryProperties RegistryProperties PortProperties DecisionProperties
    EvidenceProperties Protection ExportProperties ExportErrors DecisionFileProperties
    EmitterProperties GapProperties RecoveryProperties
begin

text \<open>
  \<^bold>\<open>A model of the sayfirst control plane.\<close>

  The program answers one question: may this principal do this, here, now? A boundary inside a governed program
  asks; the daemon (the control plane) evaluates the administrator's policy, records its decision and answers
  allow, deny or suspend. An allow may carry a grant that answers identical asks without asking again; a suspend
  opens an approval that one person ends by one act, which authorises one execution. Paths below are under
  \<^verbatim>\<open>src/packages\<close>; \<^verbatim>\<open>cp/\<close> stands for \<^verbatim>\<open>control-plane/src/sayfirst_control_plane/\<close>, \<^verbatim>\<open>contract/\<close> for
  \<^verbatim>\<open>contract/src/sayfirst_contract/\<close> and \<^verbatim>\<open>boundary/\<close> for \<^verbatim>\<open>boundary/src/sayfirst_boundary/\<close>.

  \<^bold>\<open>Conventions.\<close> A Python method is a function of the state it works on that returns the state it leaves behind and
  a result, \<open>Inl\<close> the exception it raised or \<open>Inr\<close> its value (theory \<open>Prelude\<close>): a method that raises keeps what it
  wrote before. A class or dataclass is a record, an \<open>Enum\<close> a datatype, a dict an association list. Integers are
  Python's and unbounded, so they are \<open>int\<close>; instants are microseconds, and a clock is an argument. A method that
  holds its lock throughout is one step; interleaving is between steps.

  \<^bold>\<open>Theories and the code they model.\<close>
  \<^item> \<open>Prelude\<close>, \<open>Interfaces\<close>: results, dictionaries, heaps (the observable laws of \<^verbatim>\<open>heapq\<close> over a sorted list),
    decimal digits, and the locales of a priority queue and of a dictionary with their interpretations.
  \<^item> \<open>Approval\<close> (cp/domain/approval.py): the record and every guard of its constructor.
    \<open>ApprovalStore\<close> (cp/application/approvals.py, class \<open>ApprovalStore\<close>): the two dictionaries, the two lazy
    indexes, and every operation. \<open>StoreInvariant\<close>, \<open>StoreOperations\<close>, \<open>StoreSweep\<close>, \<open>StoreRuns\<close> hold the invariant
    \<open>store_ok\<close>, one characteristic equation per operation, the refinement of the indexed sweeps to a walk over every
    record, and the counting arguments over arbitrary runs; \<open>StoreProperties\<close> the properties.
  \<^item> \<open>ApprovalPort\<close>, \<open>PortProperties\<close> (cp/plugins/approval.py, \<open>SimpleApprovalProvider\<close> and \<open>write_resolution\<close> of
    cp/application/approvals.py): any provider behind the port is a function of what it is asked; a locale states
    what a conformant one does and the shipped provider interprets it.
  \<^item> \<open>Policy\<close>, \<open>PolicyProperties\<close> (cp/domain/policy.py): parsing a TOML value into a policy, evaluating a question.
    \<open>RetroPolicy\<close> (contract/retrospective_policy.py): the published recipe that repeats an evaluation from a record.
  \<^item> \<open>Grants\<close> (cp/domain/grant.py, contract/grants.py, boundary/freshness.py): minting a grant, its state at the
    daemon, what the boundary reads of it. \<open>GrantRegistry\<close>, \<open>RegistryInvariant\<close>, \<open>RegistryProperties\<close>
    (cp/application/grants.py): connections, reservations, signals, sweeps, stops. Connections and reservations are
    shared objects, so they live in lists and are named by their place.
  \<^item> \<open>Events\<close> (cp/application/events.py) and \<open>OutcomeLog\<close> (boundary/evidence.py): bounded queues that declare what
    they dropped; both interpret the locale \<open>numbered_log\<close>.
  \<^item> \<open>Boundary\<close>, \<open>BoundaryProperties\<close> (boundary/signals.py, cache.py, boundary.py, errors.py): the reader of a grant's
    channel, the store of held grants and one request from its ask to the record of its outcome.
  \<^item> \<open>Json\<close>, \<open>Calendar\<close>: JSON values, and the rendering of an instant as the contract spells it.
  \<^item> \<open>Decisions\<close> (cp/application/decisions.py): one sweep and one ask, whole, with the consultation of the approvals,
    the record, the grant and the \<open>finally\<close> that undoes what was not recorded. Between any two calls an ask makes of
    the approval store, other threads may have changed it: the argument \<open>w_others\<close> is any such change that keeps the
    store well formed. \<open>DecisionTraces\<close>, \<open>DecisionEffects\<close>: what each function does to the store, the log and the
    count of claims; \<open>DecisionProperties\<close>: the properties.

  \<^item> \<open>Canonical\<close>, \<open>Sha256\<close>: canonical JSON and SHA-256, both computed in full, since the evidence chain hashes what it
    writes. \<open>EvidenceChain\<close>, \<open>EvidenceLemmas\<close>, \<open>EvidenceProperties\<close> (cp/domain/evidence_chain.py): the validators of
    a record, the preimage and its digest, the writer of the next entry, and the verifier of a range.
  \<^item> \<open>Protection\<close> (cp/domain/integrity_grade.py, write_reach.py, directory_protection.py): who can write to the place
    of the evidence, from the facts of its path.
  \<^item> \<open>Recipes\<close>, \<open>ExportVerifier\<close>, \<open>ExportProperties\<close>, \<open>ExportErrors\<close> (contract/evidence_recipes.py, evidence.py): the
    offline verifier, which reads an export from its documents alone; its agreement with the server's verifier, what a
    confirmed export has shown, and the documents on which it answers something else than its documentation says.

  \<^item> \<open>EvidenceGrades\<close>, \<open>Emitter\<close> (cp/application/evidence_emitter.py, cp/ports/evidence_store.py): the queue in front of
    the chain, with its pending gaps, its worker, its flushes and its captures. \<open>EmitterInvariant\<close>, \<open>EmitterRuns\<close>: every
    record offered is queued, stored or counted in a gap, in every interleaving of callers and worker;
    \<open>EmitterProperties\<close>, \<open>GapProperties\<close>: the properties.
  \<^item> \<open>DecisionDocument\<close> (contract/decisions.py): a decision as its document. \<open>JsonReader\<close>: a reader of canonical JSON, which
    shows that the law asked of \<^verbatim>\<open>json.loads\<close> can hold. \<open>DecisionFile\<close> (cp/adapters/file/decision_store.py): the decision
    authority, one file of bytes for each scope, with faults of every write. \<open>DecisionFileLines\<close>, \<open>DecisionFileInvariant\<close>:
    what a file says and the index of it; \<open>DecisionFileRuns\<close>, \<open>DecisionFileReads\<close>: the invariant over runs in which
    writes fail and processes die; \<open>DecisionFileProperties\<close>: the properties.
  \<^item> \<open>JournalFile\<close>, \<open>JournalProperties\<close> (cp/adapters/file/recovery_journal.py): the journal that says which epochs of
    which processes are open, in bytes, with faults and deaths. \<open>EvidenceStores\<close> (cp/ports/evidence_store.py,
    adapters/memory/evidence_store.py): the port of the chains as a locale, which the store in memory interprets.
    \<open>Recovery\<close> (cp/application/recovery.py): the recovery writer over such a port, the decision file and the journal.
    \<open>RecoveryLemmas\<close>, \<open>RecoveryRuns\<close>, \<open>RecoveryStart\<close>: what a start adds to a chain, proved once in the locale;
    \<open>RecoveryProperties\<close>: the properties, over the store in memory.

  \<^bold>\<open>What the lemmas show.\<close> Approvals: one act of a person authorises one execution, over every interleaving of the
  store's operations, and, with the decision service on top, one recorded allow. Policy: parsing accepts only well
  formed policies, evaluation is fail-closed, order does not matter, and the published recipe agrees with it. Grants: limits
  hold, a grant is issued once and ends once, none survives a sweep, a change of version or a stop; the boundary honours a grant
  exactly while the daemon calls it live, and its body runs only on an allow. Logs: every gap is declared. Evidence: what the
  writer appends verifies, an intact range is the only history with its last digest (or two texts with one SHA-256 digest
  are at hand), an append after a break hides nothing, the offline reader answers what the server answers, and an export is
  confirmed only when its chain, its policies, its coverage and every decision in it were established from the bundle.
  Emitter: what is not stored is declared, a flush that completes leaves nothing behind, and closing ends. Decision file: an
  acknowledged decision is read again after any fault or death of the process, except for the one fault the last theorem of
  \<open>DecisionFileProperties\<close> describes. Recovery: after a start that reports, every decision of a process that died has an
  effect in the chain or is named by a gap, once; an authority that cannot be read closes nothing, and a second start
  writes nothing.

  \<^bold>\<open>Loops and bounds.\<close> The two sweep loops of the store terminate by the number of due entries; the loop of a
  consultation makes five tries, as in the code (\<open>CLAIM_TRIES\<close>). The worker of the emitter runs for a number of rounds, and
  \<open>a_closing_worker_ends\<close> gives a number that is enough. The reader of JSON has the length of its text as fuel.
  The missing decisions of an epoch are cut into chunks of 8192 (\<open>GAP_ID_BOUND\<close>), by recursion on what is left.

  \<^bold>\<open>Parameters.\<close> The TOML reader, the provider of approvals, the policy authority, archive and loader, the decision
  store's append, the delivery of an answer, the writers of grant signals, the sink of outcomes, the control plane as seen by a boundary and
  the schema of an ask are arguments of the definitions that use them; so are the store, the redactor and the inspection
  of paths for the emitter, \<^verbatim>\<open>json.loads\<close> and the fresh identifiers for the decision file and the
  journal, and the daemon's grade, the archive and the local time zone for the recovery writer. The offline verifier takes a record \<open>platform\<close>: how
  \<^verbatim>\<open>datetime.fromisoformat\<close> reads a text, how \<^verbatim>\<open>str\<close> shows a value that is not a text, \<^verbatim>\<open>int\<close> of one, base64 and the TOML
  reader. \<open>heapq\<close>, dictionaries and \<open>datetime\<close> are
  modelled by what the source uses of them.

  \<^bold>\<open>Not modelled.\<close> Transport (the HTTP surface, the socket server and client), process start-up,
  settings and command lines, plugin discovery, the stub and golden files: they are input and output around the
  logic above. The files of evidence and of policy, the policy service, the
  effective-access walk and the other document codecs are logic that this development does not reach yet.
\<close>

end
